(* ===== verification/Prelude.thy ===== *)
theory Prelude
  imports Main "HOL-Library.Word"
begin

text \<open>
  What every component of the development shares: the machine types, the faults a C
  program can run into, the error monad of the heap programs, byte-level reads of memory
  buffers, and the contract of a step system with an invariant.
\<close>

named_theorems wf_intros
  "introduction rules for the well-formedness invariants of the components"

unbundle bit_operations_syntax

type_synonym u8 = "8 word"
type_synonym u16 = "16 word"
type_synonym u32 = "32 word"
type_synonym addr = nat

abbreviation (input) NULL :: addr where
  "NULL \<equiv> 0"

section \<open>Faults and results\<close>

text \<open>
  Undefined behaviour of the C code is a value: an access to an address that is not
  allocated (the null pointer included), a copy or read past the end of an object, a
  second lock of a mutex the caller holds, signed arithmetic out of its range.
\<close>

datatype fault = BadAccess addr | OutOfBounds | Deadlock | SignedOverflow

fun rbind :: "'e + 'a \<Rightarrow> ('a \<Rightarrow> 'e + 'b) \<Rightarrow> 'e + 'b" where
  "rbind (Inl e) f = Inl e"
| "rbind (Inr a) f = f a"

lemma rbind_cong [fundef_cong]:
  "m = m' \<Longrightarrow> (\<And>a. m' = Inr a \<Longrightarrow> f a = f' a) \<Longrightarrow> rbind m f = rbind m' f'"
  by (cases m') auto

lemma rbind_Inr_conv:
  "rbind m f = Inr b \<longleftrightarrow> (\<exists>a. m = Inr a \<and> f a = Inr b)"
  by (cases m) auto

lemma rbind_Inr_E:
  assumes "rbind m f = Inr b"
  obtains a where "m = Inr a" "f a = Inr b"
  using assms by (auto simp: rbind_Inr_conv)

lemma rbind_assoc: "rbind (rbind m f) g = rbind m (\<lambda>x. rbind (f x) g)"
  by (cases m) auto

text \<open>
  The same for code whose loops need not end: \<open>None\<close> is "does not return".
\<close>

fun obind :: "('e + 'a) option \<Rightarrow> ('a \<Rightarrow> ('e + 'b) option) \<Rightarrow> ('e + 'b) option" where
  "obind None f = None"
| "obind (Some (Inl e)) f = Some (Inl e)"
| "obind (Some (Inr a)) f = f a"

lemma obind_cong [fundef_cong]:
  "m = m' \<Longrightarrow> (\<And>a. m' = Some (Inr a) \<Longrightarrow> f a = f' a) \<Longrightarrow> obind m f = obind m' f'"
  by (cases "(m', f')" rule: obind.cases) auto

lemma obind_Inr_conv:
  "obind m f = Some (Inr b) \<longleftrightarrow> (\<exists>a. m = Some (Inr a) \<and> f a = Some (Inr b))"
  by (cases "(m, f)" rule: obind.cases) auto

section \<open>Reading memory buffers\<close>

text \<open>
  A buffer is a byte list, an address in it an offset. A read that does not lie inside the
  buffer is the fault \<open>OutOfBounds\<close>. Multi-byte fields are little endian.
\<close>

definition rd8 :: "u8 list \<Rightarrow> nat \<Rightarrow> fault + nat" where
  "rd8 m p = (if p < length m then Inr (unat (m ! p)) else Inl OutOfBounds)"

definition rd16 :: "u8 list \<Rightarrow> nat \<Rightarrow> fault + nat" where
  "rd16 m p = rbind (rd8 m p) (\<lambda>a. rbind (rd8 m (p + 1)) (\<lambda>b. Inr (a + 256 * b)))"

definition rd32 :: "u8 list \<Rightarrow> nat \<Rightarrow> fault + nat" where
  "rd32 m p = rbind (rd16 m p) (\<lambda>a. rbind (rd16 m (p + 2)) (\<lambda>b. Inr (a + 65536 * b)))"

definition rd_bytes :: "u8 list \<Rightarrow> nat \<Rightarrow> nat \<Rightarrow> fault + u8 list" where
  "rd_bytes m p n = (if p + n \<le> length m then Inr (take n (drop p m)) else Inl OutOfBounds)"

text \<open>An element of an array of any type, read and written with its bounds.\<close>

definition load_at :: "'a list \<Rightarrow> nat \<Rightarrow> fault + 'a" where
  "load_at xs i = (if i < length xs then Inr (xs ! i) else Inl OutOfBounds)"

definition store_at :: "nat \<Rightarrow> 'a \<Rightarrow> 'a list \<Rightarrow> fault + 'a list" where
  "store_at i x xs = (if i < length xs then Inr (xs[i := x]) else Inl OutOfBounds)"

lemma load_at_Inr [simp]: "i < length xs \<Longrightarrow> load_at xs i = Inr (xs ! i)"
  by (simp add: load_at_def)

lemma store_at_Inr [simp]: "i < length xs \<Longrightarrow> store_at i x xs = Inr (xs[i := x])"
  by (simp add: store_at_def)

text \<open>The C \<open>memcpy\<close> of \<open>src\<close> into an object of the size of \<open>dst\<close>.\<close>

definition memcpy :: "u8 list \<Rightarrow> u8 list \<Rightarrow> fault + u8 list" where
  "memcpy dst src =
     (if length src \<le> length dst then Inr (src @ drop (length src) dst) else Inl OutOfBounds)"

text \<open>The C string in a byte array: the bytes up to the first zero byte, which must be there.\<close>

definition cstring :: "u8 list \<Rightarrow> fault + u8 list" where
  "cstring bs = (if 0 \<in> set bs then Inr (takeWhile (\<lambda>b. b \<noteq> 0) bs) else Inl OutOfBounds)"

definition le16 :: "nat \<Rightarrow> u8 list" where
  "le16 n = [of_nat (n mod 256), of_nat (n div 256)]"

definition le32 :: "nat \<Rightarrow> u8 list" where
  "le32 n = le16 (n mod 65536) @ le16 (n div 65536)"

lemma length_le16 [simp]: "length (le16 n) = 2"
  by (simp add: le16_def)

lemma length_le32 [simp]: "length (le32 n) = 4"
  by (simp add: le32_def)

lemma unat_of_nat_u8: "n < 256 \<Longrightarrow> unat (of_nat n :: u8) = n"
  by (simp add: unat_of_nat)

lemma unat_u8_lt [simp]: "unat (x :: u8) < 256"
  using unsigned_less [where w = x, where 'a = nat] by simp

lemma rd8_Inr [simp]: "p < length m \<Longrightarrow> rd8 m p = Inr (unat (m ! p))"
  by (simp add: rd8_def)

lemma rd16_Inr:
  "p + 1 < length m \<Longrightarrow> rd16 m p = Inr (unat (m ! p) + 256 * unat (m ! (p + 1)))"
  by (simp add: rd16_def)

lemma rd16_total: "p + 1 < length m \<Longrightarrow> \<exists>v. rd16 m p = Inr v"
  by (simp add: rd16_Inr)

lemma rd16_lt: "rd16 m p = Inr v \<Longrightarrow> v < 65536"
proof -
  assume "rd16 m p = Inr v"
  then obtain a b where "v = unat (a::u8) + 256 * unat (b::u8)"
    by (auto simp: rd16_def rd8_def rbind_Inr_conv split: if_splits)
  moreover have "unat a < 256" "unat b < 256"
    by simp_all
  ultimately show ?thesis by linarith
qed

lemma rd16_le16_append:
  assumes "n < 65536" and "length pre = p"
  shows "rd16 (pre @ le16 n @ post) p = Inr n"
proof -
  have "n div 256 < 256" using assms(1) by simp
  then have "unat (of_nat (n mod 256) :: u8) + 256 * unat (of_nat (n div 256) :: u8) = n"
    by (simp add: unat_of_nat_u8)
  with assms(2) show ?thesis
    by (simp add: rd16_Inr le16_def nth_append)
qed

lemma rd32_le32_append:
  assumes "n < 4294967296" and "length pre = p"
  shows "rd32 (pre @ le32 n @ post) p = Inr n"
proof -
  let ?a = "n mod 65536" and ?b = "n div 65536"
  have b: "?b < 65536" using assms(1) by simp
  have "rd16 (pre @ le16 ?a @ (le16 ?b @ post)) p = Inr ?a"
    by (rule rd16_le16_append) (simp_all add: assms)
  moreover have "rd16 ((pre @ le16 ?a) @ le16 ?b @ post) (p + 2) = Inr ?b"
    by (rule rd16_le16_append) (simp_all add: assms b)
  ultimately show ?thesis
    by (simp add: rd32_def le32_def)
qed

lemma rd_bytes_append:
  "length pre = p \<Longrightarrow> length d = n \<Longrightarrow> rd_bytes (pre @ d @ post) p n = Inr d"
  by (simp add: rd_bytes_def)

lemma length_memcpy: "memcpy dst src = Inr r \<Longrightarrow> length r = length dst"
  by (auto simp: memcpy_def split: if_splits)

section \<open>Writing into memory buffers\<close>

text \<open>The buffer with its bytes from an offset on replaced.\<close>

definition put :: "nat \<Rightarrow> 'a list \<Rightarrow> 'a list \<Rightarrow> 'a list" where
  "put off bs xs = take off xs @ bs @ drop (off + length bs) xs"

lemma length_put: "off + length bs \<le> length xs \<Longrightarrow> length (put off bs xs) = length xs"
  by (simp add: put_def)

lemma nth_put:
  "off + length bs \<le> length xs \<Longrightarrow> i < length xs \<Longrightarrow>
    put off bs xs ! i = (if off \<le> i \<and> i < off + length bs then bs ! (i - off) else xs ! i)"
  by (auto simp: put_def nth_append)

lemma take_drop_put_same: "off + length bs \<le> length xs \<Longrightarrow> take (length bs) (drop off (put off bs xs)) = bs"
  by (simp add: put_def)

lemma take_drop_put_other:
  assumes "off + length bs \<le> length xs" and "i + n \<le> length xs" and "i + n \<le> off \<or> off + length bs \<le> i"
  shows "take n (drop i (put off bs xs)) = take n (drop i xs)"
  by (rule nth_equalityI) (use assms in \<open>auto simp: length_put nth_put\<close>)

lemma put_append:
  assumes "off + length xs + length ys \<le> length b"
  shows "put (off + length xs) ys (put off xs b) = put off (xs @ ys) b"
  using assms by (simp add: put_def ac_simps)

text \<open>
  A buffer of a user process is the bytes that are accessible behind the pointer: what cannot be
  copied from it is zero.
\<close>

definition get_user :: "u8 list \<Rightarrow> nat \<Rightarrow> u8" where
  "get_user buf i = (if i < length buf then buf ! i else 0)"

section \<open>Step systems with an invariant\<close>

text \<open>
  The contract of a component that moves in steps: a set of start states, a step relation
  and an invariant that holds at the start and that every step keeps. The client's lemma
  is that the invariant holds in every state a run reaches.
\<close>

inductive reach :: "('s \<Rightarrow> bool) \<Rightarrow> ('s \<Rightarrow> 's \<Rightarrow> bool) \<Rightarrow> 's \<Rightarrow> bool"
  for start :: "'s \<Rightarrow> bool" and step :: "'s \<Rightarrow> 's \<Rightarrow> bool" where
  reach_start: "start s \<Longrightarrow> reach start step s"
| reach_step: "reach start step s \<Longrightarrow> step s t \<Longrightarrow> reach start step t"

locale inv_system =
  fixes start :: "'s \<Rightarrow> bool"
    and step :: "'s \<Rightarrow> 's \<Rightarrow> bool"
    and inv :: "'s \<Rightarrow> bool"
  assumes inv_start: "start s \<Longrightarrow> inv s"
    and inv_step: "inv s \<Longrightarrow> step s t \<Longrightarrow> inv t"
begin

lemma reach_inv: "reach start step s \<Longrightarrow> inv s"
proof (induction rule: reach.induct)
  case (reach_start s)
  then show ?case by (rule inv_start)
next
  case (reach_step s t)
  then show ?case by (blast intro: inv_step)
qed

lemma steps_inv: "inv s \<Longrightarrow> step\<^sup>*\<^sup>* s t \<Longrightarrow> inv t"
proof (rotate_tac, induction rule: rtranclp_induct)
  case base
  then show ?case by simp
next
  case (step y z)
  then show ?case by (blast intro: inv_step)
qed

end

end
