(* ===== verification/ListOp.thy ===== *)
theory ListOp
  imports Prelude
begin

text \<open>
  The intrusive, circular, doubly linked list of the netlink event program: list_op.c and
  the macros of list_op.h. A heap maps the address of every allocated list cell to its two
  links; a load or store through any other address (the null pointer included) is a fault.
  The loads and stores are in the order of the C statements, so that the aliasing between
  the arguments (an empty list, where head, predecessor and successor are one cell) is the
  code's own.
\<close>

section \<open>Cells and the heap\<close>

record list_head =
  l_next :: addr
  l_prev :: addr

type_synonym lheap = "addr \<Rightarrow> list_head option"

definition get_next :: "lheap \<Rightarrow> addr \<Rightarrow> fault + addr" where
  "get_next h p = (case h p of None \<Rightarrow> Inl (BadAccess p) | Some c \<Rightarrow> Inr (l_next c))"

definition get_prev :: "lheap \<Rightarrow> addr \<Rightarrow> fault + addr" where
  "get_prev h p = (case h p of None \<Rightarrow> Inl (BadAccess p) | Some c \<Rightarrow> Inr (l_prev c))"

definition set_next :: "addr \<Rightarrow> addr \<Rightarrow> lheap \<Rightarrow> fault + lheap" where
  "set_next p v h =
     (case h p of None \<Rightarrow> Inl (BadAccess p) | Some c \<Rightarrow> Inr (h(p \<mapsto> c\<lparr>l_next := v\<rparr>)))"

definition set_prev :: "addr \<Rightarrow> addr \<Rightarrow> lheap \<Rightarrow> fault + lheap" where
  "set_prev p v h =
     (case h p of None \<Rightarrow> Inl (BadAccess p) | Some c \<Rightarrow> Inr (h(p \<mapsto> c\<lparr>l_prev := v\<rparr>)))"

section \<open>The operations of list_op.c\<close>

definition init_list_head :: "addr \<Rightarrow> lheap \<Rightarrow> fault + lheap" where
  "init_list_head p h = rbind (set_next p p h) (set_prev p p)"

definition list_add_between :: "addr \<Rightarrow> addr \<Rightarrow> addr \<Rightarrow> lheap \<Rightarrow> fault + lheap" where
  "list_add_between pNew pPrev pNext h =
     rbind (set_prev pNext pNew h) (\<lambda>h.
     rbind (set_next pNew pNext h) (\<lambda>h.
     rbind (set_prev pNew pPrev h) (\<lambda>h.
     set_next pPrev pNew h)))"

definition list_del_between :: "addr \<Rightarrow> addr \<Rightarrow> lheap \<Rightarrow> fault + lheap" where
  "list_del_between pPrev pNext h = rbind (set_prev pNext pPrev h) (set_next pPrev pNext)"

definition common_list_empty :: "lheap \<Rightarrow> addr \<Rightarrow> fault + bool" where
  "common_list_empty h pHead = rbind (get_next h pHead) (\<lambda>n. Inr (n = pHead))"

definition common_list_add :: "addr \<Rightarrow> addr \<Rightarrow> lheap \<Rightarrow> fault + lheap" where
  "common_list_add pNew pHead h =
     rbind (get_next h pHead) (\<lambda>n. list_add_between pNew pHead n h)"

definition common_list_add_tail :: "addr \<Rightarrow> addr \<Rightarrow> lheap \<Rightarrow> fault + lheap" where
  "common_list_add_tail pNew pHead h =
     rbind (get_prev h pHead) (\<lambda>p. list_add_between pNew p pHead h)"

definition common_list_splice :: "addr \<Rightarrow> addr \<Rightarrow> lheap \<Rightarrow> fault + lheap" where
  "common_list_splice pList pHead h =
     rbind (get_next h pList) (\<lambda>pFirst.
     if pFirst \<noteq> pList then
       rbind (get_prev h pList) (\<lambda>pLast.
       rbind (get_next h pHead) (\<lambda>pAt.
       rbind (set_prev pFirst pHead h) (\<lambda>h.
       rbind (set_next pHead pFirst h) (\<lambda>h.
       rbind (set_next pLast pAt h) (\<lambda>h.
       set_prev pAt pLast h)))))
     else Inr h)"

definition common_list_del :: "addr \<Rightarrow> lheap \<Rightarrow> fault + lheap" where
  "common_list_del pEntry h =
     rbind (get_prev h pEntry) (\<lambda>p. rbind (get_next h pEntry) (\<lambda>n. list_del_between p n h))"

definition common_list_del_init :: "addr \<Rightarrow> lheap \<Rightarrow> fault + lheap" where
  "common_list_del_init pEntry h =
     rbind (common_list_del pEntry h) (init_list_head pEntry)"

text \<open>
  The loop of \<open>common_list_for_each\<close>. Its body may fault, go on (\<open>Inr None\<close>) or leave
  the loop with a value (\<open>Inr (Some r)\<close>, the \<open>return\<close> of the callers). The
  result \<open>None\<close> is a loop that does not end: a corrupt list need not lead back to
  the head.
\<close>

partial_function (option) list_for_each_from ::
  "('p \<Rightarrow> fault + 'p) \<Rightarrow> 'p \<Rightarrow> ('p \<Rightarrow> fault + 'r option) \<Rightarrow> 'p
    \<Rightarrow> (fault + 'r option) option" where
  "list_for_each_from nxt pHead body pos =
     (if pos = pHead then Some (Inr None)
      else (case body pos of Inl e \<Rightarrow> Some (Inl e)
        | Inr x \<Rightarrow> (case x of Some r \<Rightarrow> Some (Inr (Some r))
            | None \<Rightarrow> (case nxt pos of Inl e \<Rightarrow> Some (Inl e)
                | Inr n \<Rightarrow> list_for_each_from nxt pHead body n))))"

definition common_list_for_each ::
  "('p \<Rightarrow> fault + 'p) \<Rightarrow> 'p \<Rightarrow> ('p \<Rightarrow> fault + 'r option)
    \<Rightarrow> (fault + 'r option) option" where
  "common_list_for_each nxt pHead body =
     (case nxt pHead of Inl e \<Rightarrow> Some (Inl e) | Inr n \<Rightarrow> list_for_each_from nxt pHead body n)"

text \<open>
  \<open>COMMON_FREE_LIST\<close>: delete and free the first node until the list is empty.
  A freed cell leaves the heap, so that a later access to it is a fault.
\<close>

definition free_cell :: "addr \<Rightarrow> lheap \<Rightarrow> lheap" where
  "free_cell p h = h(p := None)"

partial_function (option) COMMON_FREE_LIST :: "addr \<Rightarrow> lheap \<Rightarrow> (fault + lheap) option" where
  "COMMON_FREE_LIST pHead h =
     (case common_list_empty h pHead of Inl e \<Rightarrow> Some (Inl e)
      | Inr e \<Rightarrow> if e then Some (Inr h)
         else (case get_next h pHead of Inl e \<Rightarrow> Some (Inl e)
          | Inr p \<Rightarrow> (case common_list_del p h of Inl e \<Rightarrow> Some (Inl e)
              | Inr h' \<Rightarrow> COMMON_FREE_LIST pHead (free_cell p h'))))"

definition COMMON_GetFirstNode :: "addr \<Rightarrow> lheap \<Rightarrow> fault + addr" where
  "COMMON_GetFirstNode pHead h =
     rbind (common_list_empty h pHead) (\<lambda>e. if e then Inr NULL else get_next h pHead)"

section \<open>The list a head stands for\<close>

definition nxt :: "lheap \<Rightarrow> addr \<Rightarrow> addr option" where
  "nxt h p = map_option l_next (h p)"

definition prv :: "lheap \<Rightarrow> addr \<Rightarrow> addr option" where
  "prv h p = map_option l_prev (h p)"

text \<open>
  \<open>lseg h a xs b\<close>: from cell \<open>a\<close> the cells \<open>xs\<close> lead to cell
  \<open>b\<close>, and the back links agree. A head and its cells are a circular list when the
  segment leads back to the head and no cell occurs twice.
\<close>

primrec lseg :: "lheap \<Rightarrow> addr \<Rightarrow> addr list \<Rightarrow> addr \<Rightarrow> bool" where
  "lseg h a [] b \<longleftrightarrow> nxt h a = Some b \<and> prv h b = Some a"
| "lseg h a (x # xs) b \<longleftrightarrow> nxt h a = Some x \<and> prv h x = Some a \<and> lseg h x xs b"

definition dll :: "lheap \<Rightarrow> addr \<Rightarrow> addr list \<Rightarrow> bool" where
  "dll h hp xs \<longleftrightarrow> distinct (hp # xs) \<and> lseg h hp xs hp"

definition allocated :: "lheap \<Rightarrow> addr \<Rightarrow> bool" where
  "allocated h p \<longleftrightarrow> h p \<noteq> None"

lemma lseg_append [simp]:
  "lseg h a (xs @ y # ys) b \<longleftrightarrow> lseg h a xs y \<and> lseg h y ys b"
  by (induction xs arbitrary: a) auto

lemma lseg_cong:
  assumes "\<And>p. p \<in> set (a # xs) \<Longrightarrow> nxt h' p = nxt h p"
    and "\<And>p. p \<in> set (b # xs) \<Longrightarrow> prv h' p = prv h p"
  shows "lseg h' a xs b = lseg h a xs b"
  using assms by (induction xs arbitrary: a) auto

lemma lseg_allocated:
  "lseg h a xs b \<Longrightarrow> p \<in> set (a # b # xs) \<Longrightarrow> allocated h p"
  by (induction xs arbitrary: a) (auto simp: allocated_def nxt_def prv_def)

lemma dll_allocated: "dll h hp xs \<Longrightarrow> p \<in> set (hp # xs) \<Longrightarrow> allocated h p"
  unfolding dll_def by (auto intro: lseg_allocated)

lemma lseg_snoc [simp]:
  "lseg h a (xs @ [y]) b \<longleftrightarrow> lseg h a xs y \<and> nxt h y = Some b \<and> prv h b = Some y"
  by (induction xs arbitrary: a) auto

section \<open>What the primitive loads and stores do\<close>

lemma get_next_nxt: "nxt h p = Some q \<Longrightarrow> get_next h p = Inr q"
  by (auto simp: nxt_def get_next_def)

lemma get_prev_prv: "prv h p = Some q \<Longrightarrow> get_prev h p = Inr q"
  by (auto simp: prv_def get_prev_def)

definition links :: "lheap \<Rightarrow> (addr \<Rightarrow> addr option) \<Rightarrow> (addr \<Rightarrow> addr option) \<Rightarrow> lheap \<Rightarrow> bool" where
  "links h n p h' \<longleftrightarrow> nxt h' = n \<and> prv h' = p \<and> allocated h' = allocated h"

lemma set_next_links:
  assumes "allocated h p"
  shows "\<exists>h'. set_next p v h = Inr h' \<and> links h ((nxt h)(p \<mapsto> v)) (prv h) h'"
proof -
  obtain c where c: "h p = Some c" using assms by (auto simp: allocated_def)
  then have "links h ((nxt h)(p \<mapsto> v)) (prv h) (h(p \<mapsto> c\<lparr>l_next := v\<rparr>))"
    by (auto simp: allocated_def links_def nxt_def prv_def fun_eq_iff)
  with c show ?thesis by (simp add: set_next_def)
qed

lemma set_prev_links:
  assumes "allocated h p"
  shows "\<exists>h'. set_prev p v h = Inr h' \<and> links h (nxt h) ((prv h)(p \<mapsto> v)) h'"
proof -
  obtain c where c: "h p = Some c" using assms by (auto simp: allocated_def)
  then have "links h (nxt h) ((prv h)(p \<mapsto> v)) (h(p \<mapsto> c\<lparr>l_prev := v\<rparr>))"
    by (auto simp: allocated_def links_def nxt_def prv_def fun_eq_iff)
  with c show ?thesis by (simp add: set_prev_def)
qed

lemma list_add_between_links:
  assumes "allocated h new" "allocated h p" "allocated h n"
  shows "\<exists>h'. list_add_between new p n h = Inr h' \<and>
    links h ((nxt h)(new \<mapsto> n, p \<mapsto> new)) ((prv h)(n \<mapsto> new, new \<mapsto> p)) h'"
proof -
  obtain h1 where 1: "set_prev n new h = Inr h1" "links h (nxt h) ((prv h)(n \<mapsto> new)) h1"
    using set_prev_links [of h n new] assms by blast
  obtain h2 where 2: "set_next new n h1 = Inr h2"
    "links h1 ((nxt h1)(new \<mapsto> n)) (prv h1) h2"
    using set_next_links [of h1 new n] assms 1 by (auto simp: links_def)
  obtain h3 where 3: "set_prev new p h2 = Inr h3"
    "links h2 (nxt h2) ((prv h2)(new \<mapsto> p)) h3"
    using set_prev_links [of h2 new p] assms 1 2 by (auto simp: links_def)
  obtain h4 where 4: "set_next p new h3 = Inr h4"
    "links h3 ((nxt h3)(p \<mapsto> new)) (prv h3) h4"
    using set_next_links [of h3 p new] assms 1 2 3 by (auto simp: links_def)
  have "list_add_between new p n h = Inr h4"
    by (simp add: list_add_between_def 1 2 3 4)
  with 1 2 3 4 show ?thesis
    by (auto simp: links_def)
qed

lemma list_del_between_links:
  assumes "allocated h p" "allocated h n"
  shows "\<exists>h'. list_del_between p n h = Inr h' \<and>
    links h ((nxt h)(p \<mapsto> n)) ((prv h)(n \<mapsto> p)) h'"
proof -
  obtain h1 where 1: "set_prev n p h = Inr h1" "links h (nxt h) ((prv h)(n \<mapsto> p)) h1"
    using set_prev_links [of h n p] assms by blast
  obtain h2 where 2: "set_next p n h1 = Inr h2" "links h1 ((nxt h1)(p \<mapsto> n)) (prv h1) h2"
    using set_next_links [of h1 p n] assms 1 by (auto simp: links_def)
  have "list_del_between p n h = Inr h2"
    by (simp add: list_del_between_def 1 2)
  with 1 2 show ?thesis
    by (auto simp: links_def)
qed

lemma init_list_head_links:
  assumes "allocated h p"
  shows "\<exists>h'. init_list_head p h = Inr h' \<and> links h ((nxt h)(p \<mapsto> p)) ((prv h)(p \<mapsto> p)) h'"
proof -
  obtain h1 where 1: "set_next p p h = Inr h1" "links h ((nxt h)(p \<mapsto> p)) (prv h) h1"
    using set_next_links [of h p p] assms by blast
  obtain h2 where 2: "set_prev p p h1 = Inr h2" "links h1 (nxt h1) ((prv h1)(p \<mapsto> p)) h2"
    using set_prev_links [of h1 p p] assms 1 by (auto simp: links_def)
  have "init_list_head p h = Inr h2"
    by (simp add: init_list_head_def 1 2)
  with 1 2 show ?thesis
    by (auto simp: links_def)
qed

lemma lseg_links:
  assumes "links h n p h'"
    and "\<And>q. q \<in> set (a # xs) \<Longrightarrow> n q = nxt h q"
    and "\<And>q. q \<in> set (b # xs) \<Longrightarrow> p q = prv h q"
  shows "lseg h' a xs b = lseg h a xs b"
  using assms by (intro lseg_cong) (auto simp: links_def)

section \<open>The operations on the list a head stands for\<close>

lemma dll_empty [simp]: "dll h hp [] \<longleftrightarrow> nxt h hp = Some hp \<and> prv h hp = Some hp"
  by (simp add: dll_def)

lemma dll_distinct: "dll h hp xs \<Longrightarrow> distinct (hp # xs)"
  by (simp add: dll_def)

lemma lseg_first: "lseg h a xs b \<Longrightarrow> nxt h a = Some (hd (xs @ [b]))"
  by (cases xs) auto

lemma lseg_last: "lseg h a xs b \<Longrightarrow> prv h b = Some (last (a # xs))"
  by (cases xs rule: rev_cases) auto

lemma common_list_add_tail_dll:
  assumes l: "dll h hp xs" and a: "allocated h new" and new: "new \<notin> set (hp # xs)"
  shows "\<exists>h'. common_list_add_tail new hp h = Inr h' \<and> dll h' hp (xs @ [new])
    \<and> allocated h' = allocated h"
proof -
  let ?p = "last (hp # xs)"
  have p: "prv h hp = Some ?p" using l lseg_last unfolding dll_def by blast
  have "allocated h ?p" "allocated h hp"
    using l dll_allocated last_in_set [of "hp # xs"] by (blast, auto)
  then obtain h' where h': "list_add_between new ?p hp h = Inr h'"
    "links h ((nxt h)(new \<mapsto> hp, ?p \<mapsto> new)) ((prv h)(hp \<mapsto> new, new \<mapsto> ?p)) h'"
    using list_add_between_links a by blast
  have "lseg h' hp xs new"
  proof (cases xs rule: rev_cases)
    case Nil
    with h' new show ?thesis by (simp add: links_def)
  next
    case (snoc ys y)
    with l new have "lseg h' hp ys y = lseg h hp ys y"
      by (intro lseg_links [OF h'(2)]) (auto simp: dll_def)
    with snoc h' l new show ?thesis by (auto simp: links_def dll_def)
  qed
  with h' new l have "dll h' hp (xs @ [new])" by (auto simp: dll_def links_def)
  with h' p show ?thesis
    by (simp add: common_list_add_tail_def get_prev_prv links_def)
qed

lemma common_list_add_dll:
  assumes l: "dll h hp xs" and a: "allocated h new" and new: "new \<notin> set (hp # xs)"
  shows "\<exists>h'. common_list_add new hp h = Inr h' \<and> dll h' hp (new # xs)
    \<and> allocated h' = allocated h"
proof -
  let ?n = "hd (xs @ [hp])"
  have n: "nxt h hp = Some ?n" using l lseg_first unfolding dll_def by blast
  have "?n \<in> set (hp # xs)" by (cases xs) auto
  then have "allocated h ?n" "allocated h hp"
    using l dll_allocated by (blast, auto intro: dll_allocated)
  then obtain h' where h': "list_add_between new hp ?n h = Inr h'"
    "links h ((nxt h)(new \<mapsto> ?n, hp \<mapsto> new)) ((prv h)(?n \<mapsto> new, new \<mapsto> hp)) h'"
    using list_add_between_links a by blast
  have "lseg h' new xs hp"
  proof (cases xs)
    case Nil
    with h' new show ?thesis by (simp add: links_def)
  next
    case (Cons y ys)
    with l new have "lseg h' y ys hp = lseg h y ys hp"
      by (intro lseg_links [OF h'(2)]) (auto simp: dll_def)
    with Cons h' l new show ?thesis by (auto simp: links_def dll_def)
  qed
  with h' new l have "dll h' hp (new # xs)" by (auto simp: dll_def links_def)
  with h' n show ?thesis
    by (simp add: common_list_add_def get_next_nxt links_def)
qed

lemma common_list_del_dll:
  assumes l: "dll h hp (ys @ x # zs)"
  shows "\<exists>h'. common_list_del x h = Inr h' \<and> dll h' hp (ys @ zs)
    \<and> allocated h' = allocated h \<and> nxt h' x = nxt h x \<and> prv h' x = prv h x"
proof -
  let ?p = "last (hp # ys)" and ?n = "hd (zs @ [hp])"
  have seg: "lseg h hp ys x" "lseg h x zs hp" using l by (auto simp: dll_def)
  have p: "prv h x = Some ?p" using seg lseg_last by blast
  have n: "nxt h x = Some ?n" using seg lseg_first by blast
  have in_p: "?p \<in> set (hp # ys)" by (rule last_in_set) simp
  have in_n: "?n \<in> set (hp # zs)" by (cases zs) auto
  have "allocated h ?p" "allocated h ?n"
    using l in_p in_n by (auto intro!: dll_allocated [OF l] split: if_splits)
  then obtain h' where h': "list_del_between ?p ?n h = Inr h'"
    "links h ((nxt h)(?p \<mapsto> ?n)) ((prv h)(?n \<mapsto> ?p)) h'"
    using list_del_between_links by blast
  have "lseg h' hp (ys @ zs) hp"
  proof (cases ys rule: rev_cases; cases zs)
    fix y ys' z zs' assume ys: "ys = ys' @ [y]" and zs: "zs = z # zs'"
    have "lseg h' hp ys' y = lseg h hp ys' y"
      using l ys zs by (intro lseg_links [OF h'(2)]) (auto simp: dll_def)
    moreover have "lseg h' z zs' hp = lseg h z zs' hp"
      using l ys zs by (intro lseg_links [OF h'(2)]) (auto simp: dll_def)
    ultimately show ?thesis using seg h' ys zs by (auto simp: links_def)
  next
    fix y ys' assume ys: "ys = ys' @ [y]" and zs: "zs = []"
    have "lseg h' hp ys' y = lseg h hp ys' y"
      using l ys zs by (intro lseg_links [OF h'(2)]) (auto simp: dll_def)
    then show ?thesis using seg h' ys zs by (auto simp: links_def)
  next
    fix z zs' assume ys: "ys = []" and zs: "zs = z # zs'"
    have "lseg h' z zs' hp = lseg h z zs' hp"
      using l ys zs by (intro lseg_links [OF h'(2)]) (auto simp: dll_def)
    then show ?thesis using seg h' ys zs by (auto simp: links_def)
  qed (use h' in \<open>auto simp: links_def\<close>)
  moreover have "x \<noteq> ?p" "x \<noteq> ?n" using l in_p in_n by (auto simp: dll_def)
  ultimately show ?thesis
    using l h' p n
    by (auto simp: common_list_del_def get_prev_prv get_next_nxt links_def dll_def)
qed

lemma common_list_empty_dll:
  "dll h hp xs \<Longrightarrow> common_list_empty h hp = Inr (xs = [])"
  unfolding dll_def common_list_empty_def
  by (cases xs) (auto simp: get_next_nxt)

lemma dll_links_outside:
  assumes "dll h hp xs" and "links h n p h'"
    and "\<And>q. q \<in> set (hp # xs) \<Longrightarrow> n q = nxt h q \<and> p q = prv h q"
  shows "dll h' hp xs"
proof -
  have "lseg h' hp xs hp = lseg h hp xs hp"
    using assms(3) by (intro lseg_links [OF assms(2)]) auto
  with assms(1) show ?thesis by (simp add: dll_def)
qed

text \<open>
  Deleting a cell of a list and initialising it removes exactly that cell from the
  list, wherever it stands, and leaves the cell an empty list of its own.
\<close>

theorem common_list_del_init_dll:
  assumes l: "dll h hp (ys @ x # zs)"
  shows "\<exists>h'. common_list_del_init x h = Inr h' \<and> dll h' hp (ys @ zs) \<and> dll h' x []"
proof -
  obtain h1 where h1: "common_list_del x h = Inr h1" "dll h1 hp (ys @ zs)"
    "allocated h1 = allocated h"
    using common_list_del_dll [OF l] by blast
  have "allocated h1 x" using l h1 by (auto intro: dll_allocated)
  then obtain h' where h': "init_list_head x h1 = Inr h'"
    "links h1 ((nxt h1)(x \<mapsto> x)) ((prv h1)(x \<mapsto> x)) h'"
    using init_list_head_links by blast
  have "dll h' hp (ys @ zs)"
    using l by (intro dll_links_outside [OF h1(2) h'(2)]) (auto simp: dll_def)
  moreover have "dll h' x []" using h' by (simp add: links_def)
  ultimately show ?thesis using h1 h' by (simp add: common_list_del_init_def)
qed

text \<open>
  Splicing puts the spliced list's cells in front and leaves its head as it was, so the old
  head must not be used as a list again (the back links of its end cells point elsewhere).
\<close>

lemma lseg_splice:
  assumes seg: "lseg h hp xs hp" "lseg h lp (ys @ [z]) lp"
    and d: "distinct (hp # lp # xs @ ys @ [z])"
    and at: "nxt h hp = Some at"
    and n: "n' = (nxt h)(hp \<mapsto> hd (ys @ [z]), z \<mapsto> at)"
    and p: "p' = (prv h)(hd (ys @ [z]) \<mapsto> hp, at \<mapsto> z)"
    and l: "links h n' p' h'"
  shows "lseg h' hp ((ys @ [z]) @ xs) hp"
proof -
  have at_eq: "at = hd (xs @ [hp])" using at seg(1) lseg_first by fastforce
  have first: "lseg h' hp ys z"
  proof (cases ys)
    case Nil
    with l n p d at_eq show ?thesis by (cases xs) (auto simp: links_def)
  next
    case (Cons y ys')
    have "lseg h' y ys' z = lseg h y ys' z"
      using d Cons n p at_eq by (intro lseg_links [OF l]) (cases xs, auto)+
    moreover have "nxt h' hp = Some y" "prv h' y = Some hp"
      using l n p d Cons at_eq by (cases xs; auto simp: links_def)+
    ultimately show ?thesis using seg(2) Cons by simp
  qed
  have second: "lseg h' z xs hp"
  proof (cases xs)
    case Nil
    with l n p d at_eq show ?thesis by (simp add: links_def)
  next
    case (Cons x xs')
    have "lseg h' x xs' hp = lseg h x xs' hp"
      using d Cons n p at_eq by (intro lseg_links [OF l]) (cases ys, auto)+
    with Cons l n p d at_eq seg(1) show ?thesis by (auto simp: links_def)
  qed
  from first second show ?thesis by simp
qed

text \<open>
  Splicing a list into another one that shares no cell with it puts its cells, in their
  order, in front of the other list's cells; an empty list splices in nothing.
\<close>

theorem common_list_splice_dll:
  assumes hl: "dll h hp xs" and ll: "dll h lp ls"
    and d: "distinct (hp # lp # xs @ ls)"
  shows "\<exists>h'. common_list_splice lp hp h = Inr h' \<and> dll h' hp (ls @ xs)"
proof (cases ls rule: rev_cases)
  case Nil
  with hl ll show ?thesis by (simp add: common_list_splice_def get_next_nxt)
next
  case (snoc ys z)
  let ?f = "hd (ys @ [z])" and ?at = "hd (xs @ [hp])"
  have f: "nxt h lp = Some ?f" and last: "prv h lp = Some z" and at: "nxt h hp = Some ?at"
    using ll hl snoc lseg_first [of h lp ls lp] lseg_first [of h hp xs hp]
    by (auto simp: dll_def hd_append)
  have "?f \<in> set ls" "?at \<in> set (hp # xs)"
    using snoc by (cases ys; simp) (cases xs; simp)
  then have al: "allocated h ?f" "allocated h ?at" "allocated h z" "allocated h hp"
    using hl ll snoc by (auto intro: dll_allocated)
  obtain h1 where 1: "set_prev ?f hp h = Inr h1" "links h (nxt h) ((prv h)(?f \<mapsto> hp)) h1"
    using set_prev_links al by blast
  obtain h2 where 2: "set_next hp ?f h1 = Inr h2" "links h1 ((nxt h1)(hp \<mapsto> ?f)) (prv h1) h2"
    using set_next_links [of h1 hp ?f] al 1 by (auto simp: links_def)
  obtain h3 where 3: "set_next z ?at h2 = Inr h3" "links h2 ((nxt h2)(z \<mapsto> ?at)) (prv h2) h3"
    using set_next_links [of h2 z ?at] al 1 2 by (auto simp: links_def)
  obtain h4 where 4: "set_prev ?at z h3 = Inr h4" "links h3 (nxt h3) ((prv h3)(?at \<mapsto> z)) h4"
    using set_prev_links [of h3 ?at z] al 1 2 3 by (auto simp: links_def)
  have "links h ((nxt h)(hp \<mapsto> ?f, z \<mapsto> ?at)) ((prv h)(?f \<mapsto> hp, ?at \<mapsto> z)) h4"
    using 1 2 3 4 by (auto simp: links_def)
  then have "lseg h4 hp ((ys @ [z]) @ xs) hp"
    using hl ll d snoc at by (intro lseg_splice [OF _ _ _ at refl refl]) (auto simp: dll_def)
  moreover have "?f \<noteq> lp" using \<open>?f \<in> set ls\<close> d by auto
  ultimately show ?thesis
    using snoc d f last at 1 2 3 4
    by (auto simp: common_list_splice_def get_next_nxt get_prev_prv dll_def)
qed

section \<open>The contract the list's clients rely on\<close>

text \<open>
  What a client of the list uses: the successor of a cell, insertion behind the head and
  removal of a cell, related to the list a head stands for. The two loops of the clients
  are proved once, under these laws.
\<close>

fun first_hit :: "('p \<Rightarrow> 'e + 'r option) \<Rightarrow> 'p list \<Rightarrow> 'e + 'r option" where
  "first_hit body [] = Inr None"
| "first_hit body (x # xs) =
     (case body x of Inl e \<Rightarrow> Inl e
      | Inr r \<Rightarrow> (case r of Some v \<Rightarrow> Inr (Some v) | None \<Rightarrow> first_hit body xs))"

locale list_ops =
  fixes rep :: "'h \<Rightarrow> 'p \<Rightarrow> 'p list \<Rightarrow> bool"
    and valid :: "'h \<Rightarrow> 'p \<Rightarrow> bool"
    and succ :: "'h \<Rightarrow> 'p \<Rightarrow> fault + 'p"
    and add :: "'p \<Rightarrow> 'p \<Rightarrow> 'h \<Rightarrow> fault + 'h"
    and del :: "'p \<Rightarrow> 'h \<Rightarrow> fault + 'h"
  assumes rep_distinct: "rep h hp xs \<Longrightarrow> distinct (hp # xs)"
    and rep_valid: "rep h hp xs \<Longrightarrow> p \<in> set (hp # xs) \<Longrightarrow> valid h p"
    and rep_succ: "rep h hp xs \<Longrightarrow> hp # xs = ys @ p # zs \<Longrightarrow> succ h p = Inr (hd (zs @ [hp]))"
    and rep_add: "rep h hp xs \<Longrightarrow> valid h p \<Longrightarrow> p \<notin> set (hp # xs)
      \<Longrightarrow> \<exists>h'. add p hp h = Inr h' \<and> rep h' hp (p # xs) \<and> valid h' = valid h"
    and rep_del: "rep h hp (ys @ p # zs)
      \<Longrightarrow> \<exists>h'. del p h = Inr h' \<and> rep h' hp (ys @ zs) \<and> valid h' = valid h"
begin

lemma for_each_from:
  assumes "rep h hp xs" and "xs = ys @ zs"
  shows "list_for_each_from (succ h) hp body (hd (zs @ [hp])) = Some (first_hit body zs)"
  using assms(2)
proof (induction zs arbitrary: ys)
  case Nil
  show ?case by (simp add: list_for_each_from.simps)
next
  case (Cons z zs)
  have "z \<noteq> hp" using rep_distinct [OF assms(1)] Cons.prems by auto
  moreover have "succ h z = Inr (hd (zs @ [hp]))"
    using rep_succ [OF assms(1), of "hp # ys" z zs] Cons.prems by simp
  moreover have "list_for_each_from (succ h) hp body (hd (zs @ [hp])) = Some (first_hit body zs)"
    using Cons.IH [of "ys @ [z]"] Cons.prems by simp
  ultimately show ?case
    by (subst list_for_each_from.simps) (simp split: sum.split option.split)
qed

text \<open>The loop visits the cells in order and ends at the first one its body returns on.\<close>

lemma for_each:
  assumes "rep h hp xs"
  shows "common_list_for_each (succ h) hp body = Some (first_hit body xs)"
  using for_each_from [OF assms, of "[]" xs body] rep_succ [OF assms, of "[]" hp xs]
  by (simp add: common_list_for_each_def)

lemma add_del:
  assumes "rep h hp xs" and "valid h p" and "p \<notin> set (hp # xs)"
  shows "\<exists>h1 h2. add p hp h = Inr h1 \<and> del p h1 = Inr h2 \<and> rep h2 hp xs \<and> valid h2 = valid h"
proof -
  obtain h1 where h1: "add p hp h = Inr h1" "rep h1 hp (p # xs)" "valid h1 = valid h"
    using rep_add assms by blast
  then show ?thesis using rep_del [of h1 hp "[]" p xs] by auto
qed

end

interpretation dll_ops: list_ops dll allocated get_next common_list_add common_list_del
proof unfold_locales
  fix h hp xs assume "dll h hp xs"
  then show "distinct (hp # xs)" by (rule dll_distinct)
next
  fix h hp xs p assume "dll h hp xs" "p \<in> set (hp # xs)"
  then show "allocated h p" by (rule dll_allocated)
next
  fix h hp xs ys p zs assume l: "dll h hp xs" and eq: "hp # xs = ys @ p # zs"
  have "lseg h p zs hp"
  proof (cases ys)
    case Nil
    with l eq show ?thesis by (auto simp: dll_def)
  next
    case (Cons y ys')
    with l eq show ?thesis by (auto simp: dll_def)
  qed
  then show "get_next h p = Inr (hd (zs @ [hp]))"
    by (intro get_next_nxt lseg_first)
next
  fix h hp xs p assume "dll h hp xs" "allocated h p" "p \<notin> set (hp # xs)"
  then show "\<exists>h'. common_list_add p hp h = Inr h' \<and> dll h' hp (p # xs) \<and> allocated h' = allocated h"
    by (rule common_list_add_dll)
next
  fix h hp ys p zs assume "dll h hp (ys @ p # zs)"
  then show "\<exists>h'. common_list_del p h = Inr h' \<and> dll h' hp (ys @ zs) \<and> allocated h' = allocated h"
    using common_list_del_dll by blast
qed

section \<open>Emptying a list\<close>

lemma free_cell_dll:
  assumes "dll h hp xs" and "p \<notin> set (hp # xs)"
  shows "dll (free_cell p h) hp xs"
proof -
  have "lseg (free_cell p h) hp xs hp = lseg h hp xs hp"
    using assms by (intro lseg_cong) (auto simp: free_cell_def nxt_def prv_def)
  with assms show ?thesis by (simp add: dll_def)
qed

lemma allocated_free_cell [simp]: "allocated (free_cell x h) p \<longleftrightarrow> allocated h p \<and> p \<noteq> x"
  by (simp add: allocated_def free_cell_def)

text \<open>
  C32. \<open>COMMON_FREE_LIST\<close> ends on every list, leaves the head an empty list, frees
  every cell of the list and frees nothing else, and never touches a cell it has freed.
\<close>

theorem COMMON_FREE_LIST_dll:
  assumes "dll h hp xs"
  shows "\<exists>h'. COMMON_FREE_LIST hp h = Some (Inr h') \<and> dll h' hp []
    \<and> (\<forall>p. allocated h' p \<longleftrightarrow> allocated h p \<and> p \<notin> set xs)"
  using assms
proof (induction xs arbitrary: h)
  case Nil
  then show ?case
    by (subst COMMON_FREE_LIST.simps) (simp add: common_list_empty_dll [of h hp "[]"])
next
  case (Cons x xs)
  obtain h1 where h1: "common_list_del x h = Inr h1" "dll h1 hp xs" "allocated h1 = allocated h"
    using common_list_del_dll [of h hp "[]" x xs] Cons.prems by auto
  have "dll (free_cell x h1) hp xs"
    using h1 Cons.prems by (intro free_cell_dll) (auto simp: dll_def)
  then obtain h' where "COMMON_FREE_LIST hp (free_cell x h1) = Some (Inr h')" "dll h' hp []"
    "\<forall>p. allocated h' p \<longleftrightarrow> allocated (free_cell x h1) p \<and> p \<notin> set xs"
    using Cons.IH by blast
  moreover have "get_next h hp = Inr x" using dll_ops.rep_succ [OF Cons.prems, of "[]"] by simp
  ultimately show ?case
    using common_list_empty_dll [OF Cons.prems] h1
    by (subst COMMON_FREE_LIST.simps) auto
qed

text \<open>
  C28. Insertion refines the list operations: behind the head it is a cons, before the head
  (at the tail) an append, on every list and with no fault, the empty list included, where
  all the cells the code writes are one.
\<close>

theorem common_list_add_refines:
  assumes "dll h hp xs" and "allocated h new" and "new \<notin> set (hp # xs)"
  shows "(\<exists>h'. common_list_add new hp h = Inr h' \<and> dll h' hp (new # xs))
    \<and> (\<exists>h'. common_list_add_tail new hp h = Inr h' \<and> dll h' hp (xs @ [new]))"
  using common_list_add_dll [OF assms] common_list_add_tail_dll [OF assms] by blast

section \<open>Concrete heaps\<close>

definition demo_heap :: lheap where
  "demo_heap = [1 \<mapsto> \<lparr>l_next = 2, l_prev = 3\<rparr>, 2 \<mapsto> \<lparr>l_next = 3, l_prev = 1\<rparr>,
     3 \<mapsto> \<lparr>l_next = 1, l_prev = 2\<rparr>, 4 \<mapsto> \<lparr>l_next = 5, l_prev = 5\<rparr>,
     5 \<mapsto> \<lparr>l_next = 4, l_prev = 4\<rparr>, 6 \<mapsto> \<lparr>l_next = 0, l_prev = 0\<rparr>]"

lemma demo_dll: "dll demo_heap 1 [2, 3]" "dll demo_heap 4 [5]" "allocated demo_heap 6"
  by (simp_all add: demo_heap_def dll_def nxt_def prv_def allocated_def)

theorem common_list_add_refines_witness:
  "(\<exists>h'. common_list_add 6 1 demo_heap = Inr h' \<and> dll h' 1 [6, 2, 3])
    \<and> (\<exists>h'. common_list_add_tail 6 1 demo_heap = Inr h' \<and> dll h' 1 [2, 3, 6])"
  using common_list_add_refines [OF demo_dll(1) demo_dll(3)] by simp

theorem common_list_del_init_dll_witness:
  "\<exists>h'. common_list_del_init 2 demo_heap = Inr h' \<and> dll h' 1 [3] \<and> dll h' 2 []"
  using common_list_del_init_dll [of demo_heap 1 "[]" 2 "[3]"] demo_dll by simp

theorem common_list_splice_dll_witness:
  "\<exists>h'. common_list_splice 4 1 demo_heap = Inr h' \<and> dll h' 1 [5, 2, 3]"
  using common_list_splice_dll [OF demo_dll(1,2)] by simp

theorem COMMON_FREE_LIST_dll_witness:
  "\<exists>h'. COMMON_FREE_LIST 1 demo_heap = Some (Inr h') \<and> dll h' 1 []
    \<and> (\<forall>p. allocated h' p \<longleftrightarrow> allocated demo_heap p \<and> p \<notin> {2, 3})"
  using COMMON_FREE_LIST_dll [OF demo_dll(1)] by simp

end
