(* ===== verification/NetifList.thy ===== *)
theory NetifList
  imports ListOp
begin

text \<open>
  The table of network interfaces of the netlink event program: netif_list.h and
  netif_list.c. A node is a list cell with the attributes of an interface; the cell is the
  first member of \<open>NETIF_NODE\<close>, so that \<open>common_list_entry\<close> gives the cell's own address
  and one address names both. The head \<open>netif_head\<close> is a global with the list's head
  cell, the number of nodes and the mutex. The mutex is not recursive: to lock it twice is
  the fault \<open>Deadlock\<close>.
\<close>

section \<open>Data\<close>

type_synonym name = "u8 list"

record netif_attr =
  ifname :: "u8 list"       \<comment> \<open>char ifname[16]\<close>
  up :: bool
  port_link :: bool
  mtu :: "u8 list"          \<comment> \<open>the four bytes of the unsigned int\<close>
  current_state :: int
  hwaddr :: "u8 list"       \<comment> \<open>unsigned char hwaddr[6]\<close>
  ipaddr :: "u8 list"       \<comment> \<open>unsigned char ipaddr[4]\<close>

record net_state =
  lh :: lheap
  attrs :: "addr \<Rightarrow> netif_attr"
  list_sum :: u32
  locked :: bool

definition netif_head :: addr where
  "netif_head = 1"

definition zero_attr :: netif_attr where
  "zero_attr = \<lparr>ifname = replicate 16 0, up = False, port_link = False, mtu = replicate 4 0,
     current_state = 0, hwaddr = replicate 6 0, ipaddr = replicate 4 0\<rparr>"

text \<open>\<open>strncpy\<close> into an array of \<open>n\<close> bytes: padded with zero bytes, cut at \<open>n\<close>.\<close>

definition strncpy :: "nat \<Rightarrow> name \<Rightarrow> u8 list" where
  "strncpy n src = take n (src @ replicate n 0)"

text \<open>
  The string \<open>strcmp\<close> reads at \<open>attr.ifname\<close>. A name of 16 bytes or more is stored
  without its terminator, and the read runs on into the members behind the array: the two
  \<open>bool\<close> bytes, then padding, which \<open>memset\<close> has zeroed.
\<close>

definition attr_name :: "netif_attr \<Rightarrow> name" where
  "attr_name a = takeWhile (\<lambda>b. b \<noteq> 0) (ifname a @ [of_bool (up a), of_bool (port_link a), 0])"

section \<open>The operations\<close>

definition mutex_lock :: "net_state \<Rightarrow> fault + net_state" where
  "mutex_lock st = (if locked st then Inl Deadlock else Inr (st\<lparr>locked := True\<rparr>))"

definition mutex_unlock :: "net_state \<Rightarrow> net_state" where
  "mutex_unlock st = st\<lparr>locked := False\<rparr>"

text \<open>
  \<open>netif_node_add\<close>, with the result of its \<open>malloc\<close> as an argument; the name is
  \<open>None\<close> for the null pointer. The links of the new cell are not initialised by the
  code; \<open>common_list_add\<close> writes both before they are read.
\<close>

definition netif_node_add ::
  "addr option \<Rightarrow> name option \<Rightarrow> net_state \<Rightarrow> fault + (addr option \<times> net_state)" where
  "netif_node_add new_node name st =
     (case name of None \<Rightarrow> Inr (None, st)
      | Some n \<Rightarrow>
         (case new_node of None \<Rightarrow> Inr (None, st)
          | Some p \<Rightarrow>
             let st = st\<lparr>lh := (lh st)(p \<mapsto> \<lparr>l_next = NULL, l_prev = NULL\<rparr>),
                   attrs := (attrs st)(p := zero_attr\<lparr>ifname := strncpy 16 n\<rparr>)\<rparr>
             in rbind (mutex_lock st) (\<lambda>st.
                rbind (common_list_add p netif_head (lh st)) (\<lambda>h.
                let st = mutex_unlock (st\<lparr>lh := h\<rparr>)
                in Inr (Some p, st\<lparr>list_sum := list_sum st + 1\<rparr>)))))"

definition name_at :: "net_state \<Rightarrow> name \<Rightarrow> addr \<Rightarrow> fault + addr option" where
  "name_at st n p =
     (case lh st p of None \<Rightarrow> Inl (BadAccess p)
      | Some c \<Rightarrow> Inr (if n = attr_name (attrs st p) then Some p else None))"

definition netif_node_del :: "name \<Rightarrow> net_state \<Rightarrow> (fault + (int \<times> net_state)) option" where
  "netif_node_del n st =
     (case mutex_lock st of Inl e \<Rightarrow> Some (Inl e)
      | Inr st \<Rightarrow>
         map_option (\<lambda>r. rbind r (\<lambda>hit. case hit of
             None \<Rightarrow> Inr (-1, mutex_unlock st)
           | Some p \<Rightarrow>
               rbind (common_list_del p (lh st)) (\<lambda>h.
               let st = mutex_unlock (st\<lparr>lh := free_cell p h\<rparr>)
               in Inr (0, st\<lparr>list_sum := list_sum st - 1\<rparr>))))
           (common_list_for_each (get_next (lh st)) netif_head (name_at st n)))"

definition netif_node_find ::
  "name \<Rightarrow> net_state \<Rightarrow> (fault + (addr option \<times> net_state)) option" where
  "netif_node_find n st =
     (case mutex_lock st of Inl e \<Rightarrow> Some (Inl e)
      | Inr st \<Rightarrow>
         map_option (\<lambda>r. rbind r (\<lambda>hit. Inr (hit, mutex_unlock st)))
           (common_list_for_each (get_next (lh st)) netif_head (name_at st n)))"

section \<open>Well-formed tables\<close>

definition attr_ok :: "netif_attr \<Rightarrow> bool" where
  "attr_ok a \<longleftrightarrow> length (ifname a) = 16 \<and> 0 \<in> set (ifname a) \<and> length (mtu a) = 4
     \<and> length (hwaddr a) = 6 \<and> length (ipaddr a) = 4"

definition node_names :: "net_state \<Rightarrow> addr list \<Rightarrow> name list" where
  "node_names st xs = map (\<lambda>p. attr_name (attrs st p)) xs"

text \<open>
  The table of the state: its nodes form the list at \<open>netif_head\<close>, the counter counts
  them, the mutex is free, every name is terminated and no two nodes share a name.
\<close>

definition net_table :: "net_state \<Rightarrow> addr list \<Rightarrow> bool" where
  "net_table st xs \<longleftrightarrow> dll (lh st) netif_head xs \<and> \<not> locked st
     \<and> list_sum st = of_nat (length xs) \<and> (\<forall>p \<in> set xs. attr_ok (attrs st p))
     \<and> distinct (node_names st xs)"

definition net_wf :: "net_state \<Rightarrow> bool" where
  "net_wf st \<longleftrightarrow> (\<exists>xs. net_table st xs)"

definition name_ok :: "name \<Rightarrow> bool" where
  "name_ok n \<longleftrightarrow> length n < 16 \<and> 0 \<notin> set n"

text \<open>What a lookup gives; a fault or an endless loop counts as no node.\<close>

definition lookup :: "net_state \<Rightarrow> name \<Rightarrow> addr option" where
  "lookup st n = (case netif_node_find n st of Some (Inr (r, st')) \<Rightarrow> r | _ \<Rightarrow> None)"

lemma attr_name_ok:
  "0 \<in> set (ifname a) \<Longrightarrow> attr_name a = takeWhile (\<lambda>b. b \<noteq> 0) (ifname a)"
  by (auto simp: attr_name_def)

lemma takeWhile_strncpy:
  assumes "name_ok n"
  shows "takeWhile (\<lambda>b. b \<noteq> 0) (strncpy 16 n) = n" and "0 \<in> set (strncpy 16 n)"
    and "length (strncpy 16 n) = 16"
proof -
  have eq: "strncpy 16 n = n @ replicate (16 - length n) 0"
    using assms by (simp add: strncpy_def name_ok_def)
  have "takeWhile (\<lambda>b. b \<noteq> 0) (n @ replicate (16 - length n) (0::u8)) = n"
    using assms by (subst takeWhile_append2) (auto simp: name_ok_def intro: ccontr)
  with eq show "takeWhile (\<lambda>b. b \<noteq> 0) (strncpy 16 n) = n" by simp
  show "0 \<in> set (strncpy 16 n)" "length (strncpy 16 n) = 16"
    using assms by (simp_all add: eq name_ok_def)
qed

section \<open>The operations on a table\<close>

lemma net_table_D:
  assumes "net_table st xs"
  shows "dll (lh st) netif_head xs" "\<not> locked st" "list_sum st = of_nat (length xs)"
    "\<And>p. p \<in> set xs \<Longrightarrow> attr_ok (attrs st p)" "distinct (node_names st xs)"
    "distinct (netif_head # xs)" "\<And>p. p \<in> set (netif_head # xs) \<Longrightarrow> lh st p \<noteq> None"
  using assms dll_ops.rep_valid [of "lh st" netif_head xs]
  by (auto simp: net_table_def dll_def allocated_def)

lemma first_hit_name_at:
  assumes "\<And>p. p \<in> set xs \<Longrightarrow> lh st p \<noteq> None"
  shows "first_hit (name_at st n) xs = Inr (find (\<lambda>p. n = attr_name (attrs st p)) xs)"
  using assms
proof (induction xs)
  case (Cons x xs)
  then obtain c where "lh st x = Some c" by fastforce
  with Cons show ?case by (simp add: name_at_def)
qed simp

lemma name_at_locked [simp]: "name_at (st\<lparr>locked := b\<rparr>) = name_at st"
  by (simp add: name_at_def fun_eq_iff split: option.split)

lemma for_each_name_at:
  assumes "net_table st xs"
  shows "common_list_for_each (get_next (lh st)) netif_head (name_at st n)
    = Some (Inr (find (\<lambda>p. n = attr_name (attrs st p)) xs))"
  using dll_ops.for_each [OF net_table_D(1) [OF assms], of "name_at st n"]
    first_hit_name_at [of xs st n] net_table_D(7) [OF assms] by auto

lemma mutex_unlock_lock [simp]: "mutex_unlock (st\<lparr>locked := b\<rparr>) = mutex_unlock st"
  by (simp add: mutex_unlock_def)

lemma mutex_unlock_id: "\<not> locked st \<Longrightarrow> mutex_unlock st = st"
  by (cases st) (simp add: mutex_unlock_def)

lemma netif_node_find_table:
  assumes "net_table st xs"
  shows "netif_node_find n st = Some (Inr (find (\<lambda>p. n = attr_name (attrs st p)) xs, st))"
  using for_each_name_at [OF assms] net_table_D(2) [OF assms]
  by (simp add: netif_node_find_def mutex_lock_def mutex_unlock_id)

lemma lookup_table:
  "net_table st xs \<Longrightarrow> lookup st n = find (\<lambda>p. n = attr_name (attrs st p)) xs"
  by (simp add: lookup_def netif_node_find_table)

lemma lookup_Some:
  "net_table st xs \<Longrightarrow> lookup st n = Some p \<Longrightarrow> p \<in> set xs \<and> attr_name (attrs st p) = n"
  by (auto simp: lookup_table find_Some_iff in_set_conv_nth)

lemma lookup_None:
  "net_table st xs \<Longrightarrow> lookup st n = None \<longleftrightarrow> n \<notin> set (node_names st xs)"
  by (auto simp: lookup_table find_None_iff node_names_def)

lemma attr_ok_new: "name_ok n \<Longrightarrow> attr_ok (zero_attr\<lparr>ifname := strncpy 16 n\<rparr>)"
  by (simp add: attr_ok_def takeWhile_strncpy) (simp add: zero_attr_def)

lemma attr_name_new: "name_ok n \<Longrightarrow> attr_name (zero_attr\<lparr>ifname := strncpy 16 n\<rparr>) = n"
  by (simp add: attr_name_ok takeWhile_strncpy)

lemma dll_new_cell:
  assumes "dll h hp xs" and "h p = None"
  shows "dll (h(p \<mapsto> c)) hp xs"
proof -
  have "p \<notin> set (hp # xs)" using assms(2) dll_allocated [OF assms(1), of p] by (auto simp: allocated_def)
  then have "lseg (h(p \<mapsto> c)) hp xs hp = lseg h hp xs hp"
    by (intro lseg_cong) (auto simp: nxt_def prv_def)
  with assms(1) show ?thesis by (simp add: dll_def)
qed

lemma node_names_new:
  assumes "attrs st' = (attrs st)(p := zero_attr\<lparr>ifname := strncpy 16 n\<rparr>)"
    and "p \<notin> set xs" and "name_ok n"
  shows "node_names st' (p # xs) = n # node_names st xs"
  using assms by (auto simp: node_names_def attr_name_new)

lemma netif_node_add_table:
  assumes t: "net_table st xs" and p: "lh st p = None" and n: "name_ok n"
    and new: "n \<notin> set (node_names st xs)"
  shows "\<exists>st'. netif_node_add (Some p) (Some n) st = Inr (Some p, st') \<and> net_table st' (p # xs)
    \<and> attrs st' = (attrs st)(p := zero_attr\<lparr>ifname := strncpy 16 n\<rparr>)
    \<and> allocated (lh st') = (allocated (lh st))(p := True)"
proof -
  note D = net_table_D [OF t]
  let ?h = "(lh st)(p \<mapsto> \<lparr>l_next = NULL, l_prev = NULL\<rparr>)"
  let ?a = "(attrs st)(p := zero_attr\<lparr>ifname := strncpy 16 n\<rparr>)"
  have pn: "p \<notin> set (netif_head # xs)" using D(7) [of p] p by auto
  have v: "allocated ?h p" "allocated ?h = (allocated (lh st))(p := True)" by (auto simp: allocated_def fun_eq_iff)
  obtain h' where h': "common_list_add p netif_head ?h = Inr h'" "dll h' netif_head (p # xs)"
      "allocated h' = (allocated (lh st))(p := True)"
    using dll_ops.rep_add [OF dll_new_cell [OF D(1) p, of "\<lparr>l_next = NULL, l_prev = NULL\<rparr>"] v(1) pn] v(2) by auto
  let ?st = "st\<lparr>lh := h', attrs := ?a, list_sum := list_sum st + 1, locked := False\<rparr>"
  have "net_table ?st (p # xs)"
    unfolding net_table_def using h' D pn new attr_ok_new [OF n] node_names_new [of ?st st p n xs] n
    by auto
  moreover have "netif_node_add (Some p) (Some n) st = Inr (Some p, ?st)"
    using h' D by (simp add: netif_node_add_def mutex_lock_def mutex_unlock_def Let_def)
  ultimately show ?thesis using h'(3) by auto
qed

lemma netif_node_del_table:
  assumes t: "net_table st xs" and p: "lookup st n = Some p"
  shows "\<exists>st'. netif_node_del n st = Some (Inr (0, st')) \<and> net_table st' (remove1 p xs)
    \<and> attrs st' = attrs st \<and> lh st' p = None"
proof -
  note D = net_table_D [OF t]
  have hit: "find (\<lambda>q. n = attr_name (attrs st q)) xs = Some p"
    using p lookup_table [OF t] by simp
  have "p \<in> set xs" using lookup_Some [OF t p] by simp
  then obtain ys zs where xs: "xs = ys @ p # zs" and py: "p \<notin> set ys"
    by (auto dest: split_list_first)
  have pz: "p \<notin> set zs" "p \<noteq> netif_head" using D(6) xs by auto
  obtain h' where h': "common_list_del p (lh st) = Inr h'" "dll h' netif_head (ys @ zs)"
    "allocated h' = allocated (lh st)"
    using dll_ops.rep_del D(1) xs by blast
  have dll: "dll (free_cell p h') netif_head (ys @ zs)"
    using h'(2) py pz by (intro free_cell_dll) auto
  let ?st = "st\<lparr>lh := free_cell p h', list_sum := list_sum st - 1, locked := False\<rparr>"
  have rem: "remove1 p xs = ys @ zs" using xs py by (simp add: remove1_append)
  have "net_table ?st (ys @ zs)"
    using dll D xs by (auto simp: net_table_def node_names_def)
  moreover have "netif_node_del n st = Some (Inr (0, ?st))"
    using h' D for_each_name_at [OF t] hit
    by (simp add: netif_node_del_def mutex_lock_def mutex_unlock_def Let_def)
  ultimately show ?thesis unfolding rem by (auto simp: free_cell_def)
qed

lemma netif_node_del_absent:
  assumes t: "net_table st xs" and n: "lookup st n = None"
  shows "netif_node_del n st = Some (Inr (-1, st))"
  using for_each_name_at [OF t] net_table_D(2) [OF t] n lookup_table [OF t]
  by (simp add: netif_node_del_def mutex_lock_def mutex_unlock_id)

section \<open>The contract of the table\<close>

text \<open>
  What the event handlers rely on: a lookup gives a node or none and changes nothing, an
  insertion of a name that is not there gives a node with that name and leaves every other
  name's node where it was, a failed allocation changes nothing. The handlers all begin by
  finding the node of a name or adding it.
\<close>

definition find_or_add ::
  "('n \<Rightarrow> 's \<Rightarrow> (fault + ('p option \<times> 's)) option) \<Rightarrow> ('n \<Rightarrow> 's \<Rightarrow> fault + ('p option \<times> 's))
    \<Rightarrow> 'n \<Rightarrow> 's \<Rightarrow> (fault + ('p option \<times> 's)) option" where
  "find_or_add fnd add n st =
     (case fnd n st of None \<Rightarrow> None
      | Some r \<Rightarrow> (case r of Inl e \<Rightarrow> Some (Inl e)
          | Inr (node, st) \<Rightarrow>
              (case node of Some p \<Rightarrow> Some (Inr (Some p, st)) | None \<Rightarrow> Some (add n st))))"

locale node_table =
  fixes wf :: "'s \<Rightarrow> bool"
    and lkp :: "'s \<Rightarrow> 'n \<Rightarrow> 'p option"
    and okname :: "'n \<Rightarrow> bool"
    and fnd :: "'n \<Rightarrow> 's \<Rightarrow> (fault + ('p option \<times> 's)) option"
    and add :: "'p option \<Rightarrow> 'n \<Rightarrow> 's \<Rightarrow> fault + ('p option \<times> 's)"
    and fresh :: "'s \<Rightarrow> 'p \<Rightarrow> bool"
  assumes find_lkp: "wf s \<Longrightarrow> fnd n s = Some (Inr (lkp s n, s))"
    and add_fail: "wf s \<Longrightarrow> add None n s = Inr (None, s)"
    and add_new: "wf s \<Longrightarrow> okname n \<Longrightarrow> lkp s n = None \<Longrightarrow> fresh s p
      \<Longrightarrow> \<exists>s'. add (Some p) n s = Inr (Some p, s') \<and> wf s' \<and> lkp s' = (lkp s)(n \<mapsto> p)"
begin

lemma find_or_add_spec:
  assumes "wf s" and "okname n" and "\<And>p. m = Some p \<Longrightarrow> fresh s p"
  shows "\<exists>r s'. find_or_add fnd (add m) n s = Some (Inr (r, s')) \<and> wf s' \<and> lkp s' n = r
    \<and> (\<forall>k. k \<noteq> n \<longrightarrow> lkp s' k = lkp s k) \<and> (r = None \<longrightarrow> m = None \<and> s' = s)"
proof (cases "lkp s n")
  case (Some p)
  with assms(1) show ?thesis by (auto simp: find_or_add_def find_lkp)
next
  case None
  show ?thesis
  proof (cases m)
    case None
    with assms(1) \<open>lkp s n = None\<close> show ?thesis by (auto simp: find_or_add_def find_lkp add_fail)
  next
    case (Some p)
    with assms None obtain s' where "add (Some p) n s = Inr (Some p, s')" "wf s'"
      "lkp s' = (lkp s)(n \<mapsto> p)"
      using add_new by blast
    with Some assms(1) None show ?thesis by (auto simp: find_or_add_def find_lkp)
  qed
qed

end

lemma lookup_add:
  assumes "net_table st xs" and "net_table st' (p # xs)" and "p \<notin> set xs" and "name_ok n"
    and "attrs st' = (attrs st)(p := zero_attr\<lparr>ifname := strncpy 16 n\<rparr>)"
  shows "lookup st' = (lookup st)(n \<mapsto> p)"
proof
  fix k
  have "find (\<lambda>q. k = attr_name (attrs st' q)) xs = find (\<lambda>q. k = attr_name (attrs st q)) xs"
    using assms(3,5) by (intro find_cong) auto
  with assms show "lookup st' k = ((lookup st)(n \<mapsto> p)) k"
    by (auto simp: lookup_table attr_name_new)
qed

interpretation netif: node_table net_wf lookup name_ok netif_node_find
  "\<lambda>m n. netif_node_add m (Some n)" "\<lambda>st p. lh st p = None"
proof unfold_locales
  fix s n assume "net_wf s"
  then show "netif_node_find n s = Some (Inr (lookup s n, s))"
    by (auto simp: net_wf_def netif_node_find_table lookup_table)
next
  fix s n assume "net_wf s"
  show "netif_node_add None (Some n) s = Inr (None, s)" by (simp add: netif_node_add_def)
next
  fix s n p assume wf: "net_wf s" and n: "name_ok n" "lookup s n = None" and p: "lh s p = None"
  from wf obtain xs where t: "net_table s xs" by (auto simp: net_wf_def)
  then have "n \<notin> set (node_names s xs)" using n lookup_None by blast
  then obtain s' where s': "netif_node_add (Some p) (Some n) s = Inr (Some p, s')"
    "net_table s' (p # xs)" "attrs s' = (attrs s)(p := zero_attr\<lparr>ifname := strncpy 16 n\<rparr>)"
    using netif_node_add_table [OF t p n(1)] by blast
  have "p \<notin> set xs" using net_table_D(7) [OF t, of p] p by auto
  then have "lookup s' = (lookup s)(n \<mapsto> p)" using lookup_add [OF t s'(2) _ n(1) s'(3)] by simp
  with s' show "\<exists>s'. netif_node_add (Some p) (Some n) s = Inr (Some p, s') \<and> net_wf s'
    \<and> lookup s' = (lookup s)(n \<mapsto> p)"
    by (auto simp: net_wf_def)
qed

section \<open>Properties\<close>

lemma find_remove1:
  assumes "distinct (map f xs)" and "p \<in> set xs" and "f p = n"
  shows "find (\<lambda>q. k = f q) (remove1 p xs) = (if k = n then None else find (\<lambda>q. k = f q) xs)"
  using assms
proof (induction xs)
  case (Cons x xs)
  show ?case
  proof (cases "x = p")
    case True
    with Cons.prems show ?thesis by (force simp: find_None_iff)
  next
    case False
    with Cons.prems have "p \<in> set xs" "f x \<noteq> n" by force+
    with False Cons show ?thesis by (cases "k = n") auto
  qed
qed simp

lemma netif_node_del_map:
  assumes "net_wf st"
  shows "\<exists>r st'. netif_node_del n st = Some (Inr (r, st')) \<and> net_wf st'
    \<and> lookup st' = (lookup st)(n := None) \<and> r = (if lookup st n = None then -1 else 0)"
proof -
  from assms obtain xs where t: "net_table st xs" by (auto simp: net_wf_def)
  show ?thesis
  proof (cases "lookup st n")
    case None
    with netif_node_del_absent [OF t] assms show ?thesis by auto
  next
    case (Some p)
    obtain st' where st': "netif_node_del n st = Some (Inr (0, st'))"
      "net_table st' (remove1 p xs)" "attrs st' = attrs st"
      using netif_node_del_table [OF t Some] by blast
    have "p \<in> set xs" "attr_name (attrs st p) = n" using lookup_Some [OF t Some] by auto
    then have "lookup st' = (lookup st)(n := None)"
      using find_remove1 [of "\<lambda>p. attr_name (attrs st p)" xs p n] net_table_D(5) [OF t] st'
      by (auto simp: lookup_table [OF t] lookup_table [OF st'(2)] node_names_def fun_eq_iff)
    with st' Some show ?thesis by (auto simp: net_wf_def)
  qed
qed

text \<open>
  C4. The interface table refines a finite map from names to nodes. On every well-formed
  table: \<open>netif_node_find\<close> returns, without a fault and without changing anything, what
  the map holds; \<open>netif_node_add\<close> of a new name maps it to the new node;
  \<open>netif_node_del\<close> returns 0 or -1 by whether the name was there and unmaps it. All keep
  the table well formed: list links, node counter, mutex released, names distinct.
\<close>

theorem netif_table_refines_map:
  assumes "net_wf st"
  shows "netif_node_find n st = Some (Inr (lookup st n, st))
    \<and> (name_ok n \<and> lookup st n = None \<and> lh st p = None \<longrightarrow>
        (\<exists>st'. netif_node_add (Some p) (Some n) st = Inr (Some p, st') \<and> net_wf st'
           \<and> lookup st' = (lookup st)(n \<mapsto> p)))
    \<and> (\<exists>r st'. netif_node_del n st = Some (Inr (r, st')) \<and> net_wf st'
           \<and> lookup st' = (lookup st)(n := None) \<and> r = (if lookup st n = None then -1 else 0))"
  using netif.find_lkp [OF assms] netif.add_new [OF assms] netif_node_del_map [OF assms]
  by blast

definition empty_net :: net_state where
  "empty_net = \<lparr>lh = [netif_head \<mapsto> \<lparr>l_next = netif_head, l_prev = netif_head\<rparr>],
     attrs = (\<lambda>_. zero_attr), list_sum = 0, locked = False\<rparr>"

lemma net_table_empty_net: "net_table empty_net []"
  by (simp add: net_table_def empty_net_def nxt_def prv_def node_names_def)

lemma net_wf_empty_net: "net_wf empty_net"
  using net_table_empty_net by (auto simp: net_wf_def)

theorem netif_table_refines_map_witness:
  "netif_node_find [101] empty_net = Some (Inr (lookup empty_net [101], empty_net))
    \<and> (\<exists>st'. netif_node_add (Some 7) (Some [101]) empty_net = Inr (Some 7, st') \<and> net_wf st'
         \<and> lookup st' = (lookup empty_net)([101] \<mapsto> 7))"
  using netif_table_refines_map [OF net_wf_empty_net, of "[101]" 7]
    lookup_table [OF net_table_empty_net, of "[101]"]
  by (simp add: name_ok_def empty_net_def netif_head_def)

text \<open>
  A name longer than the 16 bytes of \<open>attr.ifname\<close> is stored cut off: the node is
  added and counted, and \<open>netif_node_find\<close> of the very same name does not find it.
\<close>

theorem netif_node_add_long_name_lost:
  assumes "net_wf st" and "lh st p = None" and "16 < length n" and "0 \<notin> set n"
  shows "\<exists>st'. netif_node_add (Some p) (Some n) st = Inr (Some p, st')
    \<and> list_sum st' = list_sum st + 1 \<and> netif_node_find n st' = Some (Inr (None, st'))"
proof -
  from assms(1) obtain xs where t: "net_table st xs" by (auto simp: net_wf_def)
  note D = net_table_D [OF t]
  let ?h = "(lh st)(p \<mapsto> \<lparr>l_next = NULL, l_prev = NULL\<rparr>)"
  let ?a = "(attrs st)(p := zero_attr\<lparr>ifname := strncpy 16 n\<rparr>)"
  have pn: "p \<notin> set (netif_head # xs)" using D(7) [of p] assms(2) by auto
  obtain h' where h': "common_list_add p netif_head ?h = Inr h'" "dll h' netif_head (p # xs)"
    using dll_ops.rep_add [OF dll_new_cell [OF D(1) assms(2), of "\<lparr>l_next = NULL, l_prev = NULL\<rparr>"], of p] pn
    by (auto simp: allocated_def)
  let ?st = "st\<lparr>lh := h', attrs := ?a, list_sum := list_sum st + 1, locked := False\<rparr>"
  have short: "length (attr_name (attrs st q)) \<le> 16" if "q \<in> set xs" for q
    using D(4) [OF that] length_takeWhile_le [of "\<lambda>b. b \<noteq> 0" "ifname (attrs st q)"]
    by (simp add: attr_ok_def attr_name_ok)
  have "strncpy 16 n = take 16 n" using assms(3) by (simp add: strncpy_def)
  moreover have "0 \<notin> set (take 16 n)" using assms(4) in_set_takeD by metis
  ultimately have new: "attr_name (?a p) = take 16 n"
    by (simp add: attr_name_def zero_attr_def) (subst takeWhile_append2; auto)
  have miss: "n \<noteq> attr_name (?a q)" if "q \<in> set (p # xs)" for q
  proof (cases "q = p")
    case True
    with new assms(3) show ?thesis by (metis length_take less_irrefl min.absorb4)
  next
    case False
    with that short [of q] assms(3) show ?thesis by auto
  qed
  then have none: "find (\<lambda>q. n = attr_name (?a q)) (p # xs) = None"
    unfolding find_None_iff by blast
  have "common_list_for_each (get_next h') netif_head (name_at ?st n) = Some (Inr None)"
    using dll_ops.for_each [OF h'(2), of "name_at ?st n"]
      first_hit_name_at [of "p # xs" ?st n] dll_ops.rep_valid [OF h'(2)] none
    by (auto simp: allocated_def)
  then have "netif_node_find n ?st = Some (Inr (None, ?st))"
    by (simp add: netif_node_find_def mutex_lock_def mutex_unlock_def)
  moreover have "netif_node_add (Some p) (Some n) st = Inr (Some p, ?st)"
    using h' D by (simp add: netif_node_add_def mutex_lock_def mutex_unlock_def Let_def)
  ultimately show ?thesis by auto
qed

theorem netif_node_add_long_name_lost_witness:
  "\<exists>st'. netif_node_add (Some 7) (Some (replicate 17 101)) empty_net = Inr (Some 7, st')
    \<and> list_sum st' = list_sum empty_net + 1
    \<and> netif_node_find (replicate 17 101) st' = Some (Inr (None, st'))"
  by (rule netif_node_add_long_name_lost)
    (simp_all add: net_wf_empty_net, simp_all add: empty_net_def netif_head_def)

end
