(* ===== verification/Netlink.thy ===== *)
theory Netlink
  imports Prelude
begin

text \<open>
  The attributes of a netlink message: \<open>parse_rtattr\<close> and the macro
  \<open>dispatch_rta\<close> of netif_event.c, with the \<open>RTA_\<close> macros the file quotes from
  rtnetlink.h. Memory is the receive buffer, a pointer an offset in it; every read is
  checked against the buffer. An attribute is a 16-bit length (header included), a 16-bit
  type and the data, padded to four bytes.
\<close>

section \<open>Walking the attributes\<close>

text \<open>\<open>RTA_ALIGN\<close> and \<open>NLMSG_ALIGN\<close>: rounding up to a multiple of four.\<close>

definition RTA_ALIGN :: "nat \<Rightarrow> nat" where
  "RTA_ALIGN n = (n + 3) div 4 * 4"

lemma RTA_ALIGN_ge: "n \<le> RTA_ALIGN n"
  by (simp add: RTA_ALIGN_def)

lemma RTA_ALIGN_add4: "RTA_ALIGN (4 + n) = 4 + RTA_ALIGN n"
  unfolding RTA_ALIGN_def by presburger

text \<open>
  The loop: \<open>RTA_OK\<close> tests the remaining length before it reads the attribute's length;
  \<open>RTA_NEXT\<close> subtracts the aligned length from the remaining length, which may go below
  zero at the last attribute. The table \<open>tb\<close> maps a type to the attribute's offset.
\<close>

function parse_rtattr ::
  "u8 list \<Rightarrow> (nat \<Rightarrow> nat option) \<Rightarrow> nat \<Rightarrow> nat \<Rightarrow> int \<Rightarrow> fault + (nat \<Rightarrow> nat option)" where
  "parse_rtattr m tb mx attr len =
     (if len < 4 then Inr tb
      else rbind (rd16 m attr) (\<lambda>rta_len.
        if 4 \<le> rta_len \<and> int rta_len \<le> len then
          rbind (rd16 m (attr + 2)) (\<lambda>rta_type.
          parse_rtattr m (if rta_type \<le> mx then tb(rta_type \<mapsto> attr) else tb) mx
            (attr + RTA_ALIGN rta_len) (len - int (RTA_ALIGN rta_len)))
        else Inr tb))"
  by pat_completeness auto
termination
proof (relation "measure (\<lambda>(m, tb, mx, attr, len). nat len)", goal_cases)
  case 1
  show ?case by simp
next
  case (2 m tb mx attr len rta_len rta_type)
  then show ?case using RTA_ALIGN_ge [of rta_len] by auto
qed

declare parse_rtattr.simps [simp del]

text \<open>
  \<open>dispatch_rta\<close> copies the attribute's data over the destination object, as many bytes
  as the attribute says: \<open>memcpy\<close> past the end of the destination is a fault. The length
  is an \<open>unsigned short\<close>.
\<close>

definition rta_datalen :: "nat \<Rightarrow> nat" where
  "rta_datalen rta_len = (rta_len + 65532) mod 65536"

definition dispatch_rta ::
  "u8 list \<Rightarrow> (nat \<Rightarrow> nat option) \<Rightarrow> nat \<Rightarrow> u8 list \<Rightarrow> fault + u8 list" where
  "dispatch_rta m rta type buf =
     (case rta type of None \<Rightarrow> Inr buf
      | Some p \<Rightarrow> rbind (rd16 m p) (\<lambda>rta_len.
          if 0 < rta_datalen rta_len then
            rbind (rd_bytes m (p + 4) (rta_datalen rta_len)) (memcpy buf)
          else Inr buf))"

section \<open>Memory safety of the parser\<close>

text \<open>An attribute with its header and data inside \<open>[lo, hi)\<close>.\<close>

definition attr_at :: "u8 list \<Rightarrow> nat \<Rightarrow> nat \<Rightarrow> int \<Rightarrow> nat \<Rightarrow> bool" where
  "attr_at m t lo hi p \<longleftrightarrow> lo \<le> p \<and> rd16 m (p + 2) = Inr t
     \<and> (\<exists>l. rd16 m p = Inr l \<and> 4 \<le> l \<and> int (p + l) \<le> hi)"

lemma attr_at_mono: "attr_at m t lo hi p \<Longrightarrow> lo' \<le> lo \<Longrightarrow> hi \<le> hi' \<Longrightarrow> attr_at m t lo' hi' p"
  by (fastforce simp: attr_at_def)

lemma parse_rtattr_in_bounds:
  assumes "int attr + len \<le> int (length m)"
  shows "\<exists>tb'. parse_rtattr m tb mx attr len = Inr tb'
    \<and> (\<forall>t p. tb' t = Some p \<longrightarrow> tb t = Some p \<or> t \<le> mx \<and> attr_at m t attr (int attr + len) p)"
  using assms
proof (induction m tb mx attr len rule: parse_rtattr.induct)
  case (1 m tb mx attr len)
  show ?case
  proof (cases "len < 4")
    case True
    then show ?thesis by (simp add: parse_rtattr.simps [of m tb mx attr len])
  next
    case False
    with "1.prems" have "attr + 3 < length m" by linarith
    then obtain l t where l: "rd16 m attr = Inr l" and t: "rd16 m (attr + 2) = Inr t"
      using rd16_total [of attr m] rd16_total [of "attr + 2" m] by auto
    show ?thesis
    proof (cases "4 \<le> l \<and> int l \<le> len")
      case ok: True
      let ?tb = "if t \<le> mx then tb(t \<mapsto> attr) else tb"
      let ?a = "attr + RTA_ALIGN l" and ?n = "len - int (RTA_ALIGN l)"
      obtain tb' where tb': "parse_rtattr m ?tb mx ?a ?n = Inr tb'"
        "\<forall>u p. tb' u = Some p \<longrightarrow> ?tb u = Some p \<or> u \<le> mx \<and> attr_at m u ?a (int ?a + ?n) p"
        using "1.IH" [OF False l ok t] "1.prems" by auto
      have here: "attr_at m t attr (int attr + len) attr" using l t ok by (auto simp: attr_at_def)
      have later: "attr_at m u attr (int attr + len) p" if "attr_at m u ?a (int ?a + ?n) p" for u p
        by (rule attr_at_mono [OF that]) auto
      have "tb u = Some p \<or> u \<le> mx \<and> attr_at m u attr (int attr + len) p" if "tb' u = Some p" for u p
        using tb'(2) that here later [of u p] by (cases "u = t") (auto split: if_splits)
      moreover have "parse_rtattr m tb mx attr len = Inr tb'"
        using tb'(1) False l t ok by (simp add: parse_rtattr.simps [of m tb mx attr len])
      ultimately show ?thesis by blast
    next
      case bad: False
      then have "parse_rtattr m tb mx attr len = Inr tb"
        using False l by (auto simp: parse_rtattr.simps [of m tb mx attr len])
      then show ?thesis by simp
    qed
  qed
qed

section \<open>Round trip with an encoder\<close>

text \<open>How the sender lays an attribute out: header, data, padding.\<close>

definition enc_attr :: "nat \<times> u8 list \<Rightarrow> u8 list" where
  "enc_attr a = le16 (4 + length (snd a)) @ le16 (fst a) @ snd a
     @ replicate (RTA_ALIGN (length (snd a)) - length (snd a)) 0"

definition enc_attrs :: "(nat \<times> u8 list) list \<Rightarrow> u8 list" where
  "enc_attrs as = concat (map enc_attr as)"

definition enc_ok :: "nat \<times> u8 list \<Rightarrow> bool" where
  "enc_ok a \<longleftrightarrow> fst a < 65536 \<and> length (snd a) < 65532"

lemma length_enc_attr: "length (enc_attr a) = RTA_ALIGN (4 + length (snd a))"
  using RTA_ALIGN_ge [of "length (snd a)"] by (simp add: enc_attr_def RTA_ALIGN_add4)

lemma enc_attrs_simps [simp]:
  "enc_attrs [] = []" "enc_attrs (a # as) = enc_attr a @ enc_attrs as"
  by (simp_all add: enc_attrs_def)

lemma rd_enc_attr:
  assumes "enc_ok a" and "m = pre @ enc_attr a @ post"
  shows "rd16 m (length pre) = Inr (4 + length (snd a))"
    and "rd16 m (length pre + 2) = Inr (fst a)"
    and "rd_bytes m (length pre + 4) (length (snd a)) = Inr (snd a)"
proof -
  let ?d = "snd a" and ?l = "le16 (4 + length (snd a))" and ?t = "le16 (fst a)"
  obtain pad where m: "m = pre @ ?l @ ?t @ ?d @ pad @ post"
    using assms(2) by (auto simp: enc_attr_def)
  show "rd16 m (length pre) = Inr (4 + length ?d)"
    unfolding m by (rule rd16_le16_append) (use assms(1) in \<open>auto simp: enc_ok_def\<close>)
  have "rd16 ((pre @ ?l) @ ?t @ ?d @ pad @ post) (length pre + 2) = Inr (fst a)"
    by (rule rd16_le16_append) (use assms(1) in \<open>auto simp: enc_ok_def\<close>)
  then show "rd16 m (length pre + 2) = Inr (fst a)" by (simp add: m)
  have "rd_bytes ((pre @ ?l @ ?t) @ ?d @ pad @ post) (length pre + 4) (length ?d) = Inr ?d"
    by (rule rd_bytes_append) simp_all
  then show "rd_bytes m (length pre + 4) (length ?d) = Inr ?d" by (simp add: m)
qed

lemma dispatch_rta_here:
  assumes "enc_ok a" and "m = pre @ enc_attr a @ post" and "tb t = Some (length pre)"
  shows "dispatch_rta m tb t buf = memcpy buf (snd a)"
proof -
  have "rta_datalen (4 + length (snd a)) = length (snd a)"
    using assms(1) by (simp add: rta_datalen_def enc_ok_def)
  then show ?thesis
    using rd_enc_attr [OF assms(1,2)] assms(3) by (simp add: dispatch_rta_def memcpy_def)
qed

lemma dispatch_rta_empty [simp]: "dispatch_rta m (\<lambda>_. None) t buf = Inr buf"
  by (simp add: dispatch_rta_def)

lemma parse_rtattr_step:
  assumes "enc_ok a" and "m = pre @ enc_attr a @ post" and "int (length (enc_attr a)) \<le> len"
  shows "parse_rtattr m tb mx (length pre) len
    = parse_rtattr m (if fst a \<le> mx then tb(fst a \<mapsto> length pre) else tb) mx
        (length (pre @ enc_attr a)) (len - int (length (enc_attr a)))"
proof -
  have "4 + length (snd a) \<le> length (enc_attr a)"
    using RTA_ALIGN_ge [of "4 + length (snd a)"] by (simp add: length_enc_attr)
  with assms(3) have "4 \<le> len" "4 + int (length (snd a)) \<le> len" by linarith+
  with rd_enc_attr [OF assms(1,2)] show ?thesis
    by (subst parse_rtattr.simps) (simp add: length_enc_attr)
qed

lemma parse_enc_attrs:
  assumes "\<forall>a \<in> set as. enc_ok a" and "m = pre @ enc_attrs as @ post"
  shows "\<exists>tb'. parse_rtattr m tb mx (length pre) (int (length (enc_attrs as))) = Inr tb'
    \<and> (\<forall>t buf. dispatch_rta m tb' t buf =
        (case (if t \<le> mx then map_of (rev as) t else None) of
           None \<Rightarrow> dispatch_rta m tb t buf | Some d \<Rightarrow> memcpy buf d))"
  using assms
proof (induction as arbitrary: pre tb)
  case Nil
  then show ?case by (simp add: parse_rtattr.simps)
next
  case (Cons a as)
  let ?tb = "if fst a \<le> mx then tb(fst a \<mapsto> length pre) else tb"
  let ?tail = "int (length (enc_attrs as))"
  have ok: "enc_ok a" and m: "m = pre @ enc_attr a @ (enc_attrs as @ post)"
    using Cons.prems by simp_all
  have step: "parse_rtattr m tb mx (length pre) (int (length (enc_attrs (a # as))))
    = parse_rtattr m ?tb mx (length (pre @ enc_attr a)) ?tail"
    using parse_rtattr_step [OF ok m, of "int (length (enc_attrs (a # as)))" tb mx] by simp
  obtain tb' where tb': "parse_rtattr m ?tb mx (length (pre @ enc_attr a)) ?tail = Inr tb'"
    "\<forall>t buf. dispatch_rta m tb' t buf =
      (case (if t \<le> mx then map_of (rev as) t else None) of
         None \<Rightarrow> dispatch_rta m ?tb t buf | Some d \<Rightarrow> memcpy buf d)"
    using Cons.IH [of "pre @ enc_attr a" ?tb] Cons.prems by auto
  have head: "dispatch_rta m ?tb t buf =
      (if t = fst a \<and> t \<le> mx then memcpy buf (snd a) else dispatch_rta m tb t buf)" for t buf
    using dispatch_rta_here [OF ok m, of ?tb "fst a" buf] by (auto simp: dispatch_rta_def)
  show ?case
    unfolding step using tb' head
    by (auto simp: map_add_def split: option.splits if_splits)
qed

text \<open>
  C8. The parser inverts the encoder: after \<open>parse_rtattr\<close> of encoded attributes,
  wherever they lie in the buffer, \<open>dispatch_rta\<close> of a type up to the limit copies the
  data of the last attribute of that type, and copies nothing for a type that does not
  occur or is over the limit; the table keeps no trace of the padding or the neighbours.
\<close>

theorem parse_rtattr_roundtrip:
  assumes "\<forall>a \<in> set as. fst a < 65536 \<and> length (snd a) < 65532"
  shows "\<exists>tb. parse_rtattr (pre @ enc_attrs as @ post) (\<lambda>_. None) mx (length pre)
        (int (length (enc_attrs as))) = Inr tb
    \<and> (\<forall>t buf. dispatch_rta (pre @ enc_attrs as @ post) tb t buf =
        (case (if t \<le> mx then map_of (rev as) t else None) of
           None \<Rightarrow> Inr buf | Some d \<Rightarrow> memcpy buf d))"
  using parse_enc_attrs [of as _ pre post "\<lambda>_. None" mx, OF _ refl] assms
  by (simp only: dispatch_rta_empty enc_ok_def)

theorem parse_rtattr_roundtrip_witness:
  "\<exists>tb. parse_rtattr ([9] @ enc_attrs [(3, [101, 0]), (4, [1, 2, 3, 4])] @ [7]) (\<lambda>_. None) 5
        (length [9 :: u8]) (int (length (enc_attrs [(3, [101, 0]), (4, [1, 2, 3, 4])]))) = Inr tb
    \<and> (\<forall>t buf. dispatch_rta ([9] @ enc_attrs [(3, [101, 0]), (4, [1, 2, 3, 4])] @ [7]) tb t buf =
        (case (if t \<le> 5 then map_of (rev [(3, [101, 0]), (4, [1, 2, 3, 4])]) t else None) of
           None \<Rightarrow> Inr buf | Some d \<Rightarrow> memcpy buf d))"
  by (rule parse_rtattr_roundtrip) simp

text \<open>
  C6. The parser is memory safe on every input: whatever the bytes are, it ends and reads
  only inside the length it is given; every attribute it records has its header and its
  data inside that length, a type up to the limit, and its own type in its header.
\<close>

theorem parse_rtattr_memory_safe:
  assumes "int attr + len \<le> int (length m)"
  shows "\<exists>tb. parse_rtattr m (\<lambda>_. None) mx attr len = Inr tb
    \<and> (\<forall>t p. tb t = Some p \<longrightarrow> t \<le> mx \<and> attr_at m t attr (int attr + len) p)"
  using parse_rtattr_in_bounds [OF assms, of "\<lambda>_. None" mx] by simp

theorem parse_rtattr_memory_safe_witness:
  "\<exists>tb. parse_rtattr [255, 255, 3, 0, 5, 0, 4, 0] (\<lambda>_. None) 5 4 4 = Inr tb
    \<and> (\<forall>t p. tb t = Some p \<longrightarrow> t \<le> 5 \<and> attr_at [255, 255, 3, 0, 5, 0, 4, 0] t 4 (int 4 + 4) p)"
  by (rule parse_rtattr_memory_safe) simp

end
