(* ===== verification/NetifEvent.thy ===== *)
theory NetifEvent
  imports NetifList Netlink
begin

text \<open>
  The netlink event handlers: netif_event.c. A received datagram is walked message by
  message; a link or address message finds or adds the node of the interface it names,
  writes the attributes into the node and notifies a change of the interface's state.
  What the code prints is a list of log entries.

  Not under src/ and therefore parameters, in the record \<open>env\<close>: the results of
  \<open>malloc\<close> and the constants \<open>IFLA_MAX\<close> and \<open>IFA_MAX\<close> of the kernel
  headers, which depend on their version.
\<close>

section \<open>Constants and types\<close>

record env =
  malloc :: "net_state \<Rightarrow> addr option"
  IFLA_MAX :: nat
  IFA_MAX :: nat

definition NLMSG_ERROR :: nat where "NLMSG_ERROR = 2"
definition NLMSG_DONE :: nat where "NLMSG_DONE = 3"
definition RTM_NEWLINK :: nat where "RTM_NEWLINK = 16"
definition RTM_DELLINK :: nat where "RTM_DELLINK = 17"
definition RTM_NEWADDR :: nat where "RTM_NEWADDR = 20"
definition RTM_DELADDR :: nat where "RTM_DELADDR = 21"
definition RTM_NEWROUTE :: nat where "RTM_NEWROUTE = 24"
definition RTM_DELROUTE :: nat where "RTM_DELROUTE = 25"

definition IFLA_ADDRESS :: nat where "IFLA_ADDRESS = 1"
definition IFLA_IFNAME :: nat where "IFLA_IFNAME = 3"
definition IFLA_MTU :: nat where "IFLA_MTU = 4"
definition IFA_ADDRESS :: nat where "IFA_ADDRESS = 1"
definition IFA_LABEL :: nat where "IFA_LABEL = 3"

lemmas netlink_consts = NLMSG_ERROR_def NLMSG_DONE_def RTM_NEWLINK_def RTM_DELLINK_def
  RTM_NEWADDR_def RTM_DELADDR_def RTM_NEWROUTE_def RTM_DELROUTE_def
  IFLA_ADDRESS_def IFLA_IFNAME_def IFLA_MTU_def IFA_ADDRESS_def IFA_LABEL_def

text \<open>\<open>flags & IFF_UP\<close> (bit 0) and \<open>flags & IFF_LOWER_UP\<close> (bit 16).\<close>

definition IFF_UP :: "nat \<Rightarrow> bool" where "IFF_UP flags \<longleftrightarrow> bit flags 0"
definition IFF_LOWER_UP :: "nat \<Rightarrow> bool" where "IFF_LOWER_UP flags \<longleftrightarrow> bit flags 16"

datatype netif_event_type = IF_DOWN | IF_UP | IF_DELADDR | IF_NEWADDR

fun event_code :: "netif_event_type \<Rightarrow> int" where
  "event_code IF_DOWN = 1"
| "event_code IF_UP = 2"
| "event_code IF_DELADDR = 3"
| "event_code IF_NEWADDR = 4"

datatype net_log =
    LogUp name | LogDown name | LogNewAddr "u8 list" | LogDelAddr name | LogNowAddr "u8 list"
  | LogLink nat name bool | LogAddr nat name

type_synonym net_out = "net_state \<times> net_log list"

section \<open>Notification\<close>

text \<open>A write through a node pointer.\<close>

definition node_upd ::
  "addr \<Rightarrow> (netif_attr \<Rightarrow> fault + netif_attr) \<Rightarrow> net_state \<Rightarrow> fault + net_state" where
  "node_upd p f st =
     (case lh st p of None \<Rightarrow> Inl (BadAccess p)
      | Some c \<Rightarrow> rbind (f (attrs st p)) (\<lambda>a. Inr (st\<lparr>attrs := (attrs st)(p := a)\<rparr>)))"

definition with_mutex :: "(net_state \<Rightarrow> fault + net_state) \<Rightarrow> net_state \<Rightarrow> fault + net_state" where
  "with_mutex f st = rbind (mutex_lock st) (\<lambda>st. rbind (f st) (\<lambda>st. Inr (mutex_unlock st)))"

definition notify_change ::
  "name \<Rightarrow> addr \<Rightarrow> netif_event_type \<Rightarrow> net_state \<Rightarrow> fault + net_out" where
  "notify_change n p type st =
     (case type of
        IF_UP \<Rightarrow> Inr (st, [LogUp n])
      | IF_DOWN \<Rightarrow> Inr (st, [LogDown n])
      | IF_NEWADDR \<Rightarrow> Inr (st, [LogNewAddr (ipaddr (attrs st p))])
      | IF_DELADDR \<Rightarrow>
          rbind (with_mutex (node_upd p (\<lambda>a. Inr (a\<lparr>ipaddr := replicate 4 0\<rparr>))) st) (\<lambda>st.
          Inr (st, [LogDelAddr n, LogNowAddr (ipaddr (attrs st p))])))"

definition net_event_notify ::
  "name \<Rightarrow> netif_event_type \<Rightarrow> net_state \<Rightarrow> (fault + net_out) option" where
  "net_event_notify n type st =
     obind (netif_node_find n st) (\<lambda>(node, st).
     case node of None \<Rightarrow> Some (Inr (st, []))
     | Some p \<Rightarrow> Some (
         rbind (if current_state (attrs st p) \<noteq> event_code type
                then notify_change n p type st else Inr (st, [])) (\<lambda>(st, log).
         rbind (with_mutex (node_upd p (\<lambda>a. Inr (a\<lparr>current_state := event_code type\<rparr>))) st) (\<lambda>st.
         Inr (st, log)))))"

section \<open>The two handlers\<close>

text \<open>
  \<open>nlh\<close> is the offset of the message header in the buffer. The payload structure has 16
  bytes for a link message and 8 for an address message, and the attributes follow it.
  The length of the attributes is computed unsigned and converted to \<open>int\<close>: it is
  negative for a message shorter than its payload. (The caller has checked that the
  message is not longer than the datagram, so the conversion does not wrap.)
\<close>

definition node_of_name ::
  "env \<Rightarrow> name \<Rightarrow> net_state \<Rightarrow> (fault + (addr option \<times> net_state)) option" where
  "node_of_name E n st =
     find_or_add netif_node_find (\<lambda>n. netif_node_add (malloc E st) (Some n)) n st"

definition ifinfomsg_write ::
  "u8 list \<Rightarrow> nat \<Rightarrow> (nat \<Rightarrow> nat option) \<Rightarrow> netif_attr \<Rightarrow> fault + netif_attr" where
  "ifinfomsg_write m nlh tb a =
     rbind (rd32 m (nlh + 24)) (\<lambda>ifi_flags.
     let a = a\<lparr>up := IFF_UP ifi_flags, port_link := IFF_LOWER_UP ifi_flags\<rparr> in
     rbind (dispatch_rta m tb IFLA_MTU (mtu a)) (\<lambda>v. let a = a\<lparr>mtu := v\<rparr> in
     rbind (dispatch_rta m tb IFLA_ADDRESS (hwaddr a)) (\<lambda>v. Inr (a\<lparr>hwaddr := v\<rparr>))))"

definition ifinfomsg_handle ::
  "env \<Rightarrow> nat \<Rightarrow> u8 list \<Rightarrow> nat \<Rightarrow> net_state \<Rightarrow> (fault + net_out) option" where
  "ifinfomsg_handle E type m nlh st =
     obind (Some (rd32 m nlh)) (\<lambda>nlmsg_len.
     obind (Some (parse_rtattr m (\<lambda>_. None) (IFLA_MAX E) (nlh + 32) (int nlmsg_len - 32))) (\<lambda>tb.
     obind (Some (rbind (dispatch_rta m tb IFLA_IFNAME (replicate 16 0)) cstring)) (\<lambda>n.
     if n = [] then Some (Inr (st, []))
     else obind (node_of_name E n st) (\<lambda>(node, st).
       case node of None \<Rightarrow> Some (Inr (st, []))
       | Some p \<Rightarrow>
           obind (Some (with_mutex (node_upd p (ifinfomsg_write m nlh tb)) st)) (\<lambda>st.
           let node_up = up (attrs st p) in
           if type = RTM_NEWLINK then
             obind (net_event_notify n (if node_up then IF_UP else IF_DOWN) st) (\<lambda>(st, log).
             Some (Inr (st, LogLink type n node_up # log)))
           else if type = RTM_DELLINK then
             obind (net_event_notify n IF_DOWN st) (\<lambda>(st, log).
             Some (Inr (st, LogLink type n node_up # log)))
           else Some (Inr (st, [])))))))"

definition ifaddrmsg_write ::
  "u8 list \<Rightarrow> (nat \<Rightarrow> nat option) \<Rightarrow> netif_attr \<Rightarrow> fault + netif_attr" where
  "ifaddrmsg_write m tb a =
     rbind (dispatch_rta m tb IFA_ADDRESS (ipaddr a)) (\<lambda>v. Inr (a\<lparr>ipaddr := v\<rparr>))"

definition ifaddrmsg_handle ::
  "env \<Rightarrow> nat \<Rightarrow> u8 list \<Rightarrow> nat \<Rightarrow> net_state \<Rightarrow> (fault + net_out) option" where
  "ifaddrmsg_handle E type m nlh st =
     obind (Some (rd32 m nlh)) (\<lambda>nlmsg_len.
     obind (Some (parse_rtattr m (\<lambda>_. None) (IFA_MAX E) (nlh + 24) (int nlmsg_len - 24))) (\<lambda>tb.
     obind (Some (rbind (dispatch_rta m tb IFA_LABEL (replicate 16 0)) cstring)) (\<lambda>n.
     if n = [] then Some (Inr (st, []))
     else obind (node_of_name E n st) (\<lambda>(node, st).
       case node of None \<Rightarrow> Some (Inr (st, []))
       | Some p \<Rightarrow>
           obind (Some (with_mutex (node_upd p (ifaddrmsg_write m tb)) st)) (\<lambda>st.
           if type = RTM_NEWADDR then
             obind (net_event_notify n IF_NEWADDR st) (\<lambda>(st, log).
             Some (Inr (st, LogAddr type n # log)))
           else if type = RTM_DELADDR then
             obind (net_event_notify n IF_DELADDR st) (\<lambda>(st, log).
             Some (Inr (st, LogAddr type n # log)))
           else Some (Inr (st, [])))))))"

section \<open>The receive loop\<close>

definition dispatch_msg ::
  "env \<Rightarrow> nat \<Rightarrow> u8 list \<Rightarrow> nat \<Rightarrow> net_state \<Rightarrow> (fault + net_out) option" where
  "dispatch_msg E type m nlh st =
     (if type = NLMSG_DONE \<or> type = NLMSG_ERROR then Some (Inr (st, []))
      else if type = RTM_NEWLINK \<or> type = RTM_DELLINK then ifinfomsg_handle E type m nlh st
      else if type = RTM_NEWADDR \<or> type = RTM_DELADDR then ifaddrmsg_handle E type m nlh st
      else Some (Inr (st, [])))"

text \<open>
  The inner loop of \<open>netlink_event_handle\<close> over the messages of one datagram.
  \<open>NLMSG_OK\<close> tests the remaining size before it reads the header.
\<close>

function nl_messages ::
  "env \<Rightarrow> u8 list \<Rightarrow> nat \<Rightarrow> int \<Rightarrow> net_out \<Rightarrow> (fault + net_out) option" where
  "nl_messages E m nlh r_size out =
     (if r_size < 16 then Some (Inr out)
      else obind (Some (rd32 m nlh)) (\<lambda>nlmsg_len.
        if 16 \<le> nlmsg_len \<and> int nlmsg_len \<le> r_size then
          obind (Some (rd16 m (nlh + 4))) (\<lambda>type.
          obind (dispatch_msg E type m nlh (fst out)) (\<lambda>(st, log).
          nl_messages E m (nlh + RTA_ALIGN nlmsg_len) (r_size - int (RTA_ALIGN nlmsg_len))
            (st, snd out @ log)))
        else Some (Inr out)))"
  by pat_completeness auto
termination
proof (relation "measure (\<lambda>(E, m, nlh, r_size, out). nat r_size)", goal_cases)
  case 1
  show ?case by simp
next
  case (2 E m nlh r_size out nlmsg_len)
  then show ?case using RTA_ALIGN_ge [of nlmsg_len] by auto
qed

declare nl_messages.simps [simp del]

text \<open>
  The outer loop never ends; the model runs it over the results of \<open>recvfrom\<close>:
  \<open>None\<close> is the error result -1, and a datagram overwrites the first bytes of the
  2048-byte buffer, the rest of which keeps the bytes of earlier datagrams.
\<close>

fun netlink_event_handle ::
  "env \<Rightarrow> u8 list option list \<Rightarrow> u8 list \<Rightarrow> net_out \<Rightarrow> (fault + net_out) option" where
  "netlink_event_handle E [] buff out = Some (Inr out)"
| "netlink_event_handle E (None # rs) buff out =
     obind (nl_messages E buff 0 (-1) out) (netlink_event_handle E rs buff)"
| "netlink_event_handle E (Some d # rs) buff out =
     (let buff = d @ drop (length d) buff in
      obind (nl_messages E buff 0 (int (length d)) out) (netlink_event_handle E rs buff))"

section \<open>Writes through a node pointer\<close>

definition malloc_fresh :: "env \<Rightarrow> bool" where
  "malloc_fresh E \<longleftrightarrow> (\<forall>st p. malloc E st = Some p \<longrightarrow> lh st p = None)"

definition keeps_node :: "(netif_attr \<Rightarrow> fault + netif_attr) \<Rightarrow> bool" where
  "keeps_node f \<longleftrightarrow> (\<forall>a a'. attr_ok a \<longrightarrow> f a = Inr a' \<longrightarrow> attr_ok a' \<and> ifname a' = ifname a)"

lemma attr_name_ifname: "attr_ok a \<Longrightarrow> attr_ok a' \<Longrightarrow> ifname a' = ifname a \<Longrightarrow> attr_name a' = attr_name a"
  by (simp add: attr_ok_def attr_name_ok)

lemma net_table_upd:
  assumes t: "net_table st xs" and p: "p \<in> set xs"
    and a: "attr_ok a" "ifname a = ifname (attrs st p)"
  shows "net_table (st\<lparr>attrs := (attrs st)(p := a)\<rparr>) xs"
proof -
  note D = net_table_D [OF t]
  have "attr_name a = attr_name (attrs st p)" by (rule attr_name_ifname [OF D(4) [OF p] a])
  then have "node_names (st\<lparr>attrs := (attrs st)(p := a)\<rparr>) xs = node_names st xs"
    by (auto simp: node_names_def)
  with D a show ?thesis by (auto simp: net_table_def)
qed

lemma mutex_unlock_attrs [simp]: "mutex_unlock (st\<lparr>attrs := x\<rparr>) = (mutex_unlock st)\<lparr>attrs := x\<rparr>"
  by (simp add: mutex_unlock_def)

lemma with_mutex_node_upd:
  assumes t: "net_table st xs" and p: "p \<in> set xs" and f: "f (attrs st p) = Inr a"
  shows "with_mutex (node_upd p f) st = Inr (st\<lparr>attrs := (attrs st)(p := a)\<rparr>)"
proof -
  obtain c where "lh st p = Some c" using net_table_D(7) [OF t, of p] p by auto
  then show ?thesis
    using net_table_D(2) [OF t] f
    by (simp add: with_mutex_def node_upd_def mutex_lock_def mutex_unlock_id)
qed

lemma with_mutex_node_upd_fault:
  assumes t: "net_table st xs" and p: "p \<in> set xs" and f: "f (attrs st p) = Inl e"
  shows "with_mutex (node_upd p f) st = Inl e"
proof -
  obtain c where "lh st p = Some c" using net_table_D(7) [OF t, of p] p by auto
  then show ?thesis
    using net_table_D(2) [OF t] f by (simp add: with_mutex_def node_upd_def mutex_lock_def)
qed

section \<open>Notification on a table\<close>

text \<open>What the attributes of a node become when an event of the type is notified.\<close>

fun notified :: "netif_event_type \<Rightarrow> netif_attr \<Rightarrow> netif_attr" where
  "notified type a =
     (if type = IF_DELADDR \<and> current_state a \<noteq> event_code IF_DELADDR
      then a\<lparr>ipaddr := replicate 4 0, current_state := event_code type\<rparr>
      else a\<lparr>current_state := event_code type\<rparr>)"

fun notify_log :: "name \<Rightarrow> netif_event_type \<Rightarrow> netif_attr \<Rightarrow> net_log list" where
  "notify_log n type a =
     (if current_state a = event_code type then []
      else case type of IF_UP \<Rightarrow> [LogUp n] | IF_DOWN \<Rightarrow> [LogDown n]
        | IF_NEWADDR \<Rightarrow> [LogNewAddr (ipaddr a)]
        | IF_DELADDR \<Rightarrow> [LogDelAddr n, LogNowAddr (replicate 4 0)])"

lemma attr_ok_notified:
  "attr_ok a \<Longrightarrow> attr_ok (notified type a) \<and> ifname (notified type a) = ifname a"
  by (simp add: attr_ok_def)

lemma net_event_notify_table:
  assumes t: "net_table st xs" and p: "lookup st n = Some p"
  shows "net_event_notify n type st
    = Some (Inr (st\<lparr>attrs := (attrs st)(p := notified type (attrs st p))\<rparr>,
        notify_log n type (attrs st p)))"
proof -
  have px: "p \<in> set xs" using lookup_Some [OF t p] by simp
  let ?z = "(attrs st p)\<lparr>ipaddr := replicate 4 0\<rparr>"
  let ?st = "st\<lparr>attrs := (attrs st)(p := ?z)\<rparr>"
  have fnd: "netif_node_find n st = Some (Inr (Some p, st))"
    using netif_node_find_table [OF t] lookup_table [OF t] p by simp
  have ok: "attr_ok ?z" using net_table_D(4) [OF t px] by (simp add: attr_ok_def)
  have t': "net_table ?st xs" using net_table_upd [OF t px ok] by simp
  note state = with_mutex_node_upd [OF t px, of "\<lambda>a. Inr (a\<lparr>current_state := event_code type\<rparr>)", OF refl]
  note clear = with_mutex_node_upd [OF t px, of "\<lambda>a. Inr (a\<lparr>ipaddr := replicate 4 0\<rparr>)", OF refl]
  note state' = with_mutex_node_upd [OF t' px, of "\<lambda>a. Inr (a\<lparr>current_state := event_code type\<rparr>)", OF refl]
  show ?thesis
  proof (cases "current_state (attrs st p) = event_code type")
    case True
    then show ?thesis by (auto simp: net_event_notify_def fnd state simp del: event_code.simps)
  next
    case False
    show ?thesis
    proof (cases "type = IF_DELADDR")
      case del: True
      show ?thesis
        using False state' unfolding del
        by (simp add: net_event_notify_def notify_change_def fnd clear)
    next
      case False
      then show ?thesis
        using \<open>current_state (attrs st p) \<noteq> event_code type\<close> state
        by (cases type) (simp_all add: net_event_notify_def notify_change_def fnd)
    qed
  qed
qed

lemma net_event_notify_wf:
  assumes t: "net_table st xs" and p: "lookup st n = Some p"
  shows "\<exists>st' log. net_event_notify n type st = Some (Inr (st', log)) \<and> net_table st' xs"
  using net_event_notify_table [OF t p] net_table_upd [OF t, of p "notified type (attrs st p)"]
    attr_ok_notified [of "attrs st p" type] net_table_D(4) [OF t] lookup_Some [OF t p]
  by auto

section \<open>The handlers on a table\<close>

lemma dispatch_rta_length: "dispatch_rta m tb t buf = Inr v \<Longrightarrow> length v = length buf"
  by (auto simp: dispatch_rta_def rbind_Inr_conv dest: length_memcpy split: option.splits if_splits)

lemma rbind_OutOfBounds:
  "(\<forall>e. m = Inl e \<longrightarrow> e = OutOfBounds) \<Longrightarrow> (\<And>a. m = Inr a \<Longrightarrow> \<forall>e. f a = Inl e \<longrightarrow> e = OutOfBounds)
    \<Longrightarrow> \<forall>e. rbind m f = Inl e \<longrightarrow> e = OutOfBounds"
  by (cases m) auto

lemma reads_OutOfBounds:
  "rd16 m p = Inl e \<Longrightarrow> e = OutOfBounds" "rd32 m p = Inl e \<Longrightarrow> e = OutOfBounds"
  "rd_bytes m p n = Inl e \<Longrightarrow> e = OutOfBounds" "memcpy d v = Inl e \<Longrightarrow> e = OutOfBounds"
  "cstring v = Inl e \<Longrightarrow> e = OutOfBounds"
proof -
  have r8: "\<forall>e. rd8 m p = Inl e \<longrightarrow> e = OutOfBounds" for p by (simp add: rd8_def)
  have r16: "\<forall>e. rd16 m p = Inl e \<longrightarrow> e = OutOfBounds" for p
    unfolding rd16_def by (intro rbind_OutOfBounds r8) simp_all
  have r32: "\<forall>e. rd32 m p = Inl e \<longrightarrow> e = OutOfBounds"
    unfolding rd32_def by (intro rbind_OutOfBounds r16) simp_all
  show "rd16 m p = Inl e \<Longrightarrow> e = OutOfBounds" "rd32 m p = Inl e \<Longrightarrow> e = OutOfBounds"
    using r16 r32 by blast+
qed (auto simp: rd_bytes_def memcpy_def cstring_def split: if_splits)

lemma dispatch_rta_OutOfBounds: "dispatch_rta m tb t buf = Inl e \<Longrightarrow> e = OutOfBounds"
proof -
  have "\<forall>e. dispatch_rta m tb t buf = Inl e \<longrightarrow> e = OutOfBounds"
  proof (cases "tb t")
    case (Some p)
    have copy: "\<forall>e. rbind (rd_bytes m (p + 4) k) (memcpy buf) = Inl e \<longrightarrow> e = OutOfBounds" for k
      by (intro rbind_OutOfBounds) (auto dest: reads_OutOfBounds)
    show ?thesis
      unfolding dispatch_rta_def Some option.case
      by (intro rbind_OutOfBounds) (auto dest: reads_OutOfBounds simp: copy)
  qed (simp add: dispatch_rta_def)
  then show "dispatch_rta m tb t buf = Inl e \<Longrightarrow> e = OutOfBounds" by blast
qed

lemma keeps_node_ifinfomsg: "keeps_node (ifinfomsg_write m nlh tb)"
  by (auto simp: keeps_node_def ifinfomsg_write_def rbind_Inr_conv Let_def attr_ok_def
      dest!: dispatch_rta_length)

lemma keeps_node_ifaddrmsg: "keeps_node (ifaddrmsg_write m tb)"
  by (auto simp: keeps_node_def ifaddrmsg_write_def rbind_Inr_conv attr_ok_def
      dest!: dispatch_rta_length)

lemma write_OutOfBounds:
  "ifinfomsg_write m nlh tb a = Inl e \<Longrightarrow> e = OutOfBounds"
  "ifaddrmsg_write m tb a = Inl e \<Longrightarrow> e = OutOfBounds"
proof -
  have "\<forall>e. ifinfomsg_write m nlh tb a = Inl e \<longrightarrow> e = OutOfBounds"
    unfolding ifinfomsg_write_def Let_def
    by (intro rbind_OutOfBounds) (auto dest: dispatch_rta_OutOfBounds reads_OutOfBounds)
  then show "ifinfomsg_write m nlh tb a = Inl e \<Longrightarrow> e = OutOfBounds" by blast
  have "\<forall>e. ifaddrmsg_write m tb a = Inl e \<longrightarrow> e = OutOfBounds"
    unfolding ifaddrmsg_write_def
    by (intro rbind_OutOfBounds) (auto dest: dispatch_rta_OutOfBounds)
  then show "ifaddrmsg_write m tb a = Inl e \<Longrightarrow> e = OutOfBounds" by blast
qed

lemma name_read_ok:
  assumes "rbind (dispatch_rta m tb t (replicate 16 0)) cstring = Inr n"
  shows "name_ok n"
proof -
  obtain v where v: "length v = 16" "0 \<in> set v" "n = takeWhile (\<lambda>b. b \<noteq> 0) v"
    using assms by (auto simp: rbind_Inr_conv cstring_def split: if_splits dest!: dispatch_rta_length)
  have "n \<noteq> v" using v(2) unfolding v(3) by (metis set_takeWhileD)
  moreover have "length n \<le> length v" "n = take (length n) v"
    using v(3) by (simp_all add: length_takeWhile_le takeWhile_eq_take [symmetric])
  ultimately have "length n < length v" by (metis le_neq_implies_less order_refl take_all)
  with v show ?thesis by (auto simp: name_ok_def dest: set_takeWhileD)
qed

lemma name_read_OutOfBounds:
  "rbind (dispatch_rta m tb t (replicate 16 0)) cstring = Inl e \<Longrightarrow> e = OutOfBounds"
  by (cases "dispatch_rta m tb t (replicate 16 0)")
    (auto dest: dispatch_rta_OutOfBounds reads_OutOfBounds)

lemma node_of_name_spec:
  assumes "malloc_fresh E" and "net_wf st" and "name_ok n"
  shows "\<exists>r st'. node_of_name E n st = Some (Inr (r, st')) \<and> net_wf st' \<and> lookup st' n = r
    \<and> (\<forall>k. k \<noteq> n \<longrightarrow> lookup st' k = lookup st k) \<and> (r = None \<longrightarrow> malloc E st = None \<and> st' = st)"
  unfolding node_of_name_def
  by (rule netif.find_or_add_spec [OF assms(2,3)]) (use assms(1) in \<open>simp add: malloc_fresh_def\<close>)

text \<open>
  A handler's outcome: it returns; an out-of-bounds copy is the only fault; otherwise the
  table is well formed.
\<close>

definition handled :: "(fault + net_out) option \<Rightarrow> bool" where
  "handled r \<longleftrightarrow> r = Some (Inl OutOfBounds) \<or> (\<exists>st log. r = Some (Inr (st, log)) \<and> net_wf st)"

lemma handledI_fault [wf_intros]: "handled (Some (Inl OutOfBounds))"
  and handledI_wf [wf_intros]: "net_wf st \<Longrightarrow> handled (Some (Inr (st, log)))"
  by (auto simp: handled_def)

lemma handled_obind:
  assumes "\<And>e. m = Inl e \<Longrightarrow> e = OutOfBounds" and "\<And>a. m = Inr a \<Longrightarrow> handled (f a)"
  shows "handled (obind (Some m) f)"
  using assms by (cases m) (auto simp: handled_def)

lemma node_write_wf:
  assumes "net_wf st" and "lookup st n = Some p" and k: "keeps_node f"
    and f: "\<And>e. f (attrs st p) = Inl e \<Longrightarrow> e = OutOfBounds"
  shows "with_mutex (node_upd p f) st = Inl OutOfBounds
    \<or> (\<exists>st'. with_mutex (node_upd p f) st = Inr st' \<and> net_wf st' \<and> lookup st' n = Some p)"
proof -
  obtain xs where t: "net_table st xs" using assms(1) by (auto simp: net_wf_def)
  have p: "p \<in> set xs" using lookup_Some [OF t assms(2)] by simp
  show ?thesis
  proof (cases "f (attrs st p)")
    case (Inl e)
    then have "e = OutOfBounds" by (rule f)
    then show ?thesis using with_mutex_node_upd_fault [where f = f, OF t p Inl] by simp
  next
    case (Inr a)
    then have a: "attr_ok a" "ifname a = ifname (attrs st p)"
      using k net_table_D(4) [OF t p] unfolding keeps_node_def by blast+
    let ?st = "st\<lparr>attrs := (attrs st)(p := a)\<rparr>"
    have t': "net_table ?st xs" by (rule net_table_upd [OF t p a])
    have "attr_name a = attr_name (attrs st p)"
      by (rule attr_name_ifname [OF net_table_D(4) [OF t p] a])
    then have "lookup ?st n = lookup st n"
      using find_cong [of xs xs "\<lambda>q. n = attr_name (attrs ?st q)" "\<lambda>q. n = attr_name (attrs st q)"]
      by (simp add: lookup_table [OF t] lookup_table [OF t'])
    with t' with_mutex_node_upd [OF t p, of f, OF Inr] assms(2) show ?thesis
      by (auto simp: net_wf_def)
  qed
qed

lemma notify_handled:
  assumes "net_wf st" and "lookup st n = Some p"
  shows "handled (obind (net_event_notify n type st) (\<lambda>(st, log). Some (Inr (st, l # log))))"
proof -
  obtain xs where t: "net_table st xs" using assms(1) by (auto simp: net_wf_def)
  obtain st' log where "net_event_notify n type st = Some (Inr (st', log))" "net_table st' xs"
    using net_event_notify_wf [OF t assms(2)] by blast
  then show ?thesis by (auto simp: handled_def net_wf_def)
qed

lemma node_handled:
  assumes E: "malloc_fresh E" and wf: "net_wf st" and n: "name_ok n"
    and k: "keeps_node f" and f: "\<And>a e. f a = Inl e \<Longrightarrow> e = OutOfBounds"
    and g: "\<And>st p. net_wf st \<Longrightarrow> lookup st n = Some p \<Longrightarrow> handled (g p st)"
  shows "handled (obind (node_of_name E n st) (\<lambda>(node, st).
    case node of None \<Rightarrow> Some (Inr (st, []))
    | Some p \<Rightarrow> obind (Some (with_mutex (node_upd p f) st)) (g p)))"
proof -
  obtain r st1 where r: "node_of_name E n st = Some (Inr (r, st1))" "net_wf st1" "lookup st1 n = r"
    using node_of_name_spec [OF E wf n] by blast
  show ?thesis
  proof (cases r)
    case None
    with r show ?thesis by (auto simp: handled_def)
  next
    case (Some p)
    have "lookup st1 n = Some p" using r Some by simp
    from node_write_wf [where f = f, OF r(2) this k] f have "handled (obind (Some (with_mutex (node_upd p f) st1)) (g p))"
      using g by (auto intro: wf_intros)
    with r Some show ?thesis by simp
  qed
qed

lemma ifinfomsg_handle_handled:
  assumes E: "malloc_fresh E" and wf: "net_wf st"
    and len: "rd32 m nlh = Inr l" "nlh + l \<le> length m"
  shows "handled (ifinfomsg_handle E type m nlh st)"
proof -
  obtain tb where tb: "parse_rtattr m (\<lambda>_. None) (IFLA_MAX E) (nlh + 32) (int l - 32) = Inr tb"
    using parse_rtattr_in_bounds [of "nlh + 32" "int l - 32" m "\<lambda>_. None" "IFLA_MAX E"] len(2) by auto
  show ?thesis
    unfolding ifinfomsg_handle_def len(1) tb obind.simps
  proof (rule handled_obind, goal_cases)
    case (1 e)
    then show ?case by (rule name_read_OutOfBounds)
  next
    case (2 n)
    then have n: "name_ok n" by (rule name_read_ok)
    have tail: "handled (let node_up = up (attrs st p) in
        if type = RTM_NEWLINK then
          obind (net_event_notify n (if node_up then IF_UP else IF_DOWN) st) (\<lambda>(st, log).
          Some (Inr (st, LogLink type n node_up # log)))
        else if type = RTM_DELLINK then
          obind (net_event_notify n IF_DOWN st) (\<lambda>(st, log).
          Some (Inr (st, LogLink type n node_up # log)))
        else Some (Inr (st, [])))" if "net_wf st" "lookup st n = Some p" for st p
      unfolding Let_def using notify_handled [OF that] handledI_wf [OF that(1)]
      by (simp split: if_splits)
    show ?case
      using node_handled [OF E wf n keeps_node_ifinfomsg write_OutOfBounds(1) tail]
        handledI_wf [OF wf] by simp
  qed
qed

lemma ifaddrmsg_handle_handled:
  assumes E: "malloc_fresh E" and wf: "net_wf st"
    and len: "rd32 m nlh = Inr l" "nlh + l \<le> length m"
  shows "handled (ifaddrmsg_handle E type m nlh st)"
proof -
  obtain tb where tb: "parse_rtattr m (\<lambda>_. None) (IFA_MAX E) (nlh + 24) (int l - 24) = Inr tb"
    using parse_rtattr_in_bounds [of "nlh + 24" "int l - 24" m "\<lambda>_. None" "IFA_MAX E"] len(2) by auto
  show ?thesis
    unfolding ifaddrmsg_handle_def len(1) tb obind.simps
  proof (rule handled_obind, goal_cases)
    case (1 e)
    then show ?case by (rule name_read_OutOfBounds)
  next
    case (2 n)
    then have n: "name_ok n" by (rule name_read_ok)
    have tail: "handled (if type = RTM_NEWADDR then
          obind (net_event_notify n IF_NEWADDR st) (\<lambda>(st, log).
          Some (Inr (st, LogAddr type n # log)))
        else if type = RTM_DELADDR then
          obind (net_event_notify n IF_DELADDR st) (\<lambda>(st, log).
          Some (Inr (st, LogAddr type n # log)))
        else Some (Inr (st, [])))" if "net_wf st" "lookup st n = Some p" for st p
      using notify_handled [OF that] handledI_wf [OF that(1)] by (simp split: if_splits)
    show ?case
      using node_handled [OF E wf n keeps_node_ifaddrmsg write_OutOfBounds(2) tail]
        handledI_wf [OF wf] by simp
  qed
qed

lemma dispatch_msg_handled:
  assumes "malloc_fresh E" and "net_wf st" and "rd32 m nlh = Inr l" "nlh + l \<le> length m"
  shows "handled (dispatch_msg E type m nlh st)"
  unfolding dispatch_msg_def
  using ifinfomsg_handle_handled [OF assms] ifaddrmsg_handle_handled [OF assms]
    handledI_wf [OF assms(2)] by simp

lemma nl_messages_handled:
  assumes "malloc_fresh E" and "net_wf (fst out)" and "int nlh + r_size \<le> int (length m)"
  shows "handled (nl_messages E m nlh r_size out)"
  using assms
proof (induction E m nlh r_size out rule: nl_messages.induct)
  case (1 E m nlh r_size out)
  show ?case
  proof (cases "r_size < 16")
    case True
    with "1.prems"(2) show ?thesis by (cases out) (auto simp: nl_messages.simps intro: wf_intros)
  next
    case False
    with "1.prems"(3) have "nlh + 15 < length m" by linarith
    then obtain lo hi ty where "rd16 m nlh = Inr lo" "rd16 m (nlh + 2) = Inr hi"
      and ty: "rd16 m (nlh + 4) = Inr ty"
      using rd16_total [of nlh m] rd16_total [of "nlh + 2" m] rd16_total [of "nlh + 4" m] by auto
    then have l: "rd32 m nlh = Inr (lo + 65536 * hi)" (is "_ = Inr ?l") by (simp add: rd32_def)
    show ?thesis
    proof (cases "16 \<le> ?l \<and> int ?l \<le> r_size")
      case ok: True
      have "nlh + ?l \<le> length m" using ok "1.prems"(3) by linarith
      then have d: "handled (dispatch_msg E ty m nlh (fst out))"
        using dispatch_msg_handled [OF "1.prems"(1,2) l] by simp
      show ?thesis
      proof (cases "dispatch_msg E ty m nlh (fst out) = Some (Inl OutOfBounds)")
        case True
        with False l ok ty show ?thesis
          by (subst nl_messages.simps) (simp add: handled_def)
      next
        case no_fault: False
        with d obtain st log where r: "dispatch_msg E ty m nlh (fst out) = Some (Inr (st, log))"
          "net_wf st" by (auto simp: handled_def)
        have l': "Some (rd32 m nlh) = Some (Inr ?l)" and ty': "Some (rd16 m (nlh + 4)) = Some (Inr ty)"
          using l ty by simp_all
        have "handled (nl_messages E m (nlh + RTA_ALIGN ?l) (r_size - int (RTA_ALIGN ?l))
            (st, snd out @ log))"
          by (rule "1.IH" [OF False l' ok ty' r(1) refl]) (use "1.prems" r(2) in auto)
        with False l ok ty r(1) show ?thesis
          by (subst nl_messages.simps) simp
      qed
    next
      case bad: False
      have "nl_messages E m nlh r_size out = Some (Inr out)"
        using False bad l by (subst nl_messages.simps) auto
      then show ?thesis using "1.prems"(2) by (cases out) (auto intro: wf_intros)
    qed
  qed
qed

lemma netlink_event_handle_handled:
  assumes "malloc_fresh E" and "net_wf (fst out)" and "length buff = 2048"
    and "\<forall>d. Some d \<in> set rs \<longrightarrow> length d \<le> 2048"
  shows "handled (netlink_event_handle E rs buff out)"
  using assms
proof (induction E rs buff out rule: netlink_event_handle.induct)
  case (1 E buff out)
  then show ?case by (cases out) (auto simp: handled_def)
next
  case (2 E rs buff out)
  have "nl_messages E buff 0 (-1) out = Some (Inr out)" by (simp add: nl_messages.simps)
  with 2 show ?case by simp
next
  case (3 E d rs buff out)
  let ?b = "d @ drop (length d) buff"
  have len: "length d \<le> 2048" "length ?b = 2048" using "3.prems" by auto
  have "handled (nl_messages E ?b 0 (int (length d)) out)"
    using nl_messages_handled [OF "3.prems"(1,2), of 0 "int (length d)" ?b] len by simp
  then show ?case
    unfolding handled_def [of "nl_messages E ?b 0 (int (length d)) out"]
  proof (elim disjE exE conjE)
    fix st log assume r: "nl_messages E ?b 0 (int (length d)) out = Some (Inr (st, log))" "net_wf st"
    from "3.IH" [OF refl r(1)] "3.prems" r len show ?thesis by simp
  qed (simp add: handled_def)
qed


definition demo_env :: env where
  "demo_env = \<lparr>malloc = (\<lambda>st. if lh st 2 = None then Some 2 else None), IFLA_MAX = 30, IFA_MAX = 8\<rparr>"

lemma malloc_fresh_demo_env: "malloc_fresh demo_env"
  by (simp add: malloc_fresh_def demo_env_def)


section \<open>The effect of a message\<close>

text \<open>
  The messages as the kernel sends them: the header with length and type, the payload
  structure, then the attributes.
\<close>

definition addr_msg :: "nat \<Rightarrow> name \<Rightarrow> u8 list \<Rightarrow> u8 list" where
  "addr_msg type n a =
     (let as = enc_attrs [(IFA_LABEL, n @ [0]), (IFA_ADDRESS, a)]
      in le32 (24 + length as) @ le16 type @ replicate 10 0 @ replicate 8 0 @ as)"

definition link_msg :: "nat \<Rightarrow> nat \<Rightarrow> name \<Rightarrow> u8 list \<Rightarrow> u8 list \<Rightarrow> u8 list" where
  "link_msg type flags n mt hw =
     (let as = enc_attrs [(IFLA_IFNAME, n @ [0]), (IFLA_MTU, mt), (IFLA_ADDRESS, hw)]
      in le32 (32 + length as) @ le16 type @ replicate 10 0 @ replicate 8 0 @ le32 flags
         @ replicate 4 0 @ as)"

lemma RTA_ALIGN_le: "RTA_ALIGN n \<le> n + 3"
  by (simp add: RTA_ALIGN_def)

lemma length_enc_attrs_le: "length (enc_attrs as) \<le> (\<Sum>a\<leftarrow>as. 7 + length (snd a))"
proof (induction as)
  case (Cons a as)
  then show ?case using RTA_ALIGN_le [of "4 + length (snd a)"] by (simp add: length_enc_attr)
qed simp

text \<open>The attribute part of a message, whatever the payload before it.\<close>

lemma parse_attrs_of_msg:
  assumes "\<forall>a \<in> set as. enc_ok a" and "m = pre @ enc_attrs as @ post" and "length pre = k"
  obtains tb where
    "parse_rtattr m (\<lambda>_. None) mx k (int (k + length (enc_attrs as)) - int k) = Inr tb"
    "\<And>t buf. dispatch_rta m tb t buf =
        (case (if t \<le> mx then map_of (rev as) t else None) of
           None \<Rightarrow> Inr buf | Some d \<Rightarrow> memcpy buf d)"
proof -
  have "int (k + length (enc_attrs as)) - int k = int (length (enc_attrs as))" by simp
  then show thesis
    using parse_enc_attrs [of as m pre post "\<lambda>_. None" mx] assms that
    by (auto simp only: dispatch_rta_empty)
qed

lemma cstring_name:
  assumes "name_ok n"
  shows "rbind (memcpy (replicate 16 0) (n @ [0])) cstring = Inr n"
proof -
  have "takeWhile (\<lambda>b. b \<noteq> 0) (n @ 0 # xs) = n" for xs
    using assms by (subst takeWhile_append2) (auto simp: name_ok_def intro: ccontr)
  with assms show ?thesis by (simp add: memcpy_def cstring_def name_ok_def)
qed

lemma node_of_name_found:
  assumes "net_table st xs" and "lookup st n = Some p"
  shows "node_of_name E n st = Some (Inr (Some p, st))"
  using assms by (simp add: node_of_name_def find_or_add_def netif_node_find_table lookup_table)

lemma lookup_upd:
  assumes t: "net_table st xs" and p: "lookup st n = Some p"
    and a: "attr_ok a" "ifname a = ifname (attrs st p)"
  shows "lookup (st\<lparr>attrs := (attrs st)(p := a)\<rparr>) = lookup st"
proof
  fix k
  have px: "p \<in> set xs" using lookup_Some [OF t p] by simp
  have "attr_name a = attr_name (attrs st p)"
    by (rule attr_name_ifname [OF net_table_D(4) [OF t px] a])
  then show "lookup (st\<lparr>attrs := (attrs st)(p := a)\<rparr>) k = lookup st k"
    by (simp add: lookup_table [OF t] lookup_table [OF net_table_upd [OF t px a]])
      (intro find_cong; auto)
qed

lemma write_then_notify:
  assumes t: "net_table st xs" and p: "lookup st n = Some p"
    and f: "f (attrs st p) = Inr a" and a: "attr_ok a" "ifname a = ifname (attrs st p)"
  shows "with_mutex (node_upd p f) st = Inr (st\<lparr>attrs := (attrs st)(p := a)\<rparr>)"
    and "net_event_notify n type (st\<lparr>attrs := (attrs st)(p := a)\<rparr>)
      = Some (Inr (st\<lparr>attrs := (attrs st)(p := notified type a)\<rparr>, notify_log n type a))"
proof -
  have px: "p \<in> set xs" using lookup_Some [OF t p] by simp
  show "with_mutex (node_upd p f) st = Inr (st\<lparr>attrs := (attrs st)(p := a)\<rparr>)"
    by (rule with_mutex_node_upd [where f = f, OF t px f])
  show "net_event_notify n type (st\<lparr>attrs := (attrs st)(p := a)\<rparr>)
      = Some (Inr (st\<lparr>attrs := (attrs st)(p := notified type a)\<rparr>, notify_log n type a))"
    using net_event_notify_table [OF net_table_upd [OF t px a], of n p type]
      lookup_upd [OF t p a] p by (simp del: notified.simps notify_log.simps)
qed

lemma addr_msg_parsed:
  assumes "name_ok n" and "length a = 4" and "3 \<le> IFA_MAX E"
    and "m = addr_msg type n a @ post"
  obtains tb where
    "rd32 m 0 = Inr (24 + length (enc_attrs [(IFA_LABEL, n @ [0]), (IFA_ADDRESS, a)]))"
    and "parse_rtattr m (\<lambda>_. None) (IFA_MAX E) 24
       (int (24 + length (enc_attrs [(IFA_LABEL, n @ [0]), (IFA_ADDRESS, a)])) - 24) = Inr tb"
    and "rbind (dispatch_rta m tb IFA_LABEL (replicate 16 0)) cstring = Inr n"
    and "\<And>buf. dispatch_rta m tb IFA_ADDRESS buf = memcpy buf a"
    and "\<And>buf. dispatch_rta m tb IFA_LABEL buf = memcpy buf (n @ [0])"
    and "\<And>t buf. t \<noteq> IFA_LABEL \<Longrightarrow> t \<noteq> IFA_ADDRESS \<Longrightarrow> dispatch_rta m tb t buf = Inr buf"
proof -
  let ?as = "[(IFA_LABEL, n @ [0]), (IFA_ADDRESS, a)]"
  let ?len = "length (enc_attrs ?as)"
  let ?pre = "le32 (24 + ?len) @ le16 type @ replicate 10 0 @ replicate 8 0"
  have m: "m = ?pre @ enc_attrs ?as @ post" by (simp add: addr_msg_def Let_def assms(4))
  have ok: "\<forall>x \<in> set ?as. enc_ok x"
    using assms(1-3) by (simp add: enc_ok_def name_ok_def netlink_consts)
  have "?len \<le> 60" using length_enc_attrs_le [of ?as] assms(1,2) by (simp add: name_ok_def)
  then have len: "rd32 m 0 = Inr (24 + ?len)"
    using rd32_le32_append [of "24 + ?len" "[]" 0] by (simp add: m)
  obtain tb where tb: "parse_rtattr m (\<lambda>_. None) (IFA_MAX E) 24 (int (24 + ?len) - int 24) = Inr tb"
    and d: "\<And>t buf. dispatch_rta m tb t buf =
        (case (if t \<le> IFA_MAX E then map_of (rev ?as) t else None) of
           None \<Rightarrow> Inr buf | Some d \<Rightarrow> memcpy buf d)"
    by (rule parse_attrs_of_msg [OF ok m, of 24 "IFA_MAX E"]) auto
  show thesis
  proof (rule that [OF len])
    show "parse_rtattr m (\<lambda>_. None) (IFA_MAX E) 24 (int (24 + ?len) - 24) = Inr tb" using tb by simp
    show "rbind (dispatch_rta m tb IFA_LABEL (replicate 16 0)) cstring = Inr n"
      using d cstring_name [OF assms(1)] assms(3) by (simp add: netlink_consts)
    show "dispatch_rta m tb IFA_ADDRESS buf = memcpy buf a" "dispatch_rta m tb IFA_LABEL buf = memcpy buf (n @ [0])"
      "t \<noteq> IFA_LABEL \<Longrightarrow> t \<noteq> IFA_ADDRESS \<Longrightarrow> dispatch_rta m tb t buf = Inr buf" for t buf
      using d assms(3) by (simp_all add: netlink_consts)
  qed
qed

text \<open>
  C12. An address message changes one node. For a known interface, a new-address message
  stores the address it carries and leaves the state at 4, reporting the address when the
  state was another one. A deleted-address message first stores the address it carries,
  and clears it only if the state was not already 3: after a second deletion in a row the
  node keeps the deleted address.
\<close>

theorem ifaddrmsg_handle_effect:
  assumes "net_wf st" and "lookup st n = Some p" and "name_ok n" and "n \<noteq> []"
    and "length a = 4" and "3 \<le> IFA_MAX E" and "type \<in> {RTM_NEWADDR, RTM_DELADDR}"
  shows "ifaddrmsg_handle E type (addr_msg type n a) 0 st = Some (Inr
    (st\<lparr>attrs := (attrs st)(p := (attrs st p)\<lparr>
        ipaddr := (if type = RTM_DELADDR \<and> current_state (attrs st p) \<noteq> 3 then replicate 4 0 else a),
        current_state := (if type = RTM_NEWADDR then 4 else 3)\<rparr>)\<rparr>,
     LogAddr type n #
       (if type = RTM_NEWADDR
        then if current_state (attrs st p) = 4 then [] else [LogNewAddr a]
        else if current_state (attrs st p) = 3 then []
          else [LogDelAddr n, LogNowAddr (replicate 4 0)])))"
proof -
  obtain xs where t: "net_table st xs" using assms(1) by (auto simp: net_wf_def)
  have px: "p \<in> set xs" using lookup_Some [OF t assms(2)] by simp
  let ?m = "addr_msg type n a" and ?len = "length (enc_attrs [(IFA_LABEL, n @ [0]), (IFA_ADDRESS, a)])"
  obtain tb where len: "rd32 ?m 0 = Inr (24 + ?len)"
    and tb': "parse_rtattr ?m (\<lambda>_. None) (IFA_MAX E) 24 (int (24 + ?len) - 24) = Inr tb"
    and nm: "rbind (dispatch_rta ?m tb IFA_LABEL (replicate 16 0)) cstring = Inr n"
    and d: "\<And>buf. dispatch_rta ?m tb IFA_ADDRESS buf = memcpy buf a"
    by (rule addr_msg_parsed [OF assms(3,5,6), of ?m type "[]"]) (simp, rule that)
  let ?a = "(attrs st p)\<lparr>ipaddr := a\<rparr>"
  have aok: "attr_ok ?a" using net_table_D(4) [OF t px] assms(5) by (simp add: attr_ok_def)
  have wr: "ifaddrmsg_write ?m tb (attrs st p) = Inr ?a"
    using d assms(5) net_table_D(4) [OF t px]
    by (simp add: ifaddrmsg_write_def netlink_consts memcpy_def attr_ok_def)
  note W = write_then_notify [where f = "ifaddrmsg_write ?m tb", OF t assms(2) wr aok]
  consider "type = RTM_NEWADDR" | "type = RTM_DELADDR" using assms(7) by auto
  then show ?thesis
  proof cases
    case 1
    have "RTM_NEWADDR \<noteq> RTM_DELADDR" by (simp add: netlink_consts)
    with 1 assms(4) W node_of_name_found [OF t assms(2)] show ?thesis
      unfolding ifaddrmsg_handle_def len obind.simps add_0 tb' nm by simp
  next
    case 2
    have "RTM_DELADDR \<noteq> RTM_NEWADDR" by (simp add: netlink_consts)
    with 2 assms(4) W node_of_name_found [OF t assms(2)] show ?thesis
      unfolding ifaddrmsg_handle_def len obind.simps add_0 tb' nm by simp
  qed
qed

definition one_net :: net_state where
  "one_net = \<lparr>lh = [netif_head \<mapsto> \<lparr>l_next = 2, l_prev = 2\<rparr>, 2 \<mapsto> \<lparr>l_next = netif_head, l_prev = netif_head\<rparr>],
     attrs = (\<lambda>_. zero_attr\<lparr>ifname := 101 # replicate 15 0, current_state := 3\<rparr>),
     list_sum = 1, locked = False\<rparr>"

lemma net_table_one_net: "net_table one_net [2]"
  by (simp add: net_table_def one_net_def netif_head_def nxt_def prv_def node_names_def
      attr_ok_def zero_attr_def dll_def)

lemma one_net_facts: "net_wf one_net" "lookup one_net [101] = Some 2" "name_ok [101]"
  using net_table_one_net lookup_table [OF net_table_one_net, of "[101]"]
  by (auto simp: net_wf_def name_ok_def one_net_def attr_name_def)

theorem ifaddrmsg_handle_effect_witness:
  "ifaddrmsg_handle demo_env RTM_DELADDR (addr_msg RTM_DELADDR [101] [10, 0, 0, 1]) 0 one_net
    = Some (Inr (one_net\<lparr>attrs := (attrs one_net)(2 := (attrs one_net 2)\<lparr>
        ipaddr := [10, 0, 0, 1], current_state := 3\<rparr>)\<rparr>, [LogAddr RTM_DELADDR [101]]))"
  using ifaddrmsg_handle_effect [OF one_net_facts, of "[10, 0, 0, 1]" demo_env RTM_DELADDR]
  by (simp add: demo_env_def one_net_def netlink_consts)

text \<open>
  C14. A link message changes one node. For a known interface, it stores the MTU and the
  hardware address and the two flag bits, and a new-link message moves the state to up or
  down by the flag, a deleted-link message to down, reporting only a change of state. A
  hardware address longer than the six bytes of the node (an InfiniBand port has twenty) is
  copied past the end of the array.
\<close>

theorem ifinfomsg_handle_effect:
  assumes "net_wf st" and "lookup st n = Some p" and "name_ok n" and "n \<noteq> []"
    and "length mt = 4" and "0 < length hw" and "length hw \<le> 32" and "flags < 4294967296"
    and "4 \<le> IFLA_MAX E" and "type \<in> {RTM_NEWLINK, RTM_DELLINK}"
  shows "ifinfomsg_handle E type (link_msg type flags n mt hw) 0 st =
    (if 6 < length hw then Some (Inl OutOfBounds)
     else
       let a = (attrs st p)\<lparr>up := IFF_UP flags, port_link := IFF_LOWER_UP flags, mtu := mt,
             hwaddr := hw @ drop (length hw) (hwaddr (attrs st p))\<rparr>;
         ev = (if type = RTM_NEWLINK \<and> IFF_UP flags then IF_UP else IF_DOWN)
       in Some (Inr (st\<lparr>attrs := (attrs st)(p := a\<lparr>current_state := event_code ev\<rparr>)\<rparr>,
         LogLink type n (IFF_UP flags) #
           (if current_state a = event_code ev then []
            else if ev = IF_UP then [LogUp n] else [LogDown n]))))"
proof -
  obtain xs where t: "net_table st xs" using assms(1) by (auto simp: net_wf_def)
  have px: "p \<in> set xs" using lookup_Some [OF t assms(2)] by simp
  note pok = net_table_D(4) [OF t px]
  let ?as = "[(IFLA_IFNAME, n @ [0]), (IFLA_MTU, mt), (IFLA_ADDRESS, hw)]"
  let ?m = "link_msg type flags n mt hw" and ?len = "length (enc_attrs ?as)"
  let ?hd = "le32 (32 + ?len) @ le16 type @ replicate 10 0 @ replicate 8 0"
  have m: "?m = (?hd @ le32 flags @ replicate 4 0) @ enc_attrs ?as @ []" by (simp add: link_msg_def Let_def)
  have ok: "\<forall>x \<in> set ?as. enc_ok x"
    using assms(3,5,7) by (simp add: enc_ok_def name_ok_def netlink_consts)
  have "?len \<le> 100" using length_enc_attrs_le [of ?as] assms(3,5,7) by (simp add: name_ok_def)
  then have len: "rd32 ?m 0 = Inr (32 + ?len)"
    using rd32_le32_append [of "32 + ?len" "[]" 0] by (simp add: link_msg_def Let_def)
  have fl: "rd32 ?m 24 = Inr flags"
    using rd32_le32_append [OF assms(8), of ?hd 24] by (simp add: m)
  obtain tb where tb: "parse_rtattr ?m (\<lambda>_. None) (IFLA_MAX E) 32 (int (32 + ?len) - int 32) = Inr tb"
    and d: "\<And>t buf. dispatch_rta ?m tb t buf =
        (case (if t \<le> IFLA_MAX E then map_of (rev ?as) t else None) of
           None \<Rightarrow> Inr buf | Some d \<Rightarrow> memcpy buf d)"
    by (rule parse_attrs_of_msg [OF ok m, of 32 "IFLA_MAX E"]) auto
  have tb': "parse_rtattr ?m (\<lambda>_. None) (IFLA_MAX E) 32 (int (32 + ?len) - 32) = Inr tb" using tb by simp
  have nm: "rbind (dispatch_rta ?m tb IFLA_IFNAME (replicate 16 0)) cstring = Inr n"
    using d cstring_name [OF assms(3)] assms(9) by (simp add: netlink_consts)
  let ?a = "(attrs st p)\<lparr>up := IFF_UP flags, port_link := IFF_LOWER_UP flags, mtu := mt,
     hwaddr := hw @ drop (length hw) (hwaddr (attrs st p))\<rparr>"
  let ?wr = "ifinfomsg_write ?m 0 tb"
  have wr: "?wr (attrs st p) = (if 6 < length hw then Inl OutOfBounds else Inr ?a)"
    using d fl assms(5,9) pok
    by (simp add: ifinfomsg_write_def netlink_consts memcpy_def attr_ok_def)
  show ?thesis
  proof (cases "6 < length hw")
    case True
    then have "?wr (attrs st p) = Inl OutOfBounds" using wr by simp
    note W = with_mutex_node_upd_fault [where f = ?wr, OF t px this]
    show ?thesis
      using True W assms(4) node_of_name_found [OF t assms(2)]
      unfolding ifinfomsg_handle_def len obind.simps add_0 tb' nm by simp
  next
    case False
    then have wr': "?wr (attrs st p) = Inr ?a" using wr by simp
    have aok: "attr_ok ?a" "ifname ?a = ifname (attrs st p)"
      using pok assms(5) False by (simp_all add: attr_ok_def)
    note W = write_then_notify [where f = ?wr, OF t assms(2) wr' aok]
    have ne: "RTM_NEWLINK \<noteq> RTM_DELLINK" by (simp add: netlink_consts)
    have tp: "type = RTM_NEWLINK \<or> type = RTM_DELLINK" using assms(10) by simp
    show ?thesis
      using tp False ne W assms(4) node_of_name_found [OF t assms(2)]
      unfolding ifinfomsg_handle_def len obind.simps add_0 tb' nm
      by (cases "IFF_UP flags") (auto simp: Let_def)
  qed
qed

theorem ifinfomsg_handle_effect_witness:
  "ifinfomsg_handle demo_env RTM_NEWLINK
      (link_msg RTM_NEWLINK 65537 [101] [220, 5, 0, 0] [2, 0, 0, 0, 0, 1]) 0 one_net
    = Some (Inr (one_net\<lparr>attrs := (attrs one_net)(2 := (attrs one_net 2)\<lparr>up := True, port_link := True,
        mtu := [220, 5, 0, 0], hwaddr := [2, 0, 0, 0, 0, 1], current_state := 2\<rparr>)\<rparr>,
      [LogLink RTM_NEWLINK [101] True, LogUp [101]]))
  \<and> ifinfomsg_handle demo_env RTM_NEWLINK
      (link_msg RTM_NEWLINK 65537 [101] [220, 5, 0, 0] (replicate 20 0)) 0 one_net
    = Some (Inl OutOfBounds)"
  using ifinfomsg_handle_effect [OF one_net_facts, of "[220, 5, 0, 0]" "[2, 0, 0, 0, 0, 1]" 65537 demo_env RTM_NEWLINK]
    ifinfomsg_handle_effect [OF one_net_facts, of "[220, 5, 0, 0]" "replicate 20 0" 65537 demo_env RTM_NEWLINK]
  by (simp add: demo_env_def one_net_def netlink_consts zero_attr_def IFF_UP_def IFF_LOWER_UP_def bit_iff_odd Let_def)

end
