(* ===== verification/Tools.thy ===== *)
theory Tools
  imports Prelude
begin

text \<open>
  tools.c, of which the four network programs have the same copy: the log line with the
  file name cut out of a path, the creation of threads, and the two functions that run a
  shell command. A string is its bytes without the terminator, a null pointer \<open>None\<close>.
\<close>

section \<open>Log lines\<close>

text \<open>The loop from index \<open>i - 1\<close> down to 0; \<open>revr_index\<close> is 0 in every call.\<close>

fun find_ch_down :: "u8 list \<Rightarrow> u8 \<Rightarrow> nat \<Rightarrow> int" where
  "find_ch_down str ch 0 = -2"
| "find_ch_down str ch (Suc i) = (if str ! i = ch then int i else find_ch_down str ch i)"

definition log_str_find_last_ch :: "u8 list option \<Rightarrow> nat \<Rightarrow> u8 \<Rightarrow> int" where
  "log_str_find_last_ch str revr_index ch =
     (case str of None \<Rightarrow> -1
      | Some s \<Rightarrow> if length s \<le> revr_index then -1 else find_ch_down s ch (length s - revr_index))"

definition chars :: "string \<Rightarrow> u8 list" where
  "chars s = map (\<lambda>c. of_nat (of_char c)) s"

definition SLASH :: u8 where "SLASH = 47"
definition BACKSLASH :: u8 where "BACKSLASH = 92"

definition log_file_name :: "u8 list option \<Rightarrow> u8 list" where
  "log_file_name file =
     (case file of None \<Rightarrow> chars ''Null''
      | Some f \<Rightarrow>
          let pos = log_str_find_last_ch file 0 SLASH in
          if pos < 0 then
            let pos = log_str_find_last_ch file 0 BACKSLASH in
            if 0 \<le> pos then drop (nat pos + 1) f else f
          else drop (nat pos + 1) f)"

text \<open>\<open>%d\<close> of a line number.\<close>

function decimal :: "nat \<Rightarrow> u8 list" where
  "decimal n = (if n < 10 then [of_nat (48 + n)] else decimal (n div 10) @ [of_nat (48 + n mod 10)])"
  by pat_completeness auto
termination by (relation "measure id") auto

declare decimal.simps [simp del]

text \<open>
  The line that is printed. \<open>text\<close> is the formatted message; \<open>vsnprintf\<close> and
  \<open>snprintf\<close> cut at 1023 bytes.
\<close>

definition MAX_LOG_LENGTH :: nat where "MAX_LOG_LENGTH = 1024"

definition common_log_print ::
  "u8 list \<Rightarrow> u8 list option \<Rightarrow> u8 list \<Rightarrow> nat \<Rightarrow> u8 list \<Rightarrow> u8 list" where
  "common_log_print flag_str file func line text =
     (let str_tmp = take (MAX_LOG_LENGTH - 1) text in
      take (MAX_LOG_LENGTH - 1)
        (flag_str @ chars '':['' @ log_file_name file @ chars '']:['' @ func @ chars '':'' @ decimal line
         @ chars '']:'' @ str_tmp))"

section \<open>Threads\<close>

datatype sched = SCHED_OTHER | SCHED_FIFO | SCHED_RR

record pthread_attr =
  schedpolicy :: sched
  sched_priority :: int
  detached :: bool

text \<open>
  The attributes after \<open>pthread_attr_init\<close>, and what the function sets in them. The
  setters' results are not tested: those of a real kernel accept these values.
\<close>

definition attr_init :: pthread_attr where
  "attr_init = \<lparr>schedpolicy = SCHED_OTHER, sched_priority = 0, detached = False\<rparr>"

definition thread_attr :: "sched \<Rightarrow> int \<Rightarrow> pthread_attr" where
  "thread_attr sched_policy prio =
     (let attr = (case sched_policy of
          SCHED_OTHER \<Rightarrow> attr_init
        | _ \<Rightarrow> attr_init\<lparr>schedpolicy := sched_policy,
            sched_priority := (if prio > 0 \<and> prio < 100 then prio else 99)\<rparr>)
      in attr\<lparr>detached := True\<rparr>)"

text \<open>
  The result of \<open>pthread_create\<close> with the attributes is a parameter; \<open>thrid\<close> and
  \<open>thr_process\<close> tell which of the pointers are not null.
\<close>

definition common_create_thread ::
  "(pthread_attr \<Rightarrow> int) \<Rightarrow> bool \<Rightarrow> bool \<Rightarrow> sched \<Rightarrow> int \<Rightarrow> int" where
  "common_create_thread pthread_create thrid thr_process sched_policy prio =
     (if \<not> thrid \<or> \<not> thr_process then -1
      else if pthread_create (thread_attr sched_policy prio) \<noteq> 0 then -1 else 0)"

definition common_cancel_thread :: "('t \<Rightarrow> int) \<Rightarrow> 't \<Rightarrow> int" where
  "common_cancel_thread pthread_cancel thrid = pthread_cancel thrid"

section \<open>Commands\<close>

text \<open>
  What the system does with a command: whether \<open>popen\<close> gives a stream, the results of the
  second \<open>fcntl\<close> and of \<open>select\<close>, whether the stream is in the set, the bytes the stream
  has for \<open>fread\<close>, and the result of \<open>pclose\<close>.
\<close>

record shell =
  popen_ok :: bool
  setfl :: int
  selected :: int
  isset :: bool
  stream :: "u8 list"
  pclosed :: int

definition common_popen_return_result ::
  "shell \<Rightarrow> bool \<Rightarrow> u8 list option \<Rightarrow> int \<Rightarrow> int \<times> u8 list option" where
  "common_popen_return_result sh pCmd result result_len =
     (case result of None \<Rightarrow> (-1, None)
      | Some r \<Rightarrow>
          if \<not> pCmd \<or> result_len \<le> 0 then (-1, Some r)
          else if \<not> popen_ok sh then (-1, Some r)
          else
            let r = (if setfl sh < 0 then r
              else if selected sh < 0 then r
              else if selected sh = 0 then r
              else if isset sh then put 0 (take (nat result_len) (stream sh)) r else r)
            in (if pclosed sh = -1 then -1 else 0, Some r))"

definition common_popen :: "shell \<Rightarrow> int" where
  "common_popen sh = (if \<not> popen_ok sh then -1 else if pclosed sh = -1 then -1 else 0)"

section \<open>Properties\<close>

text \<open>The specification of the search: the last occurrence.\<close>

lemma find_ch_down_spec:
  assumes "i \<le> length s"
  shows "(find_ch_down s ch i = -2 \<and> ch \<notin> set (take i s))
    \<or> (\<exists>k < i. find_ch_down s ch i = int k \<and> s ! k = ch \<and> ch \<notin> set (drop (k + 1) (take i s)))"
  using assms
proof (induction i)
  case (Suc i)
  have t: "take (Suc i) s = take i s @ [s ! i]" using Suc.prems by (simp add: take_Suc_conv_app_nth)
  show ?case
  proof (cases "s ! i = ch")
    case True
    then show ?thesis using Suc.prems by (intro disjI2 exI [of _ i]) simp
  next
    case False
    with Suc show ?thesis unfolding t by (auto simp: less_Suc_eq)
  qed
qed simp

text \<open>The part of a string after the last occurrence of a byte.\<close>

fun after_last :: "u8 \<Rightarrow> u8 list \<Rightarrow> u8 list" where
  "after_last ch [] = []"
| "after_last ch (x # xs) = (if ch \<in> set xs then after_last ch xs else if x = ch then xs else x # xs)"

lemma after_last_none: "ch \<notin> set s \<Longrightarrow> after_last ch s = s"
  by (cases s) auto

lemma after_last_at: "k < length s \<Longrightarrow> s ! k = ch \<Longrightarrow> ch \<notin> set (drop (k + 1) s) \<Longrightarrow> after_last ch s = drop (k + 1) s"
proof (induction s arbitrary: k)
  case (Cons x xs)
  then show ?case by (cases k) (auto simp: in_set_conv_nth)
qed simp

lemma log_str_find_last_ch_spec:
  "if ch \<in> set s then \<exists>k. log_str_find_last_ch (Some s) 0 ch = int k \<and> drop (k + 1) s = after_last ch s
   else log_str_find_last_ch (Some s) 0 ch < 0"
proof (cases "s = []")
  case False
  then show ?thesis
    using find_ch_down_spec [of "length s" s ch] after_last_at [of _ s ch]
    by (auto simp: log_str_find_last_ch_def)
qed (simp add: log_str_find_last_ch_def)

text \<open>
  The name printed in a log line is the part of the path after its last slash, or, when
  there is none, after its last backslash; a path without either is printed whole, and no
  printed line is longer than 1023 bytes.
\<close>

theorem common_log_print_file:
  "log_file_name file = (case file of None \<Rightarrow> chars ''Null''
      | Some f \<Rightarrow> if SLASH \<in> set f then after_last SLASH f else after_last BACKSLASH f)
    \<and> length (common_log_print flag_str file func line text) \<le> 1023"
proof
  show "length (common_log_print flag_str file func line text) \<le> 1023"
    by (simp add: common_log_print_def Let_def MAX_LOG_LENGTH_def del: take_append length_append)
  show "log_file_name file = (case file of None \<Rightarrow> chars ''Null''
      | Some f \<Rightarrow> if SLASH \<in> set f then after_last SLASH f else after_last BACKSLASH f)"
  proof (cases "file")
    case (Some f)
    then show ?thesis
      using log_str_find_last_ch_spec [of SLASH f] log_str_find_last_ch_spec [of BACKSLASH f]
      by (auto simp: log_file_name_def after_last_none split: if_splits)
  qed (simp add: log_file_name_def)
qed

text \<open>
  A command whose output could not be read is reported as success: when the descriptor
  cannot be made non-blocking, when \<open>select\<close> fails or times out after its five seconds,
  the function returns 0 and leaves the caller's buffer as it was. When it does read, it
  stores at most the given number of bytes, and no terminator.
\<close>

theorem common_popen_return_result_paths:
  assumes "popen_ok sh" and "pclosed sh \<noteq> -1" and "0 < result_len" and "nat result_len \<le> length r"
  shows "(setfl sh < 0 \<or> selected sh \<le> 0 \<longrightarrow> common_popen_return_result sh True (Some r) result_len = (0, Some r))
    \<and> (0 \<le> setfl sh \<and> 0 < selected sh \<and> isset sh \<longrightarrow>
        (\<exists>r'. common_popen_return_result sh True (Some r) result_len = (0, Some r') \<and> length r' = length r
          \<and> take (min (nat result_len) (length (stream sh))) r' = take (nat result_len) (stream sh)
          \<and> drop (min (nat result_len) (length (stream sh))) r' = drop (min (nat result_len) (length (stream sh))) r))"
  using assms by (auto simp: common_popen_return_result_def put_def min_def)

theorem common_popen_return_result_paths_witness:
  "common_popen_return_result \<lparr>popen_ok = True, setfl = 0, selected = 0, isset = False, stream = [65], pclosed = 0\<rparr>
     True (Some [1, 2, 3]) 3 = (0, Some [1, 2, 3])"
  using common_popen_return_result_paths
    [of "\<lparr>popen_ok = True, setfl = 0, selected = 0, isset = False, stream = [65], pclosed = 0\<rparr>" 3 "[1, 2, 3]"]
  by simp

lemma thread_priority_range: "thread_attr p n = a \<Longrightarrow> schedpolicy a \<noteq> SCHED_OTHER \<Longrightarrow> 1 \<le> sched_priority a \<and> sched_priority a \<le> 99"
  by (cases p) (auto simp: thread_attr_def attr_init_def)

end
