(* ===== verification/NetifServer.thy ===== *)
theory NetifServer
  imports NetifEvent Tools "HOL-Library.State_Monad"
begin

text \<open>
  The server of the netlink event program, netif_event.c: opening and binding the netlink
  socket, the dump request, the receiver thread and the initialisation, which starts the
  thread before it initialises the table. The kernel is a parameter, as in the theory of the
  socket programs. The log lines are left out.
\<close>

section \<open>Calls\<close>

datatype nl_call =
    Epoll_create int
  | Nl_socket
  | Nl_bind int u32  \<comment> \<open>with \<open>nl_groups\<close>\<close>
  | Nl_close int
  | Epoll_add int int
  | Sendmsg int "u8 list"
  | Pthread_create pthread_attr
  | Mutex_init

type_synonym nl_kernel = "(nl_call \<times> int) list \<Rightarrow> nl_call \<Rightarrow> int"

text \<open>\<open>netinfo_manage\<close> and the calls so far.\<close>

record server =
  epollfd :: int
  nlfd :: int
  nl_calls :: "(nl_call \<times> int) list"

type_synonym 'a prog = "(server, 'a) state"

definition nl_sys :: "nl_kernel \<Rightarrow> nl_call \<Rightarrow> int prog" where
  "nl_sys K c = State (\<lambda>s. (K (nl_calls s) c, s\<lparr>nl_calls := nl_calls s @ [(c, K (nl_calls s) c)]\<rparr>))"

text \<open>The macro \<open>func_exec\<close> with the variable it assigns: the rest runs when the call did not fail.\<close>

definition nl_exec :: "int prog \<Rightarrow> (int \<Rightarrow> server \<Rightarrow> server) \<Rightarrow> int prog \<Rightarrow> int prog" where
  "nl_exec call assign rest = do {
     ret \<leftarrow> call;
     State (\<lambda>s. ((), assign ret s));
     if ret < 0 then State_Monad.return ret else rest }"

section \<open>The steps of the initialisation\<close>

definition epoll_add_fd :: "nl_kernel \<Rightarrow> int \<Rightarrow> int \<Rightarrow> int prog" where
  "epoll_add_fd K efd n = do {
     r \<leftarrow> nl_sys K (Epoll_add efd n);
     State_Monad.return (if r < 0 then -1 else 0) }"

text \<open>\<open>RTMGRP_LINK | RTMGRP_IPV4_IFADDR\<close>\<close>

definition nl_groups :: u32 where
  "nl_groups = 1 OR 16"

definition create_netlink_socket :: "nl_kernel \<Rightarrow> int prog" where
  "create_netlink_socket K = do {
     n \<leftarrow> nl_sys K Nl_socket;
     if n < 0 then State_Monad.return (-1)
     else do {
       ret \<leftarrow> nl_sys K (Nl_bind n nl_groups);
       if ret < 0 then do { _ \<leftarrow> nl_sys K (Nl_close n); State_Monad.return (-1) }
       else State_Monad.return n } }"

text \<open>
  The dump request: \<open>struct nlmsghdr\<close> and \<open>struct ifaddrmsg\<close>, cleared and then filled in.
  The flags are \<open>NLM_F_REQUEST | NLM_F_DUMP\<close>; the family is \<open>AF_INET\<close>, whatever the argument.
\<close>

definition RTM_GETADDR :: nat where "RTM_GETADDR = 22"
definition AF_INET :: u8 where "AF_INET = 2"

definition coldboot_request :: "nat \<Rightarrow> u8 list" where
  "coldboot_request type =
     le32 (16 + 8) @ le16 (type mod 65536) @ le16 (1 + 256 + 512) @ le32 1 @ le32 0
     @ AF_INET # replicate 7 0"

definition netif_coldboot :: "nl_kernel \<Rightarrow> u8 \<Rightarrow> nat \<Rightarrow> int \<Rightarrow> int prog" where
  "netif_coldboot K family type sock_fd =
     (if sock_fd < 0 then State_Monad.return (-1)
      else do {
        ret \<leftarrow> nl_sys K (Sendmsg sock_fd (coldboot_request type));
        State_Monad.return (if ret < 0 then -1 else 0) })"

text \<open>The thread is created with the policy \<open>SCHED_OTHER\<close> and both pointers set.\<close>

definition receiver_attr :: pthread_attr where
  "receiver_attr = thread_attr SCHED_OTHER 0"

definition create_receiver :: "nl_kernel \<Rightarrow> int prog" where
  "create_receiver K = do {
     ret \<leftarrow> nl_sys K (Pthread_create receiver_attr);
     State_Monad.return (common_create_thread (\<lambda>attr. ret) True True SCHED_OTHER 0) }"

text \<open>The calls of \<open>netif_event_server_init\<close> up to the start of the receiver.\<close>

definition server_start :: "nl_kernel \<Rightarrow> int prog" where
  "server_start K =
     nl_exec (nl_sys K (Epoll_create 256)) (\<lambda>r s. s\<lparr>epollfd := r\<rparr>) (
     nl_exec (create_netlink_socket K) (\<lambda>r s. s\<lparr>nlfd := r\<rparr>) (
     do { efd \<leftarrow> State (\<lambda>s. (epollfd s, s)); nfd \<leftarrow> State (\<lambda>s. (nlfd s, s));
     nl_exec (epoll_add_fd K efd nfd) (\<lambda>r s. s) (
     nl_exec (netif_coldboot K AF_INET RTM_GETADDR nfd) (\<lambda>r s. s) (
     nl_exec (create_receiver K) (\<lambda>r s. s) (
     State_Monad.return 0))) }))"

section \<open>The receiver\<close>

text \<open>
  The results of \<open>epoll_wait\<close>, each a list of descriptors with \<open>EPOLLIN\<close> set or not
  (empty for an error). The first readable event of the netlink socket enters
  \<open>netlink_event_handle\<close>, which does not return.
\<close>

fun rcv_netinfo_process ::
  "env \<Rightarrow> int \<Rightarrow> (int \<times> bool) list list \<Rightarrow> u8 list option list \<Rightarrow> net_out \<Rightarrow> (fault + net_out) option" where
  "rcv_netinfo_process E n [] rs out = Some (Inr out)"
| "rcv_netinfo_process E n (events # evs) rs out =
     (if (n, True) \<in> set events then netlink_event_handle E rs (replicate 2048 0) out
      else rcv_netinfo_process E n evs rs out)"

section \<open>Initialisation\<close>

text \<open>
  \<open>netif_head\<close> as the program starts: both links null. \<open>COMMON_INIT_LIST_HEAD\<close> makes it
  the empty list; a new mutex is free.
\<close>

definition boot_table :: net_state where
  "boot_table = \<lparr>lh = [netif_head \<mapsto> \<lparr>l_next = NULL, l_prev = NULL\<rparr>], attrs = (\<lambda>_. zero_attr),
     list_sum = 0, locked = False\<rparr>"

definition init_table :: "net_state \<Rightarrow> fault + net_state" where
  "init_table st = rbind (init_list_head netif_head (lh st)) (\<lambda>h. Inr (st\<lparr>lh := h, locked := False\<rparr>))"

text \<open>
  The result, the server and the table. \<open>early\<close> is what the receiver does between its
  start and the initialisation of the table.
\<close>

definition netif_event_server_init ::
  "nl_kernel \<Rightarrow> (net_out \<Rightarrow> (fault + net_out) option) \<Rightarrow> server \<Rightarrow> net_out
    \<Rightarrow> (fault + int \<times> server \<times> net_out) option" where
  "netif_event_server_init K early s out =
     (let (ret, s) = run_state (server_start K) s in
      if ret < 0 then Some (Inr (ret, s, out))
      else obind (early out) (\<lambda>(st, log).
        let (ret, s) = run_state (nl_sys K Mutex_init) s in
        if ret < 0 then Some (Inr (ret, s, (st, log)))
        else obind (Some (init_table st)) (\<lambda>st. Some (Inr (0, s, (st, log))))))"

text \<open>
  \<open>main\<close>: an initialisation that fails ends the program with its result; otherwise the
  main thread sleeps for ever, which is \<open>None\<close>.
\<close>

definition server_main ::
  "nl_kernel \<Rightarrow> (net_out \<Rightarrow> (fault + net_out) option) \<Rightarrow> (fault + int) option" where
  "server_main K early =
     obind (netif_event_server_init K early \<lparr>epollfd = 0, nlfd = 0, nl_calls = []\<rparr> (boot_table, []))
       (\<lambda>(ret, s, out). if ret < 0 then Some (Inr ret) else None)"

section \<open>The table before and after the initialisation\<close>

lemma init_boot_table:
  "\<exists>st. init_table boot_table = Inr st \<and> net_table st [] \<and> finite (Collect (allocated (lh st)))"
proof -
  have "Collect (allocated [p \<mapsto> c]) = {p}" for p c by (auto simp: allocated_def split: if_splits)
  then show ?thesis
    by (simp add: init_table_def init_list_head_def set_next_def set_prev_def boot_table_def net_table_def
    dll_def nxt_def prv_def node_names_def)
qed

lemma find_boot_table: "netif_node_find n boot_table = Some (Inl (BadAccess NULL))"
  by (simp add: netif_node_find_def mutex_lock_def boot_table_def common_list_for_each_def get_next_def
    list_for_each_from.simps name_at_def netif_head_def)


section \<open>The addresses that are served\<close>

text \<open>What the table says to its users: the address of a name.\<close>

definition addresses :: "net_state \<Rightarrow> name \<Rightarrow> u8 list option" where
  "addresses st n = map_option (\<lambda>p. ipaddr (attrs st p)) (lookup st n)"

text \<open>There is memory as long as only finitely many cells are taken.\<close>

definition memory_left :: "env \<Rightarrow> bool" where
  "memory_left E = (\<forall>st. finite (Collect (allocated (lh st))) \<longrightarrow> malloc E st \<noteq> None)"

definition in_service :: "net_state \<Rightarrow> bool" where
  "in_service st = (net_wf st \<and> finite (Collect (allocated (lh st))))"

text \<open>The node of a name that the handler finds or adds; no other address changes.\<close>

lemma node_in_service:
  assumes "malloc_fresh E" and "memory_left E" and "in_service st" and "name_ok n"
  shows "\<exists>p st'. node_of_name E n st = Some (Inr (Some p, st')) \<and> in_service st' \<and> lookup st' n = Some p
    \<and> (\<forall>k. k \<noteq> n \<longrightarrow> addresses st' k = addresses st k)"
proof -
  obtain xs where t: "net_table st xs" using assms(3) by (auto simp: in_service_def net_wf_def)
  show ?thesis
  proof (cases "lookup st n")
    case (Some p)
    then show ?thesis using node_of_name_found [OF t Some] assms(3) by auto
  next
    case None
    obtain p where p: "malloc E st = Some p" using assms(2,3) by (auto simp: memory_left_def in_service_def)
    then have fresh: "lh st p = None" using assms(1) by (simp add: malloc_fresh_def)
    have "n \<notin> set (node_names st xs)" using None lookup_None [OF t] by simp
    from netif_node_add_table [OF t fresh assms(4) this] obtain st' where
      st': "netif_node_add (Some p) (Some n) st = Inr (Some p, st')" "net_table st' (p # xs)"
        "attrs st' = (attrs st)(p := zero_attr\<lparr>ifname := strncpy 16 n\<rparr>)"
        "allocated (lh st') = (allocated (lh st))(p := True)" by blast
    have px: "p \<notin> set xs" using net_table_D(7) [OF t, of p] fresh by auto
    have l: "lookup st' = (lookup st)(n \<mapsto> p)" by (rule lookup_add [OF t st'(2) px assms(4) st'(3)])
    have "addresses st' k = addresses st k" if "k \<noteq> n" for k
    proof (cases "lookup st k")
      case (Some q)
      then have "q \<noteq> p" using lookup_Some [OF t Some] px by auto
      then show ?thesis using Some that st'(3) by (simp add: addresses_def l)
    qed (use that in \<open>simp add: addresses_def l\<close>)
    moreover have "node_of_name E n st = Some (Inr (Some p, st'))"
      using netif_node_find_table [OF t, of n] lookup_table [OF t, of n] None st'(1) p
      by (simp add: node_of_name_def find_or_add_def)
    moreover have "Collect (allocated (lh st')) = insert p (Collect (allocated (lh st)))" using st'(4) by auto
    then have "in_service st'" using st'(2) assms(3) by (auto simp: in_service_def net_wf_def)
    ultimately show ?thesis using l by auto
  qed
qed

definition announces :: "name \<times> u8 list \<Rightarrow> bool" where
  "announces x = (name_ok (fst x) \<and> fst x \<noteq> [] \<and> length (snd x) = 4)"

lemma address_served:
  assumes "malloc_fresh E" and "memory_left E" and "in_service st" and "announces (n, a)"
    and "3 \<le> IFA_MAX E" and m: "m = addr_msg type n a @ post"
  shows "\<exists>st' log. ifaddrmsg_handle E RTM_NEWADDR m 0 st = Some (Inr (st', log)) \<and> in_service st'
    \<and> addresses st' = (addresses st)(n \<mapsto> a)"
proof -
  have n: "name_ok n" "n \<noteq> []" "length a = 4" using assms(4) by (simp_all add: announces_def)
  let ?len = "length (enc_attrs [(IFA_LABEL, n @ [0]), (IFA_ADDRESS, a)])"
  obtain tb where len: "rd32 m 0 = Inr (24 + ?len)"
    and tb: "parse_rtattr m (\<lambda>_. None) (IFA_MAX E) 24 (int (24 + ?len) - 24) = Inr tb"
    and nm: "rbind (dispatch_rta m tb IFA_LABEL (replicate 16 0)) cstring = Inr n"
    and d: "\<And>buf. dispatch_rta m tb IFA_ADDRESS buf = memcpy buf a"
    by (rule addr_msg_parsed [OF n(1,3) assms(5) m]) (rule that)
  obtain p st1 where nd: "node_of_name E n st = Some (Inr (Some p, st1))" "in_service st1" "lookup st1 n = Some p"
    "\<forall>k. k \<noteq> n \<longrightarrow> addresses st1 k = addresses st k"
    using node_in_service [OF assms(1-3) n(1)] by blast
  obtain xs where t: "net_table st1 xs" using nd(2) by (auto simp: in_service_def net_wf_def)
  have px: "p \<in> set xs" using lookup_Some [OF t nd(3)] by simp
  let ?a = "(attrs st1 p)\<lparr>ipaddr := a\<rparr>"
  have aok: "attr_ok ?a" "ifname ?a = ifname (attrs st1 p)" using net_table_D(4) [OF t px] n(3) by (simp_all add: attr_ok_def)
  have wr: "ifaddrmsg_write m tb (attrs st1 p) = Inr ?a"
    using d n(3) net_table_D(4) [OF t px] by (simp add: ifaddrmsg_write_def memcpy_def attr_ok_def)
  note W = write_then_notify [where f = "ifaddrmsg_write m tb", OF t nd(3) wr aok]
  let ?b = "notified IF_NEWADDR ?a"
  let ?st = "st1\<lparr>attrs := (attrs st1)(p := ?b)\<rparr>"
  have b: "attr_ok ?b" "ifname ?b = ifname (attrs st1 p)" "ipaddr ?b = a"
    using attr_ok_notified [OF aok(1), of IF_NEWADDR] aok(2) by simp_all
  have l: "lookup ?st = lookup st1" by (rule lookup_upd [OF t nd(3) b(1,2)])
  have "addresses ?st k = ((addresses st)(n \<mapsto> a)) k" for k
  proof (cases "k = n")
    case True
    then show ?thesis using l nd(3) b(3) by (simp add: addresses_def del: notified.simps)
  next
    case False
    have "q \<noteq> p" if "lookup st1 k = Some q" for q
      using lookup_Some [OF t that] lookup_Some [OF t nd(3)] False by auto
    then have "addresses ?st k = addresses st1 k" using l by (cases "lookup st1 k") (simp_all add: addresses_def del: notified.simps)
    then show ?thesis using nd(4) False by simp
  qed
  moreover have "in_service ?st" using net_table_upd [OF t px b(1,2)] nd(2) by (auto simp: in_service_def net_wf_def)
  moreover have "\<exists>log. ifaddrmsg_handle E RTM_NEWADDR m 0 st = Some (Inr (?st, log))"
    using n(2) W nd(1) unfolding ifaddrmsg_handle_def len obind.simps add_0 tb nm by simp
  ultimately show ?thesis by blast
qed

lemma datagram_served:
  assumes "malloc_fresh E" and "memory_left E" and "in_service st" and "announces (n, a)"
    and "3 \<le> IFA_MAX E" and m: "m = addr_msg RTM_NEWADDR n a @ post"
  shows "\<exists>st' log'. nl_messages E m 0 (int (length (addr_msg RTM_NEWADDR n a))) (st, log) = Some (Inr (st', log'))
    \<and> in_service st' \<and> addresses st' = (addresses st)(n \<mapsto> a)"
proof -
  let ?as = "enc_attrs [(IFA_LABEL, n @ [0]), (IFA_ADDRESS, a)]"
  have n: "name_ok n" "length a = 4" using assms(4) by (simp_all add: announces_def)
  obtain tb where len: "rd32 m 0 = Inr (24 + length ?as)"
    by (rule addr_msg_parsed [OF n assms(5) m]) (rule that)
  have l: "length (addr_msg RTM_NEWADDR n a) = 24 + length ?as" by (simp add: addr_msg_def Let_def)
  have "m = le32 (24 + length ?as) @ le16 RTM_NEWADDR @ replicate 10 0 @ replicate 8 0 @ ?as @ post"
    by (simp add: m addr_msg_def Let_def)
  then have ty: "rd16 m 4 = Inr RTM_NEWADDR"
    using rd16_le16_append [of RTM_NEWADDR "le32 (24 + length ?as)" 4] by (simp add: RTM_NEWADDR_def)
  obtain st' log' where h: "ifaddrmsg_handle E RTM_NEWADDR m 0 st = Some (Inr (st', log'))" "in_service st'"
    "addresses st' = (addresses st)(n \<mapsto> a)" using address_served [OF assms] by blast
  have "nl_messages E m (RTA_ALIGN (24 + length ?as)) (int (24 + length ?as) - int (RTA_ALIGN (24 + length ?as))) out = Some (Inr out)" for out
    using RTA_ALIGN_ge [of "24 + length ?as"] by (subst nl_messages.simps) simp
  then have "nl_messages E m 0 (int (24 + length ?as)) (st, log) = Some (Inr (st', log @ log'))"
    using len ty h(1) by (subst nl_messages.simps) (simp add: dispatch_msg_def netlink_consts)
  with h(2,3) show ?thesis unfolding l by blast
qed

lemma datagrams_served:
  assumes "malloc_fresh E" and "memory_left E" and "3 \<le> IFA_MAX E"
  shows "in_service st \<Longrightarrow> \<forall>x \<in> set xs. announces x \<Longrightarrow>
    \<exists>st' log'. netlink_event_handle E (map (\<lambda>(n, a). Some (addr_msg RTM_NEWADDR n a)) xs) buff (st, log) = Some (Inr (st', log'))
      \<and> in_service st' \<and> addresses st' = addresses st ++ map_of (rev xs)"
proof (induction xs arbitrary: st log buff)
  case (Cons x xs)
  obtain n a where x: "x = (n, a)" by (cases x)
  let ?m = "addr_msg RTM_NEWADDR n a"
  let ?b = "?m @ drop (length ?m) buff"
  obtain st1 log1 where s: "nl_messages E ?b 0 (int (length ?m)) (st, log) = Some (Inr (st1, log1))" "in_service st1"
    "addresses st1 = (addresses st)(n \<mapsto> a)"
    using datagram_served [OF assms(1,2) Cons.prems(1) _ assms(3) refl, where log = log and post = "drop (length ?m) buff", of n a]
      Cons.prems(2) x by auto
  obtain st2 log2 where r: "netlink_event_handle E (map (\<lambda>(n, a). Some (addr_msg RTM_NEWADDR n a)) xs) ?b (st1, log1) = Some (Inr (st2, log2))"
    "in_service st2" "addresses st2 = addresses st1 ++ map_of (rev xs)"
    using Cons.IH [OF s(2), where log = log1 and buff = ?b] Cons.prems(2) by auto
  have "addresses st2 = addresses st ++ map_of (rev (x # xs))" using r(3) s(3) by (simp add: x)
  then show ?case using s(1) r(1,2) by (simp add: x Let_def)
qed simp

section \<open>Serving\<close>

text \<open>A kernel that accepts every call.\<close>

definition nl_accepts :: "nl_kernel \<Rightarrow> bool" where
  "nl_accepts K \<longleftrightarrow> (\<forall>tr c. 0 \<le> K tr c) \<and> (\<forall>tr. K tr (Pthread_create receiver_attr) = 0)"

lemma run_nl_sys [simp]:
  "run_state (nl_sys K c) s = (K (nl_calls s) c, s\<lparr>nl_calls := nl_calls s @ [(c, K (nl_calls s) c)]\<rparr>)"
  by (simp add: nl_sys_def)

lemma run_bind: "run_state (State_Monad.bind p f) s = (case run_state p s of (x, t) \<Rightarrow> run_state (f x) t)"
  by (simp add: State_Monad.bind_def)

lemma run_return [simp]: "run_state (State_Monad.return x) s = (x, s)"
  by (simp add: State_Monad.return_def)

lemma zip_four: "\<exists>rs. [(a, r1), (b, r2), (c, r3), (d, r4)] = zip [a, b, c, d] rs \<and> length rs = 4"
  by (rule exI [of _ "[r1, r2, r3, r4]"]) simp

lemma server_start_accepted:
  assumes "nl_accepts K"
  shows "\<exists>s' rs. run_state (server_start K) s = (0, s') \<and> nl_calls s' = nl_calls s @
      zip [Epoll_create 256, Nl_socket, Nl_bind (nlfd s') nl_groups, Epoll_add (epollfd s') (nlfd s'),
       Sendmsg (nlfd s') (coldboot_request RTM_GETADDR), Pthread_create receiver_attr] (epollfd s' # nlfd s' # rs)
      \<and> length rs = 4"
proof -
  have "\<not> K tr c < 0" "K tr (Pthread_create receiver_attr) = 0" for tr c using assms by (simp_all add: nl_accepts_def not_less)
  then show ?thesis
    by (simp add: server_start_def nl_exec_def create_netlink_socket_def epoll_add_fd_def netif_coldboot_def
      create_receiver_def common_create_thread_def run_bind split_def) (rule zip_four)
qed

lemma rcv_handled:
  assumes "malloc_fresh E" and "net_wf (fst out)" and "\<forall>d. Some d \<in> set rs \<longrightarrow> length d \<le> 2048"
  shows "handled (rcv_netinfo_process E n evs rs out)"
proof (induction evs)
  case Nil
  then show ?case using assms(2) by (cases out) (simp add: handled_def)
next
  case (Cons ev evs)
  then show ?case using netlink_event_handle_handled [OF assms(1,2) _ assms(3), of "replicate 2048 0"] by simp
qed

text \<open>The first readable event of the netlink socket is what starts the handling.\<close>

lemma rcv_readable:
  "\<exists>ev \<in> set evs. (n, True) \<in> set ev \<Longrightarrow>
    rcv_netinfo_process E n evs rs out = netlink_event_handle E rs (replicate 2048 0) out"
  by (induction evs) auto


lemma ifaddrmsg_handle_boot:
  assumes "name_ok n" and "n \<noteq> []" and "length a = 4" and "3 \<le> IFA_MAX E" and m: "m = addr_msg type n a @ post"
  shows "ifaddrmsg_handle E type m 0 boot_table = Some (Inl (BadAccess NULL))"
proof -
  let ?len = "length (enc_attrs [(IFA_LABEL, n @ [0]), (IFA_ADDRESS, a)])"
  obtain tb where "rd32 m 0 = Inr (24 + ?len)"
    "parse_rtattr m (\<lambda>_. None) (IFA_MAX E) 24 (int (24 + ?len) - 24) = Inr tb"
    "rbind (dispatch_rta m tb IFA_LABEL (replicate 16 0)) cstring = Inr n"
    by (rule addr_msg_parsed [OF assms(1,3,4) m]) (rule that)
  with assms(2) show ?thesis
    unfolding ifaddrmsg_handle_def add_0
    by (simp add: node_of_name_def find_or_add_def find_boot_table)
qed

lemma nl_messages_boot:
  assumes "name_ok n" and "n \<noteq> []" and "length a = 4" and "3 \<le> IFA_MAX E"
    and m: "m = addr_msg RTM_NEWADDR n a @ post"
  shows "nl_messages E m 0 (int (length (addr_msg RTM_NEWADDR n a))) (boot_table, log) = Some (Inl (BadAccess NULL))"
proof -
  let ?as = "enc_attrs [(IFA_LABEL, n @ [0]), (IFA_ADDRESS, a)]"
  obtain tb where len: "rd32 m 0 = Inr (24 + length ?as)"
    by (rule addr_msg_parsed [OF assms(1,3,4) m]) (rule that)
  have l: "length (addr_msg RTM_NEWADDR n a) = 24 + length ?as" by (simp add: addr_msg_def Let_def)
  have "m = le32 (24 + length ?as) @ le16 RTM_NEWADDR @ replicate 10 0 @ replicate 8 0 @ ?as @ post"
    by (simp add: m addr_msg_def Let_def)
  then have ty: "rd16 m 4 = Inr RTM_NEWADDR"
    using rd16_le16_append [of RTM_NEWADDR "le32 (24 + length ?as)" 4] by (simp add: RTM_NEWADDR_def)
  show ?thesis
    unfolding l using ifaddrmsg_handle_boot [OF assms] len ty
    by (subst nl_messages.simps) (simp add: dispatch_msg_def netlink_consts)
qed

text \<open>
  C30. The receiver may be scheduled before the table is initialised, and the dump request,
  sent before the thread was started, makes a message wait for it: an address message that
  arrives then is looked up in a list whose links are null, and the program ends in an
  access through the null pointer.
\<close>

theorem server_init_race:
  assumes "nl_accepts K" and "name_ok n" and "n \<noteq> []" and "length a = 4" and "3 \<le> IFA_MAX E"
  shows "netif_event_server_init K
      (rcv_netinfo_process E (nlfd (snd (run_state (server_start K) s)))
         [[(nlfd (snd (run_state (server_start K) s)), True)]] [Some (addr_msg RTM_NEWADDR n a)])
      s (boot_table, log)
    = Some (Inl (BadAccess NULL))"
proof -
  let ?m = "addr_msg RTM_NEWADDR n a"
  obtain s' where s': "run_state (server_start K) s = (0, s')" using server_start_accepted [OF assms(1)] by blast
  have "netlink_event_handle E [Some ?m] (replicate 2048 0) (boot_table, log) = Some (Inl (BadAccess NULL))"
    using nl_messages_boot [OF assms(2-5) refl] by (simp add: Let_def)
  then show ?thesis by (simp add: netif_event_server_init_def s')
qed

definition friendly_kernel :: nl_kernel where
  "friendly_kernel tr c = (case c of Epoll_create n \<Rightarrow> 3 | Nl_socket \<Rightarrow> 4 | _ \<Rightarrow> 0)"

lemma nl_accepts_friendly: "nl_accepts friendly_kernel"
  by (simp add: nl_accepts_def friendly_kernel_def split: nl_call.split)

text \<open>An allocator that gives the address behind the last one in use.\<close>

definition heap_env :: env where
  "heap_env = \<lparr>malloc = (\<lambda>st. if finite (Collect (allocated (lh st)))
      then Some (Suc (Max (insert 0 (Collect (allocated (lh st)))))) else None), IFLA_MAX = 30, IFA_MAX = 8\<rparr>"

lemma heap_env_ok: "malloc_fresh heap_env" "memory_left heap_env" "3 \<le> IFA_MAX heap_env"
proof -
  have "\<not> allocated (lh st) (Suc (Max (insert 0 (Collect (allocated (lh st))))))"
    if "finite (Collect (allocated (lh st)))" for st
  proof
    assume "allocated (lh st) (Suc (Max (insert 0 (Collect (allocated (lh st))))))"
    then have "Suc (Max (insert 0 (Collect (allocated (lh st))))) \<le> Max (insert 0 (Collect (allocated (lh st))))"
      using that by (intro Max_ge) auto
    then show False by simp
  qed
  then show "malloc_fresh heap_env" by (auto simp: malloc_fresh_def heap_env_def allocated_def split: if_splits)
  show "memory_left heap_env" "3 \<le> IFA_MAX heap_env" by (simp_all add: memory_left_def heap_env_def)
qed


theorem server_init_race_witness:
  "netif_event_server_init friendly_kernel
      (rcv_netinfo_process demo_env 4 [[(4, True)]] [Some (addr_msg RTM_NEWADDR [101] [10, 0, 0, 1])])
      \<lparr>epollfd = 0, nlfd = 0, nl_calls = []\<rparr> (boot_table, [])
    = Some (Inl (BadAccess NULL))"
proof -
  have "nlfd (snd (run_state (server_start friendly_kernel) \<lparr>epollfd = 0, nlfd = 0, nl_calls = []\<rparr>)) = 4"
    by (simp add: server_start_def nl_exec_def create_netlink_socket_def epoll_add_fd_def netif_coldboot_def
      create_receiver_def common_create_thread_def run_bind split_def friendly_kernel_def)
  with server_init_race [OF nl_accepts_friendly, of "[101]" "[10, 0, 0, 1]" demo_env "\<lparr>epollfd = 0, nlfd = 0, nl_calls = []\<rparr>" "[]"]
  show ?thesis by (simp add: name_ok_def demo_env_def)
qed

end
