(* ===== verification/NetifDebug.thy ===== *)
theory NetifDebug
  imports NetifEvent
begin

text \<open>
  The printing half of netif_event.c: the handlers \<open>debug_*\<close>, which copy the attributes of
  a message into the structures of netif_event.h and print them. They are exported and can
  be called in place of the handlers of the server. A structure member is its bytes; a copy
  past its end is a fault, and so is printing an array that holds no terminated string.
\<close>

section \<open>Structures and lines\<close>

record ifla_attr =
  l2_local_addr :: "u8 list"      \<comment> \<open>6 bytes\<close>
  l2_broadcast_addr :: "u8 list"  \<comment> \<open>6 bytes\<close>
  ifla_ifname :: "u8 list"        \<comment> \<open>16 bytes\<close>
  ifla_mtu :: "u8 list"           \<comment> \<open>unsigned int\<close>
  link_type :: "u8 list"          \<comment> \<open>int\<close>
  qdisc :: "u8 list"              \<comment> \<open>37 bytes\<close>

record ifa_attr =
  ifa_ifname :: "u8 list"         \<comment> \<open>6 bytes\<close>
  protocal_interface_addr :: "u8 list"  \<comment> \<open>4 bytes, as the others\<close>
  protocal_local_addr :: "u8 list"
  protocal_broadcast_addr :: "u8 list"
  protocal_anycast_addr :: "u8 list"

record if_allinfo =
  if_up :: bool
  link_up :: bool
  new_addr :: bool
  lfla :: ifla_attr
  lfa :: ifa_attr

text \<open>The structures after \<open>memset\<close>.\<close>

definition zero_ifla :: ifla_attr where
  "zero_ifla = \<lparr>l2_local_addr = replicate 6 0, l2_broadcast_addr = replicate 6 0, ifla_ifname = replicate 16 0,
     ifla_mtu = replicate 4 0, link_type = replicate 4 0, qdisc = replicate 37 0\<rparr>"

definition zero_ifa :: ifa_attr where
  "zero_ifa = \<lparr>ifa_ifname = replicate 6 0, protocal_interface_addr = replicate 4 0,
     protocal_local_addr = replicate 4 0, protocal_broadcast_addr = replicate 4 0,
     protocal_anycast_addr = replicate 4 0\<rparr>"

text \<open>The lines printed, with the data they are about; \<open>None\<close> is an unknown address family.\<close>

datatype dbg =
    DRouteType string | DRoute nat bool | DRouteAddr string "u8 list option"
  | DIf name bool | DPortLink name bool | DHwaddr string "u8 list" | DName name
  | DMtu "u8 list" | DLinkType "u8 list" | DQdisc name
  | DProto name bool | DIpaddr string "u8 list" | DEnd

section \<open>Copying the attributes\<close>

text \<open>
  The loop over an array of attribute types: \<open>store\<close> gets the data of each attribute that
  is present and not empty.
\<close>

fun rtattr_loop ::
  "nat list \<Rightarrow> (nat \<Rightarrow> fault + u8 list \<Rightarrow> 'a \<Rightarrow> fault + 'a) \<Rightarrow> u8 list \<Rightarrow> (nat \<Rightarrow> nat option) \<Rightarrow> 'a \<Rightarrow> fault + 'a" where
  "rtattr_loop [] store m rta a = Inr a"
| "rtattr_loop (t # ts) store m rta a =
     (case rta t of None \<Rightarrow> rtattr_loop ts store m rta a
      | Some p \<Rightarrow> rbind (rd16 m p) (\<lambda>rta_len.
          if 0 < rta_datalen rta_len then
            rbind (store t (rd_bytes m (p + 4) (rta_datalen rta_len)) a) (rtattr_loop ts store m rta)
          else rtattr_loop ts store m rta a))"

definition copy_to :: "u8 list \<Rightarrow> fault + u8 list \<Rightarrow> (u8 list \<Rightarrow> 'a) \<Rightarrow> fault + 'a" where
  "copy_to dst d upd = rbind d (\<lambda>data. rbind (memcpy dst data) (\<lambda>v. Inr (upd v)))"

definition lfla_array :: "nat list" where "lfla_array = [0, 1, 2, 3, 4, 5, 6, 7]"
definition lfa_array :: "nat list" where "lfa_array = [0, 1, 2, 3, 4, 5, 6]"

text \<open>
  The numbers are \<open>IFLA_ADDRESS\<close>, \<open>IFLA_BROADCAST\<close>, \<open>IFLA_IFNAME\<close>, \<open>IFLA_MTU\<close>,
  \<open>IFLA_LINK\<close>, \<open>IFLA_QDISC\<close>; and \<open>IFA_ADDRESS\<close>, \<open>IFA_LOCAL\<close>, \<open>IFA_LABEL\<close>,
  \<open>IFA_BROADCAST\<close>, \<open>IFA_ANYCAST\<close>.
\<close>

definition lfla_store :: "nat \<Rightarrow> fault + u8 list \<Rightarrow> ifla_attr \<Rightarrow> fault + ifla_attr" where
  "lfla_store t d a =
     (if t = 1 then copy_to (l2_local_addr a) d (\<lambda>v. a\<lparr>l2_local_addr := v\<rparr>)
      else if t = 2 then copy_to (l2_broadcast_addr a) d (\<lambda>v. a\<lparr>l2_broadcast_addr := v\<rparr>)
      else if t = 3 then copy_to (ifla_ifname a) d (\<lambda>v. a\<lparr>ifla_ifname := v\<rparr>)
      else if t = 4 then copy_to (ifla_mtu a) d (\<lambda>v. a\<lparr>ifla_mtu := v\<rparr>)
      else if t = 5 then copy_to (link_type a) d (\<lambda>v. a\<lparr>link_type := v\<rparr>)
      else if t = 6 then copy_to (qdisc a) d (\<lambda>v. a\<lparr>qdisc := v\<rparr>)
      else Inr a)"

definition lfa_store :: "nat \<Rightarrow> fault + u8 list \<Rightarrow> ifa_attr \<Rightarrow> fault + ifa_attr" where
  "lfa_store t d a =
     (if t = 1 then copy_to (protocal_interface_addr a) d (\<lambda>v. a\<lparr>protocal_interface_addr := v\<rparr>)
      else if t = 2 then copy_to (protocal_local_addr a) d (\<lambda>v. a\<lparr>protocal_local_addr := v\<rparr>)
      else if t = 3 then copy_to (ifa_ifname a) d (\<lambda>v. a\<lparr>ifa_ifname := v\<rparr>)
      else if t = 4 then copy_to (protocal_broadcast_addr a) d (\<lambda>v. a\<lparr>protocal_broadcast_addr := v\<rparr>)
      else if t = 5 then copy_to (protocal_anycast_addr a) d (\<lambda>v. a\<lparr>protocal_anycast_addr := v\<rparr>)
      else Inr a)"

definition debug_rtattr_to_lfla :: "u8 list \<Rightarrow> (nat \<Rightarrow> nat option) \<Rightarrow> fault + ifla_attr" where
  "debug_rtattr_to_lfla m rta = rtattr_loop lfla_array lfla_store m rta zero_ifla"

definition debug_rtattr_to_lfa :: "u8 list \<Rightarrow> (nat \<Rightarrow> nat option) \<Rightarrow> fault + ifa_attr" where
  "debug_rtattr_to_lfa m rta = rtattr_loop lfa_array lfa_store m rta zero_ifa"

section \<open>Printing\<close>

definition debug_ifla_info_print :: "if_allinfo \<Rightarrow> fault + dbg list" where
  "debug_ifla_info_print ifi =
     (let ifla = lfla ifi in
      rbind (cstring (ifla_ifname ifla)) (\<lambda>n. rbind (cstring (qdisc ifla)) (\<lambda>q.
      Inr [DIf n (if_up ifi), DPortLink n (link_up ifi),
        DHwaddr ''local l2 addr'' (l2_local_addr ifla), DHwaddr ''local l2 braddr'' (l2_broadcast_addr ifla),
        DName n, DMtu (ifla_mtu ifla), DLinkType (link_type ifla), DQdisc q, DEnd])))"

definition debug_ifa_info_print :: "if_allinfo \<Rightarrow> fault + dbg list" where
  "debug_ifa_info_print ifi =
     (let ifa = lfa ifi in
      rbind (cstring (ifa_ifname ifa)) (\<lambda>n.
      Inr [DProto n (new_addr ifi),
        DIpaddr ''interface addr'' (protocal_interface_addr ifa), DIpaddr ''local addr'' (protocal_local_addr ifa),
        DIpaddr ''broadcast addr'' (protocal_broadcast_addr ifa), DIpaddr ''anycast addr'' (protocal_anycast_addr ifa),
        DEnd]))"

definition route_types :: "string list" where
  "route_types = [''RTN_UNSPEC'', ''RTN_UNICAST'', ''RTN_LOCAL'', ''RTN_BROADCAST'', ''RTN_ANYCAST'',
     ''RTN_MULTICAST'', ''RTN_BLACKHOLE'', ''RTN_UNREACHABLE'', ''RTN_PROHIBIT'', ''RTN_THROW'',
     ''RTN_NAT'', ''RTN_XRESOLVE'']"

definition debug_print_route_type :: "nat \<Rightarrow> dbg list" where
  "debug_print_route_type type =
     (if type < length route_types then [DRouteType (route_types ! type)] else [])"

section \<open>The handlers\<close>

definition debug_ifinfomsg_handle ::
  "env \<Rightarrow> u8 list \<Rightarrow> nat \<Rightarrow> if_allinfo \<Rightarrow> fault + if_allinfo \<times> dbg list" where
  "debug_ifinfomsg_handle E m nlh ifall =
     rbind (rd32 m nlh) (\<lambda>nlmsg_len.
     rbind (parse_rtattr m (\<lambda>_. None) (IFLA_MAX E) (nlh + 32) (int nlmsg_len - 32)) (\<lambda>tb.
     rbind (rd32 m (nlh + 24)) (\<lambda>ifi_flags.
     let ifall = ifall\<lparr>if_up := IFF_UP ifi_flags, link_up := IFF_LOWER_UP ifi_flags\<rparr> in
     rbind (debug_rtattr_to_lfla m tb) (\<lambda>ifla.
     let ifall = ifall\<lparr>lfla := ifla\<rparr> in
     rbind (debug_ifla_info_print ifall) (\<lambda>lines. Inr (ifall, lines))))))"

definition debug_ifaddrmsg_handle ::
  "env \<Rightarrow> u8 list \<Rightarrow> nat \<Rightarrow> if_allinfo \<Rightarrow> fault + if_allinfo \<times> dbg list" where
  "debug_ifaddrmsg_handle E m nlh ifall =
     rbind (rd32 m nlh) (\<lambda>nlmsg_len.
     rbind (parse_rtattr m (\<lambda>_. None) (IFA_MAX E) (nlh + 24) (int nlmsg_len - 24)) (\<lambda>tb.
     rbind (rd16 m (nlh + 4)) (\<lambda>nlmsg_type.
     let ifall = ifall\<lparr>new_addr := nlmsg_type = RTM_NEWADDR\<rparr> in
     rbind (debug_rtattr_to_lfa m tb) (\<lambda>ifa.
     let ifall = ifall\<lparr>lfa := ifa\<rparr> in
     rbind (debug_ifa_info_print ifall) (\<lambda>lines. Inr (ifall, lines))))))"

text \<open>
  The route message, with \<open>RTA_MAX\<close> as an argument. \<open>inet_ntop\<close> reads 4 or 16 bytes by
  the family of the message, whatever the length of the attribute.
\<close>

definition route_addr :: "string \<Rightarrow> u8 list \<Rightarrow> nat \<Rightarrow> nat option \<Rightarrow> fault + dbg list" where
  "route_addr s m family attr =
     (case attr of None \<Rightarrow> Inr []
      | Some p \<Rightarrow>
          if family = 2 then rbind (rd_bytes m (p + 4) 4) (\<lambda>d. Inr [DRouteAddr s (Some d)])
          else if family = 10 then rbind (rd_bytes m (p + 4) 16) (\<lambda>d. Inr [DRouteAddr s (Some d)])
          else Inr [DRouteAddr s None])"

definition debug_rtmsg_handle :: "nat \<Rightarrow> u8 list \<Rightarrow> nat \<Rightarrow> fault + dbg list" where
  "debug_rtmsg_handle rta_max m nlh =
     rbind (rd32 m nlh) (\<lambda>nlmsg_len.
     rbind (parse_rtattr m (\<lambda>_. None) rta_max (nlh + 28) (int nlmsg_len - 28)) (\<lambda>tb.
     rbind (rd8 m (nlh + 16)) (\<lambda>rtm_family.
     rbind (rd8 m (nlh + 23)) (\<lambda>rtm_type.
     rbind (rd16 m (nlh + 4)) (\<lambda>nlmsg_type.
     rbind (route_addr ''DST'' m rtm_family (tb 1)) (\<lambda>dst.
     rbind (route_addr ''SRC'' m rtm_family (tb 2)) (\<lambda>src.
     rbind (route_addr ''GATEWAY'' m rtm_family (tb 5)) (\<lambda>gateway.
     Inr (debug_print_route_type rtm_type @ DRoute rtm_type (nlmsg_type = 24) # dst @ src @ gateway)))))))))"

section \<open>The label of an address message\<close>

lemma rtattr_loop_copy:
  assumes "\<And>d. store t d a = copy_to buf d upd" and "upd buf = a"
  shows "rtattr_loop (t # ts) store m rta a
    = rbind (dispatch_rta m rta t buf) (\<lambda>v. rtattr_loop ts store m rta (upd v))"
proof (cases "rta t")
  case (Some p)
  then show ?thesis using assms
    by (cases "rd16 m p") (auto simp: dispatch_rta_def copy_to_def rbind_assoc)
qed (use assms in \<open>simp add: dispatch_rta_def\<close>)

lemma rtattr_loop_skip:
  assumes "\<And>d. store t d a = Inr a" and "dispatch_rta m rta t buf = Inr v"
  shows "rtattr_loop (t # ts) store m rta a = rtattr_loop ts store m rta a"
  using assms by (cases "rta t") (auto simp: dispatch_rta_def rbind_Inr_conv)

text \<open>
  The printing handler takes interface labels of at most five characters: its structure
  has six bytes for a name that the kernel, and the server's own handler, allow fifteen. It
  stores and prints the address message of a short label, and copies a longer label past
  the end of the array.
\<close>

theorem debug_ifaddrmsg_label:
  assumes "name_ok n" and "length a = 4" and "3 \<le> IFA_MAX E" and "type \<in> {RTM_NEWADDR, RTM_DELADDR}"
  shows "debug_ifaddrmsg_handle E (addr_msg type n a @ post) 0 ifall =
    (if length n < 6 then
       let ifa = zero_ifa\<lparr>ifa_ifname := n @ replicate (6 - length n) 0, protocal_interface_addr := a\<rparr> in
       Inr (ifall\<lparr>new_addr := type = RTM_NEWADDR, lfa := ifa\<rparr>,
         [DProto n (type = RTM_NEWADDR), DIpaddr ''interface addr'' a,
          DIpaddr ''local addr'' (replicate 4 0), DIpaddr ''broadcast addr'' (replicate 4 0),
          DIpaddr ''anycast addr'' (replicate 4 0), DEnd])
     else Inl OutOfBounds)"
proof -
  let ?m = "addr_msg type n a @ post" and ?as = "enc_attrs [(IFA_LABEL, n @ [0]), (IFA_ADDRESS, a)]"
  obtain tb where len: "rd32 ?m 0 = Inr (24 + length ?as)"
    and tb: "parse_rtattr ?m (\<lambda>_. None) (IFA_MAX E) 24 (int (24 + length ?as) - 24) = Inr tb"
    and addr: "\<And>buf. dispatch_rta ?m tb IFA_ADDRESS buf = memcpy buf a"
    and label: "\<And>buf. dispatch_rta ?m tb IFA_LABEL buf = memcpy buf (n @ [0])"
    and other: "\<And>t buf. t \<noteq> IFA_LABEL \<Longrightarrow> t \<noteq> IFA_ADDRESS \<Longrightarrow> dispatch_rta ?m tb t buf = Inr buf"
    by (rule addr_msg_parsed [OF assms(1-3) refl]) (rule that)
  have "?m = le32 (24 + length ?as) @ le16 type @ replicate 10 0 @ replicate 8 0 @ ?as @ post"
    by (simp add: addr_msg_def Let_def)
  then have ty: "rd16 ?m 4 = Inr type"
    using rd16_le16_append [of type "le32 (24 + length ?as)" 4] assms(4) by (auto simp: netlink_consts)
  have nz: "takeWhile (\<lambda>b. b \<noteq> 0) (n @ replicate k (0 :: u8)) = n" for k
    using assms(1) by (subst takeWhile_append2) (auto simp: name_ok_def intro: ccontr)
  have fill: "memcpy (replicate 6 0) (n @ [0]) =
      (if length n < 6 then Inr (n @ replicate (6 - length n) 0) else Inl OutOfBounds)"
    by (auto simp: memcpy_def Suc_diff_Suc simp flip: replicate_Suc)
  note copy = rtattr_loop_copy [where store = lfa_store and m = ?m and rta = tb]
  have skip: "rtattr_loop (t # ts) lfa_store ?m tb z = rtattr_loop ts lfa_store ?m tb z" if t: "t \<in> {0, 2, 4, 5, 6}" for t ts z
  proof -
    have d: "dispatch_rta ?m tb t buf = Inr buf" for buf
      using t by (intro other) (auto simp: netlink_consts)
    consider "t \<in> {0, 6}" | "t = 2" | "t = 4" | "t = 5" using t by auto
    then show ?thesis
    proof cases
      case 1
      then show ?thesis by (intro rtattr_loop_skip [OF _ d]) (auto simp: lfa_store_def)
    next
      case 2
      then show ?thesis using copy [of 2 z "protocal_local_addr z" "\<lambda>v. z\<lparr>protocal_local_addr := v\<rparr>"] d
        by (simp add: lfa_store_def)
    next
      case 3
      then show ?thesis using copy [of 4 z "protocal_broadcast_addr z" "\<lambda>v. z\<lparr>protocal_broadcast_addr := v\<rparr>"] d
        by (simp add: lfa_store_def)
    next
      case 4
      then show ?thesis using copy [of 5 z "protocal_anycast_addr z" "\<lambda>v. z\<lparr>protocal_anycast_addr := v\<rparr>"] d
        by (simp add: lfa_store_def)
    qed
  qed
  have "rtattr_loop (1 # ts) lfa_store ?m tb zero_ifa
      = rtattr_loop ts lfa_store ?m tb (zero_ifa\<lparr>protocal_interface_addr := a\<rparr>)" for ts
    using copy [of 1 zero_ifa "protocal_interface_addr zero_ifa" "\<lambda>v. zero_ifa\<lparr>protocal_interface_addr := v\<rparr>"]
      addr assms(2) by (simp add: lfa_store_def netlink_consts memcpy_def zero_ifa_def)
  moreover have "rtattr_loop (3 # ts) lfa_store ?m tb z = rbind (memcpy (ifa_ifname z) (n @ [0]))
      (\<lambda>v. rtattr_loop ts lfa_store ?m tb (z\<lparr>ifa_ifname := v\<rparr>))" for ts z
    using copy [of 3 z "ifa_ifname z" "\<lambda>v. z\<lparr>ifa_ifname := v\<rparr>"] label
    by (simp add: lfa_store_def netlink_consts)
  ultimately have lfa: "debug_rtattr_to_lfa ?m tb =
      (if length n < 6
       then Inr (zero_ifa\<lparr>ifa_ifname := n @ replicate (6 - length n) 0, protocal_interface_addr := a\<rparr>)
       else Inl OutOfBounds)"
    unfolding debug_rtattr_to_lfa_def lfa_array_def
    by (simp del: rtattr_loop.simps add: skip fill rtattr_loop.simps(1)) (simp add: zero_ifa_def fill)
  show ?thesis
    unfolding debug_ifaddrmsg_handle_def add_0
    using len tb ty lfa nz [of "6 - length n"]
    by (simp add: debug_ifa_info_print_def cstring_def Let_def zero_ifa_def)
qed

theorem debug_ifaddrmsg_label_witness:
  "debug_ifaddrmsg_handle demo_env (addr_msg RTM_NEWADDR [101, 110, 112, 48, 115, 51] [10, 0, 2, 15] @ []) 0
     \<lparr>if_up = False, link_up = False, new_addr = False, lfla = zero_ifla, lfa = zero_ifa\<rparr> = Inl OutOfBounds"
  using debug_ifaddrmsg_label [of "[101, 110, 112, 48, 115, 51]" "[10, 0, 2, 15]" demo_env RTM_NEWADDR "[]"]
  by (simp add: name_ok_def demo_env_def)

end
