(* ===== verification/Posix.thy ===== *)
theory Posix
  imports Prelude "HOL-Library.State_Monad"
begin

text \<open>
  The system calls of the socket, interface and ethtool programs. The kernel is not under
  src/: it is a parameter, a function from the calls made so far (with their results) and
  the call at hand to its result and to what the buffer behind the pointer argument holds
  afterwards. A program is a state transformer of the process: its global descriptor, the
  calls it has made, the lines it has printed.

  An option length that the code passes uninitialised is not part of the call: what the
  kernel does with it is the kernel's answer.
\<close>

section \<open>Calls\<close>

datatype proto = SOL_SOCKET | IPPROTO_IP | IPPROTO_ICMP | IPPROTO_TCP | IPPROTO_UDP

datatype socktype = SOCK_STREAM | SOCK_DGRAM | SOCK_RAW

datatype sockopt =
    SO_ACCEPTCONN | SO_BINDTODEVICE | SO_BROADCAST | SO_DOMAIN | SO_DONTROUTE | SO_ERROR
  | SO_KEEPALIVE | SO_LINGER | SO_MARK | SO_OOBINLINE | SO_PEEK_OFF | SO_PRIORITY | SO_PROTOCOL
  | SO_RCVBUF | SO_RCVBUFFORCE | SO_RCVLOWAT | SO_RCVTIMEO | SO_REUSEADDR | SO_REUSEPORT
  | SO_SNDBUF | SO_SNDBUFFORCE | SO_SNDLOWAT | SO_SNDTIMEO | SO_TIMESTAMP | SO_TYPE
  | TCP_CORK | TCP_DEFER_ACCEPT | TCP_INFO | TCP_KEEPCNT | TCP_KEEPIDLE | TCP_KEEPINTVL
  | TCP_LINGER2 | TCP_MAXSEG | TCP_NODELAY | TCP_QUICKACK | TCP_SYNCNT | TCP_WINDOW_CLAMP
  | IP_ADD_MEMBERSHIP | IP_ADD_SOURCE_MEMBERSHIP | IP_BLOCK_SOURCE | IP_UNBLOCK_SOURCE
  | IP_DROP_MEMBERSHIP | IP_DROP_SOURCE_MEMBERSHIP | IP_FREEBIND | IP_HDRINCL | IP_MSFILTER
  | IP_MTU | IP_MTU_DISCOVER | IP_MULTICAST_ALL | IP_MULTICAST_IF | IP_MULTICAST_LOOP
  | IP_MULTICAST_TTL | IP_OPTIONS | IP_TOS | IP_TTL

datatype request =
    SIOCINQ | SIOCOUTQ | SIOCATMARK | SIOCETHTOOL
  | SIOCGIFNAME | SIOCGIFINDEX | SIOCGIFFLAGS | SIOCSIFFLAGS | SIOCGIFPFLAGS
  | SIOCGIFADDR | SIOCSIFADDR | SIOCGIFDSTADDR | SIOCSIFDSTADDR | SIOCGIFBRDADDR | SIOCSIFBRDADDR
  | SIOCGIFNETMASK | SIOCSIFNETMASK | SIOCGIFMETRIC | SIOCSIFMETRIC | SIOCGIFMTU | SIOCSIFMTU
  | SIOCGIFHWADDR | SIOCSIFHWADDR | SIOCGIFMAP | SIOCGIFTXQLEN | SIOCSIFTXQLEN | SIOCGIFCONF
  | SIOCSIFNAME

datatype fcntl_cmd = F_SETFD | F_GETFL | F_SETFL

text \<open>
  \<open>struct ifreq\<close>: the name and the 24 bytes of the union \<open>ifr_ifru\<close>, whose members
  share their first bytes.
\<close>

record ifreq =
  ifr_name :: string
  ifr_ifru :: "u8 list"

text \<open>
  What a pointer argument points to. Internet addresses are their four bytes in memory
  order. The filter is multicast address, interface, mode, number of sources, sources.
\<close>

datatype val =
    VNone
  | VInt int
  | VStr string
  | VChar u8
  | VBytes "u8 list"
  | VLinger int int
  | VTimeval int int
  | VIfreq ifreq
  | VMreqn "u8 list" "u8 list" int
  | VMreqSource "u8 list" "u8 list" "u8 list"
  | VMsfilter "u8 list" "u8 list" u32 u32 "u8 list list"
  | VSockaddr "u8 list" "u8 list"
  | VEthtool string "u8 list"
  | VIfconf int "ifreq list"
  | VArgs "val list"

datatype syscall =
    Socket socktype proto
  | Setsockopt int proto sockopt val
  | Getsockopt int proto sockopt
  | Ioctl int request val
  | Fcntl int fcntl_cmd int
  | Bind int val
  | Listen int int
  | Close int

type_synonym trace = "(syscall \<times> int) list"
type_synonym kernel = "trace \<Rightarrow> syscall \<Rightarrow> int \<times> val"

datatype entry = Perror string | Printf string | Debug string val

record process =
  fd :: int
  calls :: trace
  printed :: "entry list"

text \<open>The integer a buffer holds.\<close>

fun int_of :: "val \<Rightarrow> int" where
  "int_of (VInt i) = i"
| "int_of _ = 0"

text \<open>An \<open>ifreq\<close> cleared by \<open>memset\<close>, with a name copied into it.\<close>

definition ifreq_of :: "string \<Rightarrow> ifreq" where
  "ifreq_of n = \<lparr>ifr_name = n, ifr_ifru = replicate 24 0\<rparr>"

fun reply_ifreq :: "val \<Rightarrow> ifreq" where
  "reply_ifreq (VIfreq r) = r"
| "reply_ifreq _ = ifreq_of []"

text \<open>
  The members of the union: \<open>ifr_flags\<close> is its first two bytes, the integer members its
  first four, little endian.
\<close>

fun le_nat :: "u8 list \<Rightarrow> nat" where
  "le_nat [] = 0"
| "le_nat (b # bs) = unat b + 256 * le_nat bs"

definition ifru_int :: "ifreq \<Rightarrow> int" where
  "ifru_int r = sint (of_nat (le_nat (take 4 (ifr_ifru r))) :: u32)"

definition set_ifru_int :: "int \<Rightarrow> ifreq \<Rightarrow> ifreq" where
  "set_ifru_int i r = r\<lparr>ifr_ifru := put 0 (le32 (nat (i mod 4294967296))) (ifr_ifru r)\<rparr>"

definition ifru_flags :: "ifreq \<Rightarrow> u16" where
  "ifru_flags r = of_nat (le_nat (take 2 (ifr_ifru r)))"

definition set_ifru_flags :: "u16 \<Rightarrow> ifreq \<Rightarrow> ifreq" where
  "set_ifru_flags f r = r\<lparr>ifr_ifru := put 0 (le16 (unat f)) (ifr_ifru r)\<rparr>"

lemma le_nat_le16: "n < 65536 \<Longrightarrow> le_nat (le16 n) = n"
proof -
  assume "n < 65536"
  then have "n div 256 < 256" by simp
  then show ?thesis by (simp add: le16_def unat_of_nat_u8)
qed

lemma le_nat_append: "le_nat (xs @ ys) = le_nat xs + 256 ^ length xs * le_nat ys"
  by (induction xs) (simp_all add: algebra_simps)

lemma le_nat_le32: "n < 4294967296 \<Longrightarrow> le_nat (le32 n) = n"
  by (simp add: le32_def le_nat_append le_nat_le16)

lemma ifru_int_set [simp]:
  assumes "-2147483648 \<le> i" and "i < 2147483648"
  shows "ifru_int (set_ifru_int i r) = i"
proof -
  have "take 4 (put 0 (le32 n) xs) = le32 n" for n xs by (simp add: put_def)
  moreover have "nat (i mod 4294967296) < 4294967296" by (simp add: nat_less_iff)
  ultimately have "ifru_int (set_ifru_int i r) = sint (of_nat (nat (i mod 4294967296)) :: u32)"
    by (simp add: ifru_int_def set_ifru_int_def le_nat_le32)
  also have "(of_nat (nat (i mod 4294967296)) :: u32) = of_int (i mod 4294967296)"
    by simp
  also have "\<dots> = (of_int i :: u32)"
    by (simp add: word_of_int_eq_iff take_bit_eq_mod)
  also have "sint (of_int i :: u32) = i"
    using assms by (simp add: signed_of_int signed_take_bit_int_eq_self)
  finally show ?thesis .
qed

lemma ifru_flags_set [simp]: "ifru_flags (set_ifru_flags f r) = f"
proof -
  have "take 2 (put 0 (le16 n) xs) = le16 n" for n xs by (simp add: put_def)
  moreover have "unat f < 65536" using unsigned_less [where w = f, where 'a = nat] by simp
  ultimately show ?thesis by (simp add: ifru_flags_def set_ifru_flags_def le_nat_le16)
qed

section \<open>Programs\<close>

definition gets :: "('a process_scheme \<Rightarrow> 'b) \<Rightarrow> ('a process_scheme, 'b) state" where
  "gets f = State (\<lambda>w. (f w, w))"

definition sys :: "kernel \<Rightarrow> syscall \<Rightarrow> ('a process_scheme, int \<times> val) state" where
  "sys K c = State (\<lambda>w. (K (calls w) c, w\<lparr>calls := calls w @ [(c, fst (K (calls w) c))]\<rparr>))"

definition out :: "entry \<Rightarrow> ('a process_scheme, unit) state" where
  "out e = State (\<lambda>w. ((), w\<lparr>printed := printed w @ [e]\<rparr>))"

definition perror :: "string \<Rightarrow> ('a process_scheme, unit) state" where
  "perror s = out (Perror s)"

definition log_debug :: "string \<Rightarrow> val \<Rightarrow> ('a process_scheme, unit) state" where
  "log_debug fmt v = out (Debug fmt v)"

definition sys_close ::
  "kernel \<Rightarrow> ('a process_scheme \<Rightarrow> int) \<Rightarrow> ('a process_scheme, unit) state" where
  "sys_close K d = do { n \<leftarrow> gets d; _ \<leftarrow> sys K (Close n); State_Monad.return () }"

definition setsockopt ::
  "kernel \<Rightarrow> ('a process_scheme \<Rightarrow> int) \<Rightarrow> proto \<Rightarrow> sockopt \<Rightarrow> val
    \<Rightarrow> ('a process_scheme, int \<times> val) state" where
  "setsockopt K d level opt v = do { n \<leftarrow> gets d; sys K (Setsockopt n level opt v) }"

definition getsockopt ::
  "kernel \<Rightarrow> ('a process_scheme \<Rightarrow> int) \<Rightarrow> proto \<Rightarrow> sockopt
    \<Rightarrow> ('a process_scheme, int \<times> val) state" where
  "getsockopt K d level opt = do { n \<leftarrow> gets d; sys K (Getsockopt n level opt) }"

definition ioctl ::
  "kernel \<Rightarrow> ('a process_scheme \<Rightarrow> int) \<Rightarrow> request \<Rightarrow> val
    \<Rightarrow> ('a process_scheme, int \<times> val) state" where
  "ioctl K d req v = do { n \<leftarrow> gets d; sys K (Ioctl n req v) }"

definition fcntl ::
  "kernel \<Rightarrow> ('a process_scheme \<Rightarrow> int) \<Rightarrow> fcntl_cmd \<Rightarrow> int \<Rightarrow> ('a process_scheme, int) state" where
  "fcntl K d cmd arg = do { n \<leftarrow> gets d; r \<leftarrow> sys K (Fcntl n cmd arg); State_Monad.return (fst r) }"

text \<open>
  The two shapes of error handling: \<open>if (call == -1) { perror(msg); close(d); return; }\<close>
  and the same without the \<open>close\<close>; the rest of the function gets what the buffer holds.
\<close>

definition or_close ::
  "kernel \<Rightarrow> ('a process_scheme \<Rightarrow> int) \<Rightarrow> string \<Rightarrow> ('a process_scheme, int \<times> val) state
    \<Rightarrow> (val \<Rightarrow> ('a process_scheme, unit) state) \<Rightarrow> ('a process_scheme, unit) state" where
  "or_close K d msg call rest = do {
     r \<leftarrow> call;
     if fst r = -1 then do { perror msg; sys_close K d } else rest (snd r) }"

definition or_return ::
  "string \<Rightarrow> ('a process_scheme, int \<times> val) state
    \<Rightarrow> (val \<Rightarrow> ('a process_scheme, unit) state) \<Rightarrow> ('a process_scheme, unit) state" where
  "or_return msg call rest = do {
     r \<leftarrow> call;
     if fst r = -1 then perror msg else rest (snd r) }"

text \<open>The macro \<open>func_exec\<close> of tools.h.\<close>

definition func_exec ::
  "string \<Rightarrow> ('a process_scheme, int) state \<Rightarrow> ('a process_scheme, int) state
    \<Rightarrow> ('a process_scheme, int) state" where
  "func_exec name call rest = do {
     ret \<leftarrow> call;
     if ret < 0 then do { out (Printf name); State_Monad.return ret } else rest }"

section \<open>Programs that make only certain calls\<close>

definition exec :: "('w, 'b) state \<Rightarrow> 'w \<Rightarrow> 'w" where
  "exec p w = snd (run_state p w)"

text \<open>
  \<open>p\<close> makes calls and prints, and changes nothing else of the process; every call it makes
  satisfies \<open>Q\<close>. A quiet program opens no descriptor.
\<close>

definition only :: "(syscall \<Rightarrow> bool) \<Rightarrow> ('a process_scheme, 'b) state \<Rightarrow> bool" where
  "only Q p \<longleftrightarrow> (\<forall>w. \<exists>ext lines. exec p w = w\<lparr>calls := calls w @ ext, printed := printed w @ lines\<rparr>
     \<and> (\<forall>c \<in> set ext. Q (fst c)))"

definition is_socket :: "syscall \<Rightarrow> bool" where
  "is_socket c \<longleftrightarrow> (case c of Socket _ _ \<Rightarrow> True | _ \<Rightarrow> False)"

abbreviation quiet :: "('a process_scheme, 'b) state \<Rightarrow> bool" where
  "quiet p \<equiv> only (\<lambda>c. \<not> is_socket c) p"

named_theorems only_intros "programs that make only certain calls"

lemma exec_simps [simp]:
  "exec (State_Monad.return x) w = w" "exec (gets f) w = w"
  "exec (sys K c) w = w\<lparr>calls := calls w @ [(c, fst (K (calls w) c))]\<rparr>"
  "exec (out e) w = w\<lparr>printed := printed w @ [e]\<rparr>"
  by (simp_all add: exec_def gets_def sys_def out_def)

lemma exec_bind: "exec (State_Monad.bind p f) w = exec (f (fst (run_state p w))) (exec p w)"
  by (simp add: exec_def State_Monad.bind_def split_beta)

lemma run_gets [simp]: "run_state (gets f) w = (f w, w)"
  by (simp add: gets_def)

lemma run_sys [simp]:
  "run_state (sys K c) w = (K (calls w) c, w\<lparr>calls := calls w @ [(c, fst (K (calls w) c))]\<rparr>)"
  by (simp add: sys_def)

lemma run_out [simp]: "run_state (out e) w = ((), w\<lparr>printed := printed w @ [e]\<rparr>)"
  by (simp add: out_def)

lemma onlyI:
  "(\<And>w. \<exists>ext lines. exec p w = w\<lparr>calls := calls w @ ext, printed := printed w @ lines\<rparr>
     \<and> (\<forall>c \<in> set ext. Q (fst c))) \<Longrightarrow> only Q p"
  by (simp add: only_def)

lemma onlyE:
  assumes "only Q p"
  obtains ext lines where "exec p w = w\<lparr>calls := calls w @ ext, printed := printed w @ lines\<rparr>"
    "\<forall>c \<in> set ext. Q (fst c)"
  using assms unfolding only_def by blast

lemma only_keep: "(\<And>w. exec p w = w) \<Longrightarrow> only Q p"
  by (rule onlyI) (rule exI [of _ "[]"], rule exI [of _ "[]"], simp)

lemma only_return [only_intros]: "only Q (State_Monad.return x)"
  and only_gets [only_intros]: "only Q (gets f)"
  by (simp_all add: only_keep)

lemma only_sys [only_intros]: "Q c \<Longrightarrow> only Q (sys K c)"
  by (rule onlyI, rule_tac x = "[(c, fst (K (calls w) c))]" in exI, rule exI [of _ "[]"]) simp

lemma only_out [only_intros]: "only Q (out e)"
  by (rule onlyI, rule exI [of _ "[]"], rule exI [of _ "[e]"]) simp

lemma only_bind [only_intros]:
  assumes "only Q p" and "\<And>x. only Q (f x)"
  shows "only Q (State_Monad.bind p f)"
proof (rule onlyI)
  fix w
  obtain e l where p: "exec p w = w\<lparr>calls := calls w @ e, printed := printed w @ l\<rparr>"
    and ns: "\<forall>c \<in> set e. Q (fst c)"
    by (rule onlyE [OF assms(1)])
  obtain e' l' where "exec (f (fst (run_state p w))) (exec p w) = (exec p w)
      \<lparr>calls := calls (exec p w) @ e', printed := printed (exec p w) @ l'\<rparr>"
    and "\<forall>c \<in> set e'. Q (fst c)"
    by (rule onlyE [OF assms(2)])
  with p ns have "exec (State_Monad.bind p f) w
      = w\<lparr>calls := calls w @ (e @ e'), printed := printed w @ (l @ l')\<rparr>"
    "\<forall>c \<in> set (e @ e'). Q (fst c)"
    by (auto simp: exec_bind)
  then show "\<exists>ext lines. exec (State_Monad.bind p f) w
      = w\<lparr>calls := calls w @ ext, printed := printed w @ lines\<rparr>
      \<and> (\<forall>c \<in> set ext. Q (fst c))" by blast
qed

lemma only_if [only_intros]: "only Q p \<Longrightarrow> only Q q \<Longrightarrow> only Q (if b then p else q)"
  by simp

lemma not_socket [only_intros, simp]:
  "\<not> is_socket (Setsockopt n l opt v)" "\<not> is_socket (Getsockopt n l opt)" "\<not> is_socket (Ioctl n r v)"
  "\<not> is_socket (Fcntl n cmd arg)" "\<not> is_socket (Bind n v)" "\<not> is_socket (Listen n b)"
  "\<not> is_socket (Close n)"
  by (simp_all add: is_socket_def)

lemma only_calls [only_intros]:
  "only Q (perror s)" "only Q (log_debug fmt v)"
  "(\<And>n. Q (Close n)) \<Longrightarrow> only Q (sys_close K d)"
  "(\<And>n. Q (Setsockopt n level opt v)) \<Longrightarrow> only Q (setsockopt K d level opt v)"
  "(\<And>n. Q (Getsockopt n level opt)) \<Longrightarrow> only Q (getsockopt K d level opt)"
  "(\<And>n. Q (Ioctl n req v)) \<Longrightarrow> only Q (ioctl K d req v)"
  "(\<And>n. Q (Fcntl n cmd arg)) \<Longrightarrow> only Q (fcntl K d cmd arg)"
  unfolding perror_def log_debug_def sys_close_def setsockopt_def getsockopt_def ioctl_def fcntl_def
  by (intro only_intros | assumption)+

lemma only_or_close [only_intros]:
  "only Q call \<Longrightarrow> (\<And>v. only Q (rest v)) \<Longrightarrow> (\<And>n. Q (Close n)) \<Longrightarrow> only Q (or_close K d msg call rest)"
  unfolding or_close_def by (intro only_intros)

lemma only_or_return [only_intros]:
  "only Q call \<Longrightarrow> (\<And>v. only Q (rest v)) \<Longrightarrow> only Q (or_return msg call rest)"
  unfolding or_return_def by (intro only_intros)

section \<open>Closed descriptors\<close>

text \<open>
  A descriptor is dead from a \<open>close\<close> of its number until a \<open>socket\<close> returns the
  number again (Linux releases the number whatever \<open>close\<close> returns). The kernel refuses
  every call on a dead descriptor with -1 (EBADF).
\<close>

definition fd_event :: "int \<Rightarrow> syscall \<times> int \<Rightarrow> bool \<Rightarrow> bool" where
  "fd_event n e b =
     (case fst e of Close m \<Rightarrow> m = n \<or> b | Socket _ _ \<Rightarrow> snd e \<noteq> n \<and> b | _ \<Rightarrow> b)"

definition dead :: "int \<Rightarrow> trace \<Rightarrow> bool" where
  "dead n tr = fold (fd_event n) tr False"

definition closes :: "int \<Rightarrow> trace \<Rightarrow> bool" where
  "closes n tr \<longleftrightarrow> Close n \<in> fst ` set tr"

fun on_fd :: "syscall \<Rightarrow> int option" where
  "on_fd (Socket t p) = None"
| "on_fd (Setsockopt n l opt v) = Some n"
| "on_fd (Getsockopt n l opt) = Some n"
| "on_fd (Ioctl n r v) = Some n"
| "on_fd (Fcntl n cmd arg) = Some n"
| "on_fd (Bind n v) = Some n"
| "on_fd (Listen n b) = Some n"
| "on_fd (Close n) = Some n"

definition ebadf :: "kernel \<Rightarrow> bool" where
  "ebadf K \<longleftrightarrow> (\<forall>tr c n. on_fd c = Some n \<longrightarrow> dead n tr \<longrightarrow> fst (K tr c) = -1)"

lemma ebadfD: "ebadf K \<Longrightarrow> dead n tr \<Longrightarrow> on_fd c = Some n \<Longrightarrow> fst (K tr c) = -1"
  by (simp add: ebadf_def)

lemma fold_fd_event:
  "(\<forall>c \<in> set ext. \<not> is_socket (fst c)) \<Longrightarrow> fold (fd_event n) ext b \<longleftrightarrow> b \<or> closes n ext"
proof (induction ext arbitrary: b)
  case (Cons e ext)
  have "fd_event n e b \<longleftrightarrow> b \<or> fst e = Close n"
    using Cons.prems by (cases "fst e") (auto simp: fd_event_def is_socket_def)
  with Cons show ?case by (auto simp: closes_def)
qed (simp add: closes_def)

lemma dead_append: "dead n (tr @ ext) = fold (fd_event n) ext (dead n tr)"
  by (simp add: dead_def)

lemma dead_quiet_ext:
  "(\<forall>c \<in> set ext. \<not> is_socket (fst c)) \<Longrightarrow> dead n (tr @ ext) \<longleftrightarrow> dead n tr \<or> closes n ext"
  by (simp add: dead_append fold_fd_event)

lemma closes_append [simp]: "closes n (xs @ ys) \<longleftrightarrow> closes n xs \<or> closes n ys"
  by (auto simp: closes_def)

lemma closes_simps [simp]:
  "\<not> closes n []" "closes n (c # tr) \<longleftrightarrow> fst c = Close n \<or> closes n tr"
  by (auto simp: closes_def)

text \<open>What a quiet program does to the process.\<close>

lemma quietE:
  assumes "quiet p"
  obtains ext lines where "exec p w = w\<lparr>calls := calls w @ ext, printed := printed w @ lines\<rparr>"
    "\<And>n. dead n (calls w @ ext) \<longleftrightarrow> dead n (calls w) \<or> closes n ext"
proof -
  obtain ext lines where e: "exec p w = w\<lparr>calls := calls w @ ext, printed := printed w @ lines\<rparr>"
    "\<forall>c \<in> set ext. \<not> is_socket (fst c)"
    by (rule onlyE [OF assms])
  with dead_quiet_ext show thesis by (blast intro: that)
qed

section \<open>The calls of a program when the kernel accepts them\<close>

definition accepts :: "kernel \<Rightarrow> bool" where
  "accepts K \<longleftrightarrow> (\<forall>tr c. case c of Socket _ _ \<Rightarrow> 0 \<le> fst (K tr c)
     | Fcntl _ _ _ \<Rightarrow> 0 \<le> fst (K tr c) | _ \<Rightarrow> fst (K tr c) = 0)"

definition globals :: "'a process_scheme \<Rightarrow> 'a process_scheme" where
  "globals w = w\<lparr>calls := [], printed := []\<rparr>"

definition is_global :: "('a process_scheme \<Rightarrow> int) \<Rightarrow> bool" where
  "is_global d \<longleftrightarrow> (\<forall>w. d (globals w) = d w)"

definition emits ::
  "'a process_scheme \<Rightarrow> ('a process_scheme, 'b) state \<Rightarrow> syscall list \<Rightarrow> bool" where
  "emits s p cs \<longleftrightarrow> (\<forall>w. globals w = s \<longrightarrow>
     globals (exec p w) = s \<and> map fst (calls (exec p w)) = map fst (calls w) @ cs)"

named_theorems emits_intros "the calls a program makes"

lemma globals_simps [simp]:
  "globals (w\<lparr>calls := c\<rparr>) = globals w" "globals (w\<lparr>printed := l\<rparr>) = globals w"
  by (simp_all add: globals_def)

lemma accepts_not_fail:
  assumes "accepts K" shows "fst (K tr c) \<noteq> -1"
  using assms [unfolded accepts_def, rule_format, of tr c] by (cases c) auto

lemma emits_return [emits_intros]: "emits s (State_Monad.return x) []"
  and emits_out [emits_intros]: "emits s (out e) []"
  and emits_log_debug [emits_intros]: "emits s (log_debug fmt v) []"
  and emits_perror [emits_intros]: "emits s (perror fmt) []"
  by (simp_all add: emits_def log_debug_def perror_def)

lemma emits_bind [emits_intros]:
  "emits s p cs \<Longrightarrow> (\<And>x. emits s (f x) ds) \<Longrightarrow> es = cs @ ds \<Longrightarrow> emits s (State_Monad.bind p f) es"
  by (auto simp: emits_def exec_bind)

lemma run_setsockopt [simp]:
  "run_state (setsockopt K d l opt v) w = run_state (sys K (Setsockopt (d w) l opt v)) w"
  and run_getsockopt [simp]:
  "run_state (getsockopt K d l opt) w = run_state (sys K (Getsockopt (d w) l opt)) w"
  and run_ioctl [simp]:
  "run_state (ioctl K d req v) w = run_state (sys K (Ioctl (d w) req v)) w"
  by (simp_all add: setsockopt_def getsockopt_def ioctl_def)

lemma exec_calls [simp]:
  "exec (setsockopt K d l opt v) w = exec (sys K (Setsockopt (d w) l opt v)) w"
  "exec (getsockopt K d l opt) w = exec (sys K (Getsockopt (d w) l opt)) w"
  "exec (ioctl K d req v) w = exec (sys K (Ioctl (d w) req v)) w"
  "exec (perror s) w = exec (out (Perror s)) w" "exec (log_debug fmt v) w = exec (out (Debug fmt v)) w"
  by (simp_all only: exec_def run_setsockopt run_getsockopt run_ioctl perror_def log_debug_def)

lemma printed_grows:
  assumes "only Q p"
  shows "\<exists>lines. printed (exec p w) = printed w @ lines"
proof -
  obtain ext lines where "exec p w = w\<lparr>calls := calls w @ ext, printed := printed w @ lines\<rparr>"
    by (rule onlyE [OF assms])
  then show ?thesis by simp
qed

lemma emits_guard:
  assumes "accepts K" and "is_global d" and "\<And>v. emits s (rest v) ds"
    and "\<And>w. run_state call w = run_state (sys K (c (d w))) w" and "es = c (d s) # ds"
  shows "emits s (or_close K d' msg call rest) es" and "emits s (or_return msg call rest) es"
proof -
  have step: "globals (exec (or_close K d' msg call rest) w) = s
      \<and> map fst (calls (exec (or_close K d' msg call rest) w)) = map fst (calls w) @ es
    \<and> globals (exec (or_return msg call rest) w) = s
      \<and> map fst (calls (exec (or_return msg call rest) w)) = map fst (calls w) @ es"
    if "globals w = s" for w
  proof -
    have ex: "exec call w = w\<lparr>calls := calls w @ [(c (d w), fst (K (calls w) (c (d w))))]\<rparr>"
      by (simp add: exec_def assms(4))
    have "d w = d s" using assms(2) that by (auto simp: is_global_def)
    with assms(3,5) accepts_not_fail [OF assms(1)] that ex show ?thesis
      by (simp add: or_close_def or_return_def exec_bind assms(4) emits_def)
  qed
  then show "emits s (or_close K d' msg call rest) es" "emits s (or_return msg call rest) es"
    by (auto simp: emits_def)
qed

lemma emits_setsockopt [emits_intros]:
  "accepts K \<Longrightarrow> is_global d \<Longrightarrow> (\<And>v. emits s (rest v) ds) \<Longrightarrow> es = Setsockopt (d s) l opt x # ds
    \<Longrightarrow> emits s (or_close K d' msg (setsockopt K d l opt x) rest) es"
  "accepts K \<Longrightarrow> is_global d \<Longrightarrow> (\<And>v. emits s (rest v) ds) \<Longrightarrow> es = Setsockopt (d s) l opt x # ds
    \<Longrightarrow> emits s (or_return msg (setsockopt K d l opt x) rest) es"
  by (rule emits_guard [where c = "\<lambda>n. Setsockopt n l opt x"]; simp)+

lemma emits_getsockopt [emits_intros]:
  "accepts K \<Longrightarrow> is_global d \<Longrightarrow> (\<And>v. emits s (rest v) ds) \<Longrightarrow> es = Getsockopt (d s) l opt # ds
    \<Longrightarrow> emits s (or_close K d' msg (getsockopt K d l opt) rest) es"
  "accepts K \<Longrightarrow> is_global d \<Longrightarrow> (\<And>v. emits s (rest v) ds) \<Longrightarrow> es = Getsockopt (d s) l opt # ds
    \<Longrightarrow> emits s (or_return msg (getsockopt K d l opt) rest) es"
  by (rule emits_guard [where c = "\<lambda>n. Getsockopt n l opt"]; simp)+

lemma emits_ioctl [emits_intros]:
  "accepts K \<Longrightarrow> is_global d \<Longrightarrow> (\<And>v. emits s (rest v) ds) \<Longrightarrow> es = Ioctl (d s) req x # ds
    \<Longrightarrow> emits s (or_return msg (ioctl K d req x) rest) es"
  by (rule emits_guard [where c = "\<lambda>n. Ioctl n req x"]; simp)

lemma is_global_fd [emits_intros, simp]: "is_global fd"
  by (simp add: is_global_def globals_def)

end
