(* ===== verification/SockOpt.thy ===== *)
theory SockOpt
  imports Posix
begin

text \<open>
  The socket option program: socket_op.c. Every demo function is a program of the process
  over the kernel parameter; the three global descriptors are fields of the process. A
  demo of the TCP part closes the global descriptor when a call fails and returns, so that
  its caller goes on with the stale number. The \<open>malloc\<close> of \<open>demo_IP_MSFILTER\<close> is
  taken to succeed (the code does not test it).
\<close>

section \<open>Process and constants\<close>

record sock_process = process +
  udp_fd :: int
  ip_fd :: int

definition local_ip :: "u8 list" where "local_ip = [192, 168, 137, 2]"
definition multi_ip :: "u8 list" where "multi_ip = [224, 0, 0, 100]"
definition other_ip :: "u8 list" where "other_ip = [192, 168, 137, 5]"

definition MCAST_EXCLUDE :: u32 where "MCAST_EXCLUDE = 0"
definition MCAST_INCLUDE :: u32 where "MCAST_INCLUDE = 1"
definition IP_PMTUDISC_DO :: int where "IP_PMTUDISC_DO = 2"
definition IPTOS_LOWDELAY :: int where "IPTOS_LOWDELAY = 0x10"
definition FD_CLOEXEC :: int where "FD_CLOEXEC = 1"
definition O_NONBLOCK :: int where "O_NONBLOCK = 0x800"

text \<open>\<open>htons\<close>: the two bytes of a port in memory.\<close>

definition htons :: "nat \<Rightarrow> u8 list" where
  "htons p = [of_nat (p div 256), of_nat (p mod 256)]"

text \<open>\<open>struct ip_msfilter\<close> with room for two sources, cleared.\<close>

record msfilter =
  imsf_multiaddr :: "u8 list"
  imsf_interface :: "u8 list"
  imsf_fmode :: u32
  imsf_numsrc :: u32
  imsf_slist :: "u8 list list"

definition msfilter_zero :: msfilter where
  "msfilter_zero = \<lparr>imsf_multiaddr = replicate 4 0, imsf_interface = replicate 4 0, imsf_fmode = 0,
     imsf_numsrc = 0, imsf_slist = replicate 2 (replicate 4 0)\<rparr>"

section \<open>The options of the socket level\<close>

definition demo_SO_ACCEPTCONN :: "kernel \<Rightarrow> ('a process_scheme, unit) state" where
  "demo_SO_ACCEPTCONN K =
     or_close K fd ''SO_ACCEPTCONN'' (getsockopt K fd SOL_SOCKET SO_ACCEPTCONN) (\<lambda>v.
     log_debug ''fd is listening? :%d'' v)"

definition demo_SO_BINDTODEVICE :: "kernel \<Rightarrow> ('a process_scheme, unit) state" where
  "demo_SO_BINDTODEVICE K =
     or_close K fd ''SO_BINDTODEVICE''
       (setsockopt K fd SOL_SOCKET SO_BINDTODEVICE (VIfreq (ifreq_of ''eth0''))) (\<lambda>_.
     or_close K fd ''SO_BINDTODEVICE'' (getsockopt K fd SOL_SOCKET SO_BINDTODEVICE) (\<lambda>req.
     log_debug ''fd bind to:%s'' req))"

definition demo_SO_DOMAIN :: "kernel \<Rightarrow> ('a process_scheme, unit) state" where
  "demo_SO_DOMAIN K =
     or_close K fd ''SO_DOMAIN'' (getsockopt K fd SOL_SOCKET SO_DOMAIN) (\<lambda>v.
     log_debug ''tcp domain :%d'' v)"

definition demo_SO_ERROR :: "kernel \<Rightarrow> ('a process_scheme, unit) state" where
  "demo_SO_ERROR K =
     or_close K fd ''SO_ERROR'' (getsockopt K fd SOL_SOCKET SO_ERROR) (\<lambda>v.
     log_debug ''tcp error :%d'' v)"

definition demo_SO_DONTROUTE :: "kernel \<Rightarrow> ('a process_scheme, unit) state" where
  "demo_SO_DONTROUTE K =
     or_close K fd ''SO_DONTROUTE'' (setsockopt K fd SOL_SOCKET SO_DONTROUTE (VInt 1)) (\<lambda>_.
     log_debug ''tcp dont route? :%d'' (VInt 1))"

definition demo_SO_KEEPALIVE :: "kernel \<Rightarrow> ('a process_scheme, unit) state" where
  "demo_SO_KEEPALIVE K =
     or_close K fd ''SO_KEEPALIVE'' (setsockopt K fd SOL_SOCKET SO_KEEPALIVE (VInt 1)) (\<lambda>_.
     log_debug ''tcp keep alive? :%d'' (VInt 1))"

definition demo_SO_LINGER :: "kernel \<Rightarrow> ('a process_scheme, unit) state" where
  "demo_SO_LINGER K =
     or_close K fd ''SO_LINGER'' (setsockopt K fd SOL_SOCKET SO_LINGER (VLinger 1 5)) (\<lambda>_.
     log_debug ''tcp set so linger? :%d, time:%d'' (VLinger 1 5))"

definition demo_SO_MARK :: "kernel \<Rightarrow> ('a process_scheme, unit) state" where
  "demo_SO_MARK K =
     or_close K fd ''SO_MARK'' (setsockopt K fd SOL_SOCKET SO_MARK (VInt 100)) (\<lambda>_.
     log_debug ''mark socket? :%d'' (VInt 100))"

definition demo_SO_OOBINLINE :: "kernel \<Rightarrow> ('a process_scheme, unit) state" where
  "demo_SO_OOBINLINE K =
     or_close K fd ''SO_OOBINLINE'' (setsockopt K fd SOL_SOCKET SO_OOBINLINE (VInt 1)) (\<lambda>_.
     log_debug ''tcp oobinline? :%d'' (VInt 1))"

definition demo_SO_PEEK_OFF :: "kernel \<Rightarrow> ('a process_scheme, unit) state" where
  "demo_SO_PEEK_OFF K =
     or_close K fd ''SO_PEEK_OFF'' (setsockopt K fd SOL_SOCKET SO_PEEK_OFF (VInt 4)) (\<lambda>_.
     log_debug ''tcp peek off? :%d'' (VInt 4))"

definition demo_SO_PRIORITY :: "kernel \<Rightarrow> ('a process_scheme, unit) state" where
  "demo_SO_PRIORITY K =
     or_close K fd ''SO_PRIORITY'' (setsockopt K fd SOL_SOCKET SO_PRIORITY (VInt 6)) (\<lambda>_.
     do {
       r \<leftarrow> getsockopt K fd IPPROTO_IP IP_TOS;
       if fst r < 0 then do { out (Printf ''Oh no''); log_debug ''tcp ip tos? :%d'' (VInt (-1)) }
       else log_debug ''tcp ip tos? :%d'' (snd r) })"

definition demo_SO_PROTOCOL :: "kernel \<Rightarrow> ('a process_scheme, unit) state" where
  "demo_SO_PROTOCOL K =
     or_close K fd ''SO_PROTOCOL'' (getsockopt K fd SOL_SOCKET SO_PROTOCOL) (\<lambda>v.
     log_debug ''tcp protocal? :%d'' v)"

definition demo_SO_RCVBUF :: "kernel \<Rightarrow> ('a process_scheme, unit) state" where
  "demo_SO_RCVBUF K =
     or_close K fd ''get SO_RCVBUF'' (getsockopt K fd SOL_SOCKET SO_RCVBUF) (\<lambda>val. do {
       log_debug ''tcp rcvbuf default:%d'' val;
       or_close K fd ''set SO_RCVBUF'' (setsockopt K fd SOL_SOCKET SO_RCVBUF (VInt 5000)) (\<lambda>_.
       or_close K fd ''get SO_RCVBUF'' (getsockopt K fd SOL_SOCKET SO_RCVBUF) (\<lambda>val.
       log_debug ''tcp rcvbuf set:%d'' val)) })"

definition demo_SO_RCVBUFFORCE :: "kernel \<Rightarrow> ('a process_scheme, unit) state" where
  "demo_SO_RCVBUFFORCE K =
     or_close K fd ''set SO_RCVBUF'' (setsockopt K fd SOL_SOCKET SO_RCVBUFFORCE (VInt 600000)) (\<lambda>_.
     or_close K fd ''get SO_RCVBUF'' (getsockopt K fd SOL_SOCKET SO_RCVBUF) (\<lambda>val.
     log_debug ''tcp rcvbuf force set:%d'' val))"

definition demo_SO_SNDBUF :: "kernel \<Rightarrow> ('a process_scheme, unit) state" where
  "demo_SO_SNDBUF K =
     or_close K fd ''get SO_SNDBUF'' (getsockopt K fd SOL_SOCKET SO_SNDBUF) (\<lambda>val. do {
       log_debug ''tcp sendbuf default:%d'' val;
       or_close K fd ''set SO_SNDBUF'' (setsockopt K fd SOL_SOCKET SO_SNDBUF (VInt 5000)) (\<lambda>_.
       or_close K fd ''get SO_SNDBUF'' (getsockopt K fd SOL_SOCKET SO_SNDBUF) (\<lambda>val.
       log_debug ''tcp sendbuf set:%d'' val)) })"

definition demo_SO_SNDBUFFORCE :: "kernel \<Rightarrow> ('a process_scheme, unit) state" where
  "demo_SO_SNDBUFFORCE K =
     or_close K fd ''set SO_SNDBUFFORCE'' (setsockopt K fd SOL_SOCKET SO_SNDBUFFORCE (VInt 600000)) (\<lambda>_.
     or_close K fd ''get SO_SNDBUF'' (getsockopt K fd SOL_SOCKET SO_SNDBUF) (\<lambda>val.
     log_debug ''tcp sendbuf force set:%d'' val))"

definition demo_SO_RCVLOWAT :: "kernel \<Rightarrow> ('a process_scheme, unit) state" where
  "demo_SO_RCVLOWAT K =
     or_close K fd ''set SO_RCVLOWAT'' (setsockopt K fd SOL_SOCKET SO_RCVLOWAT (VInt 10)) (\<lambda>_.
     or_close K fd ''get SO_RCVLOWAT'' (getsockopt K fd SOL_SOCKET SO_RCVLOWAT) (\<lambda>val.
     log_debug ''tcp SO_RCVLOWAT set:%d'' val))"

definition demo_SO_SNDLOWAT :: "kernel \<Rightarrow> ('a process_scheme, unit) state" where
  "demo_SO_SNDLOWAT K =
     or_return ''set SO_SNDLOWAT'' (setsockopt K fd SOL_SOCKET SO_SNDLOWAT (VInt 1)) (\<lambda>_.
     log_debug ''tcp sendbuf force set:%d'' (VInt 1))"

definition demo_SO_RCVTIMEO :: "kernel \<Rightarrow> ('a process_scheme, unit) state" where
  "demo_SO_RCVTIMEO K =
     or_close K fd ''set SO_RCVTIMEO'' (setsockopt K fd SOL_SOCKET SO_RCVTIMEO (VTimeval 5 0)) (\<lambda>_.
     log_debug ''tcp rcv timeout set:%d'' (VInt 5))"

definition demo_SO_SNDTIMEO :: "kernel \<Rightarrow> ('a process_scheme, unit) state" where
  "demo_SO_SNDTIMEO K =
     or_close K fd ''set SO_SNDTIMEO'' (setsockopt K fd SOL_SOCKET SO_SNDTIMEO (VTimeval 5 0)) (\<lambda>_.
     log_debug ''tcp rend timeout set:%d'' (VInt 5))"

definition demo_SO_TIMESTAMP :: "kernel \<Rightarrow> ('a process_scheme, unit) state" where
  "demo_SO_TIMESTAMP K =
     or_close K fd ''SO_TIMESTAMP'' (setsockopt K fd SOL_SOCKET SO_TIMESTAMP (VInt 1)) (\<lambda>_.
     log_debug ''tcp enable SO_TIMESTAMP? :%d'' (VInt 1))"

definition demo_SO_TYPE :: "kernel \<Rightarrow> ('a process_scheme, unit) state" where
  "demo_SO_TYPE K =
     or_close K fd ''SO_TYPE'' (getsockopt K fd SOL_SOCKET SO_TYPE) (\<lambda>v.
     log_debug ''tcp SO_TYPE :%d'' v)"

text \<open>The options of the TCP level.\<close>

definition demo_TCP_CORK :: "kernel \<Rightarrow> ('a process_scheme, unit) state" where
  "demo_TCP_CORK K =
     or_close K fd ''TCP_CORK'' (setsockopt K fd IPPROTO_TCP TCP_CORK (VInt 1)) (\<lambda>_.
     log_debug ''tcp TCP_CORK? :%d'' (VInt 1))"

definition demo_TCP_DEFER_ACCEPT :: "kernel \<Rightarrow> ('a process_scheme, unit) state" where
  "demo_TCP_DEFER_ACCEPT K =
     or_close K fd ''TCP_DEFER_ACCEPT'' (setsockopt K fd IPPROTO_TCP TCP_DEFER_ACCEPT (VInt 10)) (\<lambda>_.
     log_debug ''tcp TCP_DEFER_ACCEPT:%d'' (VInt 10))"

definition demo_TCP_INFO :: "kernel \<Rightarrow> ('a process_scheme, unit) state" where
  "demo_TCP_INFO K =
     or_close K fd ''TCP_INFO'' (getsockopt K fd IPPROTO_TCP TCP_INFO) (\<lambda>info. do {
       log_debug ''tcp TCP_INFO: tcpi_snd_ssthresh %lu'' info;
       log_debug ''tcp TCP_INFO: tcpi_snd_cwnd %lu'' info;
       log_debug ''tcp TCP_INFO: tcpi_rcv_ssthresh %lu'' info;
       log_debug ''tcp TCP_INFO: tcpi_rtt %lu'' info;
       log_debug ''tcp TCP_INFO: tcpi_rttvar %lu'' info })"

definition demo_TCP_KEEPCNT :: "kernel \<Rightarrow> ('a process_scheme, unit) state" where
  "demo_TCP_KEEPCNT K =
     or_close K fd ''TCP_KEEPIDLE '' (setsockopt K fd IPPROTO_TCP TCP_KEEPIDLE (VInt 7200)) (\<lambda>_.
     or_close K fd ''TCP_KEEPCNT'' (setsockopt K fd IPPROTO_TCP TCP_KEEPCNT (VInt 5)) (\<lambda>_.
     or_close K fd ''TCP_KEEPINTVL '' (setsockopt K fd IPPROTO_TCP TCP_KEEPINTVL (VInt 150)) (\<lambda>_.
     do {
       log_debug ''tcp TCP_KEEPIDLE:%d'' (VInt 7200);
       log_debug ''tcp TCP_KEEPCNT:%d'' (VInt 5);
       log_debug ''tcp TCP_KEEPINTVL:%d'' (VInt 150) })))"

definition demo_TCP_LINGER2 :: "kernel \<Rightarrow> ('a process_scheme, unit) state" where
  "demo_TCP_LINGER2 K =
     or_close K fd ''TCP_LINGER2'' (setsockopt K fd IPPROTO_TCP TCP_LINGER2 (VInt 90)) (\<lambda>_.
     log_debug ''tcp TCP_LINGER2 :%d'' (VInt 90))"

definition demo_TCP_MAXSEG :: "kernel \<Rightarrow> ('a process_scheme, unit) state" where
  "demo_TCP_MAXSEG K =
     or_close K fd ''TCP_MAXSEG'' (setsockopt K fd IPPROTO_TCP TCP_MAXSEG (VInt 1024)) (\<lambda>_.
     log_debug ''tcp TCP_MAXSEG :%d'' (VInt 1024))"

definition demo_TCP_NODELAY :: "kernel \<Rightarrow> ('a process_scheme, unit) state" where
  "demo_TCP_NODELAY K =
     or_close K fd ''TCP_NODELAY '' (setsockopt K fd IPPROTO_TCP TCP_NODELAY (VInt 1)) (\<lambda>_.
     log_debug ''tcp TCP_NODELAY  :%d'' (VInt 1))"

definition demo_TCP_QUICKACK :: "kernel \<Rightarrow> ('a process_scheme, unit) state" where
  "demo_TCP_QUICKACK K =
     or_close K fd ''TCP_QUICKACK '' (setsockopt K fd IPPROTO_TCP TCP_QUICKACK (VInt 1)) (\<lambda>_.
     log_debug ''tcp TCP_QUICKACK  :%d'' (VInt 1))"

definition demo_TCP_SYNCNT :: "kernel \<Rightarrow> ('a process_scheme, unit) state" where
  "demo_TCP_SYNCNT K =
     or_close K fd ''TCP_SYNCNT '' (setsockopt K fd IPPROTO_TCP TCP_SYNCNT (VInt 7)) (\<lambda>_.
     log_debug ''tcp TCP_SYNCNT  :%d'' (VInt 7))"

definition demo_TCP_WINDOW_CLAMP :: "kernel \<Rightarrow> ('a process_scheme, unit) state" where
  "demo_TCP_WINDOW_CLAMP K =
     or_close K fd ''TCP_WINDOW_CLAMP '' (setsockopt K fd IPPROTO_TCP TCP_WINDOW_CLAMP (VInt 1300)) (\<lambda>_.
     or_close K fd ''TCP_WINDOW_CLAMP '' (getsockopt K fd IPPROTO_TCP TCP_WINDOW_CLAMP) (\<lambda>size.
     log_debug ''tcp TCP_WINDOW_CLAMP  :%d'' size))"

text \<open>
  The ioctl demos print the variable whatever the call returned: when it fails, what the
  uninitialised variable holds is the kernel parameter's answer.
\<close>

definition demo_SIOCINQ :: "kernel \<Rightarrow> ('a process_scheme, unit) state" where
  "demo_SIOCINQ K =
     do { r \<leftarrow> ioctl K fd SIOCINQ VNone; log_debug ''tcp SIOCINQ:%d'' (snd r) }"

definition demo_SIOCOUTQ :: "kernel \<Rightarrow> ('a process_scheme, unit) state" where
  "demo_SIOCOUTQ K =
     do { r \<leftarrow> ioctl K fd SIOCOUTQ VNone; log_debug ''tcp SIOCOUTQ:%d'' (snd r) }"

definition demo_SIOCATMARK :: "kernel \<Rightarrow> ('a process_scheme, unit) state" where
  "demo_SIOCATMARK K =
     do { r \<leftarrow> ioctl K fd SIOCATMARK VNone; log_debug ''tcp SIOCATMARK:%d'' (snd r) }"

section \<open>The TCP socket\<close>

text \<open>The calls of the demos in \<open>demo_tcp_init\<close>.\<close>

definition tcp_demos :: "kernel \<Rightarrow> ('a process_scheme, unit) state" where
  "tcp_demos K =
     do {
       demo_SO_ACCEPTCONN K;
       demo_SO_BINDTODEVICE K;
       demo_SO_DONTROUTE K;
       demo_SO_KEEPALIVE K;
       demo_SO_LINGER K;
       demo_SO_MARK K;
       demo_SO_OOBINLINE K;
       demo_SO_PRIORITY K;
       demo_SO_PROTOCOL K;
       demo_SO_RCVBUF K;
       demo_SO_RCVBUFFORCE K;
       demo_SO_SNDBUF K;
       demo_SO_SNDBUFFORCE K;
       demo_SO_RCVLOWAT K;
       demo_SO_SNDLOWAT K;
       demo_SO_RCVTIMEO K;
       demo_SO_SNDTIMEO K;
       demo_SO_TIMESTAMP K;
       demo_TCP_CORK K;
       demo_TCP_DEFER_ACCEPT K;
       demo_TCP_INFO K;
       demo_TCP_KEEPCNT K;
       demo_TCP_LINGER2 K;
       demo_TCP_MAXSEG K;
       demo_TCP_NODELAY K;
       demo_TCP_QUICKACK K;
       demo_TCP_SYNCNT K;
       demo_TCP_WINDOW_CLAMP K }"

text \<open>Close-on-exec, and blocking mode: the argument of the second \<open>fcntl\<close> of the mode.\<close>

definition tcp_options :: "kernel \<Rightarrow> ('a process_scheme, int) state" where
  "tcp_options K =
     do {
       r \<leftarrow> setsockopt K fd SOL_SOCKET SO_REUSEPORT (VInt 1);
       _ \<leftarrow> if fst r = -1 then perror ''SO_REUSEPORT'' else State_Monad.return ();
       tcp_demos K;
       r \<leftarrow> fcntl K fd F_SETFD FD_CLOEXEC;
       _ \<leftarrow> if r < 0 then perror ''FD_CLOEXEC'' else State_Monad.return ();
       flags \<leftarrow> fcntl K fd F_GETFL 0;
       State_Monad.return (flags AND NOT O_NONBLOCK) }"

definition tcp_listen :: "kernel \<Rightarrow> int \<Rightarrow> ('a process_scheme, int) state" where
  "tcp_listen K flags =
     do {
       r \<leftarrow> fcntl K fd F_SETFL flags;
       if r < 0 then do { perror ''unw_set_block error.''; sys_close K fd; State_Monad.return (-1) }
       else do {
         n \<leftarrow> gets fd;
         r \<leftarrow> sys K (Bind n (VSockaddr (htons 12130) [0, 0, 0, 0]));
         if fst r \<noteq> 0 then do { perror ''bind error.''; sys_close K fd; State_Monad.return (-1) }
         else do {
           n \<leftarrow> gets fd;
           r \<leftarrow> sys K (Listen n 4);
           if fst r \<noteq> 0 then do { perror ''unw_listen error.''; sys_close K fd; State_Monad.return (-1) }
           else do {
             demo_SO_ACCEPTCONN K;
             State_Monad.return 0 } } } }"

definition set_fd :: "int \<Rightarrow> ('a process_scheme, unit) state" where
  "set_fd n = State (\<lambda>w. ((), w\<lparr>fd := n\<rparr>))"

definition demo_tcp_init :: "kernel \<Rightarrow> ('a process_scheme, int) state" where
  "demo_tcp_init K =
     do {
       s \<leftarrow> sys K (Socket SOCK_STREAM IPPROTO_TCP);
       set_fd (fst s);
       if fst s = -1 then do { perror ''create socket error.''; State_Monad.return (-1) }
       else do {
         r \<leftarrow> setsockopt K fd SOL_SOCKET SO_REUSEADDR (VInt 1);
         if fst r = -1 then do { perror ''SO_REUSEADDR''; sys_close K fd; State_Monad.return (-1) }
         else do {
           flags \<leftarrow> tcp_options K;
           tcp_listen K flags } } }"

section \<open>The UDP socket\<close>

definition demo_SO_BROADCAST :: "kernel \<Rightarrow> ('a sock_process_scheme, unit) state" where
  "demo_SO_BROADCAST K =
     or_close K udp_fd ''SO_BROADCAST'' (setsockopt K udp_fd SOL_SOCKET SO_BROADCAST (VInt 1)) (\<lambda>_.
     or_close K udp_fd ''SO_BROADCAST'' (getsockopt K udp_fd SOL_SOCKET SO_BROADCAST) (\<lambda>on.
     log_debug ''udp is broadcast? :%d'' on))"

definition set_udp_fd :: "int \<Rightarrow> ('a sock_process_scheme, unit) state" where
  "set_udp_fd n = State (\<lambda>w. ((), w\<lparr>udp_fd := n\<rparr>))"

definition demo_udp_init :: "kernel \<Rightarrow> ('a sock_process_scheme, int) state" where
  "demo_udp_init K =
     do {
       s \<leftarrow> sys K (Socket SOCK_DGRAM IPPROTO_UDP);
       set_udp_fd (fst s);
       if fst s = -1 then do { perror ''create socket error.''; State_Monad.return (-1) }
       else do { demo_SO_BROADCAST K; State_Monad.return 0 } }"

section \<open>The IP level\<close>

text \<open>The interface index, read on the TCP socket.\<close>

definition demo_SIOCGIFINDEX :: "kernel \<Rightarrow> string \<Rightarrow> ('a process_scheme, int) state" where
  "demo_SIOCGIFINDEX K ifname =
     do {
       r \<leftarrow> ioctl K fd SIOCGIFINDEX (VIfreq (ifreq_of ifname));
       if fst r = -1 then do { perror ''ioctl''; State_Monad.return (-1) }
       else do {
         log_debug ''%s index:%d'' (snd r);
         State_Monad.return (ifru_int (reply_ifreq (snd r))) } }"

definition demo_IP_ADD_MEMBERSHIP :: "kernel \<Rightarrow> ('a sock_process_scheme, unit) state" where
  "demo_IP_ADD_MEMBERSHIP K =
     do {
       index \<leftarrow> demo_SIOCGIFINDEX K ''eth0'';
       or_return ''set IP_ADD_MEMBERSHIP'' (setsockopt K ip_fd IPPROTO_IP IP_ADD_MEMBERSHIP
         (VMreqn multi_ip local_ip (if index = -1 then 0 else index))) (\<lambda>_.
       log_debug ''ip IP_ADD_MEMBERSHIP success:%s'' (VBytes multi_ip)) }"

definition demo_IP_ADD_SOURCE_MEMBERSHIP :: "kernel \<Rightarrow> ('a sock_process_scheme, unit) state" where
  "demo_IP_ADD_SOURCE_MEMBERSHIP K =
     or_return ''set IP_ADD_SOURCE_MEMBERSHIP'' (setsockopt K ip_fd IPPROTO_IP IP_ADD_SOURCE_MEMBERSHIP
       (VMreqSource multi_ip local_ip other_ip)) (\<lambda>_.
     log_debug ''ip IP_ADD_SOURCE_MEMBERSHIP success:%s'' (VBytes other_ip))"

definition demo_IP_BIND_ADDRESS_NO_PORT :: "kernel \<Rightarrow> ('a sock_process_scheme, unit) state" where
  "demo_IP_BIND_ADDRESS_NO_PORT K =
     State_Monad.return ()"

definition demo_IP_BLOCK_SOURCE :: "kernel \<Rightarrow> ('a sock_process_scheme, unit) state" where
  "demo_IP_BLOCK_SOURCE K =
     or_return ''set IP_BLOCK_SOURCE'' (setsockopt K ip_fd IPPROTO_IP IP_BLOCK_SOURCE
       (VMreqSource multi_ip local_ip other_ip)) (\<lambda>_.
     log_debug ''ip IP_BLOCK_SOURCE success:%s'' (VBytes other_ip))"

definition demo_IP_UNBLOCK_SOURCE :: "kernel \<Rightarrow> ('a sock_process_scheme, unit) state" where
  "demo_IP_UNBLOCK_SOURCE K =
     or_return ''set IP_UNBLOCK_SOURCE'' (setsockopt K ip_fd IPPROTO_IP IP_UNBLOCK_SOURCE
       (VMreqSource multi_ip local_ip other_ip)) (\<lambda>_.
     log_debug ''ip IP_UNBLOCK_SOURCE success:%s'' (VBytes other_ip))"

definition demo_IP_DROP_MEMBERSHIP :: "kernel \<Rightarrow> ('a sock_process_scheme, unit) state" where
  "demo_IP_DROP_MEMBERSHIP K =
     do {
       index \<leftarrow> demo_SIOCGIFINDEX K ''eth0'';
       or_return ''set IP_DROP_MEMBERSHIP'' (setsockopt K ip_fd IPPROTO_IP IP_DROP_MEMBERSHIP
         (VMreqn multi_ip local_ip (if index = -1 then 0 else index))) (\<lambda>_.
       log_debug ''ip IP_DROP_MEMBERSHIP success:%s'' (VBytes multi_ip)) }"

definition demo_IP_DROP_SOURCE_MEMBERSHIP :: "kernel \<Rightarrow> ('a sock_process_scheme, unit) state" where
  "demo_IP_DROP_SOURCE_MEMBERSHIP K =
     or_return ''set IP_DROP_SOURCE_MEMBERSHIP'' (setsockopt K ip_fd IPPROTO_IP IP_DROP_SOURCE_MEMBERSHIP
       (VMreqSource multi_ip local_ip other_ip)) (\<lambda>_.
     log_debug ''ip IP_DROP_SOURCE_MEMBERSHIP success:%s'' (VBytes other_ip))"

definition demo_IP_FREEBIND :: "kernel \<Rightarrow> ('a sock_process_scheme, unit) state" where
  "demo_IP_FREEBIND K =
     or_return ''set IP_FREEBIND'' (setsockopt K ip_fd IPPROTO_IP IP_FREEBIND (VInt 1)) (\<lambda>_.
     log_debug ''ip IP_FREEBIND success:%d'' (VInt 1))"

definition demo_IP_HDRINCL :: "kernel \<Rightarrow> ('a sock_process_scheme, unit) state" where
  "demo_IP_HDRINCL K =
     or_return ''set IP_HDRINCL'' (setsockopt K ip_fd IPPROTO_IP IP_HDRINCL (VInt 1)) (\<lambda>_.
     log_debug ''ip IP_HDRINCL success:%d'' (VInt 1))"

definition demo_IP_MSFILTER :: "kernel \<Rightarrow> ('a sock_process_scheme, unit) state" where
  "demo_IP_MSFILTER K =
     do {
       demo_IP_ADD_MEMBERSHIP K;
       let filter = msfilter_zero \<lparr>imsf_multiaddr := multi_ip, imsf_interface := local_ip\<rparr>;
       let filter = filter\<lparr>imsf_fmode := MCAST_INCLUDE\<rparr>;
       let filter = filter\<lparr>imsf_fmode := 2\<rparr>;
       let filter = filter\<lparr>imsf_slist := (imsf_slist filter)[0 := local_ip]\<rparr>;
       let filter = filter\<lparr>imsf_slist := (imsf_slist filter)[1 := [192, 168, 137, 8]]\<rparr>;
       or_return ''set IP_MSFILTER'' (setsockopt K ip_fd IPPROTO_IP IP_MSFILTER (VMsfilter
         (imsf_multiaddr filter) (imsf_interface filter) (imsf_fmode filter) (imsf_numsrc filter)
         (imsf_slist filter))) (\<lambda>_.
       log_debug ''ip IP_MSFILTER success'' VNone) }"

definition demo_IP_MTU :: "kernel \<Rightarrow> ('a sock_process_scheme, unit) state" where
  "demo_IP_MTU K =
     or_return ''set IP_MTU'' (getsockopt K fd IPPROTO_IP IP_MTU) (\<lambda>mtu.
     log_debug ''ip IP_MTU success:%d'' mtu)"

definition demo_IP_MTU_DISCOVER :: "kernel \<Rightarrow> ('a sock_process_scheme, unit) state" where
  "demo_IP_MTU_DISCOVER K =
     or_return ''set IP_MTU_DISCOVER'' (setsockopt K fd IPPROTO_IP IP_MTU_DISCOVER (VInt IP_PMTUDISC_DO)) (\<lambda>_.
     log_debug ''ip IP_MTU_DISCOVER success:%d'' (VInt IP_PMTUDISC_DO))"

definition demo_IP_MULTICAST_ALL :: "kernel \<Rightarrow> ('a sock_process_scheme, unit) state" where
  "demo_IP_MULTICAST_ALL K =
     or_return ''set IP_MULTICAST_ALL'' (setsockopt K fd IPPROTO_IP IP_MULTICAST_ALL (VInt 1)) (\<lambda>_.
     log_debug ''ip IP_MULTICAST_ALL success:%d'' (VInt 1))"

definition demo_IP_MULTICAST_IF :: "kernel \<Rightarrow> ('a sock_process_scheme, unit) state" where
  "demo_IP_MULTICAST_IF K =
     do {
       index \<leftarrow> demo_SIOCGIFINDEX K ''eth0'';
       or_return ''set IP_MULTICAST_IF'' (setsockopt K ip_fd IPPROTO_IP IP_MULTICAST_IF
         (VMreqn multi_ip local_ip (if index = -1 then 0 else index))) (\<lambda>_.
       log_debug ''ip IP_MULTICAST_IF success:%s'' (VBytes multi_ip)) }"

definition demo_IP_MULTICAST_LOOP :: "kernel \<Rightarrow> ('a sock_process_scheme, unit) state" where
  "demo_IP_MULTICAST_LOOP K =
     or_return ''set IP_MULTICAST_LOOP'' (setsockopt K ip_fd IPPROTO_IP IP_MULTICAST_LOOP (VInt 1)) (\<lambda>_.
     log_debug ''ip IP_MULTICAST_LOOP success:%d'' (VInt 1))"

definition demo_IP_MULTICAST_TTL :: "kernel \<Rightarrow> ('a sock_process_scheme, unit) state" where
  "demo_IP_MULTICAST_TTL K =
     or_return ''set IP_MULTICAST_TTL '' (setsockopt K ip_fd IPPROTO_IP IP_MULTICAST_TTL (VChar 255)) (\<lambda>_.
     log_debug ''ip IP_MULTICAST_TTL  success:%d'' (VChar 255))"

text \<open>The 40-byte array of options is not initialised; the first 8 bytes of it are passed.\<close>

definition demo_IP_OPTIONS :: "u8 list \<Rightarrow> kernel \<Rightarrow> ('a sock_process_scheme, unit) state" where
  "demo_IP_OPTIONS options K =
     or_return ''set IP_OPTIONS '' (setsockopt K fd IPPROTO_IP IP_OPTIONS (VBytes (take 8 options))) (\<lambda>_.
     log_debug ''ip IP_OPTIONS  success'' VNone)"

definition demo_IP_TTL :: "kernel \<Rightarrow> ('a sock_process_scheme, unit) state" where
  "demo_IP_TTL K =
     or_return ''set IP_TTL '' (setsockopt K ip_fd IPPROTO_IP IP_TTL (VInt 100)) (\<lambda>_.
     log_debug ''ip IP_TTL  success:%d'' (VInt 100))"

definition demo_IP_TOS :: "kernel \<Rightarrow> ('a sock_process_scheme, unit) state" where
  "demo_IP_TOS K =
     or_return ''set IP_TOS '' (setsockopt K ip_fd IPPROTO_IP IP_TOS (VInt IPTOS_LOWDELAY)) (\<lambda>_.
     log_debug ''ip IP_TOS  success:%d'' (VInt IPTOS_LOWDELAY))"

definition set_ip_fd :: "int \<Rightarrow> ('a sock_process_scheme, unit) state" where
  "set_ip_fd n = State (\<lambda>w. ((), w\<lparr>ip_fd := n\<rparr>))"

definition ip_demos :: "kernel \<Rightarrow> ('a sock_process_scheme, unit) state" where
  "ip_demos K =
     do {
       demo_IP_ADD_MEMBERSHIP K;
       demo_IP_ADD_SOURCE_MEMBERSHIP K;
       demo_IP_BLOCK_SOURCE K;
       demo_IP_UNBLOCK_SOURCE K;
       demo_IP_DROP_SOURCE_MEMBERSHIP K;
       demo_IP_FREEBIND K;
       demo_IP_HDRINCL K;
       demo_IP_MSFILTER K;
       demo_IP_MTU K;
       demo_IP_MTU_DISCOVER K;
       demo_IP_MULTICAST_ALL K;
       demo_IP_MULTICAST_IF K;
       demo_IP_MULTICAST_LOOP K;
       demo_IP_MULTICAST_TTL K;
       demo_IP_TTL K;
       demo_IP_TOS K }"

definition demo_ip_init :: "kernel \<Rightarrow> ('a sock_process_scheme, int) state" where
  "demo_ip_init K =
     do {
       s \<leftarrow> sys K (Socket SOCK_RAW IPPROTO_ICMP);
       set_ip_fd (fst s);
       if fst s = -1 then do { perror ''create socket error.''; State_Monad.return (-1) }
       else do { ip_demos K; State_Monad.return 0 } }"

definition sock_main :: "kernel \<Rightarrow> ('a sock_process_scheme, int) state" where
  "sock_main K =
     func_exec ''demo_tcp_init()'' (demo_tcp_init K) (
     func_exec ''demo_udp_init()'' (demo_udp_init K) (
     func_exec ''demo_ip_init()'' (demo_ip_init K) (State_Monad.return 0)))"

section \<open>What the demos can do\<close>

lemmas tcp_demo_defs =
  demo_SO_ACCEPTCONN_def demo_SO_BINDTODEVICE_def demo_SO_DONTROUTE_def demo_SO_KEEPALIVE_def
  demo_SO_LINGER_def demo_SO_MARK_def demo_SO_OOBINLINE_def demo_SO_PRIORITY_def
  demo_SO_PROTOCOL_def demo_SO_RCVBUF_def demo_SO_RCVBUFFORCE_def demo_SO_SNDBUF_def
  demo_SO_SNDBUFFORCE_def demo_SO_RCVLOWAT_def demo_SO_SNDLOWAT_def demo_SO_RCVTIMEO_def
  demo_SO_SNDTIMEO_def demo_SO_TIMESTAMP_def demo_TCP_CORK_def demo_TCP_DEFER_ACCEPT_def
  demo_TCP_INFO_def demo_TCP_KEEPCNT_def demo_TCP_LINGER2_def demo_TCP_MAXSEG_def
  demo_TCP_NODELAY_def demo_TCP_QUICKACK_def demo_TCP_SYNCNT_def demo_TCP_WINDOW_CLAMP_def

lemmas ip_demo_defs =
  demo_SIOCGIFINDEX_def demo_IP_ADD_MEMBERSHIP_def demo_IP_ADD_SOURCE_MEMBERSHIP_def
  demo_IP_BLOCK_SOURCE_def demo_IP_UNBLOCK_SOURCE_def demo_IP_DROP_SOURCE_MEMBERSHIP_def
  demo_IP_FREEBIND_def demo_IP_HDRINCL_def demo_IP_MTU_def demo_IP_MTU_DISCOVER_def
  demo_IP_MULTICAST_ALL_def demo_IP_MULTICAST_IF_def demo_IP_MULTICAST_LOOP_def
  demo_IP_MULTICAST_TTL_def demo_IP_TTL_def demo_IP_TOS_def

lemma quiet_tcp_demos [only_intros]: "quiet (tcp_demos K)"
  unfolding tcp_demos_def tcp_demo_defs by (intro only_intros)

lemma quiet_ACCEPTCONN [only_intros]: "quiet (demo_SO_ACCEPTCONN K)"
  unfolding demo_SO_ACCEPTCONN_def by (intro only_intros)

lemma quiet_tcp_options [only_intros]: "quiet (tcp_options K)"
  unfolding tcp_options_def by (intro only_intros)

section \<open>The listening socket\<close>

text \<open>
  The last part of \<open>demo_tcp_init\<close>, on a process whose descriptor is \<open>n\<close>: what it
  returns and the calls it makes.
\<close>

lemma run_fcntl: "run_state (fcntl K d cmd arg) w
  = (fst (K (calls w) (Fcntl (d w) cmd arg)),
     w\<lparr>calls := calls w @ [(Fcntl (d w) cmd arg, fst (K (calls w) (Fcntl (d w) cmd arg)))]\<rparr>)"
  by (simp add: fcntl_def)

lemma run_sys_close: "run_state (sys_close K d) w
  = ((), w\<lparr>calls := calls w @ [(Close (d w), fst (K (calls w) (Close (d w))))]\<rparr>)"
  by (simp add: sys_close_def)

lemma run_ACCEPTCONN:
  assumes "fd w = n" and "calls w = t"
  shows "\<exists>g c l. run_state (demo_SO_ACCEPTCONN K) w = ((), w\<lparr>calls := t @
      (Getsockopt n SOL_SOCKET SO_ACCEPTCONN, g) # (if g = -1 then [(Close n, c)] else []),
      printed := l\<rparr>)"
proof -
  let ?q = "Getsockopt n SOL_SOCKET SO_ACCEPTCONN"
  let ?r = "K t ?q"
  let ?c = "fst (K (t @ [(?q, fst ?r)]) (Close n))"
  let ?l = "printed w @ [if fst ?r = -1 then Perror ''SO_ACCEPTCONN'' else Debug ''fd is listening? :%d'' (snd ?r)]"
  show ?thesis
    by (rule exI [of _ "fst ?r"], rule exI [of _ ?c], rule exI [of _ ?l])
      (simp add: demo_SO_ACCEPTCONN_def or_close_def perror_def log_debug_def run_sys_close assms)
qed

definition listen_tail :: "int \<Rightarrow> trace \<Rightarrow> bool" where
  "listen_tail n t \<longleftrightarrow> (\<exists>g c. t = [(Listen n 4, 0), (Getsockopt n SOL_SOCKET SO_ACCEPTCONN, g)]
     @ (if g = -1 then [(Close n, c)] else []))"

lemma tcp_listen_calls:
  assumes "run_state (tcp_listen K flags) w = (r, w')" and "ebadf K"
  shows "fd w' = fd w \<and> (\<exists>pre t. calls w' = calls w @ pre @ t \<and> \<not> closes (fd w) pre \<and> pre \<noteq> []
    \<and> (r = 0 \<and> \<not> dead (fd w) (calls w) \<and> listen_tail (fd w) t
       \<or> r = -1 \<and> (\<exists>x. t = [(Close (fd w), x)] \<and> (dead (fd w) (calls w) \<longrightarrow> x = -1))))"
proof -
  define n where "n = fd w"
  define x1 where "x1 = fst (K (calls w) (Fcntl n F_SETFL flags))"
  define t1 where "t1 = calls w @ [(Fcntl n F_SETFL flags, x1)]"
  define x2 where "x2 = fst (K t1 (Bind n (VSockaddr (htons 12130) [0, 0, 0, 0])))"
  define t2 where "t2 = t1 @ [(Bind n (VSockaddr (htons 12130) [0, 0, 0, 0]), x2)]"
  define x3 where "x3 = fst (K t2 (Listen n 4))"
  define t3 where "t3 = t2 @ [(Listen n 4, x3)]"
  have dead1: "x1 = -1" if "dead n (calls w)"
    using ebadfD [OF assms(2) that] by (simp add: x1_def)
  have dead2: "fst (K (calls w @ [(Fcntl n F_SETFL flags, y)]) (Close n)) = -1" if "dead n (calls w)" for y
  proof (rule ebadfD [OF assms(2)])
    show "dead n (calls w @ [(Fcntl n F_SETFL flags, y)])"
      using dead_quiet_ext [of "[(Fcntl n F_SETFL flags, y)]" n "calls w"] that by simp
  qed simp
  have fail: ?thesis if "r = -1" "fd w' = n" "calls w' = calls w @ pre @ [(Close n, x)]"
    "\<not> closes n pre" "pre \<noteq> []" "dead n (calls w) \<longrightarrow> x = -1" for pre x
    using that unfolding n_def by blast
  consider "x1 < 0" | "\<not> x1 < 0" "x2 \<noteq> 0" | "\<not> x1 < 0" "x2 = 0" "x3 \<noteq> 0"
    | "\<not> x1 < 0" "x2 = 0" "x3 = 0" by blast
  then show ?thesis
  proof cases
    case 1
    with assms(1) have "r = -1" "fd w' = n" "calls w' = calls w @ [(Fcntl n F_SETFL flags, x1)]
        @ [(Close n, fst (K t1 (Close n)))]"
      by (auto simp: tcp_listen_def run_fcntl run_sys_close perror_def n_def x1_def t1_def)
    moreover have "dead n (calls w) \<longrightarrow> fst (K t1 (Close n)) = -1"
      using dead2 unfolding t1_def by blast
    ultimately show ?thesis by (intro fail [of "[(Fcntl n F_SETFL flags, x1)]"]) simp_all
  next
    case 2
    with assms(1) have "r = -1" "fd w' = n" "calls w' = calls w
        @ [(Fcntl n F_SETFL flags, x1), (Bind n (VSockaddr (htons 12130) [0, 0, 0, 0]), x2)]
        @ [(Close n, fst (K t2 (Close n)))]"
      by (auto simp: tcp_listen_def run_fcntl run_sys_close perror_def n_def x1_def t1_def x2_def t2_def)
    moreover have "\<not> dead n (calls w)" using dead1 2 by auto
    ultimately show ?thesis
      by (intro fail [of "[(Fcntl n F_SETFL flags, x1), (Bind n (VSockaddr (htons 12130) [0, 0, 0, 0]), x2)]"])
        simp_all
  next
    case 3
    with assms(1) have "r = -1" "fd w' = n" "calls w' = calls w
        @ [(Fcntl n F_SETFL flags, x1), (Bind n (VSockaddr (htons 12130) [0, 0, 0, 0]), x2), (Listen n 4, x3)]
        @ [(Close n, fst (K t3 (Close n)))]"
      by (auto simp: tcp_listen_def run_fcntl run_sys_close perror_def n_def x1_def t1_def x2_def t2_def
          x3_def t3_def)
    moreover have "\<not> dead n (calls w)" using dead1 3 by auto
    ultimately show ?thesis
      by (intro fail [of "[(Fcntl n F_SETFL flags, x1), (Bind n (VSockaddr (htons 12130) [0, 0, 0, 0]), x2), (Listen n 4, x3)]"])
        simp_all
  next
    case 4
    let ?pre = "[(Fcntl n F_SETFL flags, x1), (Bind n (VSockaddr (htons 12130) [0, 0, 0, 0]), x2)]"
    have t3: "t3 = calls w @ ?pre @ [(Listen n 4, 0)]" using 4 by (simp add: t3_def t2_def t1_def)
    have "\<exists>g c l. run_state (demo_SO_ACCEPTCONN K) (w\<lparr>calls := t3\<rparr>) = ((), w\<lparr>calls := t3 @
        (Getsockopt n SOL_SOCKET SO_ACCEPTCONN, g) # (if g = -1 then [(Close n, c)] else []),
        printed := l\<rparr>)"
      using run_ACCEPTCONN [of "w\<lparr>calls := t3\<rparr>" n t3 K] by (simp add: n_def)
    then obtain g c l where A: "run_state (demo_SO_ACCEPTCONN K) (w\<lparr>calls := t3\<rparr>) = ((), w\<lparr>calls := t3 @
        (Getsockopt n SOL_SOCKET SO_ACCEPTCONN, g) # (if g = -1 then [(Close n, c)] else []),
        printed := l\<rparr>)"
      by blast
    have "run_state (tcp_listen K flags) w
        = run_state (State_Monad.bind (demo_SO_ACCEPTCONN K) (\<lambda>_. State_Monad.return 0)) (w\<lparr>calls := t3\<rparr>)"
      using 4 by (simp add: tcp_listen_def run_fcntl t3_def t2_def t1_def x3_def x2_def x1_def n_def
          flip: append.assoc)
    with A assms(1) have "r = 0" "fd w' = n" "calls w' = calls w @ ?pre @ [(Listen n 4, 0),
        (Getsockopt n SOL_SOCKET SO_ACCEPTCONN, g)] @ (if g = -1 then [(Close n, c)] else [])"
      by (auto simp: n_def t3 split_beta)
    moreover have "\<not> dead n (calls w)" using dead1 4 by auto
    moreover have "listen_tail n ([(Listen n 4, 0), (Getsockopt n SOL_SOCKET SO_ACCEPTCONN, g)]
        @ (if g = -1 then [(Close n, c)] else []))"
      by (auto simp: listen_tail_def)
    moreover have "\<not> closes n ?pre" "?pre \<noteq> []" by simp_all
    ultimately show ?thesis unfolding n_def by blast
  qed
qed

lemma run_set_fd [simp]: "run_state (set_fd n) w = ((), w\<lparr>fd := n\<rparr>)"
  by (simp add: set_fd_def)

text \<open>
  The calls of \<open>demo_tcp_init\<close> once the socket is there: either the first option fails
  and the socket is closed, or the options are set and \<open>tcp_listen\<close> follows.
\<close>

lemma demo_tcp_init_cases:
  assumes "run_state (demo_tcp_init K) w = (r, w')" and K: "ebadf K"
    and sock: "fst (K (calls w) (Socket SOCK_STREAM IPPROTO_TCP)) = n" "n \<noteq> -1"
  shows "fd w' = n \<and> (\<exists>pre t. calls w' = calls w @ (Socket SOCK_STREAM IPPROTO_TCP, n) # pre @ t
    \<and> (r = 0 \<and> \<not> closes n pre \<and> listen_tail n t \<or> r = -1 \<and> (\<exists>x. t = [(Close n, x)] \<and> (closes n pre \<longrightarrow> x = -1))))"
proof -
  let ?o = "Setsockopt n SOL_SOCKET SO_REUSEADDR (VInt 1)"
  let ?t0 = "calls w @ [(Socket SOCK_STREAM IPPROTO_TCP, n)]"
  let ?x = "fst (K ?t0 ?o)"
  let ?w1 = "w\<lparr>fd := n, calls := ?t0 @ [(?o, ?x)]\<rparr>"
  show ?thesis
  proof (cases "?x = -1")
    case True
    with assms(1) sock have "r = -1" "fd w' = n"
      "calls w' = calls w @ (Socket SOCK_STREAM IPPROTO_TCP, n) # [(?o, -1)]
        @ [(Close n, fst (K (?t0 @ [(?o, -1)]) (Close n)))]"
      by (auto simp: demo_tcp_init_def perror_def run_sys_close)
    moreover have "\<not> closes n [(?o, -1)]" by simp
    ultimately show ?thesis by blast
  next
    case False
    obtain flags w2 where o: "run_state (tcp_options K) ?w1 = (flags, w2)" by fastforce
    obtain ext lines where e: "exec (tcp_options K) ?w1
        = ?w1\<lparr>calls := calls ?w1 @ ext, printed := printed ?w1 @ lines\<rparr>"
      "\<And>m. dead m (calls ?w1 @ ext) \<longleftrightarrow> dead m (calls ?w1) \<or> closes m ext"
      by (rule quietE [OF quiet_tcp_options]) blast
    have w2: "fd w2 = n" "calls w2 = ?t0 @ (?o, ?x) # ext" using e(1) o by (auto simp: exec_def)
    have "\<not> dead n ?t0" by (simp add: dead_append fd_event_def)
    moreover have "dead n (?t0 @ [(?o, ?x)]) \<longleftrightarrow> dead n ?t0"
      by (rule trans [OF dead_quiet_ext]) simp_all
    ultimately have d: "dead n (calls w2) \<longleftrightarrow> closes n ext" using e(2) [of n] w2 by simp
    have l: "run_state (tcp_listen K flags) w2 = (r, w')"
      using assms(1) sock False o by (simp add: demo_tcp_init_def)
    obtain pre t where t: "fd w' = n" "calls w' = calls w2 @ pre @ t" "\<not> closes n pre"
      "r = 0 \<and> \<not> closes n ext \<and> listen_tail n t
        \<or> r = -1 \<and> (\<exists>x. t = [(Close n, x)] \<and> (closes n ext \<longrightarrow> x = -1))"
      using tcp_listen_calls [OF l K] w2(1) d by auto
    have "calls w' = calls w @ (Socket SOCK_STREAM IPPROTO_TCP, n) # ((?o, ?x) # ext @ pre) @ t"
      using t(2) w2(2) by simp
    moreover have "closes n ((?o, ?x) # ext @ pre) \<longleftrightarrow> closes n ext" using t(3) by simp
    ultimately show ?thesis using t(1,4) by blast
  qed
qed

text \<open>
  C20. When \<open>demo_tcp_init\<close> returns 0, its socket was open and listening: no call between
  \<open>socket\<close> and \<open>listen\<close> closed it, although every demo in between closes it on a
  failure and says nothing to its caller, since a later call on the closed descriptor would
  have failed. But the last demo, after \<open>listen\<close>, closes the socket when its
  \<open>getsockopt\<close> fails, and \<open>demo_tcp_init\<close> returns 0 all the same.
\<close>

theorem demo_tcp_init_listening:
  assumes "ebadf K" and "run_state (demo_tcp_init K) w = (0, w')"
  shows "fd w' \<noteq> -1 \<and> (\<exists>pre g c. calls w' = calls w @ (Socket SOCK_STREAM IPPROTO_TCP, fd w') # pre
      @ [(Listen (fd w') 4, 0), (Getsockopt (fd w') SOL_SOCKET SO_ACCEPTCONN, g)]
      @ (if g = -1 then [(Close (fd w'), c)] else [])
    \<and> \<not> closes (fd w') pre)"
proof -
  define n where "n = fst (K (calls w) (Socket SOCK_STREAM IPPROTO_TCP))"
  have n: "n \<noteq> -1"
    using assms(2) by (auto simp: demo_tcp_init_def n_def perror_def)
  obtain pre t where fd: "fd w' = n" and "\<not> closes n pre"
    "calls w' = calls w @ (Socket SOCK_STREAM IPPROTO_TCP, n) # pre @ t" "listen_tail n t"
    using demo_tcp_init_cases [OF assms(2,1) n_def [symmetric] n] by auto
  moreover then obtain g c where "t = [(Listen n 4, 0), (Getsockopt n SOL_SOCKET SO_ACCEPTCONN, g)]
      @ (if g = -1 then [(Close n, c)] else [])"
    unfolding listen_tail_def by blast
  ultimately show ?thesis using n unfolding fd by blast
qed

text \<open>
  A demo that fails closes the socket and lets the program go on with the stale number:
  whenever a call of \<open>demo_tcp_init\<close> closes the socket and another call follows,
  \<open>demo_tcp_init\<close> returns -1 and its last call is a second \<open>close\<close> of the same number,
  which the kernel refuses.
\<close>

theorem demo_tcp_init_double_close:
  assumes "ebadf K" and "run_state (demo_tcp_init K) w = (r, w')"
    and "calls w' = calls w @ (Socket SOCK_STREAM IPPROTO_TCP, n) # ext" and "n \<noteq> -1"
    and "ext = a @ (Close n, x) # b" and "b \<noteq> []"
  shows "r = -1 \<and> last ext = (Close n, -1)"
proof -
  define m where "m = fst (K (calls w) (Socket SOCK_STREAM IPPROTO_TCP))"
  have m: "m \<noteq> -1" "m = n"
  proof -
    have "m = n" if "m = -1" using assms(2,3) that
      by (auto simp: demo_tcp_init_def m_def perror_def)
    moreover have "m = n" if "m \<noteq> -1"
      using demo_tcp_init_cases [OF assms(2,1) m_def [symmetric] that] assms(3) by auto
    ultimately show "m = n" by blast
    with assms(4) show "m \<noteq> -1" by simp
  qed
  obtain pre t where t: "calls w' = calls w @ (Socket SOCK_STREAM IPPROTO_TCP, n) # pre @ t"
    "r = 0 \<and> \<not> closes n pre \<and> listen_tail n t \<or> r = -1 \<and> (\<exists>x. t = [(Close n, x)] \<and> (closes n pre \<longrightarrow> x = -1))"
    using demo_tcp_init_cases [OF assms(2,1) m_def [symmetric] m(1)] m(2) by blast
  have ext: "pre @ t = a @ (Close n, x) # b" using t(1) assms(3,5) by simp
  have but: "closes n (butlast (pre @ t))" unfolding ext using assms(6) by (simp add: butlast_append)
  from t(2) show ?thesis
  proof
    assume zero: "r = 0 \<and> \<not> closes n pre \<and> listen_tail n t"
    then have "\<not> closes n (butlast t)" "t \<noteq> []"
      by (auto simp: listen_tail_def split: if_splits)
    with but zero show ?thesis by (simp add: butlast_append)
  next
    assume "r = -1 \<and> (\<exists>x. t = [(Close n, x)] \<and> (closes n pre \<longrightarrow> x = -1))"
    then obtain y where y: "r = -1" "t = [(Close n, y)]" "closes n pre \<longrightarrow> y = -1" by blast
    with but have "y = -1" by (simp add: butlast_append)
    with y ext assms(5) show ?thesis by (metis last_snoc)
  qed
qed

text \<open>A kernel that refuses the calls \<open>bad\<close> and every call on a dead descriptor.\<close>

definition sim_kernel :: "(syscall \<Rightarrow> bool) \<Rightarrow> kernel" where
  "sim_kernel bad tr c =
     (if (case on_fd c of None \<Rightarrow> False | Some n \<Rightarrow> dead n tr) \<or> bad c then (-1, VNone)
      else if is_socket c then (3, VNone) else (0, VNone))"

lemma ebadf_sim_kernel: "ebadf (sim_kernel bad)"
  by (simp add: ebadf_def sim_kernel_def)

definition proc0 :: sock_process where
  "proc0 = \<lparr>fd = -1, calls = [], printed = [], udp_fd = -1, ip_fd = -1\<rparr>"

definition sim_run :: "(syscall \<Rightarrow> bool) \<Rightarrow> int \<times> sock_process" where
  "sim_run bad = run_state (demo_tcp_init (sim_kernel bad)) proc0"

theorem demo_tcp_init_listening_witness:
  "fst (sim_run (\<lambda>_. False)) = 0 \<and> (let w' = snd (sim_run (\<lambda>_. False)) in fd w' \<noteq> -1 \<and> (\<exists>pre g c.
      calls w' = calls proc0 @ (Socket SOCK_STREAM IPPROTO_TCP, fd w') # pre
        @ [(Listen (fd w') 4, 0), (Getsockopt (fd w') SOL_SOCKET SO_ACCEPTCONN, g)]
        @ (if g = -1 then [(Close (fd w'), c)] else []) \<and> \<not> closes (fd w') pre))"
proof -
  have zero: "fst (sim_run (\<lambda>_. False)) = 0" by code_simp
  then have "run_state (demo_tcp_init (sim_kernel (\<lambda>_. False))) proc0 = (0, snd (sim_run (\<lambda>_. False)))"
    by (simp add: sim_run_def prod_eq_iff)
  from demo_tcp_init_listening [OF ebadf_sim_kernel this] zero show ?thesis
    unfolding Let_def by blast
qed

definition no_bind_device :: "syscall \<Rightarrow> bool" where
  "no_bind_device c \<longleftrightarrow> (case c of Setsockopt _ _ opt _ \<Rightarrow> opt = SO_BINDTODEVICE | _ \<Rightarrow> False)"

lemma sim_run_closes:
  "take 6 (calls (snd (sim_run no_bind_device))) =
     [(Socket SOCK_STREAM IPPROTO_TCP, 3), (Setsockopt 3 SOL_SOCKET SO_REUSEADDR (VInt 1), 0),
      (Setsockopt 3 SOL_SOCKET SO_REUSEPORT (VInt 1), 0), (Getsockopt 3 SOL_SOCKET SO_ACCEPTCONN, 0),
      (Setsockopt 3 SOL_SOCKET SO_BINDTODEVICE (VIfreq (ifreq_of ''eth0'')), -1), (Close 3, 0)]"
  "length (calls (snd (sim_run no_bind_device))) > 6"
  by code_simp+

theorem demo_tcp_init_double_close_witness:
  "fst (sim_run no_bind_device) = -1
    \<and> last (tl (calls (snd (sim_run no_bind_device)))) = (Close 3, -1)"
proof -
  let ?w' = "snd (sim_run no_bind_device)"
  let ?ext = "tl (calls ?w')"
  let ?pre = "[(Setsockopt 3 SOL_SOCKET SO_REUSEADDR (VInt 1), 0),
      (Setsockopt 3 SOL_SOCKET SO_REUSEPORT (VInt 1), 0), (Getsockopt 3 SOL_SOCKET SO_ACCEPTCONN, 0),
      (Setsockopt 3 SOL_SOCKET SO_BINDTODEVICE (VIfreq (ifreq_of ''eth0'')), -1)]"
  let ?b = "drop 6 (calls ?w')"
  have split: "calls ?w' = (Socket SOCK_STREAM IPPROTO_TCP, 3) # ?pre @ (Close 3, 0) # ?b"
    using append_take_drop_id [of 6 "calls ?w'"] sim_run_closes(1) by simp
  have "?b \<noteq> []" using sim_run_closes(2) by simp
  moreover have "run_state (demo_tcp_init (sim_kernel no_bind_device)) proc0 = (fst (sim_run no_bind_device), ?w')"
    by (simp add: sim_run_def)
  moreover have "calls ?w' = calls proc0 @ (Socket SOCK_STREAM IPPROTO_TCP, 3) # ?ext"
    by (subst split, subst (2) split) (simp add: proc0_def)
  moreover have "?ext = ?pre @ (Close 3, 0) # ?b" by (subst split) simp
  ultimately show ?thesis
    using demo_tcp_init_double_close [OF ebadf_sim_kernel,
        of no_bind_device proc0 "fst (sim_run no_bind_device)" ?w' 3 ?ext ?pre 0 ?b] by linarith
qed

section \<open>The options a run sets\<close>

lemma is_global_sock [emits_intros, simp]: "is_global udp_fd" "is_global ip_fd"
  by (simp_all add: is_global_def globals_def)

definition tcp_script :: "int \<Rightarrow> syscall list" where
  "tcp_script n = [
     Getsockopt n SOL_SOCKET SO_ACCEPTCONN,
     Setsockopt n SOL_SOCKET SO_BINDTODEVICE (VIfreq (ifreq_of ''eth0'')),
     Getsockopt n SOL_SOCKET SO_BINDTODEVICE,
     Setsockopt n SOL_SOCKET SO_DONTROUTE (VInt 1), Setsockopt n SOL_SOCKET SO_KEEPALIVE (VInt 1),
     Setsockopt n SOL_SOCKET SO_LINGER (VLinger 1 5), Setsockopt n SOL_SOCKET SO_MARK (VInt 100),
     Setsockopt n SOL_SOCKET SO_OOBINLINE (VInt 1), Setsockopt n SOL_SOCKET SO_PRIORITY (VInt 6),
     Getsockopt n IPPROTO_IP IP_TOS, Getsockopt n SOL_SOCKET SO_PROTOCOL,
     Getsockopt n SOL_SOCKET SO_RCVBUF, Setsockopt n SOL_SOCKET SO_RCVBUF (VInt 5000),
     Getsockopt n SOL_SOCKET SO_RCVBUF, Setsockopt n SOL_SOCKET SO_RCVBUFFORCE (VInt 600000),
     Getsockopt n SOL_SOCKET SO_RCVBUF, Getsockopt n SOL_SOCKET SO_SNDBUF,
     Setsockopt n SOL_SOCKET SO_SNDBUF (VInt 5000), Getsockopt n SOL_SOCKET SO_SNDBUF,
     Setsockopt n SOL_SOCKET SO_SNDBUFFORCE (VInt 600000), Getsockopt n SOL_SOCKET SO_SNDBUF,
     Setsockopt n SOL_SOCKET SO_RCVLOWAT (VInt 10), Getsockopt n SOL_SOCKET SO_RCVLOWAT,
     Setsockopt n SOL_SOCKET SO_SNDLOWAT (VInt 1), Setsockopt n SOL_SOCKET SO_RCVTIMEO (VTimeval 5 0),
     Setsockopt n SOL_SOCKET SO_SNDTIMEO (VTimeval 5 0), Setsockopt n SOL_SOCKET SO_TIMESTAMP (VInt 1),
     Setsockopt n IPPROTO_TCP TCP_CORK (VInt 1), Setsockopt n IPPROTO_TCP TCP_DEFER_ACCEPT (VInt 10),
     Getsockopt n IPPROTO_TCP TCP_INFO, Setsockopt n IPPROTO_TCP TCP_KEEPIDLE (VInt 7200),
     Setsockopt n IPPROTO_TCP TCP_KEEPCNT (VInt 5), Setsockopt n IPPROTO_TCP TCP_KEEPINTVL (VInt 150),
     Setsockopt n IPPROTO_TCP TCP_LINGER2 (VInt 90), Setsockopt n IPPROTO_TCP TCP_MAXSEG (VInt 1024),
     Setsockopt n IPPROTO_TCP TCP_NODELAY (VInt 1), Setsockopt n IPPROTO_TCP TCP_QUICKACK (VInt 1),
     Setsockopt n IPPROTO_TCP TCP_SYNCNT (VInt 7), Setsockopt n IPPROTO_TCP TCP_WINDOW_CLAMP (VInt 1300),
     Getsockopt n IPPROTO_TCP TCP_WINDOW_CLAMP]"

lemma emits_get_any [emits_intros]:
  "is_global d \<Longrightarrow> emits s (getsockopt K d l opt) [Getsockopt (d s) l opt]"
  by (auto simp: emits_def getsockopt_def exec_bind is_global_def)

lemma emits_if [emits_intros]: "emits s p cs \<Longrightarrow> emits s q cs \<Longrightarrow> emits s (if b then p else q) cs"
  by simp

lemma emits_out_seq [emits_intros]:
  "emits s p cs \<Longrightarrow> emits s (State_Monad.bind (out e) (\<lambda>_. p)) cs"
  by (simp add: emits_def exec_bind)

lemma emits_tcp_demos:
  assumes K: "accepts K"
  shows "emits s (tcp_demos K) (tcp_script (fd s))"
  unfolding tcp_demos_def tcp_demo_defs tcp_script_def
  by (rule emits_intros K refl | simp)+

lemma exec_run: "run_state p w = (x, exec p w) \<longleftrightarrow> fst (run_state p w) = x"
  by (auto simp: exec_def prod_eq_iff)

text \<open>
  On a kernel that accepts every call, \<open>demo_tcp_init\<close> returns 0 and sets on the new
  socket exactly the options of the script, in order, then close-on-exec, then the file
  flags it has read with \<open>O_NONBLOCK\<close> cleared, and binds port 12130 of every address.
\<close>

theorem demo_tcp_init_script:
  assumes "accepts K" and "n = fst (K (calls w) (Socket SOCK_STREAM IPPROTO_TCP))"
  shows "fst (run_state (demo_tcp_init K) w) = 0
    \<and> (\<exists>flags. map fst (calls (exec (demo_tcp_init K) w)) = map fst (calls w)
      @ [Socket SOCK_STREAM IPPROTO_TCP, Setsockopt n SOL_SOCKET SO_REUSEADDR (VInt 1),
         Setsockopt n SOL_SOCKET SO_REUSEPORT (VInt 1)]
      @ tcp_script n
      @ [Fcntl n F_SETFD 1, Fcntl n F_GETFL 0, Fcntl n F_SETFL (flags AND NOT 0x800),
         Bind n (VSockaddr [0x2F, 0x62] [0, 0, 0, 0]), Listen n 4,
         Getsockopt n SOL_SOCKET SO_ACCEPTCONN])"
proof -
  have nf: "fst (K tr c) \<noteq> -1" for tr c by (rule accepts_not_fail [OF assms(1)])
  have "0 \<le> n" using assms(1) [unfolded accepts_def, rule_format, of "calls w" "Socket SOCK_STREAM IPPROTO_TCP"]
      assms(2) by simp
  have fc: "\<not> fst (K tr (Fcntl m cmd arg)) < 0" and bd: "fst (K tr (Bind m v)) = 0"
    and ls: "fst (K tr (Listen m b)) = 0" for tr m cmd arg v b
    using assms(1) [unfolded accepts_def, rule_format, of tr "Fcntl m cmd arg"]
      assms(1) [unfolded accepts_def, rule_format, of tr "Bind m v"]
      assms(1) [unfolded accepts_def, rule_format, of tr "Listen m b"] by simp_all
  let ?w1 = "w\<lparr>fd := n, calls := calls w @ [(Socket SOCK_STREAM IPPROTO_TCP, n),
    (Setsockopt n SOL_SOCKET SO_REUSEADDR (VInt 1),
      fst (K (calls w @ [(Socket SOCK_STREAM IPPROTO_TCP, n)]) (Setsockopt n SOL_SOCKET SO_REUSEADDR (VInt 1))))]\<rparr>"
  have "emits (globals ?w1) (demo_SO_ACCEPTCONN K) [Getsockopt n SOL_SOCKET SO_ACCEPTCONN]"
    unfolding demo_SO_ACCEPTCONN_def by (rule emits_intros assms(1) refl | simp add: globals_def)+
  then have acc: "map fst (calls (exec (demo_SO_ACCEPTCONN K) v)) = map fst (calls v) @ [Getsockopt n SOL_SOCKET SO_ACCEPTCONN]"
    if "globals v = globals ?w1" for v using that by (simp add: emits_def)
  have "emits (globals ?w1) (tcp_demos K) (tcp_script n)"
    using emits_tcp_demos [OF assms(1), of "globals ?w1"] by (simp add: globals_def)
  then have dem: "map fst (calls (exec (tcp_demos K) v)) = map fst (calls v) @ tcp_script n"
      "globals (exec (tcp_demos K) v) = globals ?w1" if "globals v = globals ?w1" for v
    using that by (simp_all add: emits_def)
  have fd: "fd v = n" if "globals v = globals ?w1" for v
    using arg_cong [OF that, of fd] by (simp add: globals_def)
  let ?w2 = "exec (tcp_demos K) (?w1\<lparr>calls := calls ?w1 @ [(Setsockopt n SOL_SOCKET SO_REUSEPORT (VInt 1),
      fst (K (calls ?w1) (Setsockopt n SOL_SOCKET SO_REUSEPORT (VInt 1))))]\<rparr>)"
  have w2: "globals ?w2 = globals ?w1" by (rule dem(2)) simp
  let ?x = "fst (K (calls ?w2) (Fcntl n F_SETFD 1))"
  let ?t = "calls ?w2 @ [(Fcntl n F_SETFD 1, ?x)]"
  let ?flags = "fst (K ?t (Fcntl n F_GETFL 0))"
  have opt: "run_state (tcp_options K) ?w1
      = (?flags AND NOT 0x800, ?w2\<lparr>calls := ?t @ [(Fcntl n F_GETFL 0, ?flags)]\<rparr>)"
    using fc nf fd [OF w2]
    by (simp add: tcp_options_def run_fcntl FD_CLOEXEC_def O_NONBLOCK_def exec_def split_beta)
  let ?w3 = "?w2\<lparr>calls := ?t @ [(Fcntl n F_GETFL 0, ?flags)]\<rparr>"
  let ?f = "?flags AND NOT 0x800" and ?b = "Bind n (VSockaddr [0x2F, 0x62] [0, 0, 0, 0])"
  let ?t4 = "calls ?w3 @ [(Fcntl n F_SETFL ?f, fst (K (calls ?w3) (Fcntl n F_SETFL ?f)))]"
  let ?w4 = "?w3\<lparr>calls := ?t4 @ [(?b, 0), (Listen n 4, 0)]\<rparr>"
  have port: "htons 12130 = [0x2F, 0x62]" by (simp add: htons_def)
  have listen: "run_state (tcp_listen K ?f) ?w3 = (0, exec (demo_SO_ACCEPTCONN K) ?w4)"
    using fc bd ls fd [OF w2]
    by (simp add: tcp_listen_def run_fcntl exec_def split_beta port)
  have "globals ?w4 = globals ?w1" using w2 by simp
  from acc [OF this] dem(1) w2 have calls: "map fst (calls (exec (demo_SO_ACCEPTCONN K) ?w4)) = map fst (calls w)
      @ [Socket SOCK_STREAM IPPROTO_TCP, Setsockopt n SOL_SOCKET SO_REUSEADDR (VInt 1),
         Setsockopt n SOL_SOCKET SO_REUSEPORT (VInt 1)]
      @ tcp_script n
      @ [Fcntl n F_SETFD 1, Fcntl n F_GETFL 0, Fcntl n F_SETFL ?f, ?b, Listen n 4,
         Getsockopt n SOL_SOCKET SO_ACCEPTCONN]"
    by simp
  have "run_state (demo_tcp_init K) w = (0, exec (demo_SO_ACCEPTCONN K) ?w4)"
    using opt listen nf \<open>0 \<le> n\<close> assms(2) by (simp add: demo_tcp_init_def)
  with calls show ?thesis by (auto simp: exec_def)
qed

definition yes_kernel :: kernel where
  "yes_kernel tr c = (if is_socket c then 3 else 0, VNone)"

lemma accepts_yes_kernel: "accepts yes_kernel"
  by (simp add: accepts_def yes_kernel_def is_socket_def split: syscall.splits)

theorem demo_tcp_init_script_witness:
  "fst (run_state (demo_tcp_init yes_kernel) proc0) = 0
    \<and> (\<exists>flags. map fst (calls (exec (demo_tcp_init yes_kernel) proc0)) = map fst (calls proc0)
      @ [Socket SOCK_STREAM IPPROTO_TCP, Setsockopt 3 SOL_SOCKET SO_REUSEADDR (VInt 1),
         Setsockopt 3 SOL_SOCKET SO_REUSEPORT (VInt 1)]
      @ tcp_script 3
      @ [Fcntl 3 F_SETFD 1, Fcntl 3 F_GETFL 0, Fcntl 3 F_SETFL (flags AND NOT 0x800),
         Bind 3 (VSockaddr [0x2F, 0x62] [0, 0, 0, 0]), Listen 3 4,
         Getsockopt 3 SOL_SOCKET SO_ACCEPTCONN])"
  by (rule demo_tcp_init_script [OF accepts_yes_kernel]) (simp add: yes_kernel_def is_socket_def)

section \<open>The multicast filter\<close>

text \<open>The only filter the program passes, and the calls it makes on the TCP descriptor.\<close>

definition filter_call_ok :: "syscall \<Rightarrow> bool" where
  "filter_call_ok c \<longleftrightarrow> (case c of Setsockopt n l opt v \<Rightarrow>
      opt = IP_MSFILTER \<longrightarrow> v = VMsfilter multi_ip local_ip 2 0 [local_ip, [192, 168, 137, 8]]
    | _ \<Rightarrow> True)"

lemma demo_IP_MSFILTER_only: "only filter_call_ok (demo_IP_MSFILTER K)"
  unfolding demo_IP_MSFILTER_def ip_demo_defs Let_def
  by (intro only_intros) (simp_all add: filter_call_ok_def msfilter_zero_def local_ip_def numeral_2_eq_2)

lemma ip_demos_only: "only filter_call_ok (ip_demos K)"
  unfolding ip_demos_def ip_demo_defs
  by (intro only_intros demo_IP_MSFILTER_only) (simp_all add: filter_call_ok_def)

lemma run_set_ip_fd [simp]: "run_state (set_ip_fd n) w = ((), w\<lparr>ip_fd := n\<rparr>)"
  by (simp add: set_ip_fd_def)

lemma run_set_udp_fd [simp]: "run_state (set_udp_fd n) w = ((), w\<lparr>udp_fd := n\<rparr>)"
  by (simp add: set_udp_fd_def)

text \<open>
  Every multicast filter that \<open>demo_ip_init\<close> passes to the kernel has filter mode 2,
  which is neither of the two modes the option knows, and the number of sources 0, although
  two sources are written behind it: the assignment of \<open>MCAST_INCLUDE\<close> is overwritten
  and the number is never assigned.
\<close>

theorem demo_ip_init_filter:
  "\<exists>ext. calls (exec (demo_ip_init K) w) = calls w @ ext
    \<and> (\<forall>n l v r. (Setsockopt n l IP_MSFILTER v, r) \<in> set ext \<longrightarrow>
        (\<exists>mode srcs. v = VMsfilter multi_ip local_ip mode 0 srcs \<and> length srcs = 2
          \<and> mode \<noteq> MCAST_INCLUDE \<and> mode \<noteq> MCAST_EXCLUDE))"
proof -
  let ?s = "(Socket SOCK_RAW IPPROTO_ICMP, fst (K (calls w) (Socket SOCK_RAW IPPROTO_ICMP)))"
  let ?w1 = "w\<lparr>calls := calls w @ [?s], ip_fd := snd ?s\<rparr>"
  obtain ext lines where e: "exec (ip_demos K) ?w1
      = ?w1\<lparr>calls := calls ?w1 @ ext, printed := printed ?w1 @ lines\<rparr>"
    "\<forall>c \<in> set ext. filter_call_ok (fst c)"
    by (rule onlyE [OF ip_demos_only])
  then have "exec (demo_ip_init K) w = (if snd ?s = -1
      then w\<lparr>calls := calls w @ [?s], ip_fd := -1, printed := printed w @ [Perror ''create socket error.'']\<rparr>
      else ?w1\<lparr>calls := calls ?w1 @ ext, printed := printed ?w1 @ lines\<rparr>)"
    by (simp add: demo_ip_init_def exec_def perror_def split_beta)
  then have "calls (exec (demo_ip_init K) w) = calls w @ (?s # (if snd ?s = -1 then [] else ext))"
    by simp
  moreover have "\<exists>mode srcs. v = VMsfilter multi_ip local_ip mode 0 srcs \<and> length srcs = 2
          \<and> mode \<noteq> MCAST_INCLUDE \<and> mode \<noteq> MCAST_EXCLUDE"
    if "(Setsockopt n l IP_MSFILTER v, r) \<in> set (?s # (if snd ?s = -1 then [] else ext))" for n l v r
  proof -
    from that have "(Setsockopt n l IP_MSFILTER v, r) \<in> set ext" by (auto split: if_splits)
    with e(2) have "filter_call_ok (Setsockopt n l IP_MSFILTER v)" by fastforce
    then show ?thesis by (auto simp: filter_call_ok_def MCAST_INCLUDE_def MCAST_EXCLUDE_def)
  qed
  ultimately show ?thesis by blast
qed

theorem demo_ip_init_filter_witness:
  "\<exists>ext. calls (exec (demo_ip_init yes_kernel) proc0) = calls proc0 @ ext
    \<and> (\<forall>n l v r. (Setsockopt n l IP_MSFILTER v, r) \<in> set ext \<longrightarrow>
        (\<exists>mode srcs. v = VMsfilter multi_ip local_ip mode 0 srcs \<and> length srcs = 2
          \<and> mode \<noteq> MCAST_INCLUDE \<and> mode \<noteq> MCAST_EXCLUDE))"
  by (rule demo_ip_init_filter)

section \<open>The main program\<close>

definition sockets :: "('a process_scheme) \<Rightarrow> syscall list" where
  "sockets w = filter is_socket (map fst (calls w))"

lemma sockets_quiet: "quiet p \<Longrightarrow> sockets (exec p w) = sockets w"
proof -
  assume "quiet p"
  then obtain ext lines where "exec p w = w\<lparr>calls := calls w @ ext, printed := printed w @ lines\<rparr>"
    "\<forall>c \<in> set ext. \<not> is_socket (fst c)" by (rule onlyE)
  then show ?thesis by (simp add: sockets_def filter_empty_conv)
qed

lemma sockets_simps [simp]:
  "sockets (w\<lparr>fd := n\<rparr>) = sockets w" "sockets (w\<lparr>printed := l\<rparr>) = sockets w"
  "sockets (w\<lparr>calls := t @ [(c, r)]\<rparr>) = sockets (w\<lparr>calls := t\<rparr>) @ (if is_socket c then [c] else [])"
  "sockets (w\<lparr>calls := calls w\<rparr>) = sockets w"
  by (simp_all add: sockets_def)

lemma quiet_tcp_listen: "quiet (tcp_listen K flags)"
  unfolding tcp_listen_def by (intro only_intros)

lemma tcp_listen_result: "fst (run_state (tcp_listen K flags) w) \<in> {0, -1}"
  by (simp add: tcp_listen_def split_beta)

lemma quiet_ip_demos: "quiet (ip_demos K)"
  unfolding ip_demos_def ip_demo_defs demo_IP_MSFILTER_def Let_def by (intro only_intros)

lemma quiet_BROADCAST: "quiet (demo_SO_BROADCAST K)"
  unfolding demo_SO_BROADCAST_def by (intro only_intros)

lemma demo_tcp_init_sockets:
  "sockets (exec (demo_tcp_init K) w) = sockets w @ [Socket SOCK_STREAM IPPROTO_TCP]"
proof -
  have "exec (set_fd n) v = v\<lparr>fd := n\<rparr>" for n and v :: "'a process_scheme" by (simp add: exec_def)
  then show ?thesis
    unfolding demo_tcp_init_def
    by (subst exec_bind, subst exec_bind, subst sockets_quiet)
      (intro only_intros quiet_tcp_listen, simp add: is_socket_def sockets_def)
qed

lemma demo_udp_init_sockets:
  "sockets (exec (demo_udp_init K) w) = sockets w @ [Socket SOCK_DGRAM IPPROTO_UDP]"
proof -
  have "exec (set_udp_fd n) v = v\<lparr>udp_fd := n\<rparr>" for n and v :: "'a sock_process_scheme" by (simp add: exec_def)
  then show ?thesis
    unfolding demo_udp_init_def
    by (subst exec_bind, subst exec_bind, subst sockets_quiet)
      (intro only_intros quiet_BROADCAST, simp add: is_socket_def sockets_def)
qed

lemma demo_ip_init_sockets:
  "sockets (exec (demo_ip_init K) w) = sockets w @ [Socket SOCK_RAW IPPROTO_ICMP]"
proof -
  have "exec (set_ip_fd n) v = v\<lparr>ip_fd := n\<rparr>" for n and v :: "'a sock_process_scheme" by (simp add: exec_def)
  then show ?thesis
    unfolding demo_ip_init_def
    by (subst exec_bind, subst exec_bind, subst sockets_quiet)
      (intro only_intros quiet_ip_demos, simp add: is_socket_def sockets_def)
qed

lemma init_results:
  "fst (run_state (demo_tcp_init K) w) \<in> {0, -1}" "fst (run_state (demo_udp_init K) v) \<in> {0, -1}"
  "fst (run_state (demo_ip_init K) v) \<in> {0, -1}"
proof -
  have "fst (run_state (tcp_listen K flags) u) \<noteq> 0 \<Longrightarrow> fst (run_state (tcp_listen K flags) u) = -1"
    for flags and u :: "'a process_scheme"
    using tcp_listen_result [of K flags u] by auto
  then show "fst (run_state (demo_tcp_init K) w) \<in> {0, -1}"
    by (auto simp: demo_tcp_init_def split_beta)
qed (simp_all add: demo_udp_init_def demo_ip_init_def split_beta)

text \<open>
  The program opens its sockets in the order TCP, UDP, raw ICMP, each once; it stops
  with -1 after the first part that fails and returns 0 only when it has opened all three.
\<close>

theorem sock_main_sockets:
  "\<exists>k. sockets (exec (sock_main K) w) = sockets w @ take k
      [Socket SOCK_STREAM IPPROTO_TCP, Socket SOCK_DGRAM IPPROTO_UDP, Socket SOCK_RAW IPPROTO_ICMP]
    \<and> 1 \<le> k \<and> k \<le> 3 \<and> fst (run_state (sock_main K) w) = (if k = 3 \<and> 
        fst (run_state (demo_ip_init K) (exec (demo_udp_init K) (exec (demo_tcp_init K) w))) = 0
      then 0 else -1)"
proof -
  let ?w1 = "exec (demo_tcp_init K) w"
  let ?w2 = "exec (demo_udp_init K) ?w1"
  let ?w3 = "exec (demo_ip_init K) ?w2"
  note S = demo_tcp_init_sockets [of K w] demo_udp_init_sockets [of K ?w1] demo_ip_init_sockets [of K ?w2]
  note R = init_results(1) [of K w] init_results(2,3) [of K ?w1] init_results(3) [of K ?w2]
  have main: "run_state (sock_main K) w =
     (if fst (run_state (demo_tcp_init K) w) < 0
      then (fst (run_state (demo_tcp_init K) w), ?w1\<lparr>printed := printed ?w1 @ [Printf ''demo_tcp_init()'']\<rparr>)
      else if fst (run_state (demo_udp_init K) ?w1) < 0
      then (fst (run_state (demo_udp_init K) ?w1), ?w2\<lparr>printed := printed ?w2 @ [Printf ''demo_udp_init()'']\<rparr>)
      else if fst (run_state (demo_ip_init K) ?w2) < 0
      then (fst (run_state (demo_ip_init K) ?w2), ?w3\<lparr>printed := printed ?w3 @ [Printf ''demo_ip_init()'']\<rparr>)
      else (0, ?w3))"
    by (simp add: sock_main_def func_exec_def exec_def split_beta)
  consider "fst (run_state (demo_tcp_init K) w) = -1"
    | "fst (run_state (demo_tcp_init K) w) = 0" "fst (run_state (demo_udp_init K) ?w1) = -1"
    | "fst (run_state (demo_tcp_init K) w) = 0" "fst (run_state (demo_udp_init K) ?w1) = 0"
    using R by auto
  then show ?thesis
  proof cases
    case 1
    with main S show ?thesis by (intro exI [of _ 1]) (simp add: exec_def)
  next
    case 2
    with main S show ?thesis by (intro exI [of _ 2]) (simp add: exec_def numeral_2_eq_2)
  next
    case 3
    with main S R show ?thesis by (intro exI [of _ 3]) (auto simp: exec_def numeral_3_eq_3)
  qed
qed

end
