(* ===== verification/Ethtool.thy ===== *)
theory Ethtool
  imports Posix
begin

text \<open>
  The ethtool program: ethtool_op.c. The \<open>ioctl\<close> gets an \<open>ifreq\<close> whose \<open>ifr_data\<close>
  points to a request structure; the structure's bytes are part of the call and of its
  answer.
\<close>

definition ETHTOOL_GSET :: nat where "ETHTOOL_GSET = 1"
definition ETHTOOL_GLINK :: nat where "ETHTOOL_GLINK = 10"

definition DUPLEX_HALF :: u8 where "DUPLEX_HALF = 0x00"
definition DUPLEX_FULL :: u8 where "DUPLEX_FULL = 0x01"
definition DUPLEX_UNKNOWN :: u8 where "DUPLEX_UNKNOWN = 0xff"

text \<open>The members of \<open>struct ethtool_cmd\<close> the code reads, by their offsets in its 44 bytes.\<close>

definition ecmd_speed :: "u8 list \<Rightarrow> u16" where
  "ecmd_speed b = of_nat (le_nat (take 2 (drop 12 b)))"

definition ecmd_duplex :: "u8 list \<Rightarrow> u8" where
  "ecmd_duplex b = b ! 14"

definition ecmd_speed_hi :: "u8 list \<Rightarrow> u16" where
  "ecmd_speed_hi b = of_nat (le_nat (take 2 (drop 28 b)))"

definition ethtool_cmd_speed :: "u8 list \<Rightarrow> u32" where
  "ethtool_cmd_speed b = (push_bit 16 (ucast (ecmd_speed_hi b))) OR ucast (ecmd_speed b)"

fun reply_bytes :: "val \<Rightarrow> u8 list" where
  "reply_bytes (VEthtool n b) = b"
| "reply_bytes _ = []"

text \<open>
  Settings, then the link state: \<open>struct ethtool_value\<close> is the command and its 32-bit
  result; only the command is initialised.
\<close>

definition demo_SIOCETHTOOL :: "kernel \<Rightarrow> ('a process_scheme, unit) state" where
  "demo_SIOCETHTOOL K =
     or_return ''ETHTOOL_GSET'' (ioctl K fd SIOCETHTOOL
       (VEthtool ''eth0'' (le32 ETHTOOL_GSET @ replicate 40 0))) (\<lambda>v. do {
     let ecmd = reply_bytes v;
     log_debug ''speed:%dMbps'' (VInt (sint (ethtool_cmd_speed ecmd)));
     log_debug ''duplex:%s'' (VStr (if ecmd_duplex ecmd \<noteq> 0 then ''DuplexFull'' else ''DuplexHalf''));
     or_return ''ETHTOOL_GLINK'' (ioctl K fd SIOCETHTOOL (VEthtool ''eth0'' (le32 ETHTOOL_GLINK))) (\<lambda>v.
     log_debug ''link status:%s'' (VStr (if le_nat (take 4 (drop 4 (reply_bytes v))) \<noteq> 0 then ''up'' else ''down''))) })"

definition assign_fd :: "int \<Rightarrow> ('a process_scheme, unit) state" where
  "assign_fd n = State (\<lambda>w. ((), w\<lparr>fd := n\<rparr>))"

definition ethtool_main :: "kernel \<Rightarrow> ('a process_scheme, int) state" where
  "ethtool_main K =
     do {
       s \<leftarrow> sys K (Socket SOCK_DGRAM IPPROTO_IP);
       assign_fd (fst s);
       if fst s = -1 then do { perror ''socket''; State_Monad.return (-1) }
       else do { demo_SIOCETHTOOL K; State_Monad.return 0 } }"

section \<open>Properties\<close>

text \<open>The settings of a link as the driver stores them.\<close>

definition put_settings :: "u32 \<Rightarrow> u8 \<Rightarrow> u8 list \<Rightarrow> u8 list" where
  "put_settings speed duplex b =
     put 28 (le16 (unat speed div 65536)) (put 14 [duplex] (put 12 (le16 (unat speed mod 65536)) b))"

text \<open>
  Reading the settings gives what the driver stored, for every 32-bit speed, split over
  two 16-bit members. But the word printed for the duplex mode is only right for the two
  known modes: an unknown mode is printed as full duplex.
\<close>

theorem demo_SIOCETHTOOL_prints:
  assumes "length b = 44" and "K (calls w) (Ioctl (fd w) SIOCETHTOOL
      (VEthtool ''eth0'' (le32 1 @ replicate 40 0))) = (0, VEthtool ''eth0'' (put_settings speed duplex b))"
  shows "\<exists>rest. printed (exec (demo_SIOCETHTOOL K) w) = printed w
    @ [Debug ''speed:%dMbps'' (VInt (sint speed)),
       Debug ''duplex:%s'' (VStr (if duplex = DUPLEX_HALF then ''DuplexHalf'' else ''DuplexFull''))] @ rest"
proof -
  let ?lo = "le16 (unat speed mod 65536)" and ?hi = "le16 (unat speed div 65536)"
  let ?b1 = "put 12 ?lo b" and ?b = "put_settings speed duplex b"
  have len: "length ?b1 = 44" "length (put 14 [duplex] ?b1) = 44"
    using assms(1) by (simp_all add: length_put)
  have "unat speed < 4294967296" using unsigned_less [where w = speed, where 'a = nat] by simp
  then have hi_lt: "unat speed div 65536 < 65536" by simp
  have "take 2 (drop 28 ?b) = ?hi"
    using take_drop_put_same [of 28 ?hi "put 14 [duplex] ?b1"] len by (simp add: put_settings_def)
  then have hi: "unat (ecmd_speed_hi ?b) = unat speed div 65536"
    using hi_lt by (simp add: ecmd_speed_hi_def le_nat_le16 unat_of_nat)
  have "take 2 (drop 12 ?b) = take 2 (drop 12 (put 14 [duplex] ?b1))"
    unfolding put_settings_def by (rule take_drop_put_other) (simp_all add: len)
  also have "\<dots> = take 2 (drop 12 ?b1)"
    by (rule take_drop_put_other) (simp_all add: len)
  also have "\<dots> = ?lo" using take_drop_put_same [of 12 ?lo b] assms(1) by simp
  finally have lo: "unat (ecmd_speed ?b) = unat speed mod 65536"
    by (simp add: ecmd_speed_def le_nat_le16 unat_of_nat)
  have dup: "ecmd_duplex ?b = duplex"
    using len by (simp add: ecmd_duplex_def put_settings_def nth_put)
  have "ucast (ecmd_speed ?b) = take_bit 16 speed"
    by (simp add: word_unat_eq_iff unsigned_ucast_eq unsigned_take_bit_eq lo) (simp add: take_bit_eq_mod)
  moreover have "ucast (ecmd_speed_hi ?b) = drop_bit 16 speed"
    using hi_lt by (simp add: word_unat_eq_iff unsigned_ucast_eq unsigned_drop_bit_eq hi)
      (simp add: take_bit_eq_mod drop_bit_eq_div)
  moreover have "push_bit 16 (drop_bit 16 speed) OR take_bit 16 speed = speed"
    by (rule bit_eqI) (auto simp: bit_simps)
  ultimately have speed: "ethtool_cmd_speed ?b = speed"
    by (simp add: ethtool_cmd_speed_def)
  let ?w = "(exec (sys K (Ioctl (fd w) SIOCETHTOOL (VEthtool ''eth0'' (le32 1 @ replicate 40 0)))) w)
    \<lparr>printed := printed w @ [Debug ''speed:%dMbps'' (VInt (sint speed)),
       Debug ''duplex:%s'' (VStr (if duplex = DUPLEX_HALF then ''DuplexHalf'' else ''DuplexFull''))]\<rparr>"
  define tail :: "('a process_scheme, unit) state" where "tail =
     or_return ''ETHTOOL_GLINK'' (ioctl K fd SIOCETHTOOL (VEthtool ''eth0'' (le32 ETHTOOL_GLINK))) (\<lambda>v.
     log_debug ''link status:%s'' (VStr (if le_nat (take 4 (drop 4 (reply_bytes v))) \<noteq> 0 then ''up'' else ''down'')))"
  have "only (\<lambda>_. True) tail" unfolding tail_def by (intro only_intros) simp
  then obtain lines where "printed (exec tail ?w) = printed ?w @ lines" using printed_grows by blast
  moreover have "exec (demo_SIOCETHTOOL K) w = exec tail ?w"
    using assms(2) speed dup
    by (simp add: demo_SIOCETHTOOL_def tail_def or_return_def [of "''ETHTOOL_GSET''"] exec_bind
        ETHTOOL_GSET_def DUPLEX_HALF_def)
  ultimately show ?thesis by auto
qed

theorem demo_SIOCETHTOOL_prints_witness:
  "let K = (\<lambda>tr c. (0, VEthtool ''eth0'' (put_settings 100000 DUPLEX_UNKNOWN (replicate 44 0))));
       w = \<lparr>fd = 3, calls = [], printed = []\<rparr>
   in \<exists>rest. printed (exec (demo_SIOCETHTOOL K) w) = printed w
    @ [Debug ''speed:%dMbps'' (VInt (sint (100000 :: u32))), Debug ''duplex:%s'' (VStr ''DuplexFull'')] @ rest"
  unfolding Let_def
  using demo_SIOCETHTOOL_prints [of "replicate 44 0"
      "\<lambda>tr c. (0, VEthtool ''eth0'' (put_settings 100000 DUPLEX_UNKNOWN (replicate 44 0)))"
      "\<lparr>fd = 3, calls = [], printed = []\<rparr>" 100000 DUPLEX_UNKNOWN]
  by (simp add: DUPLEX_UNKNOWN_def DUPLEX_HALF_def)

end
