(* ===== verification/NetifOp.thy ===== *)
theory NetifOp
  imports Ethtool
begin

text \<open>
  The interface program: netif_op.c. Every demo is one or two \<open>ioctl\<close> calls on the global
  descriptor with an \<open>ifreq\<close>; the union in it is kept as bytes. A failing call is
  reported and ends the demo, not the program. \<open>demo_SIOCGIFNAME\<close> loops until a call
  fails, so that it and its callers are partial.
\<close>

definition ethname :: string where "ethname = ''eth2''"

definition sin_addr :: "ifreq \<Rightarrow> u8 list" where
  "sin_addr req = take 4 (drop 4 (ifr_ifru req))"

definition sa_data :: "ifreq \<Rightarrow> u8 list" where
  "sa_data req = take 14 (drop 2 (ifr_ifru req))"

section \<open>Getting\<close>

text \<open>
  The enumeration: index 1, 2, and so on, in one \<open>ifreq\<close>, until the first call that fails.
\<close>

partial_function (option) gifname_loop ::
  "kernel \<Rightarrow> int \<Rightarrow> ifreq \<Rightarrow> 'a process_scheme \<Rightarrow> 'a process_scheme option" where
  "gifname_loop K i req w =
     (let (r, w) = run_state (ioctl K fd SIOCGIFNAME (VIfreq (set_ifru_int i req))) w in
      if fst r = -1 then Some w
      else
        let req = reply_ifreq (snd r);
            w = exec (log_debug ''index:%d  ifname:%s'' (VArgs [VInt i, VStr (ifr_name req)])) w
        in gifname_loop K (i + 1) req w)"

definition demo_SIOCGIFNAME :: "kernel \<Rightarrow> 'a process_scheme \<Rightarrow> 'a process_scheme option" where
  "demo_SIOCGIFNAME K = gifname_loop K 1 (ifreq_of [])"

definition demo_SIOCGIFINDEX :: "kernel \<Rightarrow> ('a process_scheme, unit) state" where
  "demo_SIOCGIFINDEX K =
     or_return ''ioctl'' (ioctl K fd SIOCGIFINDEX (VIfreq (ifreq_of ethname))) (\<lambda>v. let req = reply_ifreq v in
     log_debug ''eth2 index:%d'' (VInt (ifru_int req)))"

text \<open>The flags the program prints, in its order, with their bits.\<close>

definition iff_flags :: "(string \<times> u16) list" where
  "iff_flags = [(''IFF_UP'', 0x1), (''IFF_BROADCAST'', 0x2), (''IFF_DEBUG'', 0x4), (''IFF_LOOPBACK'', 0x8),
     (''IFF_POINTOPOINT'', 0x10), (''IFF_RUNNING'', 0x40), (''IFF_NOARP'', 0x80), (''IFF_PROMISC'', 0x100),
     (''IFF_NOTRAILERS'', 0x20), (''IFF_ALLMULTI'', 0x200), (''IFF_MASTER'', 0x400), (''IFF_SLAVE'', 0x800),
     (''IFF_MULTICAST'', 0x1000), (''IFF_PORTSEL'', 0x2000), (''IFF_AUTOMEDIA'', 0x4000),
     (''IFF_DYNAMIC'', 0x8000)]"

fun ifflag_print :: "u16 \<Rightarrow> (string \<times> u16) list \<Rightarrow> ('a process_scheme, unit) state" where
  "ifflag_print flags [] = State_Monad.return ()"
| "ifflag_print flags ((name, flag) # fs) =
     do { log_debug (name @ (if flags AND flag \<noteq> 0 then '':1'' else '':0'')) VNone; ifflag_print flags fs }"

definition demo_SIOCGIFFLAGS :: "kernel \<Rightarrow> ('a process_scheme, unit) state" where
  "demo_SIOCGIFFLAGS K =
     or_return ''ioctl'' (ioctl K fd SIOCGIFFLAGS (VIfreq (ifreq_of ethname))) (\<lambda>v. let req = reply_ifreq v in
     ifflag_print (ifru_flags req) iff_flags)"

definition demo_SIOCGIFPFLAGS :: "kernel \<Rightarrow> ('a process_scheme, unit) state" where
  "demo_SIOCGIFPFLAGS K =
     or_return ''ioctl'' (ioctl K fd SIOCGIFPFLAGS (VIfreq (ifreq_of ethname))) (\<lambda>v. let req = reply_ifreq v in
     log_debug ''%x'' (VInt (sint (ifru_flags req))))"

definition demo_SIOCGIFADDR :: "kernel \<Rightarrow> ('a process_scheme, unit) state" where
  "demo_SIOCGIFADDR K =
     or_return ''ioctl'' (ioctl K fd SIOCGIFADDR (VIfreq (ifreq_of ethname))) (\<lambda>v. let req = reply_ifreq v in
     log_debug ''eth2 ip addr:%s'' (VBytes (sin_addr req)))"

definition demo_SIOCGIFDSTADDR :: "kernel \<Rightarrow> ('a process_scheme, unit) state" where
  "demo_SIOCGIFDSTADDR K =
     or_return ''ioctl'' (ioctl K fd SIOCGIFDSTADDR (VIfreq (ifreq_of ethname))) (\<lambda>v. let req = reply_ifreq v in
     log_debug ''eth2 ip dst addr:%s'' (VBytes (sin_addr req)))"

definition demo_SIOCGIFBRDADDR :: "kernel \<Rightarrow> ('a process_scheme, unit) state" where
  "demo_SIOCGIFBRDADDR K =
     or_return ''ioctl'' (ioctl K fd SIOCGIFBRDADDR (VIfreq (ifreq_of ethname))) (\<lambda>v. let req = reply_ifreq v in
     log_debug ''eth2 ip broadcast addr:%s'' (VBytes (sin_addr req)))"

definition demo_SIOCGIFNETMASK :: "kernel \<Rightarrow> ('a process_scheme, unit) state" where
  "demo_SIOCGIFNETMASK K =
     or_return ''ioctl'' (ioctl K fd SIOCGIFNETMASK (VIfreq (ifreq_of ethname))) (\<lambda>v. let req = reply_ifreq v in
     log_debug ''eth2 ip netmask addr:%s'' (VBytes (sin_addr req)))"

definition demo_SIOCGIFMETRIC :: "kernel \<Rightarrow> ('a process_scheme, unit) state" where
  "demo_SIOCGIFMETRIC K =
     or_return ''ioctl'' (ioctl K fd SIOCGIFMETRIC (VIfreq (ifreq_of ethname))) (\<lambda>v. let req = reply_ifreq v in
     log_debug ''eth2 ifr_metric:%d'' (VInt (ifru_int req)))"

definition demo_SIOCGIFMTU :: "kernel \<Rightarrow> ('a process_scheme, unit) state" where
  "demo_SIOCGIFMTU K =
     or_return ''ioctl'' (ioctl K fd SIOCGIFMTU (VIfreq (ifreq_of ethname))) (\<lambda>v. let req = reply_ifreq v in
     log_debug ''eth2 mtu:%d'' (VInt (ifru_int req)))"

definition demo_SIOCGIFHWADDR :: "kernel \<Rightarrow> ('a process_scheme, unit) state" where
  "demo_SIOCGIFHWADDR K =
     or_return ''ioctl'' (ioctl K fd SIOCGIFHWADDR (VIfreq (ifreq_of ethname))) (\<lambda>v. let req = reply_ifreq v in
     do {
       log_debug ''eth2 addr type:%d'' (VInt (int (le_nat (take 2 (ifr_ifru req)))));
       log_debug ''eth2 l2 addr'' (VBytes (take 6 (sa_data req))) })"

definition demo_SIOCGIFMAP :: "kernel \<Rightarrow> ('a process_scheme, unit) state" where
  "demo_SIOCGIFMAP K =
     or_return ''ioctl'' (ioctl K fd SIOCGIFMAP (VIfreq (ifreq_of ethname))) (\<lambda>v. let req = reply_ifreq v in
     do {
       log_debug ''mem_start:%lu'' (VInt (int (le_nat (take 8 (drop 0 (ifr_ifru req))))));
       log_debug ''mem_end:%lu'' (VInt (int (le_nat (take 8 (drop 8 (ifr_ifru req))))));
       log_debug ''base_addr:%u'' (VInt (int (le_nat (take 2 (drop 16 (ifr_ifru req))))));
       log_debug ''irq:%d'' (VInt (int (le_nat (take 1 (drop 18 (ifr_ifru req))))));
       log_debug ''dma:%d'' (VInt (int (le_nat (take 1 (drop 19 (ifr_ifru req))))));
       log_debug ''port:%d'' (VInt (int (le_nat (take 1 (drop 20 (ifr_ifru req)))))) })"

definition demo_SIOCGIFTXQLEN :: "kernel \<Rightarrow> ('a process_scheme, unit) state" where
  "demo_SIOCGIFTXQLEN K =
     or_return ''ioctl'' (ioctl K fd SIOCGIFTXQLEN (VIfreq (ifreq_of ethname))) (\<lambda>v. let req = reply_ifreq v in
     log_debug ''eth2 ifr_qlen:%luMbps'' (VInt (ifru_int req)))"

text \<open>
  The configuration: room for ten \<open>ifreq\<close> of 40 bytes; the answer is the number of bytes
  and the array.
\<close>

fun print_conf :: "ifreq list \<Rightarrow> nat list \<Rightarrow> ('a process_scheme, unit) state" where
  "print_conf req [] = State_Monad.return ()"
| "print_conf req (i # is) =
     do {
       log_debug ''############ifname:%s'' (VStr (ifr_name (req ! i)));
       log_debug ''ip addr:%s'' (VBytes (sin_addr (req ! i)));
       print_conf req is }"

fun reply_conf :: "val \<Rightarrow> int \<times> ifreq list" where
  "reply_conf (VIfconf len reqs) = (len, reqs)"
| "reply_conf _ = (0, [])"

definition demo_SIOCGIFCONF :: "kernel \<Rightarrow> ('a process_scheme, unit) state" where
  "demo_SIOCGIFCONF K =
     do {
       log_debug ''ifreq size:%d  config buflen:%d'' (VArgs [VInt 40, VInt 400]);
       or_return ''ioctl'' (ioctl K fd SIOCGIFCONF (VIfconf 400 (replicate 10 (ifreq_of [])))) (\<lambda>v.
       do {
         let (ifc_len, req) = reply_conf v;
         log_debug ''return config buflen:%d'' (VInt ifc_len);
         print_conf req [0..<nat ifc_len div 40] }) }"

text \<open>All the reading demos; the first one need not return.\<close>

definition about_get_rest :: "kernel \<Rightarrow> ('a process_scheme, unit) state" where
  "about_get_rest K =
     do {
       demo_SIOCGIFINDEX K; demo_SIOCGIFFLAGS K; demo_SIOCGIFPFLAGS K;
       demo_SIOCGIFADDR K; demo_SIOCGIFDSTADDR K; demo_SIOCGIFBRDADDR K; demo_SIOCGIFNETMASK K;
       demo_SIOCGIFMETRIC K; demo_SIOCGIFMTU K; demo_SIOCGIFHWADDR K; demo_SIOCGIFMAP K;
       demo_SIOCGIFTXQLEN K; demo_SIOCGIFCONF K }"

definition demo_about_get :: "kernel \<Rightarrow> 'a process_scheme \<Rightarrow> 'a process_scheme option" where
  "demo_about_get K w = map_option (exec (about_get_rest K)) (demo_SIOCGIFNAME K w)"

section \<open>Setting\<close>

definition IFF_UP_bit :: u16 where "IFF_UP_bit = 0x1"
definition IFF_PROMISC_bit :: u16 where "IFF_PROMISC_bit = 0x100"
definition IFF_ALLMULTI_bit :: u16 where "IFF_ALLMULTI_bit = 0x200"

definition new_flags :: "bool \<Rightarrow> u16 \<Rightarrow> u16" where
  "new_flags up_arg flags =
     (let flags = (if \<not> up_arg then flags AND NOT IFF_UP_bit else flags OR IFF_UP_bit);
          flags = flags OR IFF_ALLMULTI_bit
      in flags OR IFF_PROMISC_bit)"

definition demo_SIOCSIFFLAGS :: "kernel \<Rightarrow> bool \<Rightarrow> ('a process_scheme, unit) state" where
  "demo_SIOCSIFFLAGS K up_arg =
     or_return ''ioctl'' (ioctl K fd SIOCGIFFLAGS (VIfreq (ifreq_of ethname))) (\<lambda>v.
     let req = reply_ifreq v in
     or_return ''ioctl'' (ioctl K fd SIOCSIFFLAGS
         (VIfreq (set_ifru_flags (new_flags up_arg (ifru_flags req)) req))) (\<lambda>_.
     State_Monad.return ()))"

text \<open>A request with an internet address (family \<open>AF_INET\<close> = 2) in the union.\<close>

definition ifreq_in :: "u8 list \<Rightarrow> ifreq" where
  "ifreq_in a = (ifreq_of ethname)\<lparr>ifr_ifru := put 4 a (put 0 (le16 2) (replicate 24 0))\<rparr>"

definition demo_SIOCSIFADDR :: "kernel \<Rightarrow> ('a process_scheme, unit) state" where
  "demo_SIOCSIFADDR K =
     or_return ''ioctl'' (ioctl K fd SIOCSIFADDR (VIfreq (ifreq_in [192, 168, 13, 253]))) (\<lambda>_. State_Monad.return ())"

definition demo_SIOCSIFDSTADDR :: "kernel \<Rightarrow> ('a process_scheme, unit) state" where
  "demo_SIOCSIFDSTADDR K =
     or_return ''ioctl'' (ioctl K fd SIOCSIFDSTADDR (VIfreq (ifreq_in [192, 168, 13, 111]))) (\<lambda>_. State_Monad.return ())"

definition demo_SIOCSIFBRDADDR :: "kernel \<Rightarrow> ('a process_scheme, unit) state" where
  "demo_SIOCSIFBRDADDR K =
     or_return ''ioctl'' (ioctl K fd SIOCSIFBRDADDR (VIfreq (ifreq_in [192, 168, 13, 240]))) (\<lambda>_. State_Monad.return ())"

definition demo_SIOCSIFNETMASK :: "kernel \<Rightarrow> ('a process_scheme, unit) state" where
  "demo_SIOCSIFNETMASK K =
     or_return ''ioctl'' (ioctl K fd SIOCSIFNETMASK (VIfreq (ifreq_in [255, 255, 255, 240]))) (\<lambda>_. State_Monad.return ())"

definition demo_SIOCSIFMETRIC :: "kernel \<Rightarrow> ('a process_scheme, unit) state" where
  "demo_SIOCSIFMETRIC K =
     or_return ''ioctl'' (ioctl K fd SIOCSIFMETRIC (VIfreq (set_ifru_int 5 (ifreq_of ethname)))) (\<lambda>_. State_Monad.return ())"

definition demo_SIOCSIFMTU :: "kernel \<Rightarrow> ('a process_scheme, unit) state" where
  "demo_SIOCSIFMTU K =
     or_return ''ioctl'' (ioctl K fd SIOCSIFMTU (VIfreq (set_ifru_int 500 (ifreq_of ethname)))) (\<lambda>_. State_Monad.return ())"

definition demo_SIOCSIFTXQLEN :: "kernel \<Rightarrow> ('a process_scheme, unit) state" where
  "demo_SIOCSIFTXQLEN K =
     or_return ''ioctl'' (ioctl K fd SIOCSIFTXQLEN (VIfreq (set_ifru_int 100 (ifreq_of ethname)))) (\<lambda>_. State_Monad.return ())"

definition set_sa_data :: "nat \<Rightarrow> u8 \<Rightarrow> ifreq \<Rightarrow> ifreq" where
  "set_sa_data i b req = req\<lparr>ifr_ifru := (ifr_ifru req)[2 + i := b]\<rparr>"

definition demo_SIOCSIFHWADDR :: "kernel \<Rightarrow> ('a process_scheme, unit) state" where
  "demo_SIOCSIFHWADDR K =
     or_return ''ioctl'' (ioctl K fd SIOCGIFHWADDR (VIfreq (ifreq_of ethname))) (\<lambda>v.
     let req = set_sa_data 5 0x88 (reply_ifreq v);
         req = set_sa_data 4 0x87 req in
     or_return ''ioctl'' (ioctl K fd SIOCSIFHWADDR (VIfreq req)) (\<lambda>_. State_Monad.return ()))"

text \<open>
  Renaming. The \<open>ifreq\<close> is not cleared: behind the new name it holds whatever the stack
  held, an argument here.
\<close>

definition demo_SIOCSIFNAME :: "u8 list \<Rightarrow> kernel \<Rightarrow> ('a process_scheme, unit) state" where
  "demo_SIOCSIFNAME garbage K =
     or_return ''ioctl'' (ioctl K fd SIOCSIFNAME (VIfreq \<lparr>ifr_name = ethname,
       ifr_ifru = put 0 [0x65, 0x74, 0x68, 0x32, 0] garbage\<rparr>)) (\<lambda>_. State_Monad.return ())"

definition demo_about_set :: "kernel \<Rightarrow> ('a process_scheme, unit) state" where
  "demo_about_set K =
     do {
       demo_SIOCSIFFLAGS K True;
       demo_SIOCSIFADDR K; demo_SIOCSIFDSTADDR K; demo_SIOCSIFBRDADDR K; demo_SIOCSIFNETMASK K;
       demo_SIOCSIFMTU K; demo_SIOCSIFTXQLEN K; demo_SIOCSIFHWADDR K }"

definition netif_main :: "kernel \<Rightarrow> 'a process_scheme \<Rightarrow> (int \<times> 'a process_scheme) option" where
  "netif_main K w =
     (let (s, w) = run_state (sys K (Socket SOCK_DGRAM IPPROTO_IP)) w; w = w\<lparr>fd := fst s\<rparr> in
      if fst s = -1 then Some (-1, exec (perror ''socket'') w)
      else map_option (\<lambda>w. (0, w)) (demo_about_get K (exec (demo_about_set K) w)))"

section \<open>One interface\<close>

text \<open>
  \<open>get_interface_common\<close>: flags, then speed and duplex mode, then the descriptor is
  closed, again and again while \<open>close\<close> is interrupted. The error number of a failed
  \<open>close\<close> is in the kernel's answer. The name in the structure is not touched.
\<close>

record interface =
  if_index :: int
  if_flags :: int
  if_speed :: int
  if_duplex :: int
  if_name :: string

definition EINTR :: int where "EINTR = 4"

partial_function (option) close_retry ::
  "kernel \<Rightarrow> int \<Rightarrow> 'a process_scheme \<Rightarrow> ((int \<times> val) \<times> 'a process_scheme) option" where
  "close_retry K n w =
     (let (r, w) = run_state (sys K (Close n)) w in
      if fst r = -1 \<and> int_of (snd r) = EINTR then close_retry K n w else Some (r, w))"

definition get_interface_common ::
  "kernel \<Rightarrow> int \<Rightarrow> ifreq \<Rightarrow> interface \<Rightarrow> 'a process_scheme
    \<Rightarrow> (int \<times> interface \<times> 'a process_scheme) option" where
  "get_interface_common K n ifr info w =
     (let (r, w) = run_state (sys K (Ioctl n SIOCGIFFLAGS (VIfreq ifr))) w;
          info = info\<lparr>if_flags := (if fst r = -1 then 0 else sint (ifru_flags (reply_ifreq (snd r))))\<rparr>;
          (r, w) = run_state (sys K (Ioctl n SIOCETHTOOL (VEthtool (ifr_name ifr) (le32 ETHTOOL_GSET)))) w;
          cmd = reply_bytes (snd r);
          info = (if fst r = -1 then info\<lparr>if_speed := -1, if_duplex := uint DUPLEX_UNKNOWN\<rparr>
                  else info\<lparr>if_speed := uint (ethtool_cmd_speed cmd), if_duplex := uint (ecmd_duplex cmd)\<rparr>)
      in map_option (\<lambda>(r, w). (if fst r = -1 then int_of (snd r) else 0, info, w)) (close_retry K n w))"

section \<open>Properties\<close>

lemma gifname_loop_names:
  assumes "\<And>tr r. K tr (Ioctl n SIOCGIFNAME (VIfreq r)) =
      (case names (ifru_int r) of None \<Rightarrow> (-1, VNone) | Some s \<Rightarrow> (0, VIfreq (r\<lparr>ifr_name := s\<rparr>)))"
    and "\<And>j. i \<le> j \<Longrightarrow> j < k \<Longrightarrow> names j \<noteq> None" and "names k = None"
    and "1 \<le> i" "i \<le> k" "k < 2147483648" and "fd w = n"
  shows "\<exists>w'. gifname_loop K i req w = Some w' \<and> printed w' = printed w
    @ map (\<lambda>j. Debug ''index:%d  ifname:%s'' (VArgs [VInt j, VStr (the (names j))])) [i..k - 1]"
  using assms(2-)
proof (induction "nat (k - i)" arbitrary: i req w)
  case 0
  then have "i = k" by simp
  with 0 assms(1) show ?case by (subst gifname_loop.simps) (simp add: Let_def)
next
  case (Suc m)
  then have lt: "i < k" by simp
  then obtain s where s: "names i = Some s" using Suc.prems(1) [of i] by auto
  let ?req = "(set_ifru_int i req)\<lparr>ifr_name := s\<rparr>"
  let ?w = "w\<lparr>calls := calls w @ [(Ioctl n SIOCGIFNAME (VIfreq (set_ifru_int i req)), 0)],
      printed := printed w @ [Debug ''index:%d  ifname:%s'' (VArgs [VInt i, VStr s])]\<rparr>"
  have "gifname_loop K i req w = gifname_loop K (i + 1) ?req ?w"
    using assms(1) Suc.prems s by (subst gifname_loop.simps) (simp add: Let_def)
  moreover have "\<exists>w'. gifname_loop K (i + 1) ?req ?w = Some w' \<and> printed w' = printed ?w
    @ map (\<lambda>j. Debug ''index:%d  ifname:%s'' (VArgs [VInt j, VStr (the (names j))])) [i + 1..k - 1]"
  proof (rule Suc.hyps(1))
    show "m = nat (k - (i + 1))" using Suc.hyps(2) lt by simp
  qed (use Suc.prems lt in simp_all)
  moreover have "[i..k - 1] = i # [i + 1..k - 1]" using lt by (subst upto_rec1) simp_all
  ultimately show ?case using s by auto
qed

text \<open>
  C40. The enumeration of the interfaces ends at the first index without an interface: it
  prints exactly the indexes below it, in order, each with its name, and misses every
  interface behind the gap.
\<close>

theorem demo_SIOCGIFNAME_enumerates:
  assumes "\<And>tr r. K tr (Ioctl (fd w) SIOCGIFNAME (VIfreq r)) =
      (case names (ifru_int r) of None \<Rightarrow> (-1, VNone) | Some s \<Rightarrow> (0, VIfreq (r\<lparr>ifr_name := s\<rparr>)))"
    and "\<And>j. 1 \<le> j \<Longrightarrow> j < k \<Longrightarrow> names j \<noteq> None" and "names k = None" and "1 \<le> k" and "k < 2147483648"
  shows "\<exists>w'. demo_SIOCGIFNAME K w = Some w' \<and> printed w' = printed w
    @ map (\<lambda>j. Debug ''index:%d  ifname:%s'' (VArgs [VInt j, VStr (the (names j))])) [1..k - 1]"
  unfolding demo_SIOCGIFNAME_def by (rule gifname_loop_names [OF assms(1)]) (use assms in simp_all)

definition gap_kernel :: kernel where
  "gap_kernel tr c = (case c of
      Ioctl n req (VIfreq r) \<Rightarrow>
        (case ((\<lambda>_. None)(1 := Some ''lo'', 2 := Some ''eth0'', 4 := Some ''eth2'')) (ifru_int r) of
           None \<Rightarrow> (-1, VNone) | Some s \<Rightarrow> (0, VIfreq (r\<lparr>ifr_name := s\<rparr>)))
    | _ \<Rightarrow> (-1, VNone))"

theorem demo_SIOCGIFNAME_enumerates_witness:
  "\<exists>w'. demo_SIOCGIFNAME gap_kernel \<lparr>fd = 3, calls = [], printed = []\<rparr> = Some w' \<and> printed w' =
    [Debug ''index:%d  ifname:%s'' (VArgs [VInt 1, VStr ''lo'']),
     Debug ''index:%d  ifname:%s'' (VArgs [VInt 2, VStr ''eth0''])]"
proof -
  have "[1..3 - 1] = [1, 2 :: int]" by (simp add: upto_rec1)
  moreover have "j = 1 \<or> j = 2" if "1 \<le> j" "j < 3" for j :: int using that by linarith
  ultimately show ?thesis
    using demo_SIOCGIFNAME_enumerates [of gap_kernel "\<lparr>fd = 3, calls = [], printed = []\<rparr>"
        "(\<lambda>_. None)(1 := Some ''lo'', 2 := Some ''eth0'', 4 := Some ''eth2'')" 3]
    by (force simp: gap_kernel_def)
qed

text \<open>
  Setting the flags is a read-modify-write: the word written back differs from the word
  read at most in the up bit, which becomes the argument, and in the promiscuous and
  all-multicast bits, which are set, whether the interface goes up or down; the rest of the
  request is what was read, and nothing is written when the read fails.
\<close>

theorem demo_SIOCSIFFLAGS_calls:
  assumes "K (calls w) (Ioctl (fd w) SIOCGIFFLAGS (VIfreq (ifreq_of ethname))) = (r, VIfreq req)"
    and "2 \<le> length (ifr_ifru req)"
  shows "\<exists>req' x. calls (exec (demo_SIOCSIFFLAGS K up_arg) w) = calls w
      @ (Ioctl (fd w) SIOCGIFFLAGS (VIfreq (ifreq_of ethname)), r)
      # (if r = -1 then [] else [(Ioctl (fd w) SIOCSIFFLAGS (VIfreq req'), x)])
    \<and> (\<forall>i. bit (ifru_flags req') i \<longleftrightarrow>
        (if i = 0 then up_arg else i = 8 \<or> i = 9 \<or> bit (ifru_flags req) i))
    \<and> ifr_name req' = ifr_name req \<and> drop 2 (ifr_ifru req') = drop 2 (ifr_ifru req)"
proof -
  let ?req = "set_ifru_flags (new_flags up_arg (ifru_flags req)) req"
  have bits: "bit (new_flags up_arg f) i \<longleftrightarrow> (if i = 0 then up_arg else i = 8 \<or> i = 9 \<or> bit f i)" for f i
  proof -
    have "bit (1 :: u16) i \<longleftrightarrow> i = 0" "bit (0x100 :: u16) i \<longleftrightarrow> i = 8" "bit (0x200 :: u16) i \<longleftrightarrow> i = 9"
      using bit_exp_iff [where 'a = u16, of 8 i] bit_exp_iff [where 'a = u16, of 9 i]
      by (auto simp: bit_1_iff)
    then show ?thesis
      using bit_imp_le_length [of f i]
      by (auto simp: new_flags_def Let_def IFF_UP_bit_def IFF_PROMISC_bit_def IFF_ALLMULTI_bit_def
          bit_or_iff bit_and_iff bit_not_iff)
  qed
  have name: "ifr_name ?req = ifr_name req" "drop 2 (ifr_ifru ?req) = drop 2 (ifr_ifru req)"
    using assms(2) by (simp_all add: set_ifru_flags_def put_def numeral_2_eq_2)
  let ?c = "(Ioctl (fd w) SIOCGIFFLAGS (VIfreq (ifreq_of ethname)), r)"
  have "calls (exec (demo_SIOCSIFFLAGS K up_arg) w) = calls w @ ?c # (if r = -1 then []
      else [(Ioctl (fd w) SIOCSIFFLAGS (VIfreq ?req),
             fst (K (calls w @ [?c]) (Ioctl (fd w) SIOCSIFFLAGS (VIfreq ?req))))])"
    using assms(1) by (simp add: demo_SIOCSIFFLAGS_def or_return_def exec_bind)
  with bits name show ?thesis
    by (intro exI [of _ ?req] exI) (auto simp only: ifru_flags_set)
qed

theorem demo_SIOCSIFFLAGS_calls_witness:
  "let K = (\<lambda>tr c. (0, VIfreq \<lparr>ifr_name = ethname, ifr_ifru = [0x43, 0x10] @ replicate 22 7\<rparr>));
       w = \<lparr>fd = 3, calls = [], printed = []\<rparr>;
       req = \<lparr>ifr_name = ethname, ifr_ifru = [0x43, 0x10] @ replicate 22 7\<rparr>
   in \<exists>req' x. calls (exec (demo_SIOCSIFFLAGS K False) w) =
      [(Ioctl 3 SIOCGIFFLAGS (VIfreq (ifreq_of ethname)), 0), (Ioctl 3 SIOCSIFFLAGS (VIfreq req'), x)]
    \<and> (\<forall>i. bit (ifru_flags req') i \<longleftrightarrow>
        (if i = 0 then False else i = 8 \<or> i = 9 \<or> bit (ifru_flags req) i))
    \<and> ifr_name req' = ifr_name req \<and> drop 2 (ifr_ifru req') = drop 2 (ifr_ifru req)"
  unfolding Let_def
  using demo_SIOCSIFFLAGS_calls [of "\<lambda>tr c. (0, VIfreq \<lparr>ifr_name = ethname, ifr_ifru = [0x43, 0x10] @ replicate 22 7\<rparr>)"
      "\<lparr>fd = 3, calls = [], printed = []\<rparr>" 0 "\<lparr>ifr_name = ethname, ifr_ifru = [0x43, 0x10] @ replicate 22 7\<rparr>" False]
  by simp

text \<open>
  \<open>get_interface_common\<close> closes the descriptor on every path. When the first
  \<open>close\<close> is not interrupted it closes once and returns 0 or the error number; when it
  is interrupted, the descriptor is gone all the same, the repeated \<open>close\<close> is refused,
  and the function returns that error (EBADF, 9) instead of success.
\<close>

theorem get_interface_common_close:
  assumes "\<And>tr. dead n tr \<Longrightarrow> K tr (Close n) = (-1, VInt 9)"
  shows "\<exists>tr info' w'. get_interface_common K n ifr info w = Some
      (if fst (K tr (Close n)) \<noteq> -1 then 0
       else if int_of (snd (K tr (Close n))) = EINTR then 9 else int_of (snd (K tr (Close n))), info', w')
    \<and> (\<exists>r1 r2. tr = calls w @ [(Ioctl n SIOCGIFFLAGS (VIfreq ifr), r1),
        (Ioctl n SIOCETHTOOL (VEthtool (ifr_name ifr) (le32 ETHTOOL_GSET)), r2)])
    \<and> calls w' = tr @ (Close n, fst (K tr (Close n)))
      # (if fst (K tr (Close n)) = -1 \<and> int_of (snd (K tr (Close n))) = EINTR then [(Close n, -1)] else [])"
proof -
  let ?c1 = "Ioctl n SIOCGIFFLAGS (VIfreq ifr)"
  let ?c2 = "Ioctl n SIOCETHTOOL (VEthtool (ifr_name ifr) (le32 ETHTOOL_GSET))"
  define r1 where "r1 = K (calls w) ?c1"
  define r2 where "r2 = K (calls w @ [(?c1, fst r1)]) ?c2"
  define tr where "tr = calls w @ [(?c1, fst r1), (?c2, fst r2)]"
  define c where "c = K tr (Close n)"
  let ?w = "w\<lparr>calls := tr\<rparr>"
  let ?again = "fst c = -1 \<and> int_of (snd c) = EINTR"
  have badf: "K (tr @ [(Close n, x)]) (Close n) = (-1, VInt 9)" for x
    by (rule assms) (simp add: dead_append fd_event_def)
  have "\<exists>info'. get_interface_common K n ifr info w = map_option
      (\<lambda>(r, w). (if fst r = -1 then int_of (snd r) else 0, info', w)) (close_retry K n ?w)"
    by (simp add: get_interface_common_def tr_def r1_def r2_def split_beta Let_def)
      (intro conjI impI; rule exI, rule refl)
  moreover have "close_retry K n ?w = Some (if ?again
      then ((-1, VInt 9), w\<lparr>calls := tr @ [(Close n, fst c), (Close n, -1)]\<rparr>)
      else (c, w\<lparr>calls := tr @ [(Close n, fst c)]\<rparr>))"
    using badf by (subst close_retry.simps) (auto simp: c_def Let_def EINTR_def close_retry.simps)
  ultimately show ?thesis
    by (intro exI [of _ tr]) (auto simp: c_def tr_def EINTR_def)
qed

definition intr_kernel :: kernel where
  "intr_kernel tr c = (case c of
      Close n \<Rightarrow> if dead n tr then (-1, VInt 9) else (-1, VInt EINTR) | _ \<Rightarrow> (-1, VNone))"

theorem get_interface_common_close_witness:
  "\<forall>info. \<exists>info' w'. get_interface_common intr_kernel 5 (ifreq_of ethname) info \<lparr>fd = 0, calls = [], printed = []\<rparr>
     = Some (9, info', w') \<and> (Close 5, -1) \<in> set (tl (calls w'))"
proof
  fix info
  let ?w = "\<lparr>fd = 0, calls = [], printed = []\<rparr>"
  obtain tr info' w' where *: "get_interface_common intr_kernel 5 (ifreq_of ethname) info ?w = Some
      (if fst (intr_kernel tr (Close 5)) \<noteq> -1 then 0
       else if int_of (snd (intr_kernel tr (Close 5))) = EINTR then 9
       else int_of (snd (intr_kernel tr (Close 5))), info', w')"
    "\<exists>r1 r2. tr = calls ?w @ [(Ioctl 5 SIOCGIFFLAGS (VIfreq (ifreq_of ethname)), r1),
        (Ioctl 5 SIOCETHTOOL (VEthtool (ifr_name (ifreq_of ethname)) (le32 ETHTOOL_GSET)), r2)]"
    "calls w' = tr @ (Close 5, fst (intr_kernel tr (Close 5)))
      # (if fst (intr_kernel tr (Close 5)) = -1 \<and> int_of (snd (intr_kernel tr (Close 5))) = EINTR
         then [(Close 5, -1)] else [])"
    using get_interface_common_close [of 5 intr_kernel "ifreq_of ethname" info ?w]
    by (auto simp: intr_kernel_def)
  then have "intr_kernel tr (Close 5) = (-1, VInt EINTR)"
    by (auto simp: intr_kernel_def dead_def fd_event_def)
  with * show "\<exists>info' w'. get_interface_common intr_kernel 5 (ifreq_of ethname) info ?w
     = Some (9, info', w') \<and> (Close 5, -1) \<in> set (tl (calls w'))" by auto
qed

text \<open>
  Setting the hardware address is a read-modify-write: the address written back is the
  one read except for its last two bytes, 0x87 and 0x88; the address family and the rest of
  the request are what was read.
\<close>

theorem demo_SIOCSIFHWADDR_calls:
  assumes "K (calls w) (Ioctl (fd w) SIOCGIFHWADDR (VIfreq (ifreq_of ethname))) = (0, VIfreq req)"
    and "length (ifr_ifru req) = 24"
  shows "\<exists>req' x. calls (exec (demo_SIOCSIFHWADDR K) w) = calls w
      @ [(Ioctl (fd w) SIOCGIFHWADDR (VIfreq (ifreq_of ethname)), 0),
         (Ioctl (fd w) SIOCSIFHWADDR (VIfreq req'), x)]
    \<and> sa_data req' = take 4 (sa_data req) @ [0x87, 0x88] @ drop 6 (sa_data req)
    \<and> take 2 (ifr_ifru req') = take 2 (ifr_ifru req) \<and> ifr_name req' = ifr_name req"
proof -
  let ?req = "set_sa_data 4 0x87 (set_sa_data 5 0x88 req)"
  have "sa_data ?req = take 4 (sa_data req) @ [0x87, 0x88] @ drop 6 (sa_data req)"
  proof (rule nth_equalityI)
    show "length (sa_data ?req) = length (take 4 (sa_data req) @ [0x87, 0x88] @ drop 6 (sa_data req))"
      using assms(2) by (simp add: sa_data_def set_sa_data_def)
  next
    fix i assume "i < length (sa_data ?req)"
    then have "i < 14" using assms(2) by (simp add: sa_data_def set_sa_data_def)
    moreover have "i < 4 \<or> i = 4 \<or> i = 5 \<or> 6 \<le> i" by linarith
    ultimately show "sa_data ?req ! i = (take 4 (sa_data req) @ [0x87, 0x88] @ drop 6 (sa_data req)) ! i"
      using assms(2) by (auto simp: sa_data_def set_sa_data_def nth_append nth_list_update)
  qed
  moreover have "take 2 (ifr_ifru ?req) = take 2 (ifr_ifru req)" "ifr_name ?req = ifr_name req"
    by (simp_all add: set_sa_data_def)
  moreover have "\<exists>x. calls (exec (demo_SIOCSIFHWADDR K) w) = calls w
      @ [(Ioctl (fd w) SIOCGIFHWADDR (VIfreq (ifreq_of ethname)), 0),
         (Ioctl (fd w) SIOCSIFHWADDR (VIfreq ?req), x)]"
    using assms(1) by (simp add: demo_SIOCSIFHWADDR_def or_return_def exec_bind)
  ultimately show ?thesis by blast
qed

theorem demo_SIOCSIFHWADDR_calls_witness:
  "let req = \<lparr>ifr_name = ethname, ifr_ifru = [1, 0, 2, 0x11, 0x22, 0x33, 0x44, 0x55] @ replicate 16 0\<rparr>;
       w = \<lparr>fd = 3, calls = [], printed = []\<rparr>
   in \<exists>req' x. calls (exec (demo_SIOCSIFHWADDR (\<lambda>tr c. (0, VIfreq req))) w) =
      [(Ioctl 3 SIOCGIFHWADDR (VIfreq (ifreq_of ethname)), 0), (Ioctl 3 SIOCSIFHWADDR (VIfreq req'), x)]
    \<and> take 6 (sa_data req') = [2, 0x11, 0x22, 0x33, 0x87, 0x88]"
proof -
  let ?req = "\<lparr>ifr_name = ethname, ifr_ifru = [1, 0, 2, 0x11, 0x22, 0x33, 0x44, 0x55] @ replicate 16 0\<rparr>"
  let ?w = "\<lparr>fd = 3, calls = [], printed = []\<rparr>"
  obtain req' x where "calls (exec (demo_SIOCSIFHWADDR (\<lambda>tr c. (0, VIfreq ?req))) ?w) = calls ?w
      @ [(Ioctl (fd ?w) SIOCGIFHWADDR (VIfreq (ifreq_of ethname)), 0), (Ioctl (fd ?w) SIOCSIFHWADDR (VIfreq req'), x)]"
    and s: "sa_data req' = take 4 (sa_data ?req) @ [0x87, 0x88] @ drop 6 (sa_data ?req)"
    using demo_SIOCSIFHWADDR_calls [of "\<lambda>tr c. (0, VIfreq ?req)" ?w ?req] by auto
  moreover have "take 6 (sa_data req') = [2, 0x11, 0x22, 0x33, 0x87, 0x88]"
    unfolding s by (simp add: sa_data_def)
  ultimately show ?thesis by auto
qed

end
