(* ===== verification/UsbSkel.thy ===== *)
theory UsbSkel
  imports Prelude
begin

text \<open>
  The USB skeleton driver: usb_skeleton.c. A device structure is shared by the open files,
  the callbacks of the USB core and the hot-plug entry points. Every entry point is a
  function of the state and of what the kernel answers (allocations, submissions, copies to
  and from user space); a call that blocks has the result \<open>None\<close>, an access to the freed
  structure is the fault \<open>BadAccess\<close>.

  An entry point runs as one step. The exception is the wait in \<open>skel_read\<close>: it holds
  \<open>io_mutex\<close> while the read completes, so its argument lists what the waits and the
  submissions give. Writes that complete during that wait are steps before or after it. A
  write that waits for \<open>io_mutex\<close> has already taken the semaphore; the model lets it
  start only when it gets both.
\<close>

section \<open>State\<close>

definition ENOENT :: int where "ENOENT = 2"
definition EIO :: int where "EIO = 5"
definition EAGAIN :: int where "EAGAIN = 11"
definition ENOMEM :: int where "ENOMEM = 12"
definition EFAULT :: int where "EFAULT = 14"
definition ENODEV :: int where "ENODEV = 19"
definition EPIPE :: int where "EPIPE = 32"
definition ERESTARTSYS :: int where "ERESTARTSYS = 512"

lemmas errnos = ENOENT_def EIO_def EAGAIN_def ENOMEM_def EFAULT_def ENODEV_def EPIPE_def
  ERESTARTSYS_def

definition WRITES_IN_FLIGHT :: nat where "WRITES_IN_FLIGHT = 8"
definition MAX_TRANSFER :: nat where "MAX_TRANSFER = 4096 - 512"

text \<open>
  \<open>struct usb_skel\<close>. With the anchor \<open>submitted\<close> are the write requests the core
  holds, in order; \<open>read_urb\<close> is the transfer length of \<open>bulk_in_urb\<close> while the core
  holds it; \<open>bufs\<close> counts the write buffers that are allocated.
\<close>

record usb_skel =
  limit_sem :: nat
  submitted :: "u8 list list"
  bufs :: nat
  bulk_in_buffer :: "u8 list"
  bulk_in_size :: nat
  bulk_in_filled :: nat
  bulk_in_copied :: nat
  read_urb :: "nat option"
  errors :: int
  ongoing_read :: bool
  kref :: nat
  io_mutex :: bool
  disconnected :: bool

datatype urb_end = Completed "u8 list" | Status int

section \<open>Reading\<close>

definition skel_read_bulk_callback :: "urb_end \<Rightarrow> usb_skel \<Rightarrow> usb_skel" where
  "skel_read_bulk_callback urb d =
     (case urb of
        Status s \<Rightarrow> d\<lparr>errors := s\<rparr>
      | Completed xs \<Rightarrow> d\<lparr>bulk_in_buffer := xs @ drop (length xs) (bulk_in_buffer d),
          bulk_in_filled := length xs\<rparr>)
     \<lparr>ongoing_read := False, read_urb := None\<rparr>"

definition skel_do_read_io :: "int \<Rightarrow> nat \<Rightarrow> usb_skel \<Rightarrow> int \<times> usb_skel" where
  "skel_do_read_io submit_rv count d =
     (let d = d\<lparr>ongoing_read := True\<rparr>;
          d = d\<lparr>bulk_in_filled := 0, bulk_in_copied := 0\<rparr>
      in if submit_rv < 0
         then (if submit_rv = -ENOMEM then submit_rv else -EIO, d\<lparr>ongoing_read := False\<rparr>)
         else (submit_rv, d\<lparr>read_urb := Some (min (bulk_in_size d) count)\<rparr>))"

text \<open>\<open>(rv == -EPIPE) ? rv : -EIO\<close>\<close>

definition report :: "int \<Rightarrow> int" where
  "report rv = (if rv = -EPIPE then rv else -EIO)"

text \<open>
  The events of a read in order: what a submission returns, and how a wait ends, by a
  signal or because the request has ended.
\<close>

datatype read_event = Submit int | Interrupted | Woken urb_end

text \<open>
  The part of \<open>skel_read\<close> after the wait: the return value, the bytes copied to the
  user, the device, the events left; or a new round.
\<close>

datatype round = Return int "u8 list" | Retry

definition read_start :: "nat \<Rightarrow> read_event list \<Rightarrow> usb_skel \<Rightarrow> (round \<times> usb_skel \<times> read_event list) option" where
  "read_start count evs d =
     (case evs of
        Submit rv # evs \<Rightarrow>
          (let (rv, d) = skel_do_read_io rv count d in Some (if rv < 0 then Return rv [] else Retry, d, evs))
      | _ \<Rightarrow> None)"

definition read_data ::
  "nat \<Rightarrow> bool \<Rightarrow> read_event list \<Rightarrow> usb_skel \<Rightarrow> (round \<times> usb_skel \<times> read_event list) option" where
  "read_data count copy_ok evs d =
     (if errors d < 0 then Some (Return (report (errors d)) [], d\<lparr>errors := 0\<rparr>, evs)
      else if bulk_in_filled d \<noteq> 0 then
        let available = bulk_in_filled d - bulk_in_copied d;
            chunk = min available count
        in if available = 0 then read_start count evs d
           else
             let out = (if copy_ok then take chunk (drop (bulk_in_copied d) (bulk_in_buffer d)) else []);
                 rv = (if copy_ok then int chunk else -EFAULT);
                 d = d\<lparr>bulk_in_copied := bulk_in_copied d + chunk\<rparr>
             in if available < count then
                  (case evs of
                     Submit x # evs \<Rightarrow> Some (Return rv out, snd (skel_do_read_io x (count - chunk) d), evs)
                   | _ \<Rightarrow> None)
                else Some (Return rv out, d, evs)
      else read_start count evs d)"

definition read_wait ::
  "bool \<Rightarrow> read_event list \<Rightarrow> usb_skel \<Rightarrow> (round \<times> usb_skel \<times> read_event list) option" where
  "read_wait nonblock evs d =
     (if ongoing_read d then
        if nonblock then Some (Return (-EAGAIN) [], d, evs)
        else (case evs of
            Interrupted # evs \<Rightarrow> Some (Return (-ERESTARTSYS) [], d, evs)
          | Woken e # evs \<Rightarrow> Some (Retry, skel_read_bulk_callback e d, evs)
          | _ \<Rightarrow> None)
      else Some (Retry, d, evs))"

lemma read_wait_length: "read_wait nonblock evs d = Some (r, d', evs') \<Longrightarrow> length evs' \<le> length evs"
  by (auto simp: read_wait_def split: if_splits list.splits read_event.splits)

lemma read_data_length: "read_data count copy_ok evs d = Some (Retry, d', evs') \<Longrightarrow> length evs' < length evs"
  by (auto simp: read_data_def read_start_def Let_def split: if_splits list.splits read_event.splits prod.splits)

text \<open>The loop at the label \<open>retry\<close>; every further round has consumed an event.\<close>

function read_loop ::
  "bool \<Rightarrow> nat \<Rightarrow> bool \<Rightarrow> read_event list \<Rightarrow> usb_skel \<Rightarrow> (int \<times> u8 list \<times> usb_skel \<times> read_event list) option" where
  "read_loop nonblock count copy_ok evs d =
     (case read_wait nonblock evs d of
        None \<Rightarrow> None
      | Some (Return rv out, d, evs) \<Rightarrow> Some (rv, out, d, evs)
      | Some (Retry, d', evs') \<Rightarrow>
          (case read_data count copy_ok evs' d' of
             None \<Rightarrow> None
           | Some (Return rv out, d, evs) \<Rightarrow> Some (rv, out, d, evs)
           | Some (Retry, d, evs) \<Rightarrow> read_loop nonblock count copy_ok evs d))"
  by pat_completeness auto
termination
  by (relation "measure (\<lambda>(nonblock, count, copy_ok, evs, d). length evs)")
    (auto dest!: read_wait_length read_data_length)

declare read_loop.simps [simp del]

text \<open>\<open>lock_rv\<close> is the result of \<open>mutex_lock_interruptible\<close>.\<close>

definition skel_read ::
  "bool \<Rightarrow> int \<Rightarrow> nat \<Rightarrow> bool \<Rightarrow> read_event list \<Rightarrow> usb_skel
    \<Rightarrow> (int \<times> u8 list \<times> usb_skel \<times> read_event list) option" where
  "skel_read nonblock lock_rv count copy_ok evs d =
     (if count = 0 then Some (0, [], d, evs)
      else if lock_rv < 0 then Some (lock_rv, [], d, evs)
      else if io_mutex d then None
      else if disconnected d then Some (-ENODEV, [], d, evs)
      else read_loop nonblock count copy_ok evs d)"

section \<open>Writing\<close>

text \<open>A write request ends: the \<open>i\<close>-th of those the core holds.\<close>

definition skel_write_bulk_callback :: "nat \<Rightarrow> int \<Rightarrow> usb_skel \<Rightarrow> usb_skel" where
  "skel_write_bulk_callback i status d =
     (let d = (if status \<noteq> 0 then d\<lparr>errors := status\<rparr> else d)
      in d\<lparr>submitted := take i (submitted d) @ drop (Suc i) (submitted d),
           bufs := bufs d - 1, limit_sem := limit_sem d + 1\<rparr>)"

record write_env =
  sem_interrupted :: bool
  urb_ok :: bool
  buf_ok :: bool
  copy_from_ok :: bool
  submit_rv :: int

text \<open>The labels \<open>error_unanchor\<close> and \<open>error\<close>: \<open>has_buf\<close> when there is a buffer to free.\<close>

definition write_error :: "bool \<Rightarrow> usb_skel \<Rightarrow> usb_skel" where
  "write_error has_buf d =
     d\<lparr>bufs := (if has_buf then bufs d - 1 else bufs d), limit_sem := limit_sem d + 1\<rparr>"

definition skel_write :: "write_env \<Rightarrow> bool \<Rightarrow> u8 list \<Rightarrow> usb_skel \<Rightarrow> (int \<times> usb_skel) option" where
  "skel_write E nonblock user_buffer d =
     (let count = length user_buffer;
          writesize = min count MAX_TRANSFER in
      if count = 0 then Some (0, d)
      else if \<not> nonblock \<and> sem_interrupted E then Some (-ERESTARTSYS, d)
      else if limit_sem d = 0 then (if nonblock then Some (-EAGAIN, d) else None)
      else let d = d\<lparr>limit_sem := limit_sem d - 1\<rparr> in
      if errors d < 0 then Some (report (errors d), write_error False (d\<lparr>errors := 0\<rparr>))
      else if \<not> urb_ok E then Some (-ENOMEM, write_error False d)
      else if \<not> buf_ok E then Some (-ENOMEM, write_error False d)
      else let d = d\<lparr>bufs := bufs d + 1\<rparr> in
      if \<not> copy_from_ok E then Some (-EFAULT, write_error True d)
      else if io_mutex d then None
      else if disconnected d then Some (-ENODEV, write_error True d)
      else let d = d\<lparr>submitted := submitted d @ [take writesize user_buffer]\<rparr> in
      if submit_rv E \<noteq> 0 then Some (submit_rv E, write_error True (d\<lparr>submitted := butlast (submitted d)\<rparr>))
      else Some (int writesize, d))"

section \<open>Stopping the traffic\<close>

text \<open>\<open>usb_kill_urb\<close> and \<open>usb_kill_anchored_urbs\<close> end a request with the status \<open>-ENOENT\<close>.\<close>

definition kill_read :: "usb_skel \<Rightarrow> usb_skel" where
  "kill_read d = (if read_urb d = None then d else skel_read_bulk_callback (Status (-ENOENT)) d)"

definition kill_writes :: "usb_skel \<Rightarrow> usb_skel" where
  "kill_writes d = ((skel_write_bulk_callback 0 (-ENOENT)) ^^ length (submitted d)) d"

text \<open>
  \<open>ends\<close> are the results of the writes that end while \<open>skel_draw_down\<close> waits for the
  anchor to be empty; it kills the others when the time is over.
\<close>

fun wait_anchor_empty :: "int list \<Rightarrow> usb_skel \<Rightarrow> usb_skel" where
  "wait_anchor_empty [] d = d"
| "wait_anchor_empty (e # ends) d =
     (if submitted d = [] then d else wait_anchor_empty ends (skel_write_bulk_callback 0 e d))"

definition skel_draw_down :: "int list \<Rightarrow> usb_skel \<Rightarrow> usb_skel" where
  "skel_draw_down ends d =
     (let d = wait_anchor_empty ends d;
          d = (if submitted d \<noteq> [] then kill_writes d else d)
      in kill_read d)"

definition skel_flush :: "int list \<Rightarrow> usb_skel \<Rightarrow> (int \<times> usb_skel) option" where
  "skel_flush ends d =
     (if io_mutex d then None
      else
        let d = skel_draw_down ends d;
            res = (if errors d \<noteq> 0 then (if errors d = -EPIPE then -EPIPE else -EIO) else 0)
        in Some (res, d\<lparr>errors := 0\<rparr>))"

definition skel_pre_reset :: "int list \<Rightarrow> usb_skel \<Rightarrow> (int \<times> usb_skel) option" where
  "skel_pre_reset ends d =
     (if io_mutex d then None else Some (0, skel_draw_down ends (d\<lparr>io_mutex := True\<rparr>)))"

definition skel_post_reset :: "usb_skel \<Rightarrow> int \<times> usb_skel" where
  "skel_post_reset d = (0, d\<lparr>errors := -EPIPE, io_mutex := False\<rparr>)"

section \<open>The life of the structure\<close>

text \<open>
  The driver's view of the system: the structure (\<open>None\<close> when there is none or it is
  freed), whether the interface's data pointer is set, the open files whose private data
  point to the structure, the references the driver holds on the device and the interface,
  the power-management references.
\<close>

record usb_sys =
  dev :: "usb_skel option"
  intfdata :: bool
  files :: nat
  udev_refs :: nat
  intf_refs :: nat
  pm_refs :: nat

type_synonym 'a usb = "usb_sys \<Rightarrow> (fault + ('a \<times> usb_sys)) option"

text \<open>An entry point that works on the structure.\<close>

definition on_dev :: "(usb_skel \<Rightarrow> ('a \<times> usb_skel) option) \<Rightarrow> 'a usb" where
  "on_dev f s =
     (case dev s of None \<Rightarrow> Some (Inl (BadAccess NULL))
      | Some d \<Rightarrow> map_option (\<lambda>(x, d). Inr (x, s\<lparr>dev := Some d\<rparr>)) (f d))"

text \<open>
  \<open>skel_delete\<close> frees the structure. A request the core still holds would run its
  callback on the freed structure: that is the fault.
\<close>

definition skel_delete :: "usb_sys \<Rightarrow> fault + usb_sys" where
  "skel_delete s =
     (case dev s of None \<Rightarrow> Inl (BadAccess NULL)
      | Some d \<Rightarrow> if read_urb d \<noteq> None \<or> submitted d \<noteq> [] then Inl (BadAccess NULL)
          else Inr (s\<lparr>dev := None, intf_refs := intf_refs s - 1, udev_refs := udev_refs s - 1\<rparr>))"

definition kref_put :: "usb_sys \<Rightarrow> fault + usb_sys" where
  "kref_put s =
     (case dev s of None \<Rightarrow> Inl (BadAccess NULL)
      | Some d \<Rightarrow> let d = d\<lparr>kref := kref d - 1\<rparr>; s = s\<lparr>dev := Some d\<rparr>
          in if kref d = 0 then skel_delete s else Inr s)"

text \<open>
  \<open>found\<close>: whether the minor number still belongs to an interface; \<open>pm_rv\<close>: the
  result of \<open>usb_autopm_get_interface\<close>.
\<close>

definition skel_open :: "bool \<Rightarrow> int \<Rightarrow> int usb" where
  "skel_open found pm_rv s =
     (if \<not> found then Some (Inr (-ENODEV, s))
      else if \<not> intfdata s then Some (Inr (-ENODEV, s))
      else if pm_rv \<noteq> 0 then Some (Inr (pm_rv, s))
      else map_option (\<lambda>r. rbind r (\<lambda>(x, s). Inr (0, s\<lparr>files := files s + 1, pm_refs := pm_refs s + 1\<rparr>)))
        (on_dev (\<lambda>d. Some ((), d\<lparr>kref := kref d + 1\<rparr>)) s))"

definition skel_release :: "int usb" where
  "skel_release s =
     (case dev s of None \<Rightarrow> Some (Inl (BadAccess NULL))
      | Some d \<Rightarrow>
          Some (rbind (kref_put (s\<lparr>pm_refs := pm_refs s - 1\<rparr>)) (\<lambda>s. Inr (0, s\<lparr>files := files s - 1\<rparr>))))"

definition skel_disconnect :: "unit usb" where
  "skel_disconnect s =
     (case dev s of None \<Rightarrow> Some (Inl (BadAccess NULL))
      | Some d \<Rightarrow>
          if io_mutex d then None
          else
            let s = s\<lparr>intfdata := False\<rparr>;
                d = d\<lparr>disconnected := True\<rparr>;
                d = kill_writes (kill_read d)
            in Some (rbind (kref_put (s\<lparr>dev := Some d\<rparr>)) (\<lambda>s. Inr ((), s))))"

definition skel_suspend :: "int list \<Rightarrow> int usb" where
  "skel_suspend ends s =
     (if \<not> intfdata s then Some (Inr (0, s)) else on_dev (\<lambda>d. Some (0, skel_draw_down ends d)) s)"

definition skel_resume :: "int usb" where
  "skel_resume s = Some (Inr (0, s))"

text \<open>
  Probing. \<open>endpoints\<close> is the result of the search for the endpoints, with the packet
  size of the bulk-in endpoint. A failure after the structure is there releases it, and
  what it holds, through its reference count.
\<close>

record probe_env =
  kzalloc_ok :: bool
  endpoints :: "int \<times> nat"
  buffer_ok :: bool
  read_urb_ok :: bool
  register_rv :: int

definition new_skel :: usb_skel where
  "new_skel = \<lparr>limit_sem = WRITES_IN_FLIGHT, submitted = [], bufs = 0, bulk_in_buffer = [],
     bulk_in_size = 0, bulk_in_filled = 0, bulk_in_copied = 0, read_urb = None, errors = 0,
     ongoing_read = False, kref = 1, io_mutex = False, disconnected = False\<rparr>"

definition probe_error :: "int \<Rightarrow> usb_sys \<Rightarrow> fault + (int \<times> usb_sys)" where
  "probe_error retval s = rbind (kref_put s) (\<lambda>s. Inr (retval, s))"

definition skel_probe :: "probe_env \<Rightarrow> usb_sys \<Rightarrow> fault + (int \<times> usb_sys)" where
  "skel_probe E s =
     (if \<not> kzalloc_ok E then Inr (-ENOMEM, s)
      else
        let s = s\<lparr>dev := Some new_skel\<rparr>;
            s = s\<lparr>udev_refs := udev_refs s + 1, intf_refs := intf_refs s + 1\<rparr>
        in if fst (endpoints E) \<noteq> 0 then probe_error (fst (endpoints E)) s
           else
             let d = new_skel\<lparr>bulk_in_size := snd (endpoints E)\<rparr>; s = s\<lparr>dev := Some d\<rparr>
             in if \<not> buffer_ok E then probe_error (-ENOMEM) s
                else
                  let d = d\<lparr>bulk_in_buffer := replicate (bulk_in_size d) 0\<rparr>; s = s\<lparr>dev := Some d\<rparr>
                  in if \<not> read_urb_ok E then probe_error (-ENOMEM) s
                     else
                       let s = s\<lparr>intfdata := True\<rparr>
                       in if register_rv E \<noteq> 0
                          then probe_error (register_rv E) (s\<lparr>intfdata := False\<rparr>)
                          else Inr (0, s))"

section \<open>The structure stays well formed\<close>

definition skel_ok :: "usb_skel \<Rightarrow> bool" where
  "skel_ok d \<longleftrightarrow> limit_sem d + length (submitted d) = WRITES_IN_FLIGHT \<and> bufs d = length (submitted d)
     \<and> bulk_in_copied d \<le> bulk_in_filled d \<and> bulk_in_filled d \<le> bulk_in_size d
     \<and> length (bulk_in_buffer d) = bulk_in_size d \<and> (ongoing_read d \<longleftrightarrow> read_urb d \<noteq> None)
     \<and> (\<forall>n. read_urb d = Some n \<longrightarrow> n \<le> bulk_in_size d \<and> bulk_in_filled d = 0)"

definition idle :: "usb_skel \<Rightarrow> bool" where
  "idle d \<longleftrightarrow> submitted d = [] \<and> read_urb d = None"

text \<open>What every operation on the structure keeps.\<close>

definition keeps :: "usb_skel \<Rightarrow> usb_skel \<Rightarrow> bool" where
  "keeps d d' \<longleftrightarrow> kref d' = kref d \<and> disconnected d' = disconnected d \<and> bulk_in_size d' = bulk_in_size d
     \<and> (disconnected d \<longrightarrow> idle d \<longrightarrow> idle d') \<and> (skel_ok d \<longrightarrow> skel_ok d')"

named_theorems keeps_intros "operations that keep the structure well formed"

lemma keeps_refl [keeps_intros]: "keeps d d"
  by (simp add: keeps_def)

lemma keeps_trans: "keeps d d' \<Longrightarrow> keeps d' d'' \<Longrightarrow> keeps d d''"
  by (auto simp: keeps_def)

lemma keeps_errors [keeps_intros]: "keeps d d' \<Longrightarrow> keeps d (d'\<lparr>errors := e\<rparr>)"
  and keeps_io_mutex [keeps_intros]: "keeps d d' \<Longrightarrow> keeps d (d'\<lparr>io_mutex := b\<rparr>)"
  by (auto simp: keeps_def skel_ok_def idle_def)

definition end_ok :: "nat \<Rightarrow> urb_end \<Rightarrow> bool" where
  "end_ok n e \<longleftrightarrow> (case e of Completed xs \<Rightarrow> length xs \<le> n | Status s \<Rightarrow> s < 0)"

lemma keeps_read_callback:
  assumes "end_ok (bulk_in_size d) e" and "read_urb d \<noteq> None"
  shows "keeps d (skel_read_bulk_callback e d)"
  using assms
  by (auto simp: keeps_def skel_ok_def idle_def skel_read_bulk_callback_def end_ok_def split: urb_end.splits)

lemma keeps_write_callback [keeps_intros]:
  assumes "i < length (submitted d)"
  shows "keeps d (skel_write_bulk_callback i s d)"
  using assms
  by (auto simp: keeps_def skel_ok_def idle_def skel_write_bulk_callback_def Let_def)

lemma length_write_callback:
  "i < length (submitted d) \<Longrightarrow> length (submitted (skel_write_bulk_callback i s d)) = length (submitted d) - 1"
  by (simp add: skel_write_bulk_callback_def Let_def)

lemma write_callback_simps [simp]:
  "read_urb (skel_write_bulk_callback i s d) = read_urb d"
  "io_mutex (skel_write_bulk_callback i s d) = io_mutex d"
  "disconnected (skel_write_bulk_callback i s d) = disconnected d"
  by (simp_all add: skel_write_bulk_callback_def Let_def)

lemma kill_writes_loop:
  "n \<le> length (submitted d) \<Longrightarrow> keeps d ((skel_write_bulk_callback 0 s ^^ n) d)
    \<and> length (submitted ((skel_write_bulk_callback 0 s ^^ n) d)) = length (submitted d) - n
    \<and> read_urb ((skel_write_bulk_callback 0 s ^^ n) d) = read_urb d"
proof (induction n)
  case (Suc n)
  let ?e = "(skel_write_bulk_callback 0 s ^^ n) d"
  have "0 < length (submitted ?e)" using Suc by simp
  then show ?case
    using Suc keeps_trans [OF _ keeps_write_callback] length_write_callback [of 0 ?e s] by auto
qed (simp add: keeps_refl)

lemma kill_writes_spec: "keeps d (kill_writes d)" "submitted (kill_writes d) = []"
    "read_urb (kill_writes d) = read_urb d"
  using kill_writes_loop [of "length (submitted d)" d "-ENOENT"] by (simp_all add: kill_writes_def)

lemma kill_read_spec: "keeps d (kill_read d)" "read_urb (kill_read d) = None"
    "submitted (kill_read d) = submitted d"
proof -
  show "keeps d (kill_read d)"
    using keeps_read_callback [of d "Status (-ENOENT)"]
    by (simp add: kill_read_def keeps_refl end_ok_def ENOENT_def)
  show "read_urb (kill_read d) = None" "submitted (kill_read d) = submitted d"
    by (simp_all add: kill_read_def skel_read_bulk_callback_def)
qed

lemma keeps_wait_anchor_empty [keeps_intros]: "keeps d (wait_anchor_empty ends d)"
proof (induction ends d rule: wait_anchor_empty.induct)
  case (2 e ends d)
  then show ?case using keeps_trans [OF keeps_write_callback [of 0 d e]] by (simp add: keeps_refl)
qed (simp add: keeps_refl)

lemma draw_down_spec: "keeps d (skel_draw_down ends d)" "idle (skel_draw_down ends d)"
proof -
  let ?w = "wait_anchor_empty ends d"
  let ?k = "if submitted ?w \<noteq> [] then kill_writes ?w else ?w"
  have "keeps d ?k" "submitted ?k = []"
    using keeps_trans [OF keeps_wait_anchor_empty kill_writes_spec(1)] kill_writes_spec(2)
    by (simp_all add: keeps_wait_anchor_empty)
  then show "keeps d (skel_draw_down ends d)" "idle (skel_draw_down ends d)"
    using keeps_trans [OF _ kill_read_spec(1)] kill_read_spec(2,3)
    by (simp_all add: skel_draw_down_def Let_def idle_def)
qed

subsection \<open>Reading\<close>

definition event_ok :: "usb_skel \<Rightarrow> read_event \<Rightarrow> bool" where
  "event_ok d e \<longleftrightarrow> (case e of Woken u \<Rightarrow> end_ok (bulk_in_size d) u | _ \<Rightarrow> True)"

lemma event_ok_keeps: "keeps d d' \<Longrightarrow> event_ok d' = event_ok d"
  by (simp add: keeps_def event_ok_def fun_eq_iff split: read_event.split)

lemma do_read_io_keeps:
  assumes "\<not> disconnected d" and "\<not> ongoing_read d"
  shows "keeps d (snd (skel_do_read_io x n d))"
    and "fst (skel_do_read_io x n d) < 0 \<Longrightarrow> \<not> ongoing_read (snd (skel_do_read_io x n d))"
  using assms by (auto simp: skel_do_read_io_def Let_def keeps_def skel_ok_def split: if_splits)

lemma read_wait_keeps:
  assumes "read_wait nonblock evs d = Some (r, d', evs')" and "skel_ok d" and "list_all (event_ok d) evs"
  shows "keeps d d' \<and> list_all (event_ok d) evs' \<and> (r = Retry \<longrightarrow> \<not> ongoing_read d')"
proof -
  have "read_urb d \<noteq> None" if "ongoing_read d" using assms(2) that by (simp add: skel_ok_def)
  then show ?thesis
    using assms keeps_read_callback [of d]
    by (auto simp: read_wait_def keeps_refl event_ok_def skel_read_bulk_callback_def
        split: if_splits list.splits read_event.splits)
qed

lemma read_start_keeps:
  assumes "read_start n evs d = Some (r, d', evs')" and "\<not> disconnected d" and "\<not> ongoing_read d"
    and "list_all (event_ok d) evs"
  shows "keeps d d' \<and> list_all (event_ok d) evs'"
  using assms do_read_io_keeps [of d]
  by (auto simp: read_start_def Let_def split: list.splits read_event.splits prod.splits)
    (metis snd_conv)+

lemma keeps_copied:
  "bulk_in_copied d + k \<le> bulk_in_filled d \<Longrightarrow> keeps d (d\<lparr>bulk_in_copied := bulk_in_copied d + k\<rparr>)"
  by (auto simp: keeps_def skel_ok_def idle_def)

lemma read_data_keeps:
  assumes "read_data n ok evs d = Some (r, d', evs')" and "\<not> disconnected d" and "\<not> ongoing_read d"
    and "list_all (event_ok d) evs"
  shows "keeps d d' \<and> list_all (event_ok d) evs'"
proof -
  let ?av = "bulk_in_filled d - bulk_in_copied d"
  let ?d = "d\<lparr>bulk_in_copied := bulk_in_copied d + min ?av n\<rparr>"
  have k: "keeps d ?d" if "?av \<noteq> 0" by (rule keeps_copied) (use that in simp)
  have "keeps d (snd (skel_do_read_io x m ?d))" if "?av \<noteq> 0" for x m
    using keeps_trans [OF k [OF that] do_read_io_keeps(1)] assms(2,3) by simp
  with k show ?thesis
    using assms read_start_keeps [of n evs d r d' evs']
    by (auto simp: read_data_def Let_def keeps_refl keeps_errors split: if_splits list.splits read_event.splits)
qed

lemma read_loop_keeps:
  assumes "read_loop nonblock n ok evs d = Some (rv, out, d', evs')" and "skel_ok d" and "\<not> disconnected d"
    and "list_all (event_ok d) evs"
  shows "keeps d d'"
  using assms
proof (induction nonblock n ok evs d rule: read_loop.induct)
  case (1 nonblock n ok evs d)
  from "1.prems"(1) obtain r1 d1 e1 where w: "read_wait nonblock evs d = Some (r1, d1, e1)"
    by (subst (asm) read_loop.simps) (auto split: option.splits)
  note k1 = read_wait_keeps [OF w "1.prems"(2,4)]
  show ?case
  proof (cases r1)
    case (Return x y)
    with w k1 "1.prems"(1) show ?thesis by (subst (asm) read_loop.simps) simp
  next
    case Retry
    from "1.prems"(1) w Retry obtain r2 d2 e2 where dt: "read_data n ok e1 d1 = Some (r2, d2, e2)"
      by (subst (asm) read_loop.simps) (auto split: option.splits)
    have d1: "\<not> disconnected d1" "skel_ok d1" "event_ok d1 = event_ok d"
      using k1 "1.prems"(2,3) event_ok_keeps [of d d1] by (auto simp: keeps_def)
    note k2 = read_data_keeps [OF dt]
    have k2: "keeps d1 d2 \<and> list_all (event_ok d1) e2" using k2 d1 k1 Retry by simp
    show ?thesis
    proof (cases r2)
      case (Return x y)
      with w dt Retry k1 k2 "1.prems"(1) show ?thesis
        by (subst (asm) read_loop.simps) (auto intro: keeps_trans)
    next
      case Retry2: Retry
      have d2: "skel_ok d2" "\<not> disconnected d2" "event_ok d2 = event_ok d1"
        using k2 d1 event_ok_keeps [of d1 d2] by (auto simp: keeps_def)
      have "keeps d2 d'"
        using "1.IH" [of "(r1, d1, e1)" r1 "(d1, e1)" d1 e1 "(r2, d2, e2)" r2 "(d2, e2)" d2 e2] w dt Retry Retry2
          "1.prems"(1) d2 k2
        by (subst (asm) (2) read_loop.simps) simp
      then show ?thesis using k1 k2 by (blast intro: keeps_trans)
    qed
  qed
qed

subsection \<open>The other operations\<close>

lemma skel_read_keeps:
  assumes "skel_read nonblock lk n ok evs d = Some (rv, out, d', evs')" and "skel_ok d"
    and "list_all (event_ok d) evs"
  shows "keeps d d'"
  using assms read_loop_keeps [of nonblock n ok evs d rv out d' evs']
  by (auto simp: skel_read_def keeps_refl split: if_splits)

lemma skel_write_keeps:
  assumes "skel_write E nonblock u d = Some (rv, d')"
  shows "keeps d d'"
  using assms
  by (auto simp: skel_write_def write_error_def Let_def keeps_def skel_ok_def idle_def butlast_append
      split: if_splits)

lemma skel_flush_keeps: "skel_flush ends d = Some (rv, d') \<Longrightarrow> keeps d d'"
  using draw_down_spec(1) [of d ends] by (auto simp: skel_flush_def Let_def intro: keeps_intros split: if_splits)

lemma skel_pre_reset_keeps:
  assumes "skel_pre_reset ends d = Some (rv, d')"
  shows "keeps d d'"
proof -
  have "keeps d (d\<lparr>io_mutex := True\<rparr>)" by (intro keeps_intros)
  then have "keeps d (skel_draw_down ends (d\<lparr>io_mutex := True\<rparr>))"
    by (rule keeps_trans [OF _ draw_down_spec(1)])
  with assms show ?thesis by (auto simp: skel_pre_reset_def split: if_splits)
qed

lemma skel_post_reset_keeps: "keeps d (snd (skel_post_reset d))"
  unfolding skel_post_reset_def snd_conv using keeps_errors [OF keeps_refl] keeps_io_mutex by fastforce

section \<open>The system\<close>

datatype usb_event =
    Open bool int | Release | Read bool int nat bool "read_event list" | ReadEnd urb_end
  | Write write_env bool "u8 list" | WriteEnd nat int | Flush "int list" | Suspend "int list" | Resume
  | PreReset "int list" | PostReset | Disconnect

text \<open>
  When the kernel calls what: file operations on an open file, callbacks for a request the
  core holds, the hot-plug and reset entry points while the interface is bound.
\<close>

fun enabled :: "usb_event \<Rightarrow> usb_sys \<Rightarrow> bool" where
  "enabled (Open found pm_rv) s \<longleftrightarrow> True"
| "enabled Release s \<longleftrightarrow> 0 < files s"
| "enabled (Read nonblock lock_rv n copy_ok evs) s \<longleftrightarrow> 0 < files s
     \<and> (\<forall>d. dev s = Some d \<longrightarrow> list_all (event_ok d) evs)"
| "enabled (ReadEnd e) s \<longleftrightarrow> (\<exists>d n. dev s = Some d \<and> read_urb d = Some n \<and> end_ok n e)"
| "enabled (Write E nonblock user) s \<longleftrightarrow> 0 < files s"
| "enabled (WriteEnd i status) s \<longleftrightarrow> (\<exists>d. dev s = Some d \<and> i < length (submitted d))"
| "enabled (Flush ends) s \<longleftrightarrow> 0 < files s"
| "enabled (Suspend ends) s \<longleftrightarrow> True"
| "enabled Resume s \<longleftrightarrow> True"
| "enabled (PreReset ends) s \<longleftrightarrow> intfdata s"
| "enabled PostReset s \<longleftrightarrow> intfdata s"
| "enabled Disconnect s \<longleftrightarrow> intfdata s"

definition new_state :: "(fault + ('a \<times> usb_sys)) option \<Rightarrow> (fault + usb_sys) option" where
  "new_state r = map_option (\<lambda>r. rbind r (\<lambda>(x, s). Inr s)) r"

fun usb_call :: "usb_event \<Rightarrow> usb_sys \<Rightarrow> (fault + usb_sys) option" where
  "usb_call (Open found pm_rv) s = new_state (skel_open found pm_rv s)"
| "usb_call Release s = new_state (skel_release s)"
| "usb_call (Read nonblock lock_rv n copy_ok evs) s = new_state (on_dev (\<lambda>d.
     map_option (\<lambda>(rv, out, d, evs). ((rv, out, evs), d)) (skel_read nonblock lock_rv n copy_ok evs d)) s)"
| "usb_call (ReadEnd e) s = new_state (on_dev (\<lambda>d. Some ((), skel_read_bulk_callback e d)) s)"
| "usb_call (Write E nonblock user) s = new_state (on_dev (skel_write E nonblock user) s)"
| "usb_call (WriteEnd i status) s = new_state (on_dev (\<lambda>d. Some ((), skel_write_bulk_callback i status d)) s)"
| "usb_call (Flush ends) s = new_state (on_dev (skel_flush ends) s)"
| "usb_call (Suspend ends) s = new_state (skel_suspend ends s)"
| "usb_call Resume s = new_state (skel_resume s)"
| "usb_call (PreReset ends) s = new_state (on_dev (skel_pre_reset ends) s)"
| "usb_call PostReset s = new_state (on_dev (\<lambda>d. Some (skel_post_reset d)) s)"
| "usb_call Disconnect s = new_state (skel_disconnect s)"

definition no_dev :: usb_sys where
  "no_dev = \<lparr>dev = None, intfdata = False, files = 0, udev_refs = 0, intf_refs = 0, pm_refs = 0\<rparr>"

definition usb_start :: "usb_sys \<Rightarrow> bool" where
  "usb_start s \<longleftrightarrow> (\<exists>E. skel_probe E no_dev = Inr (0, s))"

inductive usb_step :: "usb_sys \<Rightarrow> usb_sys \<Rightarrow> bool" where
  "enabled ev s \<Longrightarrow> usb_call ev s = Some (Inr t) \<Longrightarrow> usb_step s t"

text \<open>
  The invariant: a reference for the bound interface and one for every open file; the
  structure is there as long as there is one; after the disconnection nothing is with the
  core.
\<close>

definition usb_inv :: "usb_sys \<Rightarrow> bool" where
  "usb_inv s \<longleftrightarrow> (case dev s of
      None \<Rightarrow> files s = 0 \<and> \<not> intfdata s \<and> udev_refs s = 0 \<and> intf_refs s = 0
    | Some d \<Rightarrow> skel_ok d \<and> kref d = files s + (if intfdata s then 1 else 0) \<and> 0 < kref d
        \<and> (disconnected d \<longleftrightarrow> \<not> intfdata s) \<and> (disconnected d \<longrightarrow> idle d)
        \<and> udev_refs s = 1 \<and> intf_refs s = 1) \<and> pm_refs s = files s"

lemma usb_inv_D:
  assumes "usb_inv s" and "0 < files s \<or> intfdata s"
  obtains d where "dev s = Some d"
  using assms by (cases "dev s") (auto simp: usb_inv_def)

lemma usb_inv_keeps:
  assumes "usb_inv s" and "dev s = Some d" and "keeps d d'"
  shows "usb_inv (s\<lparr>dev := Some d'\<rparr>)"
  using assms by (auto simp: usb_inv_def keeps_def)

lemma on_dev_keeps:
  assumes "usb_inv s" and "0 < files s \<or> intfdata s"
    and "\<And>d x d'. dev s = Some d \<Longrightarrow> f d = Some (x, d') \<Longrightarrow> keeps d d'"
  shows "\<forall>r. new_state (on_dev f s) = Some r \<longrightarrow> (\<exists>t. r = Inr t \<and> usb_inv t)"
proof -
  obtain d where d: "dev s = Some d" by (rule usb_inv_D [OF assms(1,2)])
  show ?thesis
    using assms(3) [OF d] usb_inv_keeps [OF assms(1) d]
    by (cases "f d") (auto simp: new_state_def on_dev_def d)
qed

lemma kref_put_inv:
  assumes "dev s = Some d" and "skel_ok d" and "0 < kref d" and "kref d = 1 \<longrightarrow> idle d"
    and "udev_refs s = 1" "intf_refs s = 1"
  shows "\<exists>t. kref_put s = Inr t \<and> intfdata t = intfdata s \<and> files t = files s \<and> pm_refs t = pm_refs s
    \<and> (if kref d = 1 then dev t = None \<and> udev_refs t = 0 \<and> intf_refs t = 0
       else dev t = Some (d\<lparr>kref := kref d - 1\<rparr>) \<and> udev_refs t = 1 \<and> intf_refs t = 1)"
  using assms by (auto simp: kref_put_def skel_delete_def Let_def idle_def)

lemma skel_ok_kref [simp]: "skel_ok (d\<lparr>kref := k\<rparr>) = skel_ok d"
  and idle_kref [simp]: "idle (d\<lparr>kref := k\<rparr>) = idle d"
  by (auto simp: skel_ok_def idle_def)

lemma open_inv:
  assumes "usb_inv s"
  shows "\<forall>r. new_state (skel_open found pm_rv s) = Some r \<longrightarrow> (\<exists>t. r = Inr t \<and> usb_inv t)"
proof (cases "found \<and> intfdata s \<and> pm_rv = 0")
  case True
  obtain d where d: "dev s = Some d" using usb_inv_D [OF assms] True by blast
  with True assms show ?thesis
    by (auto simp: new_state_def skel_open_def on_dev_def usb_inv_def)
next
  case False
  with assms show ?thesis by (auto simp: new_state_def skel_open_def)
qed

lemma release_inv:
  assumes "usb_inv s" and "0 < files s"
  shows "\<exists>t. new_state (skel_release s) = Some (Inr t) \<and> usb_inv t"
proof -
  obtain d where d: "dev s = Some d" using usb_inv_D [OF assms(1)] assms(2) by blast
  let ?s = "s\<lparr>pm_refs := pm_refs s - 1\<rparr>"
  have p: "dev ?s = Some d" "skel_ok d" "0 < kref d" "kref d = 1 \<longrightarrow> idle d" "udev_refs ?s = 1" "intf_refs ?s = 1"
    using assms d by (auto simp: usb_inv_def split: if_splits)
  obtain t where t: "kref_put ?s = Inr t" "intfdata t = intfdata ?s" "files t = files ?s"
    "pm_refs t = pm_refs ?s" "if kref d = 1 then dev t = None \<and> udev_refs t = 0 \<and> intf_refs t = 0
       else dev t = Some (d\<lparr>kref := kref d - 1\<rparr>) \<and> udev_refs t = 1 \<and> intf_refs t = 1"
    using kref_put_inv [OF p] by blast
  have I: "kref d = files s + (if intfdata s then 1 else 0)" "disconnected d \<longleftrightarrow> \<not> intfdata s"
    "disconnected d \<longrightarrow> idle d" "pm_refs s = files s"
    using assms(1) d by (simp_all add: usb_inv_def)
  have "usb_inv (t\<lparr>files := files t - 1\<rparr>)"
  proof (cases "kref d = 1")
    case True
    with t(5) have "dev t = None" "udev_refs t = 0" "intf_refs t = 0" by simp_all
    moreover have "files s = 1" "\<not> intfdata s" using True I(1) assms(2) by (simp_all split: if_splits)
    ultimately show ?thesis using t(2-4) I(4) by (simp add: usb_inv_def)
  next
    case False
    with t(5) have "dev t = Some (d\<lparr>kref := kref d - 1\<rparr>)" "udev_refs t = 1" "intf_refs t = 1" by simp_all
    then show ?thesis using t(2-4) I p(2) False assms(2) by (simp add: usb_inv_def)
  qed
  then show ?thesis using d t(1,3) by (simp add: new_state_def skel_release_def)
qed

lemma disconnect_inv:
  assumes "usb_inv s" and "intfdata s"
  shows "\<forall>r. new_state (skel_disconnect s) = Some r \<longrightarrow> (\<exists>t. r = Inr t \<and> usb_inv t)"
proof -
  obtain d where d: "dev s = Some d" using usb_inv_D [OF assms(1)] assms(2) by blast
  let ?d = "d\<lparr>disconnected := True\<rparr>"
  obtain k where kdef: "kill_writes (kill_read ?d) = k" by simp
  have k: "keeps ?d k" "idle k"
    using keeps_trans [OF kill_read_spec(1) kill_writes_spec(1)] kill_writes_spec(2,3) kill_read_spec(2)
    by (auto simp: idle_def simp flip: kdef)
  have ok: "skel_ok ?d" using assms(1) d by (auto simp: usb_inv_def skel_ok_def)
  then have k': "skel_ok k" "kref k = kref d" "disconnected k"
    using k(1) by (simp_all add: keeps_def)
  let ?s = "s\<lparr>intfdata := False, dev := Some k\<rparr>"
  have p: "dev ?s = Some k" "skel_ok k" "0 < kref k" "kref k = 1 \<longrightarrow> idle k" "udev_refs ?s = 1" "intf_refs ?s = 1"
    using assms d k k' by (auto simp: usb_inv_def)
  obtain t where t: "kref_put ?s = Inr t" "intfdata t = intfdata ?s" "files t = files ?s"
    "pm_refs t = pm_refs ?s" "if kref k = 1 then dev t = None \<and> udev_refs t = 0 \<and> intf_refs t = 0
       else dev t = Some (k\<lparr>kref := kref k - 1\<rparr>) \<and> udev_refs t = 1 \<and> intf_refs t = 1"
    using kref_put_inv [OF p] by blast
  have I: "kref d = files s + 1" "pm_refs s = files s"
    using assms d by (simp_all add: usb_inv_def)
  have "usb_inv t"
  proof (cases "kref k = 1")
    case True
    with t(5) have "dev t = None" "udev_refs t = 0" "intf_refs t = 0" by simp_all
    then show ?thesis using t(2-4) I k' True by (simp add: usb_inv_def)
  next
    case False
    with t(5) have "dev t = Some (k\<lparr>kref := kref k - 1\<rparr>)" "udev_refs t = 1" "intf_refs t = 1" by simp_all
    then show ?thesis using t(2-4) I k k' False by (simp add: usb_inv_def)
  qed
  then show ?thesis using d t(1) by (auto simp: new_state_def skel_disconnect_def Let_def kdef)
qed

lemma usb_call_inv:
  assumes "usb_inv s" and "enabled ev s" and "usb_call ev s = Some r"
  shows "\<exists>t. r = Inr t \<and> usb_inv t"
proof (cases ev)
  case (Open found pm_rv)
  with assms open_inv show ?thesis by simp
next
  case Release
  with assms release_inv [OF assms(1)] show ?thesis by auto
next
  case (Read nonblock lock_rv n copy_ok evs)
  have "keeps d d'" if "dev s = Some d" "map_option (\<lambda>(rv, out, d, evs). ((rv, out, evs), d))
      (skel_read nonblock lock_rv n copy_ok evs d) = Some (x, d')" for d x d'
    using that assms Read by (auto simp: usb_inv_def intro: skel_read_keeps)
  note r = on_dev_keeps [where f = "\<lambda>d. map_option (\<lambda>(rv, out, d, evs). ((rv, out, evs), d))
      (skel_read nonblock lock_rv n copy_ok evs d)", OF assms(1) _ this]
  have "0 < files s \<or> intfdata s" using assms(2) Read by simp
  from r [OF this] assms(3) Read show ?thesis by simp
next
  case (ReadEnd e)
  with assms(2) obtain d n where d: "dev s = Some d" "read_urb d = Some n" "end_ok n e" by auto
  have "end_ok (bulk_in_size d) e"
    using d assms(1) by (fastforce simp: usb_inv_def skel_ok_def end_ok_def split: urb_end.splits)
  then have "keeps d (skel_read_bulk_callback e d)" using d by (intro keeps_read_callback) auto
  with assms ReadEnd d show ?thesis
    using usb_inv_keeps [OF assms(1) d(1)] by (auto simp: new_state_def on_dev_def)
next
  case (Write E nonblock user)
  with assms show ?thesis
    using on_dev_keeps [OF assms(1), where f = "skel_write E nonblock user"] skel_write_keeps by simp
next
  case (WriteEnd i st)
  with assms(2) obtain d where d: "dev s = Some d" "i < length (submitted d)" by auto
  with assms WriteEnd show ?thesis
    using usb_inv_keeps [OF assms(1) d(1) keeps_write_callback [OF d(2)]]
    by (auto simp: new_state_def on_dev_def)
next
  case (Flush ends)
  with assms show ?thesis
    using on_dev_keeps [OF assms(1), where f = "skel_flush ends"] skel_flush_keeps by simp
next
  case (Suspend ends)
  show ?thesis
  proof (cases "intfdata s")
    case True
    have "\<forall>r. new_state (on_dev (\<lambda>d. Some (0 :: int, skel_draw_down ends d)) s) = Some r
        \<longrightarrow> (\<exists>t. r = Inr t \<and> usb_inv t)"
      by (rule on_dev_keeps [OF assms(1)]) (use True draw_down_spec(1) in auto)
    with True assms(3) Suspend show ?thesis by (simp add: skel_suspend_def)
  next
    case False
    with assms Suspend show ?thesis by (auto simp: skel_suspend_def new_state_def)
  qed
next
  case Resume
  with assms show ?thesis by (auto simp: skel_resume_def new_state_def)
next
  case (PreReset ends)
  with assms show ?thesis
    using on_dev_keeps [OF assms(1), where f = "skel_pre_reset ends"] skel_pre_reset_keeps by simp
next
  case PostReset
  have "keeps d d'" if "Some (skel_post_reset d) = Some (x, d')" for d x d'
    using skel_post_reset_keeps [of d] that by (metis option.inject snd_conv)
  note r = on_dev_keeps [where f = "\<lambda>d. Some (skel_post_reset d)", OF assms(1) _ this]
  have "0 < files s \<or> intfdata s" using assms(2) PostReset by simp
  from r [OF this] assms(3) PostReset show ?thesis by simp
next
  case Disconnect
  with assms disconnect_inv show ?thesis by auto
qed

lemma probe_error_frees:
  assumes "dev s = Some d" and "kref d = 1" and "idle d"
  shows "probe_error rv s = Inr (rv, s\<lparr>dev := None, intf_refs := intf_refs s - 1, udev_refs := udev_refs s - 1\<rparr>)"
  using assms by (simp add: probe_error_def kref_put_def skel_delete_def idle_def)

lemma probe_inv:
  assumes "skel_probe E no_dev = r"
  shows "\<exists>rv t. r = Inr (rv, t) \<and> usb_inv t \<and> (if rv = 0 then dev t \<noteq> None \<and> intfdata t else t = no_dev)"
proof -
  have none: "usb_inv no_dev" by (simp add: no_dev_def usb_inv_def)
  have idle: "idle (new_skel\<lparr>bulk_in_size := n\<rparr>)"
    "idle (new_skel\<lparr>bulk_in_size := n, bulk_in_buffer := b\<rparr>)" "idle new_skel" for n b
    by (simp_all add: idle_def new_skel_def)
  have kref: "kref new_skel = 1" by (simp add: new_skel_def)
  let ?n = "snd (endpoints E)"
  let ?s = "no_dev\<lparr>dev := Some (new_skel\<lparr>bulk_in_size := ?n, bulk_in_buffer := replicate ?n 0\<rparr>),
      udev_refs := 1, intf_refs := 1, intfdata := True\<rparr>"
  have good: "usb_inv ?s" by (simp add: usb_inv_def no_dev_def new_skel_def skel_ok_def)
  have undo: "probe_error rv s = Inr (rv, no_dev)"
    if "dev s = Some d" "kref d = 1" "idle d" "udev_refs s = 1" "intf_refs s = 1" "files s = 0"
      "pm_refs s = 0" "\<not> intfdata s" for d rv s
    using that by (simp add: probe_error_frees) (simp add: no_dev_def)
  have no: "udev_refs no_dev = 0" "intf_refs no_dev = 0" "files no_dev = 0" "pm_refs no_dev = 0"
    "\<not> intfdata no_dev" by (simp_all add: no_dev_def)
  have "skel_probe E no_dev = (if \<not> kzalloc_ok E then Inr (-ENOMEM, no_dev)
      else if fst (endpoints E) \<noteq> 0 then Inr (fst (endpoints E), no_dev)
      else if \<not> (buffer_ok E \<and> read_urb_ok E) then Inr (-ENOMEM, no_dev)
      else if register_rv E \<noteq> 0 then Inr (register_rv E, no_dev) else Inr (0, ?s))"
    by (simp add: skel_probe_def Let_def undo idle kref no)
  then have "(\<exists>rv. rv \<noteq> 0 \<and> skel_probe E no_dev = Inr (rv, no_dev)) \<or> skel_probe E no_dev = Inr (0, ?s)"
    by (simp add: ENOMEM_def)
  then show ?thesis
  proof (elim disjE exE conjE)
    fix rv assume "rv \<noteq> 0" "skel_probe E no_dev = Inr (rv, no_dev)"
    with assms none show ?thesis by (intro exI [of _ rv] exI [of _ no_dev]) simp
  next
    assume "skel_probe E no_dev = Inr (0, ?s)"
    with assms good show ?thesis by (intro exI [of _ 0] exI [of _ ?s]) simp
  qed
qed

interpretation usb: inv_system usb_start usb_step usb_inv
proof unfold_locales
  fix s assume "usb_start s"
  then obtain E where "skel_probe E no_dev = Inr (0, s)" by (auto simp: usb_start_def)
  from probe_inv [OF this] show "usb_inv s" by auto
next
  fix s t assume "usb_inv s" "usb_step s t"
  then show "usb_inv t" by (auto elim!: usb_step.cases dest: usb_call_inv)
qed

section \<open>The stream of a reader\<close>

text \<open>The bytes that are received and not yet copied, and those that a list of events brings.\<close>

definition pending :: "usb_skel \<Rightarrow> u8 list" where
  "pending d = drop (bulk_in_copied d) (take (bulk_in_filled d) (bulk_in_buffer d))"

fun received :: "read_event list \<Rightarrow> u8 list" where
  "received [] = []"
| "received (Woken (Completed xs) # evs) = xs @ received evs"
| "received (_ # evs) = received evs"

fun outs :: "round \<Rightarrow> u8 list" where
  "outs (Return rv out) = out"
| "outs Retry = []"

lemma received_append: "received (xs @ ys) = received xs @ received ys"
  by (induction xs rule: received.induct) auto

lemma read_wait_stream:
  assumes "read_wait nonblock evs d = Some (r, d', evs')" and "skel_ok d" and "list_all (event_ok d) evs"
  shows "\<exists>used. evs = used @ evs' \<and> pending d @ received used = outs r @ pending d' \<and> outs r = []"
proof (cases "ongoing_read d")
  case True
  with assms(2) have empty: "bulk_in_filled d = 0" "bulk_in_copied d = 0" "pending d = []"
    by (auto simp: skel_ok_def pending_def)
  show ?thesis
  proof (cases evs)
    case (Cons e es)
    with assms True empty show ?thesis
      by (cases e) (auto simp: read_wait_def pending_def skel_read_bulk_callback_def
          split: if_splits urb_end.splits)
  qed (use assms True in \<open>auto simp: read_wait_def split: if_splits\<close>)
qed (use assms in \<open>auto simp: read_wait_def\<close>)

lemma do_read_io_pending: "pending (snd (skel_do_read_io x n d)) = []"
  by (simp add: pending_def skel_do_read_io_def Let_def)

lemma read_start_stream:
  assumes "read_start n evs d = Some (r, d', evs')"
  shows "\<exists>used. evs = used @ evs' \<and> received used = [] \<and> outs r = [] \<and> pending d' = []
    \<and> (\<forall>rv out. r = Return rv out \<longrightarrow> rv < 0)"
proof -
  from assms obtain x where evs: "evs = Submit x # evs'" and d': "d' = snd (skel_do_read_io x n d)"
    and r: "r = (if fst (skel_do_read_io x n d) < 0 then Return (fst (skel_do_read_io x n d)) [] else Retry)"
    by (auto simp: read_start_def Let_def split: list.splits read_event.splits prod.splits)
  show ?thesis unfolding evs d' r by (intro exI [of _ "[Submit x]"]) (simp add: do_read_io_pending)
qed

lemma read_data_stream:
  assumes "read_data n True evs d = Some (r, d', evs')" and "skel_ok d"
  shows "\<exists>used. evs = used @ evs' \<and> pending d @ received used = outs r @ pending d'
    \<and> length (outs r) \<le> n \<and> (\<forall>rv out. r = Return rv out \<longrightarrow> rv < 0 \<and> out = [] \<or> rv = int (length out))"
proof -
  let ?av = "bulk_in_filled d - bulk_in_copied d"
  have ok: "bulk_in_copied d \<le> bulk_in_filled d" "bulk_in_filled d \<le> length (bulk_in_buffer d)"
    using assms(2) by (simp_all add: skel_ok_def)
  have len: "length (pending d) = ?av" using ok by (simp add: pending_def)
  consider "errors d < 0" | "\<not> errors d < 0" "?av = 0" | "\<not> errors d < 0" "?av \<noteq> 0" by blast
  then show ?thesis
  proof cases
    case 1
    with assms(1) show ?thesis by (auto simp: read_data_def pending_def report_def EPIPE_def EIO_def)
  next
    case 2
    with assms(1) have "read_start n evs d = Some (r, d', evs')"
      by (auto simp: read_data_def Let_def split: if_splits)
    from read_start_stream [OF this] len 2 show ?thesis by auto
  next
    case 3
    let ?out = "take (min ?av n) (drop (bulk_in_copied d) (bulk_in_buffer d))"
    let ?d = "d\<lparr>bulk_in_copied := bulk_in_copied d + min ?av n\<rparr>"
    have out: "?out = take n (pending d)"
      by (simp add: pending_def drop_take min.commute)
    have pend: "pending ?d = drop n (pending d)"
      using ok by (cases "n \<le> ?av") (simp_all add: pending_def add.commute)
    have rv: "int (min ?av n) = int (length ?out)" using out len by simp
    show ?thesis
    proof (cases "?av < n")
      case True
      with assms(1) 3 obtain x where evs: "evs = Submit x # evs'" and r: "r = Return (int (min ?av n)) ?out"
        and d': "d' = snd (skel_do_read_io x (n - min ?av n) ?d)"
        by (auto simp: read_data_def Let_def split: list.splits read_event.splits if_splits)
      have "?out = pending d" using out len True by simp
      then show ?thesis
        unfolding r d' evs outs.simps rv
        by (intro exI [of _ "[Submit x]"]) (use len True in \<open>simp add: do_read_io_pending\<close>)
    next
      case False
      with assms(1) 3 have r: "evs' = evs" "r = Return (int (min ?av n)) ?out" "d' = ?d"
        by (auto simp: read_data_def Let_def)
      show ?thesis
        unfolding r outs.simps rv unfolding out pend by (intro exI [of _ "[]"]) simp
    qed
  qed
qed

lemma read_loop_stream:
  assumes "read_loop nonblock n True evs d = Some (rv, out, d', evs')" and "skel_ok d" and "\<not> disconnected d"
    and "list_all (event_ok d) evs"
  shows "\<exists>used. evs = used @ evs' \<and> pending d @ received used = out @ pending d'
    \<and> length out \<le> n \<and> (rv < 0 \<and> out = [] \<or> rv = int (length out))"
  using assms
proof (induction nonblock n True evs d rule: read_loop.induct)
  case (1 nonblock n evs d)
  from "1.prems"(1) obtain r1 d1 e1 where w: "read_wait nonblock evs d = Some (r1, d1, e1)"
    by (subst (asm) read_loop.simps) (auto split: option.splits)
  note k1 = read_wait_keeps [OF w "1.prems"(2,4)]
  obtain u1 where u1: "evs = u1 @ e1" "pending d @ received u1 = outs r1 @ pending d1" "outs r1 = []"
    using read_wait_stream [OF w "1.prems"(2,4)] by blast
  show ?case
  proof (cases r1)
    case (Return x y)
    have "x < 0" using w Return by (auto simp: read_wait_def EAGAIN_def ERESTARTSYS_def
        split: if_splits list.splits read_event.splits)
    with w Return u1 "1.prems"(1) show ?thesis by (subst (asm) read_loop.simps) auto
  next
    case Retry
    from "1.prems"(1) w Retry obtain r2 d2 e2 where dt: "read_data n True e1 d1 = Some (r2, d2, e2)"
      by (subst (asm) read_loop.simps) (auto split: option.splits)
    have d1: "\<not> disconnected d1" "skel_ok d1" "event_ok d1 = event_ok d"
      using k1 "1.prems"(2,3) event_ok_keeps [of d d1] by (auto simp: keeps_def)
    have k2: "keeps d1 d2 \<and> list_all (event_ok d1) e2" using read_data_keeps [OF dt] d1 k1 Retry by simp
    obtain u2 where u2: "e1 = u2 @ e2" "pending d1 @ received u2 = outs r2 @ pending d2" "length (outs r2) \<le> n"
      "\<forall>rv out. r2 = Return rv out \<longrightarrow> rv < 0 \<and> out = [] \<or> rv = int (length out)"
      using read_data_stream [OF dt d1(2)] by blast
    have both: "evs = (u1 @ u2) @ e2" "pending d @ received (u1 @ u2) = outs r2 @ pending d2"
      using u1 u2 by (simp_all add: received_append flip: append_assoc)
    show ?thesis
    proof (cases r2)
      case (Return x y)
      with w dt Retry "1.prems"(1) have "rv = x" "out = y" "d' = d2" "evs' = e2"
        by (subst (asm) read_loop.simps; simp)+
      with both u2(3,4) Return show ?thesis by (intro exI [of _ "u1 @ u2"]) simp
    next
      case Retry2: Retry
      have d2: "skel_ok d2" "\<not> disconnected d2" "event_ok d2 = event_ok d1"
        using k2 d1 event_ok_keeps [of d1 d2] by (auto simp: keeps_def)
      have "read_loop nonblock n True e2 d2 = Some (rv, out, d', evs')"
        using w dt Retry Retry2 "1.prems"(1) by (subst (asm) read_loop.simps) simp
      then obtain u3 where u3: "e2 = u3 @ evs'" "pending d2 @ received u3 = out @ pending d'"
        "length out \<le> n" "rv < 0 \<and> out = [] \<or> rv = int (length out)"
        using "1.hyps" [of "(r1, d1, e1)" r1 "(d1, e1)" d1 e1 "(r2, d2, e2)" r2 "(d2, e2)" d2 e2] w dt Retry Retry2
          d2 k2 by auto
      with both Retry2 show ?thesis
        by (intro exI [of _ "u1 @ u2 @ u3"]) (simp add: received_append flip: append_assoc)
    qed
  qed
qed

section \<open>Properties\<close>

definition example_probe :: probe_env where
  "example_probe = \<lparr>kzalloc_ok = True, endpoints = (0, 4), buffer_ok = True, read_urb_ok = True, register_rv = 0\<rparr>"

definition example_skel :: usb_skel where
  "example_skel = new_skel\<lparr>bulk_in_size := 4, bulk_in_buffer := replicate 4 0\<rparr>"

definition example_sys :: usb_sys where
  "example_sys = \<lparr>dev = Some example_skel, intfdata = True, files = 0, udev_refs = 1, intf_refs = 1, pm_refs = 0\<rparr>"

lemma start_example: "usb_start example_sys"
  unfolding usb_start_def
  by (rule exI [of _ example_probe])
    (simp add: skel_probe_def example_probe_def Let_def no_dev_def example_sys_def example_skel_def new_skel_def)

lemma skel_ok_example: "skel_ok example_skel"
  by (simp add: skel_ok_def example_skel_def new_skel_def)

text \<open>
  C1. No use after free and no null pointer: whatever sequence of opens, reads, writes,
  completions, flushes, suspends, resets, releases and the disconnection the driver has
  been through since a successful probe, no entry point or callback that the kernel may
  call now touches a freed device structure, and the structure is not freed while the core
  holds a request that points to it.
\<close>

theorem usb_no_use_after_free:
  assumes "reach usb_start usb_step s" and "enabled ev s"
  shows "usb_call ev s \<noteq> Some (Inl e)"
  using usb_call_inv [OF usb.reach_inv [OF assms(1)] assms(2)] by fastforce

lemma reach_example: "reach usb_start usb_step example_sys"
  by (rule reach_start) (rule start_example)

theorem usb_no_use_after_free_witness:
  "enabled Disconnect example_sys \<and> (\<forall>e. usb_call Disconnect example_sys \<noteq> Some (Inl e))"
proof -
  have e: "enabled Disconnect example_sys" by (simp add: example_sys_def)
  with usb_no_use_after_free [OF reach_example e] show ?thesis by blast
qed

text \<open>
  C23. Accounting, in every reachable state with a device structure: the free places of the
  semaphore and the writes the core holds are eight together, and there is one buffer per
  write; the reference count is the number of open files, and one more while the interface
  is bound; after the disconnection the core holds nothing; the part of the read buffer
  that is offered to the user lies inside it. When there is no structure, no file is open
  and no reference on the device is left.
\<close>

theorem usb_accounting:
  assumes "reach usb_start usb_step s"
  shows "case dev s of
      None \<Rightarrow> files s = 0 \<and> \<not> intfdata s \<and> udev_refs s = 0 \<and> intf_refs s = 0
    | Some d \<Rightarrow> limit_sem d + length (submitted d) = 8 \<and> bufs d = length (submitted d)
        \<and> kref d = files s + (if intfdata s then 1 else 0) \<and> udev_refs s = 1 \<and> intf_refs s = 1
        \<and> (\<not> intfdata s \<longrightarrow> submitted d = [] \<and> read_urb d = None)
        \<and> bulk_in_copied d \<le> bulk_in_filled d \<and> bulk_in_filled d \<le> length (bulk_in_buffer d)"
  using usb.reach_inv [OF assms]
  by (cases "dev s") (auto simp: usb_inv_def skel_ok_def idle_def WRITES_IN_FLIGHT_def)

theorem usb_accounting_witness:
  "limit_sem example_skel + length (submitted example_skel) = 8 \<and> kref example_skel = 1"
  using usb_accounting [OF reach_example] by (simp add: example_sys_def)

text \<open>
  C3. A read loses no byte, repeats none and keeps their order: what was received before the
  call and during it is what the call copies to the user followed by what is still pending;
  it copies at most what was asked for and returns the number of bytes, or a negative
  number and nothing copied. (For a read whose copy to the user succeeds.)
\<close>

theorem skel_read_stream:
  assumes "skel_read nonblock lock_rv n True evs d = Some (rv, out, d', rest)"
    and "skel_ok d" and "list_all (event_ok d) evs"
  shows "\<exists>used. evs = used @ rest \<and> pending d @ received used = out @ pending d'
    \<and> length out \<le> n \<and> (rv < 0 \<and> out = [] \<or> rv = int (length out))"
proof (cases "n = 0 \<or> lock_rv < 0 \<or> disconnected d")
  case True
  with assms(1) show ?thesis
    by (intro exI [of _ "[]"]) (auto simp: skel_read_def ENODEV_def split: if_splits)
next
  case False
  with assms(1) have "read_loop nonblock n True evs d = Some (rv, out, d', rest)"
    by (auto simp: skel_read_def split: if_splits)
  from read_loop_stream [OF this assms(2)] False assms(3) show ?thesis by blast
qed

definition example_events :: "read_event list" where
  "example_events = [Submit 0, Woken (Completed [7, 8, 9])]"

lemma read_example:
  "skel_read False 0 2 True example_events example_skel = Some (2, [7, 8],
     example_skel\<lparr>bulk_in_buffer := [7, 8, 9, 0], bulk_in_filled := 3, bulk_in_copied := 2\<rparr>, [])"
  by (simp add: skel_read_def example_events_def example_skel_def new_skel_def read_loop.simps read_wait_def
      read_data_def read_start_def skel_do_read_io_def skel_read_bulk_callback_def Let_def)

theorem skel_read_stream_witness:
  "\<exists>used. example_events = used @ [] \<and> pending example_skel @ received used = [7, 8]
      @ pending (example_skel\<lparr>bulk_in_buffer := [7, 8, 9, 0], bulk_in_filled := 3, bulk_in_copied := 2\<rparr>)
    \<and> length [7, 8 :: u8] \<le> 2 \<and> ((2 :: int) < 0 \<and> [7, 8 :: u8] = [] \<or> (2 :: int) = int (length [7, 8 :: u8]))"
  by (rule skel_read_stream [OF read_example skel_ok_example])
    (simp add: example_events_def event_ok_def end_ok_def example_skel_def new_skel_def)

text \<open>
  A read that finds data but cannot copy it to the user returns \<open>-EFAULT\<close> and counts
  the bytes as copied: they are lost to the next read.
\<close>

theorem skel_read_efault_loses:
  assumes "\<not> io_mutex d" and "\<not> disconnected d" and "\<not> ongoing_read d" and "\<not> errors d < 0"
    and "bulk_in_copied d + n \<le> bulk_in_filled d" and "0 < n"
  shows "skel_read nonblock 0 n False evs d
      = Some (-EFAULT, [], d\<lparr>bulk_in_copied := bulk_in_copied d + n\<rparr>, evs)
    \<and> pending (d\<lparr>bulk_in_copied := bulk_in_copied d + n\<rparr>) = drop n (pending d)"
proof -
  have "min (bulk_in_filled d - bulk_in_copied d) n = n" "\<not> bulk_in_filled d - bulk_in_copied d < n"
    using assms(5) by simp_all
  then have "read_loop nonblock n False evs d
      = Some (-EFAULT, [], d\<lparr>bulk_in_copied := bulk_in_copied d + n\<rparr>, evs)"
    using assms by (subst read_loop.simps) (simp add: read_wait_def read_data_def Let_def)
  with assms show ?thesis by (simp add: skel_read_def pending_def add.commute)
qed

theorem skel_read_efault_loses_witness:
  "let d = example_skel\<lparr>bulk_in_buffer := [7, 8, 9, 0], bulk_in_filled := 3\<rparr>
   in skel_read False 0 2 False [] d = Some (-EFAULT, [], d\<lparr>bulk_in_copied := 2\<rparr>, [])"
  unfolding Let_def
  using skel_read_efault_loses [of "example_skel\<lparr>bulk_in_buffer := [7, 8, 9, 0], bulk_in_filled := 3\<rparr>" 2 False "[]"]
  by (simp add: example_skel_def new_skel_def)

text \<open>
  Every way out of a write: it returns a positive number exactly when a request with the
  first bytes of the user's data, at most \<open>MAX_TRANSFER\<close>, was queued, and it then holds
  one place of the semaphore and one buffer; on every other path the semaphore, the buffers
  and the queue are as before, and a pending error is reported once.
\<close>

theorem skel_write_paths:
  assumes "skel_write E nonblock user d = Some (rv, d')" and "submit_rv E \<le> 0"
  shows "(0 < rv \<longleftrightarrow> submitted d' = submitted d @ [take MAX_TRANSFER user])
    \<and> (if 0 < rv then rv = int (min (length user) MAX_TRANSFER)
         \<and> limit_sem d = limit_sem d' + 1 \<and> bufs d' = bufs d + 1 \<and> errors d' = errors d \<and> 0 \<le> errors d
       else submitted d' = submitted d \<and> limit_sem d' = limit_sem d \<and> bufs d' = bufs d
         \<and> (errors d' = errors d \<or> errors d < 0 \<and> errors d' = 0 \<and> rv = report (errors d)))"
proof -
  have "take (min (length user) MAX_TRANSFER) user = take MAX_TRANSFER user"
    by (cases "length user \<le> MAX_TRANSFER") simp_all
  with assms show ?thesis
    by (auto simp: skel_write_def write_error_def Let_def errnos report_def MAX_TRANSFER_def split: if_splits)
qed

theorem skel_write_paths_witness:
  "let E = \<lparr>sem_interrupted = False, urb_ok = True, buf_ok = True, copy_from_ok = True, submit_rv = 0\<rparr>;
       d = example_skel in
   skel_write E True [1, 2, 3] d = Some (3, d\<lparr>limit_sem := 7, bufs := 1, submitted := [[1, 2, 3]]\<rparr>)
   \<and> submitted (d\<lparr>limit_sem := 7, bufs := 1, submitted := [[1, 2, 3]]\<rparr>) = submitted d @ [take MAX_TRANSFER [1, 2, 3]]"
proof -
  let ?E = "\<lparr>sem_interrupted = False, urb_ok = True, buf_ok = True, copy_from_ok = True, submit_rv = 0\<rparr>"
  have "skel_write ?E True [1, 2, 3] example_skel
      = Some (3, example_skel\<lparr>limit_sem := 7, bufs := 1, submitted := [[1, 2, 3]]\<rparr>)"
    by (simp add: skel_write_def Let_def example_skel_def new_skel_def WRITES_IN_FLIGHT_def MAX_TRANSFER_def)
  moreover from skel_write_paths [OF this] have
    "submitted (example_skel\<lparr>limit_sem := 7, bufs := 1, submitted := [[1, 2, 3]]\<rparr>)
      = submitted example_skel @ [take MAX_TRANSFER [1, 2, 3]]" by simp
  ultimately show ?thesis by (simp add: Let_def)
qed

text \<open>
  Probing leaks nothing: when it fails at whatever point, it returns a negative number
  and leaves neither a structure nor a reference nor a data pointer behind; when it
  succeeds, the interface is bound to a well-formed structure with one reference.
\<close>

theorem skel_probe_no_leak:
  assumes "fst (endpoints E) \<le> 0" and "register_rv E \<le> 0"
  shows "\<exists>rv s. skel_probe E no_dev = Inr (rv, s)
    \<and> (if rv = 0 then \<exists>d. dev s = Some d \<and> skel_ok d \<and> kref d = 1 \<and> intfdata s else rv < 0 \<and> s = no_dev)"
proof -
  obtain rv s where p: "skel_probe E no_dev = Inr (rv, s)" "usb_inv s"
    "if rv = 0 then dev s \<noteq> None \<and> intfdata s else s = no_dev"
    using probe_inv [OF refl, of E] by blast
  have "rv \<le> 0 \<and> files s = 0"
    using p(1) assms by (auto simp: skel_probe_def probe_error_def kref_put_def skel_delete_def Let_def
        no_dev_def ENOMEM_def new_skel_def split: if_splits)
  with p show ?thesis by (intro exI [of _ rv] exI [of _ s]) (auto simp: usb_inv_def split: if_splits)
qed

theorem skel_probe_no_leak_witness:
  "\<exists>rv s. skel_probe (example_probe\<lparr>register_rv := -5\<rparr>) no_dev = Inr (rv, s)
    \<and> (if rv = 0 then \<exists>d. dev s = Some d \<and> skel_ok d \<and> kref d = 1 \<and> intfdata s else rv < 0 \<and> s = no_dev)"
  by (rule skel_probe_no_leak) (simp_all add: example_probe_def)

text \<open>
  Killing a read is counted as an error, against the comment that unlink faults are not:
  after a read that got less than it asked for, with the read-ahead it started still at
  the core, closing the file (\<open>skel_flush\<close>) reports \<open>-EIO\<close>, and so does the first read
  after a suspend.
\<close>

theorem skel_killed_read_is_error:
  assumes "skel_ok d" and "read_urb d = Some m" and "submitted d = []" and "\<not> io_mutex d"
    and "\<not> disconnected d" and "0 < n"
  shows "(\<exists>d'. skel_flush [] d = Some (-EIO, d') \<and> errors d' = 0)
    \<and> (\<exists>d'. skel_read nonblock 0 n True evs (skel_draw_down [] d) = Some (-EIO, [], d', evs))"
proof -
  let ?d = "skel_draw_down [] d"
  have dd: "?d = d\<lparr>errors := -ENOENT, ongoing_read := False, read_urb := None\<rparr>"
    using assms(2,3) by (simp add: skel_draw_down_def kill_read_def skel_read_bulk_callback_def)
  have "read_loop nonblock n True evs ?d = Some (-EIO, [], ?d\<lparr>errors := 0\<rparr>, evs)"
    unfolding dd by (subst read_loop.simps) (simp add: read_wait_def read_data_def report_def errnos)
  moreover have "\<not> io_mutex ?d" "\<not> disconnected ?d" using assms(4,5) by (simp_all add: dd)
  moreover have "skel_flush [] d = Some (-EIO, ?d\<lparr>errors := 0\<rparr>)"
    using assms(4) by (simp add: skel_flush_def Let_def dd errnos)
  ultimately show ?thesis using assms(6) by (simp add: skel_read_def)
qed

theorem skel_killed_read_is_error_witness:
  "let d = example_skel\<lparr>ongoing_read := True, read_urb := Some 2\<rparr>
   in (\<exists>d'. skel_flush [] d = Some (-EIO, d') \<and> errors d' = 0)
    \<and> (\<exists>d'. skel_read True 0 1 True [] (skel_draw_down [] d) = Some (-EIO, [], d', []))"
  unfolding Let_def
  by (rule skel_killed_read_is_error [where m = 2]) (simp_all add: skel_ok_def example_skel_def new_skel_def)

end
