(* ===== verification/RamDisk.thy ===== *)
theory RamDisk
  imports Prelude
begin

text \<open>
  The three RAM disk drivers: blk_simp.c (a request queue), blk_mid.c and blk_hard.c (bios,
  with a transfer in segments). The disk is the buffer \<open>my_diskbuffer\<close>, \<open>None\<close> for the
  null pointer of a failed allocation. A copy outside the buffer is the fault
  \<open>OutOfBounds\<close>; the block layer keeps requests inside the capacity. The two read
  counters of blk_mid are only printed and left out.
\<close>

section \<open>Transfers\<close>

datatype rw = READ | READA | WRITE | OTHER_RW

record blk =
  my_diskbuffer :: "u8 list option"
  kmaps :: nat  \<comment> \<open>pages mapped by \<open>kmap\<close> and not unmapped\<close>

definition EIO :: int where "EIO = 5"

definition disk_read :: "nat \<Rightarrow> nat \<Rightarrow> blk \<Rightarrow> fault + u8 list" where
  "disk_read off n b =
     (case my_diskbuffer b of None \<Rightarrow> Inl (BadAccess off) | Some disk \<Rightarrow> rd_bytes disk off n)"

definition disk_write :: "nat \<Rightarrow> u8 list \<Rightarrow> blk \<Rightarrow> fault + blk" where
  "disk_write off xs b =
     (case my_diskbuffer b of None \<Rightarrow> Inl (BadAccess off)
      | Some disk \<Rightarrow> if off + length xs \<le> length disk
          then Inr (b\<lparr>my_diskbuffer := Some (put off xs disk)\<rparr>) else Inl OutOfBounds)"

text \<open>A request: direction, first sector, the memory it is about, \<open>blk_rq_bytes\<close> long.\<close>

record request =
  rq_data_dir :: rw
  blk_rq_pos :: nat
  rq_buffer :: "u8 list"

text \<open>The requests of the queue in order; each ends with 0 or with the error 1.\<close>

fun my_do_queue :: "request list \<Rightarrow> blk \<Rightarrow> fault + (request \<times> int) list \<times> blk" where
  "my_do_queue [] b = Inr ([], b)"
| "my_do_queue (req # q) b =
     (case rq_data_dir req of
        READ \<Rightarrow> rbind (disk_read (blk_rq_pos req * 512) (length (rq_buffer req)) b) (\<lambda>d.
          rbind (my_do_queue q b) (\<lambda>(ends, b). Inr ((req\<lparr>rq_buffer := d\<rparr>, 0) # ends, b)))
      | WRITE \<Rightarrow> rbind (disk_write (blk_rq_pos req * 512) (rq_buffer req) b) (\<lambda>b.
          rbind (my_do_queue q b) (\<lambda>(ends, b). Inr ((req, 0) # ends, b)))
      | _ \<Rightarrow> rbind (my_do_queue q b) (\<lambda>(ends, b). Inr ((req, 1) # ends, b)))"

text \<open>
  The segments of a bio, from an offset in the disk on: the status and the segments as they
  are afterwards. A bio that is neither a read nor a write ends in its first segment, with
  the page still mapped.
\<close>

fun bio_segments ::
  "(rw \<Rightarrow> bool) \<Rightarrow> rw \<Rightarrow> nat \<Rightarrow> u8 list list \<Rightarrow> blk \<Rightarrow> fault + int \<times> u8 list list \<times> blk" where
  "bio_segments is_read rw my_base_addr [] b = Inr (0, [], b)"
| "bio_segments is_read rw my_base_addr (vec # vecs) b =
     (let b = b\<lparr>kmaps := kmaps b + 1\<rparr> in
      if is_read rw then
        rbind (disk_read my_base_addr (length vec) b) (\<lambda>d.
        let b = b\<lparr>kmaps := kmaps b - 1\<rparr> in
        rbind (bio_segments is_read rw (my_base_addr + length vec) vecs b) (\<lambda>(st, ds, b).
        Inr (st, d # ds, b)))
      else if rw = WRITE then
        rbind (disk_write my_base_addr vec b) (\<lambda>b.
        let b = b\<lparr>kmaps := kmaps b - 1\<rparr> in
        rbind (bio_segments is_read rw (my_base_addr + length vec) vecs b) (\<lambda>(st, ds, b).
        Inr (st, vec # ds, b)))
      else Inr (-EIO, vec # vecs, b))"

record bio =
  bi_sector :: nat
  bio_rw :: rw
  bi_io_vec :: "u8 list list"

definition mid_make_queue :: "bio \<Rightarrow> blk \<Rightarrow> fault + int \<times> u8 list list \<times> blk" where
  "mid_make_queue bio = bio_segments (\<lambda>rw. rw = READ) (bio_rw bio) (bi_sector bio * 512) (bi_io_vec bio)"

definition hard_make_queue :: "bio \<Rightarrow> blk \<Rightarrow> fault + int \<times> u8 list list \<times> blk" where
  "hard_make_queue bio =
     bio_segments (\<lambda>rw. rw = READA \<or> rw = READ) (bio_rw bio) (bi_sector bio * 512) (bi_io_vec bio)"

record hd_geometry =
  heads :: nat
  sectors :: nat
  cylinders :: nat

definition my_getgeo :: hd_geometry where
  "my_getgeo = \<lparr>heads = 4, sectors = 32, cylinders = 32\<rparr>"

section \<open>Loading and unloading\<close>

text \<open>
  What the driver holds of the kernel: the block majors in use, the number of queues, disks
  and disk buffers. What the kernel answers is a parameter: whether it gives a disk, a
  queue, a buffer, and what its two major number functions do. A null disk or queue is
  dereferenced: the fault. An error of \<open>register_blkdev\<close> is not tested.
\<close>

record blk_kernel =
  majors :: "int list"
  queues :: nat
  disks :: nat
  buffers :: nat
  my_major :: int
  my_buffer :: bool  \<comment> \<open>\<open>my_diskbuffer\<close> is not null\<close>
  capacity :: nat  \<comment> \<open>in sectors\<close>

record blk_api =
  disk_ok :: bool
  queue_ok :: bool
  buffer_ok :: bool
  register_blkdev :: "int \<Rightarrow> int list \<Rightarrow> int \<times> int list"
  unregister_blkdev :: "int \<Rightarrow> int list \<Rightarrow> int list"

definition my_blk_init :: "blk_api \<Rightarrow> blk_kernel \<Rightarrow> fault + blk_kernel" where
  "my_blk_init a k =
     (let k = k\<lparr>disks := disks k + 1\<rparr>;
          (m, ms) = register_blkdev a 0 (majors k);
          k = k\<lparr>my_major := m, majors := ms, queues := queues k + 1\<rparr> in
      if \<not> disk_ok a \<or> \<not> queue_ok a then Inl (BadAccess NULL)
      else Inr (k\<lparr>capacity := 2 * 1024 * 1024 div 512,
        buffers := (if buffer_ok a then buffers k + 1 else buffers k), my_buffer := buffer_ok a\<rparr>))"

definition kfree_buffer :: "blk_kernel \<Rightarrow> blk_kernel" where
  "kfree_buffer k = (if my_buffer k then k\<lparr>buffers := buffers k - 1\<rparr> else k)"

definition simp_blk_exit :: "blk_api \<Rightarrow> blk_kernel \<Rightarrow> blk_kernel" where
  "simp_blk_exit a k =
     (let k = k\<lparr>disks := disks k - 1\<rparr>;
          k = k\<lparr>queues := queues k - 1\<rparr>;
          k = k\<lparr>majors := unregister_blkdev a (my_major k) (majors k)\<rparr> in kfree_buffer k)"

text \<open>The other two call \<open>register_blkdev\<close> on the way out, and keep the queue.\<close>

definition mid_blk_exit :: "blk_api \<Rightarrow> blk_kernel \<Rightarrow> blk_kernel" where
  "mid_blk_exit a k =
     (let k = k\<lparr>disks := disks k - 1\<rparr>;
          k = k\<lparr>majors := snd (register_blkdev a (my_major k) (majors k))\<rparr> in kfree_buffer k)"

text \<open>
  The documented behaviour of the major number functions: 0 asks for a free major, which is
  returned; a major in use is refused; unregistering gives a major back.
\<close>

definition blkdev_majors :: "blk_api \<Rightarrow> bool" where
  "blkdev_majors a \<longleftrightarrow>
     (\<forall>ms. fst (register_blkdev a 0 ms) > 0 \<longrightarrow> fst (register_blkdev a 0 ms) \<notin> set ms
        \<and> snd (register_blkdev a 0 ms) = fst (register_blkdev a 0 ms) # ms)
     \<and> (\<forall>m ms. m \<in> set ms \<longrightarrow> fst (register_blkdev a m ms) < 0 \<and> snd (register_blkdev a m ms) = ms)
     \<and> (\<forall>m ms. m \<notin> set ms \<longrightarrow> unregister_blkdev a m (m # ms) = ms)"

section \<open>The contract of a disk\<close>

text \<open>
  What a file system relies on: a transfer inside the disk succeeds, a read gives the bytes
  and changes nothing, a write replaces them and nothing else.
\<close>

locale disk =
  fixes content :: "'s \<Rightarrow> u8 list option"
    and rd :: "nat \<Rightarrow> nat \<Rightarrow> 's \<Rightarrow> fault + u8 list \<times> 's"
    and wr :: "nat \<Rightarrow> u8 list \<Rightarrow> 's \<Rightarrow> fault + 's"
  assumes rd_slice: "content s = Some c \<Longrightarrow> pos * 512 + n \<le> length c
      \<Longrightarrow> \<exists>s'. rd pos n s = Inr (take n (drop (pos * 512) c), s') \<and> content s' = Some c"
    and wr_put: "content s = Some c \<Longrightarrow> pos * 512 + length xs \<le> length c
      \<Longrightarrow> \<exists>s'. wr pos xs s = Inr s' \<and> content s' = Some (put (pos * 512) xs c)"
begin

lemma read_after_write:
  assumes "content s = Some c" and "pos * 512 + length xs \<le> length c"
  shows "\<exists>s' s''. wr pos xs s = Inr s' \<and> rd pos (length xs) s' = Inr (xs, s'') \<and> content s'' = content s'"
proof -
  obtain s' where s': "wr pos xs s = Inr s'" "content s' = Some (put (pos * 512) xs c)"
    using wr_put [OF assms] by blast
  have "pos * 512 + length xs \<le> length (put (pos * 512) xs c)" using assms(2) by (simp add: length_put)
  from rd_slice [OF s'(2) this] s' assms(2) show ?thesis by (auto simp: take_drop_put_same)
qed

lemma read_other_after_write:
  assumes "content s = Some c" and "pos * 512 + length xs \<le> length c"
    and "q * 512 + n \<le> length c" and "q * 512 + n \<le> pos * 512 \<or> pos * 512 + length xs \<le> q * 512"
  shows "\<exists>s' s1 s2 d. wr pos xs s = Inr s' \<and> rd q n s' = Inr (d, s1) \<and> rd q n s = Inr (d, s2)"
proof -
  obtain s' where s': "wr pos xs s = Inr s'" "content s' = Some (put (pos * 512) xs c)"
    using wr_put [OF assms(1,2)] by blast
  have "q * 512 + n \<le> length (put (pos * 512) xs c)" using assms(2,3) by (simp add: length_put)
  from rd_slice [OF s'(2) this] rd_slice [OF assms(1,3)] s'(1)
    take_drop_put_other [OF assms(2,3)] assms(4)
  show ?thesis by auto
qed

end

text \<open>Transfers through a request and through a bio with any division into segments.\<close>

definition simp_rd :: "nat \<Rightarrow> nat \<Rightarrow> blk \<Rightarrow> fault + u8 list \<times> blk" where
  "simp_rd pos n b =
     rbind (my_do_queue [\<lparr>rq_data_dir = READ, blk_rq_pos = pos, rq_buffer = replicate n 0\<rparr>] b)
       (\<lambda>(ends, b). Inr (rq_buffer (fst (hd ends)), b))"

definition simp_wr :: "nat \<Rightarrow> u8 list \<Rightarrow> blk \<Rightarrow> fault + blk" where
  "simp_wr pos xs b =
     rbind (my_do_queue [\<lparr>rq_data_dir = WRITE, blk_rq_pos = pos, rq_buffer = xs\<rparr>] b) (\<lambda>(ends, b). Inr b)"

lemma simp_rd_slice:
  assumes "my_diskbuffer b = Some c" and "pos * 512 + n \<le> length c"
  shows "\<exists>b'. simp_rd pos n b = Inr (take n (drop (pos * 512) c), b') \<and> my_diskbuffer b' = Some c"
  using assms by (simp add: simp_rd_def disk_read_def rd_bytes_def)

lemma simp_wr_put:
  assumes "my_diskbuffer b = Some c" and "pos * 512 + length xs \<le> length c"
  shows "\<exists>b'. simp_wr pos xs b = Inr b' \<and> my_diskbuffer b' = Some (put (pos * 512) xs c)"
  using assms by (simp add: simp_wr_def disk_write_def)

interpretation simp_disk: disk my_diskbuffer simp_rd simp_wr
  by unfold_locales (fact simp_rd_slice, fact simp_wr_put)

lemma bio_segments_read:
  assumes "is_read rw" and "my_diskbuffer b = Some c" and "off + length (concat vecs) \<le> length c"
  shows "\<exists>ds. bio_segments is_read rw off vecs b = Inr (0, ds, b)
    \<and> concat ds = take (length (concat vecs)) (drop off c) \<and> map length ds = map length vecs"
  using assms
proof (induction vecs arbitrary: off)
  case (Cons v vs)
  have le: "(off + length v) + length (concat vs) \<le> length c" using Cons.prems(3) by simp
  obtain ds where ds: "bio_segments is_read rw (off + length v) vs b = Inr (0, ds, b)"
    "concat ds = take (length (concat vs)) (drop (off + length v) c)" "map length ds = map length vs"
    using Cons.IH [OF Cons.prems(1,2) le] by blast
  have "take (length v + length (concat vs)) (drop off c)
      = take (length v) (drop off c) @ take (length (concat vs)) (drop (length v + off) c)"
    by (simp add: take_add)
  with Cons.prems ds show ?case
    by (simp add: disk_read_def rd_bytes_def Let_def add.commute)
qed simp

lemma bio_segments_write:
  assumes "\<not> is_read WRITE" and "my_diskbuffer b = Some c" and "off + length (concat vecs) \<le> length c"
  shows "bio_segments is_read WRITE off vecs b
    = Inr (0, vecs, b\<lparr>my_diskbuffer := Some (put off (concat vecs) c)\<rparr>)"
  using assms
proof (induction vecs arbitrary: off b c)
  case Nil
  then show ?case by (cases b) (simp add: put_def)
next
  case (Cons v vs)
  let ?b = "b\<lparr>my_diskbuffer := Some (put off v c)\<rparr>"
  have "bio_segments is_read WRITE (off + length v) vs ?b
      = Inr (0, vs, ?b\<lparr>my_diskbuffer := Some (put (off + length v) (concat vs) (put off v c))\<rparr>)"
    by (rule Cons.IH) (use Cons.prems in \<open>simp_all add: length_put\<close>)
  with Cons.prems show ?case by (simp add: disk_write_def Let_def put_append)
qed

text \<open>
  C29. What is written to a disk is read back, whatever the division of the two transfers
  into segments: after a write of a bio inside the disk, a read of the same sectors gives
  the bytes written; a read of other sectors gives what it gave before; every page is
  unmapped again. This holds for both bio drivers.
\<close>

theorem bio_read_after_write:
  assumes "my_diskbuffer b = Some c" and "p * 512 + length (concat ws) \<le> length c"
    and "length (concat rs) = length (concat ws)"
    and "make_queue = mid_make_queue \<or> make_queue = hard_make_queue"
  shows "\<exists>b' ds. make_queue \<lparr>bi_sector = p, bio_rw = WRITE, bi_io_vec = ws\<rparr> b = Inr (0, ws, b')
    \<and> make_queue \<lparr>bi_sector = p, bio_rw = READ, bi_io_vec = rs\<rparr> b' = Inr (0, ds, b')
    \<and> concat ds = concat ws \<and> map length ds = map length rs \<and> kmaps b' = kmaps b
    \<and> (\<forall>q os. q * 512 + length (concat os) \<le> length c
        \<and> (q * 512 + length (concat os) \<le> p * 512 \<or> p * 512 + length (concat ws) \<le> q * 512) \<longrightarrow>
        (\<exists>es fs. make_queue \<lparr>bi_sector = q, bio_rw = READ, bi_io_vec = os\<rparr> b' = Inr (0, es, b')
          \<and> make_queue \<lparr>bi_sector = q, bio_rw = READ, bi_io_vec = os\<rparr> b = Inr (0, fs, b)
          \<and> concat es = concat fs))"
proof -
  let ?c = "put (p * 512) (concat ws) c"
  let ?b = "b\<lparr>my_diskbuffer := Some ?c\<rparr>"
  have len: "length ?c = length c" using assms(2) by (rule length_put)
  have W: "make_queue \<lparr>bi_sector = p, bio_rw = WRITE, bi_io_vec = ws\<rparr> b = Inr (0, ws, ?b)"
    using assms(4) bio_segments_write [OF _ assms(1,2)] by (auto simp: mid_make_queue_def hard_make_queue_def)
  have R: "\<exists>ds. make_queue \<lparr>bi_sector = q, bio_rw = READ, bi_io_vec = vs\<rparr> a = Inr (0, ds, a)
      \<and> concat ds = take (length (concat vs)) (drop (q * 512) x) \<and> map length ds = map length vs"
    if "my_diskbuffer a = Some x" "q * 512 + length (concat vs) \<le> length x" for q vs a x
    using assms(4) bio_segments_read [OF _ that] by (auto simp: mid_make_queue_def hard_make_queue_def)
  obtain ds where ds: "make_queue \<lparr>bi_sector = p, bio_rw = READ, bi_io_vec = rs\<rparr> ?b = Inr (0, ds, ?b)"
    "concat ds = take (length (concat rs)) (drop (p * 512) ?c)" "map length ds = map length rs"
    using R [of ?b ?c p rs] assms(2,3) len by auto
  have "concat ds = concat ws"
    using ds(2) take_drop_put_same [OF assms(2)] assms(3) by simp
  moreover have "\<exists>es fs. make_queue \<lparr>bi_sector = q, bio_rw = READ, bi_io_vec = os\<rparr> ?b = Inr (0, es, ?b)
      \<and> make_queue \<lparr>bi_sector = q, bio_rw = READ, bi_io_vec = os\<rparr> b = Inr (0, fs, b)
      \<and> concat es = concat fs"
    if o: "q * 512 + length (concat os) \<le> length c"
      "q * 512 + length (concat os) \<le> p * 512 \<or> p * 512 + length (concat ws) \<le> q * 512" for q os
    using R [of ?b ?c q os] R [OF assms(1) o(1)] take_drop_put_other [OF assms(2) o] len o(1) by auto
  ultimately show ?thesis using W ds(1,3) by (intro exI [of _ ?b] exI [of _ ds]) auto
qed

definition small_disk :: blk where
  "small_disk = \<lparr>my_diskbuffer = Some (replicate 2048 0), kmaps = 0\<rparr>"

theorem bio_read_after_write_witness:
  "\<exists>b' ds. mid_make_queue \<lparr>bi_sector = 1, bio_rw = WRITE, bi_io_vec = [[1, 2], [3]]\<rparr> small_disk = Inr (0, [[1, 2], [3]], b')
    \<and> mid_make_queue \<lparr>bi_sector = 1, bio_rw = READ, bi_io_vec = [[0, 0, 0]]\<rparr> b' = Inr (0, ds, b')
    \<and> concat ds = [1, 2, 3]"
  using bio_read_after_write [of small_disk "replicate 2048 0" 1 "[[1, 2], [3]]" "[[0, 0, 0]]" mid_make_queue]
  by (auto simp: small_disk_def)

text \<open>
  The request driver, one request at a time: what is written to sectors inside the disk
  is read back from them.
\<close>

theorem simp_read_after_write:
  assumes "my_diskbuffer b = Some c" and "pos * 512 + length xs \<le> length c"
  shows "\<exists>b' b''. simp_wr pos xs b = Inr b' \<and> simp_rd pos (length xs) b' = Inr (xs, b'')
    \<and> my_diskbuffer b'' = my_diskbuffer b'"
  using assms by (rule simp_disk.read_after_write)

theorem simp_read_after_write_witness:
  "\<exists>b' b''. simp_wr 2 [1, 2, 3] small_disk = Inr b' \<and> simp_rd 2 (length [1, 2, 3 :: u8]) b' = Inr ([1, 2, 3], b'')
    \<and> my_diskbuffer b'' = my_diskbuffer b'"
  by (rule simp_read_after_write) (auto simp: small_disk_def)

text \<open>
  blk_mid refuses a read-ahead bio with \<open>-EIO\<close> and leaves the page of its first
  segment mapped; blk_hard treats it as a read.
\<close>

theorem mid_readahead_fails:
  assumes "vecs \<noteq> []"
  shows "mid_make_queue \<lparr>bi_sector = p, bio_rw = READA, bi_io_vec = vecs\<rparr> b
      = Inr (-EIO, vecs, b\<lparr>kmaps := kmaps b + 1\<rparr>)
    \<and> hard_make_queue \<lparr>bi_sector = p, bio_rw = READA, bi_io_vec = vecs\<rparr> b
      = hard_make_queue \<lparr>bi_sector = p, bio_rw = READ, bi_io_vec = vecs\<rparr> b"
proof -
  have "bio_segments (\<lambda>rw. rw = READA \<or> rw = READ) READA off vs b
      = bio_segments (\<lambda>rw. rw = READA \<or> rw = READ) READ off vs b" for off vs b
    by (induction vs arbitrary: off b) (simp_all add: Let_def)
  moreover obtain v vs where "vecs = v # vs" using assms by (cases vecs) auto
  ultimately show ?thesis by (simp add: mid_make_queue_def hard_make_queue_def Let_def)
qed

theorem mid_readahead_fails_witness:
  "mid_make_queue \<lparr>bi_sector = 0, bio_rw = READA, bi_io_vec = [[0]]\<rparr> small_disk
      = Inr (-EIO, [[0]], small_disk\<lparr>kmaps := 1\<rparr>)"
  using mid_readahead_fails [of "[[0]]" 0 small_disk] by (simp add: small_disk_def)

text \<open>
  Unloading blk_simp gives back what loading it took; unloading blk_mid or blk_hard
  registers its own major again, which is refused, instead of releasing it, and keeps the
  queue: a major and a queue more in use after each load and unload.
\<close>

theorem blk_exit_leaks:
  assumes "blkdev_majors a" and "my_blk_init a k = Inr k'" and "my_major k' > 0"
  shows "majors (simp_blk_exit a k') = majors k \<and> queues (simp_blk_exit a k') = queues k
    \<and> disks (simp_blk_exit a k') = disks k \<and> buffers (simp_blk_exit a k') = buffers k
    \<and> majors (mid_blk_exit a k') = my_major k' # majors k \<and> my_major k' \<notin> set (majors k)
    \<and> queues (mid_blk_exit a k') = queues k + 1
    \<and> disks (mid_blk_exit a k') = disks k \<and> buffers (mid_blk_exit a k') = buffers k
    \<and> heads my_getgeo * sectors my_getgeo * cylinders my_getgeo = capacity k'"
proof -
  obtain m ms where r: "register_blkdev a 0 (majors k) = (m, ms)" by (cases "register_blkdev a 0 (majors k)")
  have k': "my_major k' = m" using assms(2) r by (auto simp: my_blk_init_def Let_def split: if_splits)
  have m: "m \<notin> set (majors k)" "ms = m # majors k"
    using assms(1,3) r k' unfolding blkdev_majors_def by (metis fst_conv, metis fst_conv snd_conv)
  have u: "unregister_blkdev a m (m # majors k) = majors k"
    using assms(1) m(1) unfolding blkdev_majors_def by blast
  have f: "snd (register_blkdev a m (m # majors k)) = m # majors k"
    using assms(1) unfolding blkdev_majors_def by (metis list.set_intros(1))
  show ?thesis using assms(2) r m u f
    by (auto simp: my_blk_init_def simp_blk_exit_def mid_blk_exit_def my_getgeo_def Let_def
      kfree_buffer_def split: if_splits)
qed

text \<open>A kernel that gives one more than the largest major in use.\<close>

definition plain_kernel :: blk_api where
  "plain_kernel = \<lparr>disk_ok = True, queue_ok = True, buffer_ok = True,
     register_blkdev = (\<lambda>m ms. if m = 0 then let n = foldr (\<lambda>a b. if a < b then b else a) ms 0 + 1 in
         if 0 \<in> set ms then (-1, ms) else (n, n # ms)
       else if m \<in> set ms then (-16, ms) else (0, m # ms)),
     unregister_blkdev = (\<lambda>m ms. filter (\<lambda>n. n \<noteq> m) ms)\<rparr>"

lemma foldr_bound: "m \<in> set ms \<Longrightarrow> m \<le> foldr (\<lambda>a b. if a < b then b else a) ms (0 :: int)"
  by (induction ms) auto

lemma plain_kernel_majors: "blkdev_majors plain_kernel"
  unfolding blkdev_majors_def plain_kernel_def
  by (auto simp: Let_def dest: foldr_bound split: if_splits intro!: filter_True)

definition unloaded :: blk_kernel where
  "unloaded = \<lparr>majors = [8], queues = 0, disks = 0, buffers = 0, my_major = 0, my_buffer = False, capacity = 0\<rparr>"

theorem blk_exit_leaks_witness:
  "\<exists>k'. my_blk_init plain_kernel unloaded = Inr k' \<and> majors (mid_blk_exit plain_kernel k') = [9, 8]
     \<and> majors (simp_blk_exit plain_kernel k') = [8]"
proof -
  obtain k' where k: "my_blk_init plain_kernel unloaded = Inr k'" "my_major k' = 9"
    by (auto simp: my_blk_init_def plain_kernel_def unloaded_def)
  from blk_exit_leaks [OF plain_kernel_majors k(1)] k show ?thesis by (auto simp: unloaded_def)
qed

end
