(* ===== verification/RcuDemo.thy ===== *)
theory RcuDemo
  imports Prelude "HOL-Library.Multiset"
begin

text \<open>
  The kernel module rcu_demo.c: two readers and two updaters of RCU-protected data, one pair
  on a global pointer, one on a list, with \<open>call_rcu\<close> and with \<open>synchronize_rcu\<close>. A thread
  moves in steps, one per access to shared memory; an interleaving is a list of actions.
  The integers stay far below overflow and are unbounded here. An address is not reused
  after \<open>kfree\<close>, so that every access to freed memory shows: it sets \<open>crashed\<close>.
\<close>

section \<open>Memory and threads\<close>

record foo =
  foo_a :: int
  foo_b :: int
  foo_c :: int
  list_next :: addr
  list_prev :: addr

definition zero_foo :: foo where
  "zero_foo = \<lparr>foo_a = 0, foo_b = 0, foo_c = 0, list_next = NULL, list_prev = NULL\<rparr>"

text \<open>The address of the list head \<open>g_rcu_list\<close>, which is not a \<open>struct foo\<close>.\<close>

abbreviation HEAD :: addr where "HEAD \<equiv> 1"

datatype reader_id = Ptr | Lst

text \<open>
  Where a reader is: in its sleep, behind \<open>rcu_read_lock\<close>, or holding a pointer with the
  fields it has read so far.
\<close>

datatype reader_pc = R_new | R_sleep | R_locked | R_hold addr "int list" | R_done

datatype updater_pc =
    U_new | U_top
  | U_alloc addr  \<comment> \<open>\<open>new\<close>\<close>
  | U_old addr addr  \<comment> \<open>\<open>new\<close>, \<open>old\<close>\<close>
  | U_copied addr addr
  | U_assigned addr addr
  | U_printed addr addr
  | U_done

datatype list_pc =
    L_new | L_top
  | L_first addr  \<comment> \<open>\<open>p\<close>\<close>
  | L_alloc addr addr  \<comment> \<open>\<open>p\<close>, \<open>q\<close>\<close>
  | L_copied addr addr
  | L_replaced addr addr
  | L_printed addr addr
  | L_sync addr "reader_id set"  \<comment> \<open>\<open>p\<close>, the readers \<open>synchronize_rcu\<close> waits for\<close>
  | L_done

record rcu =
  foos :: "addr \<Rightarrow> foo option"
  next_addr :: addr
  g_pfoo :: addr
  head_next :: addr
  head_prev :: addr
  reader :: reader_pc
  reader_cnt :: nat
  reader_list :: reader_pc
  reader_list_cnt :: nat
  updater :: updater_pc
  updater_cnt :: nat
  updater_value :: int
  updater_list :: list_pc
  updater_list_cnt :: nat
  updater_list_value :: int
  callbacks :: "(addr \<times> reader_id set) list"  \<comment> \<open>with the readers each waits for\<close>
  printed :: "int list list"  \<comment> \<open>what the readers print\<close>
  init_pc :: nat
  exit_pc :: nat
  crashed :: bool

definition deref :: "addr \<Rightarrow> (foo \<Rightarrow> rcu \<Rightarrow> rcu) \<Rightarrow> rcu \<Rightarrow> rcu" where
  "deref p f s = (case foos s p of None \<Rightarrow> s\<lparr>crashed := True\<rparr> | Some v \<Rightarrow> f v s)"

definition kzalloc :: "bool \<Rightarrow> rcu \<Rightarrow> addr \<times> rcu" where
  "kzalloc ok s =
     (if ok then (next_addr s, s\<lparr>foos := (foos s)(next_addr s \<mapsto> zero_foo), next_addr := next_addr s + 1\<rparr>)
      else (NULL, s))"

definition kfree :: "addr \<Rightarrow> rcu \<Rightarrow> rcu" where
  "kfree p s = (if p = NULL then s else deref p (\<lambda>v s. s\<lparr>foos := (foos s)(p := None)\<rparr>) s)"

text \<open>
  The documented contract of RCU: a callback of \<open>call_rcu\<close> and the end of
  \<open>synchronize_rcu\<close> wait until every reader that is inside a critical section at the call
  has left it; they do not wait for readers that enter later.
\<close>

fun in_section :: "reader_pc \<Rightarrow> bool" where
  "in_section R_locked = True"
| "in_section (R_hold p xs) = True"
| "in_section _ = False"

definition readers_inside :: "rcu \<Rightarrow> reader_id set" where
  "readers_inside s =
     (if in_section (reader s) then {Ptr} else {}) \<union> (if in_section (reader_list s) then {Lst} else {})"

fun sync_without :: "reader_id \<Rightarrow> list_pc \<Rightarrow> list_pc" where
  "sync_without r (L_sync p W) = L_sync p (W - {r})"
| "sync_without r pc = pc"

definition rcu_read_unlock :: "reader_id \<Rightarrow> rcu \<Rightarrow> rcu" where
  "rcu_read_unlock r s =
     s\<lparr>callbacks := map (map_prod id (\<lambda>W. W - {r})) (callbacks s),
       updater_list := sync_without r (updater_list s)\<rparr>"

section \<open>The threads\<close>

definition foo_fields :: "foo \<Rightarrow> int list" where
  "foo_fields v = [foo_a v, foo_b v, foo_c v]"

text \<open>\<open>None\<close>: the thread cannot move (not started, waiting, or returned).\<close>

fun rcu_reader :: "rcu \<Rightarrow> rcu option" where
  "rcu_reader s =
     (case reader s of
        R_sleep \<Rightarrow> if reader_cnt s = 0 then Some (s\<lparr>reader := R_done\<rparr>)
          else Some (s\<lparr>reader_cnt := reader_cnt s - 1, reader := R_locked\<rparr>)
      | R_locked \<Rightarrow> Some (s\<lparr>reader := R_hold (g_pfoo s) []\<rparr>)
      | R_hold p xs \<Rightarrow>
          if length xs < 3
          then Some (deref p (\<lambda>v s. s\<lparr>reader := R_hold p (xs @ [foo_fields v ! length xs])\<rparr>) s)
          else Some (rcu_read_unlock Ptr (s\<lparr>printed := printed s @ [xs], reader := R_sleep\<rparr>))
      | _ \<Rightarrow> None)"

definition rcu_reclaimer :: "nat \<Rightarrow> rcu \<Rightarrow> rcu option" where
  "rcu_reclaimer i s =
     (if i < length (callbacks s) \<and> snd (callbacks s ! i) = {}
      then Some (deref (fst (callbacks s ! i)) (\<lambda>v s. kfree (fst (callbacks s ! i))
             (s\<lparr>callbacks := take i (callbacks s) @ drop (i + 1) (callbacks s)\<rparr>)) s)
      else None)"

fun rcu_updater :: "bool \<Rightarrow> rcu \<Rightarrow> rcu option" where
  "rcu_updater ok s =
     (case updater s of
        U_top \<Rightarrow> if updater_cnt s = 0 then Some (s\<lparr>updater := U_done\<rparr>)
          else let s = s\<lparr>updater_cnt := updater_cnt s - 1\<rparr>; (new, s) = kzalloc ok s in
            Some (s\<lparr>updater := U_alloc new\<rparr>)
      | U_alloc new \<Rightarrow> Some (s\<lparr>updater := U_old new (g_pfoo s)\<rparr>)
      | U_old new old \<Rightarrow>
          Some (deref (g_pfoo s) (\<lambda>v. deref new (\<lambda>_ s.
            s\<lparr>foos := (foos s)(new \<mapsto> v\<lparr>foo_a := updater_value s, foo_b := updater_value s + 1,
                foo_c := updater_value s + 2\<rparr>), updater := U_copied new old\<rparr>)) s)
      | U_copied new old \<Rightarrow> Some (s\<lparr>g_pfoo := new, updater := U_assigned new old\<rparr>)
      | U_assigned new old \<Rightarrow> Some (deref new (\<lambda>v s. s\<lparr>updater := U_printed new old\<rparr>) s)
      | U_printed new old \<Rightarrow>
          Some (deref old (\<lambda>v s. s\<lparr>callbacks := callbacks s @ [(old, readers_inside s)],
            updater_value := updater_value s + 1, updater := U_top\<rparr>) s)
      | _ \<Rightarrow> None)"

fun rcu_reader_list :: "rcu \<Rightarrow> rcu option" where
  "rcu_reader_list s =
     (case reader_list s of
        R_sleep \<Rightarrow> if reader_list_cnt s = 0 then Some (s\<lparr>reader_list := R_done\<rparr>)
          else Some (s\<lparr>reader_list_cnt := reader_list_cnt s - 1, reader_list := R_locked\<rparr>)
      | R_locked \<Rightarrow> Some (s\<lparr>reader_list := R_hold (head_next s) []\<rparr>)
      | R_hold p xs \<Rightarrow>
          if p = HEAD then Some (rcu_read_unlock Lst (s\<lparr>reader_list := R_sleep\<rparr>))
          else if length xs < 3
          then Some (deref p (\<lambda>v s. s\<lparr>reader_list := R_hold p (xs @ [foo_fields v ! length xs])\<rparr>) s)
          else Some (deref p (\<lambda>v s. s\<lparr>printed := printed s @ [xs], reader_list := R_hold (list_next v) []\<rparr>) s)
      | _ \<Rightarrow> None)"

definition list_first_or_null_rcu :: "rcu \<Rightarrow> addr" where
  "list_first_or_null_rcu s = (if head_next s = HEAD then NULL else head_next s)"

definition set_next :: "addr \<Rightarrow> addr \<Rightarrow> rcu \<Rightarrow> rcu" where
  "set_next p n s = (if p = HEAD then s\<lparr>head_next := n\<rparr>
     else deref p (\<lambda>v s. s\<lparr>foos := (foos s)(p \<mapsto> v\<lparr>list_next := n\<rparr>)\<rparr>) s)"

definition set_prev :: "addr \<Rightarrow> addr \<Rightarrow> rcu \<Rightarrow> rcu" where
  "set_prev p n s = (if p = HEAD then s\<lparr>head_prev := n\<rparr>
     else deref p (\<lambda>v s. s\<lparr>foos := (foos s)(p \<mapsto> v\<lparr>list_prev := n\<rparr>)\<rparr>) s)"

text \<open>
  The list macros of the kernel. In \<open>list_replace_rcu\<close> the element \<open>q\<close> takes the place
  of \<open>p\<close>, which keeps its way on into the list; the poison left behind is null here.
\<close>

definition list_replace_rcu :: "addr \<Rightarrow> addr \<Rightarrow> rcu \<Rightarrow> rcu" where
  "list_replace_rcu p q = deref p (\<lambda>v s.
     let s = set_next q (list_next v) s;
         s = set_prev q (list_prev v) s;
         s = set_next (list_prev v) q s;
         s = set_prev (list_next v) q s in
     set_prev p NULL s)"

definition list_add_rcu :: "addr \<Rightarrow> rcu \<Rightarrow> rcu" where
  "list_add_rcu p s =
     (let n = head_next s;
          s = set_next p n s;
          s = set_prev p HEAD s;
          s = set_next HEAD p s in
      set_prev n p s)"

fun rcu_updater_list :: "bool \<Rightarrow> rcu \<Rightarrow> rcu option" where
  "rcu_updater_list ok s =
     (case updater_list s of
        L_top \<Rightarrow> if updater_list_cnt s = 0 then Some (s\<lparr>updater_list := L_done\<rparr>)
          else Some (s\<lparr>updater_list_cnt := updater_list_cnt s - 1,
            updater_list := L_first (list_first_or_null_rcu s)\<rparr>)
      | L_first p \<Rightarrow> let (q, s) = kzalloc ok s in Some (s\<lparr>updater_list := L_alloc p q\<rparr>)
      | L_alloc p q \<Rightarrow>
          Some (deref p (\<lambda>v. deref q (\<lambda>_ s.
            s\<lparr>foos := (foos s)(q \<mapsto> v\<lparr>foo_a := updater_list_value s, foo_b := updater_list_value s + 1,
                foo_c := updater_list_value s + 2\<rparr>), updater_list := L_copied p q\<rparr>)) s)
      | L_copied p q \<Rightarrow> Some ((list_replace_rcu p q s)\<lparr>updater_list := L_replaced p q\<rparr>)
      | L_replaced p q \<Rightarrow> Some (deref q (\<lambda>v s. s\<lparr>updater_list := L_printed p q\<rparr>) s)
      | L_printed p q \<Rightarrow> Some (s\<lparr>updater_list := L_sync p (readers_inside s)\<rparr>)
      | L_sync p W \<Rightarrow> if W = {} then Some ((kfree p s)\<lparr>updater_list_value := updater_list_value s + 1,
          updater_list := L_top\<rparr>) else None
      | _ \<Rightarrow> None)"

section \<open>Loading and unloading\<close>

text \<open>The new threads run at once, while the initialisation goes on.\<close>

fun rcu_test_init :: "bool \<Rightarrow> rcu \<Rightarrow> rcu option" where
  "rcu_test_init ok s =
     (let t = s\<lparr>init_pc := init_pc s + 1\<rparr> in
      if init_pc s = 0 then Some (t\<lparr>reader := R_sleep\<rparr>)
      else if init_pc s = 1 then Some (t\<lparr>updater := U_top\<rparr>)
      else if init_pc s = 2 then Some (t\<lparr>reader_list := R_sleep\<rparr>)
      else if init_pc s = 3 then Some (t\<lparr>updater_list := L_top\<rparr>)
      else if init_pc s = 4 then let (p, t) = kzalloc ok t in Some (t\<lparr>g_pfoo := p\<rparr>)
      else if init_pc s = 5 then let (p, t) = kzalloc ok t in Some (list_add_rcu p t)
      else None)"

text \<open>\<open>kthread_stop\<close> waits for the thread to return.\<close>

fun rcu_test_exit :: "rcu \<Rightarrow> rcu option" where
  "rcu_test_exit s =
     (let t = s\<lparr>exit_pc := exit_pc s + 1\<rparr> in
      if init_pc s < 6 then None
      else if exit_pc s = 0 then Some (kfree (g_pfoo s) t)
      else if exit_pc s = 1 then Some (kfree (list_first_or_null_rcu s) t)
      else if exit_pc s = 2 \<and> reader s = R_done then Some t
      else if exit_pc s = 3 \<and> updater s = U_done then Some t
      else if exit_pc s = 4 \<and> reader_list s = R_done then Some t
      else if exit_pc s = 5 \<and> updater_list s = L_done then Some t
      else None)"

definition unloaded_module :: rcu where
  "unloaded_module =
     \<lparr>foos = (\<lambda>_. None), next_addr = 2, g_pfoo = NULL, head_next = HEAD, head_prev = HEAD,
      reader = R_new, reader_cnt = 100, reader_list = R_new, reader_list_cnt = 100,
      updater = U_new, updater_cnt = 100, updater_value = 1,
      updater_list = L_new, updater_list_cnt = 100, updater_list_value = 1000,
      callbacks = [], printed = [], init_pc = 0, exit_pc = 0, crashed = False\<rparr>"

text \<open>
  One action of an interleaving; \<open>True\<close> when the allocation it makes succeeds. After a
  crash nothing moves.
\<close>

datatype action = Reader | Updater bool | ReaderList | UpdaterList bool | Reclaim nat | Init bool | Exit

fun perform :: "action \<Rightarrow> rcu \<Rightarrow> rcu option" where
  "perform a s =
     (if crashed s then None
      else case a of
        Reader \<Rightarrow> rcu_reader s
      | Updater ok \<Rightarrow> rcu_updater ok s
      | ReaderList \<Rightarrow> rcu_reader_list s
      | UpdaterList ok \<Rightarrow> rcu_updater_list ok s
      | Reclaim i \<Rightarrow> rcu_reclaimer i s
      | Init ok \<Rightarrow> rcu_test_init ok s
      | Exit \<Rightarrow> rcu_test_exit s)"

fun interleave :: "action list \<Rightarrow> rcu \<Rightarrow> rcu option" where
  "interleave [] s = Some s"
| "interleave (a # as) s = (case perform a s of None \<Rightarrow> None | Some t \<Rightarrow> interleave as t)"

declare rcu_reader.simps [simp del] rcu_updater.simps [simp del] rcu_reader_list.simps [simp del]
  rcu_updater_list.simps [simp del] rcu_test_init.simps [simp del] rcu_test_exit.simps [simp del]


section \<open>The invariant\<close>

text \<open>
  Every object in memory has one owner: the global pointer, the list, an updater that has
  not published it yet or has just taken it out, or a callback.
\<close>

fun u_owned :: "updater_pc \<Rightarrow> addr list" where
  "u_owned (U_alloc new) = [new]"
| "u_owned (U_old new old) = [new]"
| "u_owned (U_copied new old) = [new]"
| "u_owned (U_assigned new old) = [old]"
| "u_owned (U_printed new old) = [old]"
| "u_owned _ = []"

fun l_owned :: "list_pc \<Rightarrow> addr list" where
  "l_owned (L_alloc p q) = [q]"
| "l_owned (L_copied p q) = [q]"
| "l_owned (L_replaced p q) = [p]"
| "l_owned (L_printed p q) = [p]"
| "l_owned (L_sync p W) = [p]"
| "l_owned _ = []"

definition owned :: "rcu \<Rightarrow> addr list" where
  "owned s = [g_pfoo s, head_next s] @ u_owned (updater s) @ l_owned (updater_list s) @ map fst (callbacks s)"

definition memory_ok :: "addr list \<Rightarrow> (addr \<Rightarrow> foo option) \<Rightarrow> addr \<Rightarrow> bool" where
  "memory_ok ps m n \<longleftrightarrow> distinct ps \<and> dom m = set ps \<and> (\<forall>p \<in> set ps. HEAD < p \<and> p < n)"

text \<open>The fields of an object after an update, or as it was allocated.\<close>

definition whole :: "int list \<Rightarrow> bool" where
  "whole xs \<longleftrightarrow> xs = [0, 0, 0] \<or> (\<exists>v. xs = [v, v + 1, v + 2])"

definition wholes_ok :: "(addr \<Rightarrow> foo option) \<Rightarrow> bool" where
  "wholes_ok m \<longleftrightarrow> (\<forall>p v. m p = Some v \<longrightarrow> whole (foo_fields v))"

text \<open>The list has one element; it and an element just taken out lead to the end of the list.\<close>

definition last_elem :: "(addr \<Rightarrow> foo option) \<Rightarrow> addr \<Rightarrow> bool" where
  "last_elem m p \<longleftrightarrow> (\<exists>v. m p = Some v \<and> list_next v = HEAD)"

definition list_ok :: "(addr \<Rightarrow> foo option) \<Rightarrow> addr \<Rightarrow> addr \<Rightarrow> bool" where
  "list_ok m hn hp \<longleftrightarrow> hp = hn \<and> (\<exists>v. m hn = Some v \<and> list_next v = HEAD \<and> list_prev v = HEAD)"

fun u_ok :: "updater_pc \<Rightarrow> addr \<Rightarrow> bool" where
  "u_ok (U_old new old) g = (old = g)"
| "u_ok (U_copied new old) g = (old = g)"
| "u_ok (U_assigned new old) g = (new = g)"
| "u_ok (U_printed new old) g = (new = g)"
| "u_ok _ g = True"

fun l_ok :: "list_pc \<Rightarrow> addr \<Rightarrow> (addr \<Rightarrow> foo option) \<Rightarrow> bool" where
  "l_ok (L_first p) h m = (p = h)"
| "l_ok (L_alloc p q) h m = (p = h)"
| "l_ok (L_copied p q) h m = (p = h)"
| "l_ok (L_replaced p q) h m = (q = h \<and> last_elem m p)"
| "l_ok (L_printed p q) h m = (q = h \<and> last_elem m p)"
| "l_ok (L_sync p W) h m = last_elem m p"
| "l_ok _ h m = True"

text \<open>The pointers that a reader inside a critical section may hold.\<close>

fun u_out :: "updater_pc \<Rightarrow> addr set" where
  "u_out (U_assigned new old) = {old}"
| "u_out (U_printed new old) = {old}"
| "u_out _ = {}"

definition ptr_held :: "rcu \<Rightarrow> addr set" where
  "ptr_held s = {g_pfoo s} \<union> u_out (updater s) \<union> {p. \<exists>W. (p, W) \<in> set (callbacks s) \<and> Ptr \<in> W}"

fun l_out :: "list_pc \<Rightarrow> addr set" where
  "l_out (L_replaced p q) = {p}"
| "l_out (L_printed p q) = {p}"
| "l_out (L_sync p W) = (if Lst \<in> W then {p} else {})"
| "l_out _ = {}"

definition lst_held :: "rcu \<Rightarrow> addr set" where
  "lst_held s = {head_next s} \<union> l_out (updater_list s)"

fun reads_ok :: "reader_pc \<Rightarrow> addr set \<Rightarrow> (addr \<Rightarrow> foo option) \<Rightarrow> bool" where
  "reads_ok (R_hold p xs) H m =
     (p \<in> H \<and> (\<exists>v. m p = Some v \<and> xs = take (length xs) (foo_fields v)))"
| "reads_ok _ H m = True"

fun at_end :: "reader_pc \<Rightarrow> bool" where
  "at_end (R_hold p xs) = (p = HEAD)"
| "at_end _ = False"

text \<open>Only readers that are inside a critical section are waited for.\<close>

fun l_waits :: "list_pc \<Rightarrow> reader_id set" where
  "l_waits (L_sync p W) = W"
| "l_waits _ = {}"

definition waits :: "rcu \<Rightarrow> reader_id set" where
  "waits s = l_waits (updater_list s) \<union> \<Union> (snd ` set (callbacks s))"

definition rcu_inv :: "rcu \<Rightarrow> bool" where
  "rcu_inv s \<longleftrightarrow> \<not> crashed s
     \<and> memory_ok (owned s) (foos s) (next_addr s)
     \<and> wholes_ok (foos s)
     \<and> list_ok (foos s) (head_next s) (head_prev s)
     \<and> u_ok (updater s) (g_pfoo s)
     \<and> l_ok (updater_list s) (head_next s) (foos s)
     \<and> reads_ok (reader s) (ptr_held s) (foos s)
     \<and> (at_end (reader_list s) \<or> reads_ok (reader_list s) (lst_held s) (foos s))
     \<and> (\<forall>xs \<in> set (printed s). whole xs)
     \<and> waits s \<subseteq> readers_inside s"

text \<open>
  A run: the module is loaded before its threads do anything (they all begin with a sleep),
  allocations succeed, and it is not unloaded.
\<close>

definition loaded_module :: rcu where
  "loaded_module = unloaded_module\<lparr>
     foos := [2 \<mapsto> zero_foo, 3 \<mapsto> zero_foo\<lparr>list_next := HEAD, list_prev := HEAD\<rparr>], next_addr := 4,
     g_pfoo := 2, head_next := 3, head_prev := 3,
     reader := R_sleep, updater := U_top, reader_list := R_sleep, updater_list := L_top, init_pc := 6\<rparr>"

lemma loaded_by_init: "interleave (replicate 6 (Init True)) unloaded_module = Some loaded_module"
  by (simp add: numeral_eq_Suc rcu_test_init.simps unloaded_module_def loaded_module_def kzalloc_def
    list_add_rcu_def set_next_def set_prev_def deref_def zero_foo_def Let_def)

fun thread_action :: "action \<Rightarrow> bool" where
  "thread_action (Updater ok) = ok"
| "thread_action (UpdaterList ok) = ok"
| "thread_action (Init ok) = False"
| "thread_action Exit = False"
| "thread_action _ = True"

inductive rcu_step :: "rcu \<Rightarrow> rcu \<Rightarrow> bool" where
  rcu_stepI: "thread_action a \<Longrightarrow> perform a s = Some t \<Longrightarrow> rcu_step s t"

lemma loaded_inv: "rcu_inv loaded_module"
  by (auto simp: rcu_inv_def memory_ok_def wholes_ok_def list_ok_def waits_def loaded_module_def
    unloaded_module_def owned_def zero_foo_def foo_fields_def whole_def split: if_splits)

section \<open>Every step keeps the invariant\<close>

lemmas rcu_state_defs = rcu_inv_def owned_def ptr_held_def lst_held_def waits_def readers_inside_def

lemma inv_set_reader:
  assumes "rcu_inv s" and "in_section (reader s) \<longrightarrow> in_section r"
    and "reads_ok r (ptr_held s) (foos s)"
  shows "rcu_inv (s\<lparr>reader_cnt := n, reader := r\<rparr>)"
proof -
  let ?t = "s\<lparr>reader_cnt := n, reader := r\<rparr>"
  have "waits ?t = waits s" "owned ?t = owned s" "ptr_held ?t = ptr_held s" "lst_held ?t = lst_held s"
    by (simp_all add: waits_def owned_def ptr_held_def lst_held_def)
  moreover have "readers_inside s \<subseteq> readers_inside ?t" using assms(2) by (auto simp: readers_inside_def)
  ultimately show ?thesis using assms(1,3) unfolding rcu_inv_def by (simp, blast)
qed

lemma inv_set_reader_list:
  assumes "rcu_inv s" and "in_section (reader_list s) \<longrightarrow> in_section r"
    and "at_end r \<or> reads_ok r (lst_held s) (foos s)"
  shows "rcu_inv (s\<lparr>reader_list_cnt := n, reader_list := r\<rparr>)"
proof -
  let ?t = "s\<lparr>reader_list_cnt := n, reader_list := r\<rparr>"
  have "waits ?t = waits s" "owned ?t = owned s" "ptr_held ?t = ptr_held s" "lst_held ?t = lst_held s"
    by (simp_all add: waits_def owned_def ptr_held_def lst_held_def)
  moreover have "readers_inside s \<subseteq> readers_inside ?t" using assms(2) by (auto simp: readers_inside_def)
  ultimately show ?thesis using assms(1,3) unfolding rcu_inv_def by (simp, blast)
qed

lemma inv_printed: "rcu_inv s \<Longrightarrow> whole xs \<Longrightarrow> rcu_inv (s\<lparr>printed := printed s @ [xs]\<rparr>)"
  by (auto simp: rcu_state_defs)

lemma l_unlock [simp]:
  "l_owned (sync_without r pc) = l_owned pc"
  "l_ok (sync_without r pc) h m = l_ok pc h m"
  "l_waits (sync_without r pc) = l_waits pc - {r}"
  "r \<noteq> Lst \<Longrightarrow> l_out (sync_without r pc) = l_out pc"
  by (cases pc; auto)+

lemma waits_unlock: "waits (rcu_read_unlock r s) = waits s - {r}"
  by (auto simp: waits_def rcu_read_unlock_def)

lemma owned_unlock: "owned (rcu_read_unlock r s) = owned s"
  by (simp add: owned_def rcu_read_unlock_def)

lemma ptr_held_unlock: "r \<noteq> Ptr \<Longrightarrow> ptr_held (rcu_read_unlock r s) = ptr_held s"
  by (force simp: ptr_held_def rcu_read_unlock_def)

lemma inv_unlock_reader:
  assumes "rcu_inv s"
  shows "rcu_inv (rcu_read_unlock Ptr (s\<lparr>reader := R_sleep\<rparr>))"
proof -
  have "readers_inside (rcu_read_unlock Ptr (s\<lparr>reader := R_sleep\<rparr>)) = readers_inside s - {Ptr}"
    by (auto simp: readers_inside_def rcu_read_unlock_def)
  moreover have "waits (s\<lparr>reader := R_sleep\<rparr>) = waits s" "owned (s\<lparr>reader := R_sleep\<rparr>) = owned s"
    by (simp_all add: waits_def owned_def)
  ultimately show ?thesis using assms
    unfolding rcu_inv_def waits_unlock owned_unlock
    by (auto simp: rcu_read_unlock_def lst_held_def)
qed

lemma inv_unlock_reader_list:
  assumes "rcu_inv s"
  shows "rcu_inv (rcu_read_unlock Lst (s\<lparr>reader_list := R_sleep\<rparr>))"
proof -
  have "readers_inside (rcu_read_unlock Lst (s\<lparr>reader_list := R_sleep\<rparr>)) = readers_inside s - {Lst}"
    by (auto simp: readers_inside_def rcu_read_unlock_def)
  moreover have "waits (s\<lparr>reader_list := R_sleep\<rparr>) = waits s" "owned (s\<lparr>reader_list := R_sleep\<rparr>) = owned s"
    "ptr_held (s\<lparr>reader_list := R_sleep\<rparr>) = ptr_held s"
    by (simp_all add: waits_def owned_def ptr_held_def)
  ultimately show ?thesis using assms ptr_held_unlock [of Lst "s\<lparr>reader_list := R_sleep\<rparr>"]
    unfolding rcu_inv_def waits_unlock owned_unlock
    by (auto simp: rcu_read_unlock_def)
qed

lemma foo_fields_next:
  assumes "xs = take (length xs) (foo_fields v)" and "length xs < 3" and "p \<in> H" and "m p = Some v"
  shows "reads_ok (R_hold p (xs @ [foo_fields v ! length xs])) H m"
proof -
  have "length xs < length (foo_fields v)" using assms(2) by (simp add: foo_fields_def)
  then have "xs @ [foo_fields v ! length xs] = take (length (xs @ [foo_fields v ! length xs])) (foo_fields v)"
    using assms(1) by (simp add: take_Suc_conv_app_nth)
  with assms(3,4) show ?thesis by (auto simp del: length_append)
qed

lemma read_whole:
  assumes "xs = take (length xs) (foo_fields v)" and "\<not> length xs < 3"
  shows "xs = foo_fields v"
  using assms by (simp add: foo_fields_def)

lemma owned_live: "rcu_inv s \<Longrightarrow> p \<in> set (owned s) \<Longrightarrow> \<exists>v. foos s p = Some v"
  by (auto simp: rcu_inv_def memory_ok_def)

lemma current_owned [simp]: "g_pfoo s \<in> set (owned s)" "head_next s \<in> set (owned s)"
  by (simp_all add: owned_def)

lemma reader_inv:
  assumes "rcu_reader s = Some t" and inv: "rcu_inv s"
  shows "rcu_inv t"
proof (cases "reader s")
  case R_sleep
  then show ?thesis using assms(1) inv_set_reader [OF inv, of R_done "reader_cnt s"]
      inv_set_reader [OF inv, of R_locked "reader_cnt s - 1"]
    by (auto simp: rcu_reader.simps split: if_splits)
next
  case R_locked
  obtain v where "foos s (g_pfoo s) = Some v" using owned_live [OF inv] by force
  with R_locked show ?thesis using assms(1) inv_set_reader [OF inv, of "R_hold (g_pfoo s) []" "reader_cnt s"]
    by (auto simp: rcu_reader.simps ptr_held_def)
next
  case (R_hold p xs)
  then obtain v where v: "p \<in> ptr_held s" "foos s p = Some v" "xs = take (length xs) (foo_fields v)"
    using inv by (auto simp: rcu_inv_def)
  show ?thesis
  proof (cases "length xs < 3")
    case True
    with R_hold v(2) show ?thesis
      using assms(1) inv_set_reader [OF inv _ foo_fields_next [where m = "foos s", OF v(3) True v(1,2)], of "reader_cnt s"]
      by (simp add: rcu_reader.simps deref_def)
  next
    case False
    then have "whole xs" using read_whole [OF v(3)] v(2) inv by (simp add: rcu_inv_def wholes_ok_def)
    with False R_hold show ?thesis using assms(1) inv_unlock_reader [OF inv_printed [OF inv]]
      by (auto simp: rcu_reader.simps)
  qed
qed (use assms in \<open>auto simp: rcu_reader.simps\<close>)

text \<open>What the reader of the list may hold is the end of the list or leads to it.\<close>

lemma held_last: "rcu_inv s \<Longrightarrow> p \<in> lst_held s \<Longrightarrow> foos s p = Some v \<Longrightarrow> list_next v = HEAD"
  by (cases "updater_list s") (auto simp: rcu_inv_def lst_held_def list_ok_def last_elem_def split: if_splits)

lemma reader_list_inv:
  assumes "rcu_reader_list s = Some t" and inv: "rcu_inv s"
  shows "rcu_inv t"
proof (cases "reader_list s")
  case R_sleep
  then show ?thesis using assms(1) inv_set_reader_list [OF inv, of R_done "reader_list_cnt s"]
      inv_set_reader_list [OF inv, of R_locked "reader_list_cnt s - 1"]
    by (auto simp: rcu_reader_list.simps split: if_splits)
next
  case R_locked
  obtain v where "foos s (head_next s) = Some v" using owned_live [OF inv] by force
  with R_locked show ?thesis using assms(1) inv_set_reader_list [OF inv, of "R_hold (head_next s) []" "reader_list_cnt s"]
    by (auto simp: rcu_reader_list.simps lst_held_def)
next
  case (R_hold p xs)
  show ?thesis
  proof (cases "p = HEAD")
    case True
    with R_hold show ?thesis using assms(1) inv_unlock_reader_list [OF inv] by (auto simp: rcu_reader_list.simps)
  next
    case p: False
    then obtain v where v: "p \<in> lst_held s" "foos s p = Some v" "xs = take (length xs) (foo_fields v)"
      using inv R_hold by (auto simp: rcu_inv_def)
    show ?thesis
    proof (cases "length xs < 3")
      case True
      with R_hold v(2) p show ?thesis
        using assms(1) inv_set_reader_list [OF inv _ disjI2 [OF foo_fields_next [where m = "foos s", OF v(3) True v(1,2)]],
          of "reader_list_cnt s"]
        by (simp add: rcu_reader_list.simps deref_def)
    next
      case False
      have w: "whole xs" using False read_whole [OF v(3)] v(2) inv by (simp add: rcu_inv_def wholes_ok_def)
      have "list_next v = HEAD" using inv v(1,2) by (rule held_last)
      with False R_hold p v w show ?thesis using assms(1)
          inv_set_reader_list [OF inv_printed [OF inv w], of "R_hold HEAD []" "reader_list_cnt s"]
        by (auto simp: rcu_reader_list.simps deref_def)
    qed
  qed
qed (use assms in \<open>auto simp: rcu_reader_list.simps\<close>)

lemma held_owned: "ptr_held s \<subseteq> set (owned s)" "lst_held s \<subseteq> set (owned s)"
proof -
  have "u_out pc \<subseteq> set (u_owned pc)" for pc by (cases pc) auto
  moreover have "l_out pc \<subseteq> set (l_owned pc)" for pc by (cases pc) auto
  ultimately show "ptr_held s \<subseteq> set (owned s)" "lst_held s \<subseteq> set (owned s)"
    by (force simp: ptr_held_def lst_held_def owned_def)+
qed

lemma reads_ok_mono:
  "reads_ok r H m \<Longrightarrow> (in_section r \<Longrightarrow> H \<subseteq> H') \<Longrightarrow> (\<And>p. p \<in> H \<Longrightarrow> map_option foo_fields (m' p) = map_option foo_fields (m p)) \<Longrightarrow> reads_ok r H' m'"
  by (cases r) (force simp: map_option_case split: option.splits)+

text \<open>
  A step that is not a reader's: what it has to keep. It may take away neither a pointer
  that a reader inside a section may hold nor the object behind it.
\<close>

lemma inv_move:
  assumes inv: "rcu_inv s"
    and "\<not> crashed t" "reader t = reader s" "reader_list t = reader_list s" "printed t = printed s"
    and "memory_ok (owned t) (foos t) (next_addr t)" "wholes_ok (foos t)"
    and "list_ok (foos t) (head_next t) (head_prev t)"
    and "u_ok (updater t) (g_pfoo t)" "l_ok (updater_list t) (head_next t) (foos t)"
    and P: "in_section (reader s) \<Longrightarrow> ptr_held s \<subseteq> ptr_held t"
    and L: "in_section (reader_list s) \<Longrightarrow> lst_held s \<subseteq> lst_held t"
    and keep: "\<And>p. p \<in> ptr_held s \<union> lst_held s \<Longrightarrow>
      map_option foo_fields (foos t p) = map_option foo_fields (foos s p)"
    and W: "waits t \<subseteq> waits s \<union> readers_inside s"
  shows "rcu_inv t"
proof -
  have "readers_inside t = readers_inside s" using assms(3,4) by (simp add: readers_inside_def)
  then have "waits t \<subseteq> readers_inside t" using W inv by (auto simp: rcu_inv_def)
  moreover have "reads_ok (reader t) (ptr_held t) (foos t)"
    unfolding assms(3) by (rule reads_ok_mono [OF _ P]) (use inv keep in \<open>auto simp: rcu_inv_def\<close>)
  moreover have "reads_ok (reader_list t) (lst_held t) (foos t)" if "\<not> at_end (reader_list t)"
    unfolding assms(4) by (rule reads_ok_mono [OF _ L]) (use that inv keep assms(4) in \<open>auto simp: rcu_inv_def\<close>)
  moreover have "\<forall>xs \<in> set (printed t). whole xs" using inv assms(5) by (simp add: rcu_inv_def)
  ultimately show ?thesis using assms(2,6-10) unfolding rcu_inv_def by blast
qed

lemma l_out_owned: "l_out pc \<subseteq> set (l_owned pc)"
  by (cases pc) auto

lemma u_out_owned: "u_out pc \<subseteq> set (u_owned pc)"
  by (cases pc) auto

lemma ptr_held_parts: "ptr_held s \<subseteq> {g_pfoo s} \<union> u_out (updater s) \<union> set (map fst (callbacks s))"
  by (force simp: ptr_held_def)

lemma lst_held_parts: "lst_held s \<subseteq> {head_next s} \<union> set (l_owned (updater_list s))"
  using l_out_owned [of "updater_list s"] by (auto simp: lst_held_def)

lemma memory_ok_alloc:
  assumes "memory_ok (xs @ ys) m n" and "HEAD < n"
  shows "memory_ok (xs @ n # ys) (m(n \<mapsto> v)) (n + 1)"
proof -
  have "n \<notin> set (xs @ ys)" using assms(1) by (auto simp: memory_ok_def)
  moreover have "\<forall>p \<in> set (xs @ ys). HEAD < p \<and> p < n + 1"
    using assms(1) unfolding memory_ok_def by (metis less_SucI Suc_eq_plus1)
  ultimately show ?thesis using assms by (auto simp: memory_ok_def)
qed

lemma memory_ok_perm:
  assumes "memory_ok ps m n" and "mset qs = mset ps"
  shows "memory_ok qs m n"
  using assms mset_eq_setD [OF assms(2)] mset_eq_imp_distinct_iff [OF assms(2)] by (simp add: memory_ok_def)

lemma memory_ok_free:
  assumes "memory_ok (xs @ p # ys) m n"
  shows "memory_ok (xs @ ys) (m(p := None)) n"
  using assms by (auto simp: memory_ok_def)

lemma memory_ok_write:
  assumes "memory_ok ps m n" and "p \<in> set ps"
  shows "memory_ok ps (m(p \<mapsto> v)) n"
  using assms by (auto simp: memory_ok_def)

lemma inv_fresh: "rcu_inv s \<Longrightarrow> p \<in> set (owned s) \<Longrightarrow> HEAD < p \<and> p < next_addr s"
  by (simp add: rcu_inv_def memory_ok_def)

text \<open>A write to an object, or its release, outside what the other facts are about.\<close>

lemma wholes_ok_upd: "wholes_ok m \<Longrightarrow> whole (foo_fields v) \<Longrightarrow> wholes_ok (m(p \<mapsto> v))"
  by (auto simp: wholes_ok_def)

lemma wholes_ok_free: "wholes_ok m \<Longrightarrow> wholes_ok (m(p := None))"
  by (auto simp: wholes_ok_def)

lemma list_ok_upd: "list_ok m hn hp \<Longrightarrow> p \<noteq> hn \<Longrightarrow> list_ok (m(p := v)) hn hp"
  by (auto simp: list_ok_def)

lemma l_ok_upd: "l_ok pc h m \<Longrightarrow> p \<notin> set (l_owned pc) \<Longrightarrow> l_ok pc h (m(p := v))"
  by (cases pc) (auto simp: last_elem_def)

lemma whole_zero: "whole (foo_fields zero_foo)"
  by (simp add: whole_def foo_fields_def zero_foo_def)

lemma whole_value: "whole (foo_fields (v\<lparr>foo_a := n, foo_b := n + 1, foo_c := n + 2\<rparr>))"
  by (simp add: whole_def foo_fields_def)

lemma updater_inv:
  assumes "rcu_updater True s = Some t" and inv: "rcu_inv s"
  shows "rcu_inv t"
proof -
  note parts = inv [unfolded rcu_inv_def]
  show ?thesis
  proof (cases "updater s")
    case U_top
    show ?thesis
    proof (cases "updater_cnt s = 0")
      case True
      with U_top assms(1) have t: "t = s\<lparr>updater := U_done\<rparr>" by (simp add: rcu_updater.simps)
      show ?thesis unfolding t by (rule inv_move [OF inv])
        (use parts U_top in \<open>auto simp: owned_def ptr_held_def lst_held_def waits_def\<close>)
    next
      case False
      let ?n = "next_addr s"
      from False U_top assms(1) have t: "t = s\<lparr>updater_cnt := updater_cnt s - 1,
          foos := (foos s)(?n \<mapsto> zero_foo), next_addr := ?n + 1, updater := U_alloc ?n\<rparr>"
        by (simp add: rcu_updater.simps kzalloc_def)
      have new: "p \<noteq> ?n" if "p \<in> set (owned s)" for p using inv_fresh [OF inv that] by simp
      have "memory_ok (owned t) (foos t) (next_addr t)"
        using memory_ok_alloc [of "[g_pfoo s, head_next s]"] parts U_top inv_fresh [OF inv current_owned(1)]
        unfolding t by (simp add: owned_def)
      moreover have "?n \<noteq> head_next s" "?n \<notin> set (l_owned (updater_list s))"
        using new by (auto simp: owned_def)
      moreover have "ptr_held t = ptr_held s" "lst_held t = lst_held s" "waits t = waits s"
        unfolding t using U_top by (simp_all add: ptr_held_def lst_held_def waits_def)
      moreover have "foos t p = foos s p" if "p \<in> ptr_held s \<union> lst_held s" for p
        using held_owned [of s] new that unfolding t by auto
      ultimately show ?thesis unfolding t
        by (intro inv_move [OF inv])
          (use parts in \<open>simp_all add: wholes_ok_upd list_ok_upd l_ok_upd whole_zero\<close>)
    qed
  next
    case (U_alloc new)
    with assms(1) have t: "t = s\<lparr>updater := U_old new (g_pfoo s)\<rparr>" by (simp add: rcu_updater.simps)
    show ?thesis unfolding t by (rule inv_move [OF inv])
      (use parts U_alloc in \<open>auto simp: owned_def ptr_held_def lst_held_def waits_def\<close>)
  next
    case (U_old new old)
    obtain v w where v: "foos s (g_pfoo s) = Some v" "foos s new = Some w"
      using owned_live [OF inv] U_old by (force simp: owned_def)
    let ?v = "v\<lparr>foo_a := updater_value s, foo_b := updater_value s + 1, foo_c := updater_value s + 2\<rparr>"
    from v U_old assms(1) have t: "t = s\<lparr>foos := (foos s)(new \<mapsto> ?v), updater := U_copied new old\<rparr>"
      by (simp add: rcu_updater.simps deref_def)
    have "memory_ok (owned t) (foos t) (next_addr t)"
      using memory_ok_write [of "owned s" _ _ new] parts U_old unfolding t by (simp add: owned_def)
    moreover have new: "new \<notin> ptr_held s \<union> lst_held s" "new \<noteq> head_next s" "new \<notin> set (l_owned (updater_list s))"
      using ptr_held_parts [of s] lst_held_parts [of s] parts U_old
      by (auto simp: memory_ok_def owned_def)
    moreover have "ptr_held t = ptr_held s" "lst_held t = lst_held s" "waits t = waits s"
      unfolding t using U_old by (simp_all add: ptr_held_def lst_held_def waits_def)
    moreover have "foos t p = foos s p" if "p \<in> ptr_held s \<union> lst_held s" for p
      using new(1) that unfolding t by auto
    ultimately show ?thesis unfolding t
      by (intro inv_move [OF inv])
        (use parts U_old in \<open>simp_all add: wholes_ok_upd list_ok_upd l_ok_upd whole_value\<close>)
  next
    case (U_copied new old)
    with assms(1) have t: "t = s\<lparr>g_pfoo := new, updater := U_assigned new old\<rparr>" by (simp add: rcu_updater.simps)
    have "memory_ok (owned t) (foos t) (next_addr t)" unfolding t
      by (rule memory_ok_perm [of "owned s"]) (use parts U_copied in \<open>simp_all add: owned_def\<close>)
    then show ?thesis unfolding t
      by (intro inv_move [OF inv]) (use parts U_copied in \<open>auto simp: ptr_held_def lst_held_def waits_def\<close>)
  next
    case (U_assigned new old)
    then have t: "t = s\<lparr>updater := U_printed new old\<rparr>"
      using assms(1) owned_live [OF inv, of new] parts by (auto simp: rcu_updater.simps deref_def owned_def)
    show ?thesis unfolding t by (rule inv_move [OF inv])
      (use parts U_assigned in \<open>auto simp: owned_def ptr_held_def lst_held_def waits_def\<close>)
  next
    case (U_printed new old)
    then have t: "t = s\<lparr>callbacks := callbacks s @ [(old, readers_inside s)],
            updater_value := updater_value s + 1, updater := U_top\<rparr>"
      using assms(1) owned_live [OF inv, of old] by (auto simp: rcu_updater.simps deref_def owned_def)
    have "memory_ok (owned t) (foos t) (next_addr t)" unfolding t
      by (rule memory_ok_perm [of "owned s"]) (use parts U_printed in \<open>simp_all add: owned_def\<close>)
    moreover have "lst_held t = lst_held s" "waits t \<subseteq> waits s \<union> readers_inside s"
      unfolding t using U_printed by (auto simp: lst_held_def waits_def)
    moreover have "ptr_held s \<subseteq> ptr_held t" if "in_section (reader s)"
      unfolding t using U_printed that by (auto simp: ptr_held_def readers_inside_def)
    ultimately show ?thesis unfolding t by (intro inv_move [OF inv]) (use parts in simp_all)
  qed (use assms in \<open>auto simp: rcu_updater.simps\<close>)
qed

lemma replace_elem:
  assumes "foos s p = Some v" "list_next v = HEAD" "list_prev v = HEAD" "foos s q = Some w" "p \<noteq> HEAD" "q \<noteq> HEAD" "p \<noteq> q"
  shows "list_replace_rcu p q s = s\<lparr>foos := (foos s)(q \<mapsto> w\<lparr>list_next := HEAD, list_prev := HEAD\<rparr>, p \<mapsto> v\<lparr>list_prev := NULL\<rparr>),
    head_next := q, head_prev := q\<rparr>"
  using assms by (simp add: list_replace_rcu_def deref_def set_next_def set_prev_def Let_def)

lemma foo_fields_links [simp]:
  "foo_fields (v\<lparr>list_next := n\<rparr>) = foo_fields v" "foo_fields (v\<lparr>list_prev := n\<rparr>) = foo_fields v"
  by (simp_all add: foo_fields_def)

lemma updater_list_inv:
  assumes "rcu_updater_list True s = Some t" and inv: "rcu_inv s"
  shows "rcu_inv t"
proof -
  note parts = inv [unfolded rcu_inv_def]
  show ?thesis
  proof (cases "updater_list s")
    case L_top
    have h: "head_next s \<noteq> HEAD" using inv_fresh [OF inv current_owned(2)] by simp
    show ?thesis
    proof (cases "updater_list_cnt s = 0")
      case True
      with L_top assms(1) have t: "t = s\<lparr>updater_list := L_done\<rparr>" by (simp add: rcu_updater_list.simps)
      show ?thesis unfolding t by (rule inv_move [OF inv])
        (use parts L_top in \<open>auto simp: owned_def ptr_held_def lst_held_def waits_def\<close>)
    next
      case False
      with L_top assms(1) h have t: "t = s\<lparr>updater_list_cnt := updater_list_cnt s - 1, updater_list := L_first (head_next s)\<rparr>"
        by (simp add: rcu_updater_list.simps list_first_or_null_rcu_def)
      show ?thesis unfolding t by (rule inv_move [OF inv])
        (use parts L_top in \<open>auto simp: owned_def ptr_held_def lst_held_def waits_def\<close>)
    qed
  next
    case (L_first p)
    let ?n = "next_addr s"
    from L_first assms(1) have t: "t = s\<lparr>foos := (foos s)(?n \<mapsto> zero_foo), next_addr := ?n + 1, updater_list := L_alloc p ?n\<rparr>"
      by (simp add: rcu_updater_list.simps kzalloc_def)
    have new: "p \<noteq> ?n" if "p \<in> set (owned s)" for p using inv_fresh [OF inv that] by simp
    have "memory_ok (owned t) (foos t) (next_addr t)"
      using memory_ok_alloc [of "[g_pfoo s, head_next s] @ u_owned (updater s)"] parts L_first
        inv_fresh [OF inv current_owned(1)]
      unfolding t by (simp add: owned_def)
    moreover have "?n \<noteq> head_next s" using new [OF current_owned(2)] by simp
    moreover have "ptr_held t = ptr_held s" "lst_held t = lst_held s" "waits t = waits s"
      unfolding t using L_first by (simp_all add: ptr_held_def lst_held_def waits_def)
    moreover have "foos t p = foos s p" if "p \<in> ptr_held s \<union> lst_held s" for p
      using held_owned [of s] new that unfolding t by auto
    ultimately show ?thesis unfolding t
      by (intro inv_move [OF inv])
        (use parts L_first in \<open>simp_all add: wholes_ok_upd list_ok_upd whole_zero\<close>)
  next
    case (L_alloc p q)
    obtain v w where v: "foos s p = Some v" "foos s q = Some w"
      using owned_live [OF inv] L_alloc parts by (force simp: owned_def)
    let ?v = "v\<lparr>foo_a := updater_list_value s, foo_b := updater_list_value s + 1, foo_c := updater_list_value s + 2\<rparr>"
    from v L_alloc assms(1) have t: "t = s\<lparr>foos := (foos s)(q \<mapsto> ?v), updater_list := L_copied p q\<rparr>"
      by (simp add: rcu_updater_list.simps deref_def)
    have "memory_ok (owned t) (foos t) (next_addr t)"
      using memory_ok_write [of "owned s" _ _ q] parts L_alloc unfolding t by (simp add: owned_def)
    moreover have "q \<notin> ptr_held s" "q \<noteq> head_next s"
      using ptr_held_parts [of s] u_out_owned [of "updater s"] parts L_alloc
      by (auto simp: memory_ok_def owned_def)
    moreover from this(2) have "q \<notin> lst_held s" using L_alloc by (simp add: lst_held_def)
    moreover have "ptr_held t = ptr_held s" "lst_held t = lst_held s" "waits t = waits s"
      unfolding t using L_alloc by (simp_all add: ptr_held_def lst_held_def waits_def)
    moreover from calculation have "foos t p = foos s p" if "p \<in> ptr_held s \<union> lst_held s" for p
      using that unfolding t by auto
    ultimately show ?thesis unfolding t
      by (intro inv_move [OF inv])
        (use parts L_alloc in \<open>simp_all add: wholes_ok_upd list_ok_upd whole_value\<close>)
  next
    case (L_copied p q)
    have p: "p = head_next s" using parts L_copied by simp
    then obtain v where v: "foos s p = Some v" "list_next v = HEAD" "list_prev v = HEAD"
      using parts by (auto simp: list_ok_def)
    obtain w where w: "foos s q = Some w" using owned_live [OF inv, of q] L_copied by (auto simp: owned_def)
    have ne: "p \<noteq> HEAD" "q \<noteq> HEAD" "p \<noteq> q"
      using inv_fresh [OF inv, of p] inv_fresh [OF inv, of q] p parts L_copied by (auto simp: owned_def memory_ok_def)
    let ?m = "(foos s)(q \<mapsto> w\<lparr>list_next := HEAD, list_prev := HEAD\<rparr>, p \<mapsto> v\<lparr>list_prev := NULL\<rparr>)"
    from L_copied assms(1) have t: "t = s\<lparr>foos := ?m, head_next := q, head_prev := q, updater_list := L_replaced p q\<rparr>"
      using replace_elem [of s p v q w] v w ne by (simp add: rcu_updater_list.simps)
    have "memory_ok (owned s) ?m (next_addr s)"
      using memory_ok_write [OF memory_ok_write [of "owned s" _ _ q]] parts p L_copied by (simp add: owned_def)
    then have "memory_ok (owned t) (foos t) (next_addr t)"
      using p L_copied unfolding t by (auto intro: memory_ok_perm simp: owned_def)
    moreover have "whole (foo_fields v)" "whole (foo_fields w)" using parts v w by (auto simp: wholes_ok_def)
    moreover have "ptr_held t = ptr_held s" "lst_held s \<subseteq> lst_held t" "waits t = waits s"
      unfolding t using L_copied p by (auto simp: ptr_held_def lst_held_def waits_def)
    moreover have "map_option foo_fields (foos t r) = map_option foo_fields (foos s r)" for r
      unfolding t using v(1) w by simp
    ultimately show ?thesis unfolding t
      by (intro inv_move [OF inv])
        (use parts ne v in \<open>simp_all add: wholes_ok_upd list_ok_def last_elem_def\<close>)
  next
    case (L_replaced p q)
    then have t: "t = s\<lparr>updater_list := L_printed p q\<rparr>"
      using assms(1) owned_live [OF inv, of q] parts by (auto simp: rcu_updater_list.simps deref_def owned_def)
    show ?thesis unfolding t by (rule inv_move [OF inv])
      (use parts L_replaced in \<open>auto simp: owned_def ptr_held_def lst_held_def waits_def\<close>)
  next
    case (L_printed p q)
    then have t: "t = s\<lparr>updater_list := L_sync p (readers_inside s)\<rparr>"
      using assms(1) by (simp add: rcu_updater_list.simps)
    have "ptr_held t = ptr_held s" "waits t \<subseteq> waits s \<union> readers_inside s" "owned t = owned s"
      unfolding t using L_printed by (auto simp: ptr_held_def waits_def owned_def)
    moreover have "lst_held s \<subseteq> lst_held t" if "in_section (reader_list s)"
      unfolding t using L_printed that by (auto simp: lst_held_def readers_inside_def)
    ultimately show ?thesis unfolding t
      by (intro inv_move [OF inv]) (use parts L_printed in simp_all)
  next
    case (L_sync p W)
    then have W: "W = {}" using assms(1) by (auto simp: rcu_updater_list.simps split: if_splits)
    have "foos s p \<noteq> None" "p \<noteq> NULL" using owned_live [OF inv, of p] inv_fresh [OF inv, of p] L_sync by (auto simp: owned_def)
    then have t: "t = s\<lparr>foos := (foos s)(p := None), updater_list_value := updater_list_value s + 1, updater_list := L_top\<rparr>"
      using assms(1) L_sync W by (auto simp: rcu_updater_list.simps kfree_def deref_def)
    have "memory_ok (owned t) (foos t) (next_addr t)"
      using memory_ok_free [of "[g_pfoo s, head_next s] @ u_owned (updater s)" p] parts L_sync
      unfolding t by (simp add: owned_def)
    moreover have "p \<notin> ptr_held s" "p \<noteq> head_next s"
      using ptr_held_parts [of s] u_out_owned [of "updater s"] parts L_sync
      by (auto simp: memory_ok_def owned_def)
    moreover from this(2) have "p \<notin> lst_held s" using L_sync W by (simp add: lst_held_def)
    moreover have "ptr_held t = ptr_held s" "lst_held t = lst_held s" "waits t = waits s"
      unfolding t using L_sync W by (simp_all add: ptr_held_def lst_held_def waits_def)
    moreover from calculation have "foos t r = foos s r" if "r \<in> ptr_held s \<union> lst_held s" for r
      using that unfolding t by auto
    ultimately show ?thesis unfolding t
      by (intro inv_move [OF inv]) (use parts L_sync in \<open>simp_all add: wholes_ok_free list_ok_upd\<close>)
  qed (use assms in \<open>auto simp: rcu_updater_list.simps\<close>)
qed

lemma reclaimer_inv:
  assumes "rcu_reclaimer i s = Some t" and inv: "rcu_inv s"
  shows "rcu_inv t"
proof -
  note parts = inv [unfolded rcu_inv_def]
  obtain p where i: "i < length (callbacks s)" and p: "callbacks s ! i = (p, {})"
    using assms(1) by (cases "callbacks s ! i") (auto simp: rcu_reclaimer_def split: if_splits)
  let ?cs = "take i (callbacks s)" and ?ds = "drop (i + 1) (callbacks s)"
  have cs: "callbacks s = ?cs @ (p, {}) # ?ds" using id_take_nth_drop [OF i] p by simp
  have "p \<in> set (owned s)" by (simp add: owned_def) (metis cs fst_conv image_eqI in_set_conv_decomp)
  then have "foos s p \<noteq> None" "p \<noteq> NULL" using owned_live [OF inv, of p] inv_fresh [OF inv, of p] by auto
  then have t: "t = s\<lparr>foos := (foos s)(p := None), callbacks := ?cs @ ?ds\<rparr>"
    using assms(1) i p by (auto simp: rcu_reclaimer_def kfree_def deref_def)
  have o: "owned s = ([g_pfoo s, head_next s] @ u_owned (updater s) @ l_owned (updater_list s) @ map fst ?cs)
      @ p # map fst ?ds"
    unfolding owned_def by (subst cs) simp
  have notin: "p \<notin> set ([g_pfoo s, head_next s] @ u_owned (updater s) @ l_owned (updater_list s) @ map fst ?cs @ map fst ?ds)"
    using parts unfolding o memory_ok_def by auto
  have "memory_ok (owned t) (foos t) (next_addr t)"
    using memory_ok_free [OF parts [THEN conjunct2, THEN conjunct1, unfolded o]] unfolding t by (simp add: owned_def)
  moreover have "ptr_held t = ptr_held s" unfolding ptr_held_def t by (subst (2) cs) auto
  moreover from this have "p \<notin> ptr_held s"
    using ptr_held_parts [of t] u_out_owned [of "updater s"] notin unfolding t by auto
  moreover have "p \<notin> lst_held s" using lst_held_parts [of s] notin by auto
  moreover have "lst_held t = lst_held s" unfolding t by (simp add: lst_held_def)
  moreover have "waits t = waits s" unfolding waits_def t by (subst (2) cs) auto
  moreover from calculation have "foos t r = foos s r" if "r \<in> ptr_held s \<union> lst_held s" for r
    using that unfolding t by auto
  ultimately show ?thesis unfolding t
    by (intro inv_move [OF inv]) (use parts notin in \<open>simp_all add: wholes_ok_free list_ok_upd l_ok_upd\<close>)
qed

lemma perform_inv:
  assumes "thread_action a" and "perform a s = Some t" and "rcu_inv s"
  shows "rcu_inv t"
  using assms by (cases a) (auto split: if_splits
    intro: reader_inv updater_inv reader_list_inv updater_list_inv reclaimer_inv)

interpretation rcu: inv_system "\<lambda>s. s = loaded_module" rcu_step rcu_inv
  by unfold_locales (auto simp: loaded_inv elim!: rcu_step.cases intro: perform_inv)


section \<open>The end of a run\<close>

text \<open>How many steps are left; a callback is one.\<close>

fun reader_rank :: "reader_pc \<Rightarrow> nat" where
  "reader_rank R_sleep = 1"
| "reader_rank R_locked = 7"
| "reader_rank (R_hold p xs) = (if p = HEAD then 2 else 6 - length xs)"
| "reader_rank _ = 0"

fun updater_rank :: "updater_pc \<Rightarrow> nat" where
  "updater_rank U_top = 1"
| "updater_rank (U_alloc new) = 7"
| "updater_rank (U_old new old) = 6"
| "updater_rank (U_copied new old) = 5"
| "updater_rank (U_assigned new old) = 4"
| "updater_rank (U_printed new old) = 3"
| "updater_rank _ = 0"

fun list_rank :: "list_pc \<Rightarrow> nat" where
  "list_rank L_top = 1"
| "list_rank (L_first p) = 7"
| "list_rank (L_alloc p q) = 6"
| "list_rank (L_copied p q) = 5"
| "list_rank (L_replaced p q) = 4"
| "list_rank (L_printed p q) = 3"
| "list_rank (L_sync p W) = 2"
| "list_rank _ = 0"

definition steps_left :: "rcu \<Rightarrow> nat" where
  "steps_left s = 7 * reader_cnt s + reader_rank (reader s)
     + (7 * reader_list_cnt s + reader_rank (reader_list s))
     + (7 * updater_cnt s + updater_rank (updater s))
     + (7 * updater_list_cnt s + list_rank (updater_list s)) + length (callbacks s)"

lemma list_rank_unlock [simp]: "list_rank (sync_without r pc) = list_rank pc"
  by (cases pc) auto

definition started :: "rcu \<Rightarrow> bool" where
  "started s \<longleftrightarrow> reader s \<noteq> R_new \<and> reader_list s \<noteq> R_new \<and> updater s \<noteq> U_new \<and> updater_list s \<noteq> L_new"

definition finished :: "rcu \<Rightarrow> bool" where
  "finished s \<longleftrightarrow> reader s = R_done \<and> reader_list s = R_done \<and> updater s = U_done \<and> updater_list s = L_done
     \<and> callbacks s = []"

lemma reads_length: "reads_ok (R_hold p xs) H m \<Longrightarrow> length xs \<le> 3"
proof -
  assume "reads_ok (R_hold p xs) H m"
  then obtain v where "xs = take (length xs) (foo_fields v)" by auto
  then have "length xs \<le> length (foo_fields v)" by (metis length_take min.cobounded1 min.commute)
  then show ?thesis by (simp add: foo_fields_def)
qed

lemma reader_decreases:
  assumes "rcu_reader s = Some t" and inv: "rcu_inv s"
  shows "steps_left t < steps_left s"
proof (cases "reader s")
  case (R_hold p xs)
  then have r: "reads_ok (R_hold p xs) (ptr_held s) (foos s)" using inv by (simp add: rcu_inv_def)
  then have p: "p \<in> set (owned s)" using held_owned(1) [of s] by auto
  have "length xs \<le> 3" using r by (rule reads_length)
  moreover have "p \<noteq> HEAD" using inv_fresh [OF inv p] by simp
  moreover obtain v where "foos s p = Some v" using owned_live [OF inv p] by auto
  ultimately show ?thesis using assms(1) R_hold
    by (auto simp: rcu_reader.simps deref_def steps_left_def rcu_read_unlock_def split: if_splits)
next
  case R_locked
  have "g_pfoo s \<noteq> HEAD" using inv_fresh [OF inv current_owned(1)] by simp
  with R_locked assms(1) show ?thesis by (auto simp: rcu_reader.simps steps_left_def)
qed (use assms in \<open>auto simp: rcu_reader.simps steps_left_def split: if_splits\<close>)

lemma reader_list_decreases:
  assumes "rcu_reader_list s = Some t" and inv: "rcu_inv s"
  shows "steps_left t < steps_left s"
proof (cases "reader_list s")
  case (R_hold p xs)
  show ?thesis
  proof (cases "p = HEAD")
    case True
    with R_hold assms(1) show ?thesis
      by (auto simp: rcu_reader_list.simps steps_left_def rcu_read_unlock_def)
  next
    case False
    then have r: "reads_ok (R_hold p xs) (lst_held s) (foos s)" using inv R_hold by (simp add: rcu_inv_def)
    then have p: "p \<in> lst_held s" "length xs \<le> 3" using reads_length by auto
    then obtain v where v: "foos s p = Some v" using owned_live [OF inv] held_owned(2) [of s] by auto
    have "list_next v = HEAD" using inv p(1) v by (rule held_last)
    with False v p(2) R_hold assms(1) show ?thesis
      by (auto simp: rcu_reader_list.simps deref_def steps_left_def split: if_splits)
  qed
next
  case R_locked
  have "head_next s \<noteq> HEAD" using inv_fresh [OF inv current_owned(2)] by simp
  with R_locked assms(1) show ?thesis by (auto simp: rcu_reader_list.simps steps_left_def)
qed (use assms in \<open>auto simp: rcu_reader_list.simps steps_left_def split: if_splits\<close>)


lemma updater_decreases:
  assumes "rcu_updater True s = Some t" and "rcu_inv s"
  shows "steps_left t < steps_left s"
proof -
  have "\<not> crashed t" using updater_inv [OF assms] by (simp add: rcu_inv_def)
  with assms(1) show ?thesis
    by (cases "updater s")
      (auto simp: rcu_updater.simps steps_left_def kzalloc_def deref_def split: if_splits option.splits)
qed

lemma set_links_frame:
  "steps_left (set_next p n s) = steps_left s" "steps_left (set_prev p n s) = steps_left s"
  "reader (set_next p n s) = reader s" "reader (set_prev p n s) = reader s"
  "reader_list (set_next p n s) = reader_list s" "reader_list (set_prev p n s) = reader_list s"
  "updater (set_next p n s) = updater s" "updater (set_prev p n s) = updater s"
  "updater_list (set_next p n s) = updater_list s" "updater_list (set_prev p n s) = updater_list s"
  by (simp_all add: set_next_def set_prev_def deref_def steps_left_def split: option.splits)

lemma list_replace_frame:
  "steps_left (list_replace_rcu p q s) = steps_left s"
  "reader (list_replace_rcu p q s) = reader s" "reader_list (list_replace_rcu p q s) = reader_list s"
  "updater (list_replace_rcu p q s) = updater s" "updater_list (list_replace_rcu p q s) = updater_list s"
  by (simp_all add: list_replace_rcu_def deref_def Let_def set_links_frame split: option.splits)
    (simp add: steps_left_def)

lemma steps_left_list:
  "steps_left (s\<lparr>updater_list := pc\<rparr>) + list_rank (updater_list s) = steps_left s + list_rank pc"
  by (simp add: steps_left_def)

lemma updater_list_decreases:
  assumes "rcu_updater_list True s = Some t" and "rcu_inv s"
  shows "steps_left t < steps_left s"
proof (cases "updater_list s")
  case (L_copied p q)
  with assms(1) have t: "t = (list_replace_rcu p q s)\<lparr>updater_list := L_replaced p q\<rparr>"
    by (simp add: rcu_updater_list.simps)
  show ?thesis using steps_left_list [where s = "list_replace_rcu p q s" and pc = "L_replaced p q"] L_copied
    unfolding t by (simp add: list_replace_frame)
qed (use assms(1) updater_list_inv [OF assms] in \<open>auto simp: rcu_updater_list.simps steps_left_def kzalloc_def
    kfree_def deref_def rcu_inv_def split: if_splits option.splits\<close>)

lemma reclaimer_decreases:
  assumes "rcu_reclaimer i s = Some t" and "rcu_inv s"
  shows "steps_left t < steps_left s"
proof -
  have "\<not> crashed t" using reclaimer_inv [OF assms] by (simp add: rcu_inv_def)
  with assms(1) show ?thesis
    by (auto simp: rcu_reclaimer_def steps_left_def kfree_def deref_def split: if_splits option.splits)
qed

lemma step_decreases:
  assumes "rcu_step s t" and "rcu_inv s"
  shows "steps_left t < steps_left s"
  using assms(1)
proof cases
  case (rcu_stepI a)
  then show ?thesis using assms(2)
    by (cases a) (auto split: if_splits intro: reader_decreases updater_decreases reader_list_decreases
      updater_list_decreases reclaimer_decreases)
qed

text \<open>The threads have been started, and stay so.\<close>

lemma unlock_started [simp]: "sync_without r pc = L_new \<longleftrightarrow> pc = L_new"
  by (cases pc) auto

lemma step_started:
  assumes "rcu_step s t" and "started s" and "rcu_inv s"
  shows "started t"
  using assms(1)
proof cases
  case (rcu_stepI a)
  have "\<not> crashed s" using assms(3) by (simp add: rcu_inv_def)
  moreover have "\<not> crashed t" using perform_inv [OF rcu_stepI assms(3)] by (simp add: rcu_inv_def)
  ultimately show ?thesis using rcu_stepI assms(2)
    by (cases a) (auto simp: started_def rcu_reader.simps rcu_reader_list.simps rcu_reclaimer_def kfree_def
        rcu_updater.simps rcu_updater_list.simps kzalloc_def Let_def list_replace_frame
        deref_def rcu_read_unlock_def
        split: reader_pc.splits updater_pc.splits list_pc.splits if_splits option.splits)
qed

lemma reader_enabled: "reader s \<noteq> R_new \<Longrightarrow> reader s \<noteq> R_done \<Longrightarrow> \<exists>t. rcu_reader s = Some t"
  by (cases "reader s") (auto simp: rcu_reader.simps)

lemma reader_list_enabled: "reader_list s \<noteq> R_new \<Longrightarrow> reader_list s \<noteq> R_done \<Longrightarrow> \<exists>t. rcu_reader_list s = Some t"
  by (cases "reader_list s") (auto simp: rcu_reader_list.simps)

lemma updater_enabled: "updater s \<noteq> U_new \<Longrightarrow> updater s \<noteq> U_done \<Longrightarrow> \<exists>t. rcu_updater ok s = Some t"
  by (cases "updater s") (auto simp: rcu_updater.simps split: prod.splits)

lemma updater_list_enabled:
  "updater_list s \<noteq> L_new \<Longrightarrow> updater_list s \<noteq> L_done \<Longrightarrow> l_waits (updater_list s) = {} \<Longrightarrow> \<exists>t. rcu_updater_list ok s = Some t"
  by (cases "updater_list s") (auto simp: rcu_updater_list.simps split: prod.splits)

lemma not_stuck:
  assumes inv: "rcu_inv s" and "started s" and "\<not> finished s"
  shows "\<exists>t. rcu_step s t"
proof (rule ccontr)
  assume stuck: "\<nexists>t. rcu_step s t"
  have none: "perform a s = None" if "thread_action a" for a
    using stuck that by (metis not_None_eq rcu_step.rcu_stepI)
  have "\<not> crashed s" using inv by (simp add: rcu_inv_def)
  note act = none [of Reader] none [of ReaderList] none [of "Updater True"] none [of "UpdaterList True"]
  have r: "reader s = R_done" "reader_list s = R_done" "updater s = U_done"
    using act \<open>\<not> crashed s\<close> assms(2) reader_enabled [of s] reader_list_enabled [of s] updater_enabled [of s True]
    by (auto simp: started_def)
  then have W: "waits s = {}" using inv by (auto simp: rcu_inv_def readers_inside_def)
  then have "updater_list s = L_done"
    using act \<open>\<not> crashed s\<close> assms(2) updater_list_enabled [of s True] by (auto simp: started_def waits_def)
  moreover have "callbacks s = []"
  proof (rule ccontr)
    assume ne: "callbacks s \<noteq> []"
    then have "snd (callbacks s ! 0) = {}" using W by (cases "callbacks s") (auto simp: waits_def)
    then have "rcu_reclaimer 0 s \<noteq> None" using ne by (simp add: rcu_reclaimer_def)
    with none [of "Reclaim 0"] \<open>\<not> crashed s\<close> show False by simp
  qed
  ultimately show False using r assms(3) by (simp add: finished_def)
qed

lemma runs_finish:
  assumes "rcu_inv s" and "started s"
  shows "\<exists>t. rcu_step\<^sup>*\<^sup>* s t \<and> finished t \<and> rcu_inv t"
  using assms
proof (induction "steps_left s" arbitrary: s rule: less_induct)
  case less
  show ?case
  proof (cases "finished s")
    case True
    with less.prems show ?thesis by blast
  next
    case False
    with not_stuck less.prems obtain t where t: "rcu_step s t" by blast
    have "rcu_inv t" using rcu.inv_step [OF less.prems(1) t] .
    with less.hyps [OF step_decreases [OF t less.prems(1)]] step_started [OF t less.prems(2,1)]
    obtain u where "rcu_step\<^sup>*\<^sup>* t u" "finished u" "rcu_inv u" by blast
    with t show ?thesis by (meson converse_rtranclp_into_rtranclp)
  qed
qed

lemma reach_started: "reach (\<lambda>s. s = loaded_module) rcu_step s \<Longrightarrow> started s"
proof (induction rule: reach.induct)
  case (reach_start s)
  then show ?case by (simp add: started_def loaded_module_def)
next
  case (reach_step s t)
  then show ?case using step_started rcu.reach_inv by blast
qed

lemma run_length: "(rcu_step ^^ n) s t \<Longrightarrow> rcu_inv s \<Longrightarrow> n + steps_left t \<le> steps_left s \<and> rcu_inv t"
proof (induction n arbitrary: t)
  case (Suc n)
  then obtain u where u: "(rcu_step ^^ n) s u" "rcu_step u t" by auto
  with Suc have "n + steps_left u \<le> steps_left s" "rcu_inv u" by blast+
  with step_decreases [OF u(2)] rcu.inv_step [OF _ u(2)] show ?case by auto
qed simp


section \<open>Properties\<close>

text \<open>
  C2. Readers need no lock: in every interleaving of the four threads and the callbacks, no
  access goes to memory that is not allocated, every object a reader printed is the object
  before or after one update and never a mixture, and every object in memory has exactly
  one owner.
\<close>

theorem rcu_readers_safe:
  assumes "reach (\<lambda>s. s = loaded_module) rcu_step s"
  shows "\<not> crashed s \<and> (\<forall>xs \<in> set (printed s). whole xs) \<and> distinct (owned s) \<and> dom (foos s) = set (owned s)"
  using rcu.reach_inv [OF assms] by (simp add: rcu_inv_def memory_ok_def)

text \<open>
  C7. The threads never block each other for good: from every state of a run the run can be
  continued to its end, in which the threads have returned, every callback has run and
  only the current object and the element of the list are in memory. No run has more than
  2804 steps.
\<close>

theorem rcu_runs_finish:
  assumes "reach (\<lambda>s. s = loaded_module) rcu_step s"
  shows "(\<exists>t. rcu_step\<^sup>*\<^sup>* s t \<and> finished t) \<and> (\<not> finished s \<longrightarrow> (\<exists>t. rcu_step s t))
    \<and> (finished s \<longrightarrow> dom (foos s) = {g_pfoo s, head_next s} \<and> crashed s = False)
    \<and> (\<forall>n t. (rcu_step ^^ n) loaded_module t \<longrightarrow> n \<le> 2804)"
proof (intro conjI impI allI)
  note inv = rcu.reach_inv [OF assms] and st = reach_started [OF assms]
  show "\<exists>t. rcu_step\<^sup>*\<^sup>* s t \<and> finished t" using runs_finish [OF inv st] by blast
  show "\<exists>t. rcu_step s t" if "\<not> finished s" using not_stuck [OF inv st that] .
  show "dom (foos s) = {g_pfoo s, head_next s}" "crashed s = False" if "finished s"
    using inv that by (auto simp: rcu_inv_def memory_ok_def owned_def finished_def)
  show "n \<le> 2804" if "(rcu_step ^^ n) loaded_module t" for n t
    using run_length [OF that loaded_inv] by (simp add: steps_left_def loaded_module_def unloaded_module_def)
qed

text \<open>The first update and a reader that still holds the object it replaces.\<close>

definition first_update :: "action list" where
  "first_update = [Reader, Reader, Updater True, Updater True, Updater True, Updater True, Updater True,
     Updater True, Reader, Reader, Reader, Reader, Reclaim 0]"

lemma interleave_reach:
  "interleave as s = Some t \<Longrightarrow> list_all thread_action as
    \<Longrightarrow> reach (\<lambda>s. s = loaded_module) rcu_step s \<Longrightarrow> reach (\<lambda>s. s = loaded_module) rcu_step t"
proof (induction as arbitrary: s)
  case (Cons a as)
  then obtain u where u: "perform a s = Some u" "interleave as u = Some t" by (auto split: option.splits)
  have "rcu_step s u" by (rule rcu_stepI) (use Cons.prems u in auto)
  with Cons.prems u(2) show ?case by (intro Cons.IH [of u]) (auto intro: reach_step)
qed simp

lemmas run_simps = loaded_module_def unloaded_module_def kzalloc_def deref_def kfree_def rcu_read_unlock_def
  rcu_reader.simps rcu_updater.simps rcu_reader_list.simps rcu_updater_list.simps rcu_reclaimer_def
  rcu_test_init.simps rcu_test_exit.simps readers_inside_def foo_fields_def zero_foo_def list_first_or_null_rcu_def

theorem rcu_readers_safe_witness:
  "\<exists>s. interleave first_update loaded_module = Some s \<and> printed s = [[0, 0, 0]] \<and> foos s 2 = None
    \<and> foos s 4 \<noteq> None \<and> \<not> crashed s \<and> dom (foos s) = set (owned s)"
proof -
  obtain s where s: "interleave first_update loaded_module = Some s" "printed s = [[0, 0, 0]]"
    "foos s 2 = None" "foos s 4 \<noteq> None"
    by (simp add: first_update_def run_simps)
  have "reach (\<lambda>s. s = loaded_module) rcu_step s"
    by (rule interleave_reach [OF s(1)]) (auto simp: first_update_def intro: reach_start)
  from rcu_readers_safe [OF this] s show ?thesis by blast
qed

theorem rcu_runs_finish_witness:
  "\<exists>t. rcu_step\<^sup>*\<^sup>* loaded_module t \<and> finished t"
  using rcu_runs_finish [OF reach_start [of "\<lambda>s. s = loaded_module", OF refl]] by blast

text \<open>
  What the module relies on beyond its locking: a reader that runs before the
  initialisation has stored the first object, an updater that runs before it, a failed
  allocation, and unloading while a reader holds the object, are accesses to memory that is
  not allocated.
\<close>

theorem rcu_demo_crashes:
  "map_option crashed (interleave [Init True, Reader, Reader, Reader] unloaded_module) = Some True
    \<and> map_option crashed (interleave (replicate 4 (Init True) @ replicate 3 (UpdaterList True)) unloaded_module) = Some True
    \<and> map_option crashed (interleave (replicate 3 (Updater False)) loaded_module) = Some True
    \<and> map_option crashed (interleave [Reader, Reader, Exit, Reader] loaded_module) = Some True"
  by (simp add: run_simps numeral_eq_Suc)

end
