(* ===== verification/Ds18b20.thy ===== *)
theory Ds18b20
  imports Tools
begin

text \<open>
  The one-wire temperature sensor driver ds18b20.c. What the driver does with the pin is
  the list of its actions, in order; what it reads from the pin is an argument. The other
  end of the wire is in the specification: it tells a written bit by the time the line is
  held low.
\<close>

section \<open>The wire\<close>

text \<open>Direction, level, delays in microseconds, and the reading of the pin.\<close>

datatype pin_act = Output | Input | Setpin bool | Udelay nat | Getpin

definition ds18b20_find_success :: "bool \<Rightarrow> pin_act list \<times> int" where
  "ds18b20_find_success level =
     ([Output, Setpin False, Udelay 600, Setpin True, Udelay 100, Input, Getpin],
      if \<not> level then 1 else 0)"

definition ds18b20_reset :: "pin_act list" where
  "ds18b20_reset = [Output, Setpin False, Udelay 600, Setpin True, Udelay 100, Input, Udelay 100]"

definition write_bit :: "u8 \<Rightarrow> nat \<Rightarrow> pin_act list" where
  "write_bit dat i =
     (let tmp = drop_bit i dat AND 1 in
      if tmp = 1 then [Output, Setpin False, Udelay 5, Setpin True, Udelay 80, Udelay 3]
      else [Output, Setpin False, Udelay 80, Setpin True, Udelay 8, Udelay 3])"

definition ds18b20_write_data :: "u8 \<Rightarrow> pin_act list" where
  "ds18b20_write_data dat = concat (map (write_bit dat) [0..<8])"

definition jump_rom :: u8 where "jump_rom = 0xCC"
definition convert_t :: u8 where "convert_t = 0x44"
definition read_ram :: u8 where "read_ram = 0xBE"

definition ds18b20_work_init :: "pin_act list" where
  "ds18b20_work_init = ds18b20_reset @ ds18b20_write_data jump_rom"

definition ds18b20_convert :: "pin_act list" where
  "ds18b20_convert = ds18b20_write_data convert_t @ [Udelay 1000000]"

definition ds18b20_readbit :: "bool \<Rightarrow> pin_act list \<times> u8" where
  "ds18b20_readbit level =
     ([Output, Setpin False, Udelay 2, Setpin True, Input, Udelay 10, Getpin, Output, Setpin True, Udelay 50],
      if level then 1 else 0)"

text \<open>The loop, over the levels of its readings; the new bit enters at the top.\<close>

fun readbyte_loop :: "bool list \<Rightarrow> u8 \<Rightarrow> pin_act list \<times> u8" where
  "readbyte_loop [] dat = ([], dat)"
| "readbyte_loop (l # ls) dat =
     (let (acts, j) = ds18b20_readbit l;
          (acts', dat) = readbyte_loop ls (push_bit 7 j OR drop_bit 1 dat)
      in (acts @ acts', dat))"

definition ds18b20_readbyte :: "bool list \<Rightarrow> pin_act list \<times> u8" where
  "ds18b20_readbyte levels = readbyte_loop (take 8 levels) 0"

section \<open>The temperature\<close>

text \<open>
  The sign (\<open>fuhao\<close> is 1 or not), the whole part and the tenths. The bytes are unsigned
  char: the carry test \<open>tltemp > 255\<close> compares a value of at most 255.
\<close>

definition temperature :: "u8 \<Rightarrow> u8 \<Rightarrow> bool \<times> u32 \<times> u32" where
  "temperature t_h t_l =
     (let (positive, t_h, t_l) =
        (if t_h AND 0xf8 = 0 then (True, t_h, t_l)
         else
           let t_l = NOT t_l; t_h = NOT t_h; tltemp = t_l + 1; t_l = tltemp;
               t_h = (if (ucast tltemp :: u32) > 255 then t_h + 1 else t_h)
           in (False, t_h, t_l));
        zheng = ucast t_h * 16 + ucast t_l div 16;
        xiaoshu = (ucast t_l mod 16) * 10 div 16
      in (positive, zheng, xiaoshu))"

text \<open>The string, with the two bytes of the degree sign.\<close>

definition temperature_string :: "bool \<times> u32 \<times> u32 \<Rightarrow> u8 list" where
  "temperature_string t =
     (case t of (positive, zheng, xiaoshu) \<Rightarrow>
        (if positive then [] else [45]) @ decimal (unat zheng) @ [46] @ decimal (unat xiaoshu) @ [0xA1, 0xE6])"

section \<open>The file operations\<close>

definition ds18b20_open :: "bool \<Rightarrow> pin_act list \<times> int" where
  "ds18b20_open level =
     (let (acts, found) = ds18b20_find_success level in (acts, if found \<noteq> 0 then 0 else -1))"

text \<open>
  The read: all 20 bytes of the local array are copied, whatever the size that was asked
  for; \<open>junk\<close> is what the array holds behind the string. The result is what
  \<open>copy_to_user\<close> returns, the number of bytes it could not copy.
\<close>

definition ds18b20_read :: "bool list \<Rightarrow> u8 list \<Rightarrow> (u8 list \<Rightarrow> int) \<Rightarrow> pin_act list \<times> u8 list \<times> int" where
  "ds18b20_read levels junk copy_to_user =
     (let acts = ds18b20_work_init @ ds18b20_convert @ ds18b20_work_init @ ds18b20_write_data read_ram @ [Udelay 4];
          (acts1, t_l) = ds18b20_readbyte levels;
          (acts2, t_h) = ds18b20_readbyte (drop 8 levels);
          str = temperature_string (temperature t_h t_l) @ [0];
          tmp_buf = str @ drop (length str) junk
      in (acts @ acts1 @ acts2, tmp_buf, copy_to_user tmp_buf))"

definition ds18b20_close :: int where
  "ds18b20_close = 0"

text \<open>Loading: the major number, or why not.\<close>

definition ds18b20_init :: "bool \<Rightarrow> int \<Rightarrow> int" where
  "ds18b20_init level register_chrdev =
     (if snd (ds18b20_find_success level) = 0 then -19
      else if register_chrdev < 0 then -12 else 0)"

section \<open>Writing and reading bytes\<close>

text \<open>
  The other end: the bits written, least significant first, by the length of the low pulse
  of each slot. The sensor samples 15 to 60 microseconds after the falling edge: a pulse
  of less than 15 is a one, a pulse of at least 60 a zero.
\<close>

fun low_pulses :: "pin_act list \<Rightarrow> bool \<Rightarrow> nat \<Rightarrow> nat list" where
  "low_pulses [] low t = []"
| "low_pulses (Setpin False # as) low t = low_pulses as True 0"
| "low_pulses (Setpin True # as) low t = (if low then t # low_pulses as False 0 else low_pulses as False 0)"
| "low_pulses (Udelay n # as) low t = low_pulses as low (t + n)"
| "low_pulses (_ # as) low t = low_pulses as low t"

definition sensor_bits :: "pin_act list \<Rightarrow> bool list option" where
  "sensor_bits as =
     (let ps = low_pulses as False 0 in
      if list_all (\<lambda>t. 1 \<le> t \<and> t < 15 \<or> 60 \<le> t \<and> t \<le> 120) ps then Some (map (\<lambda>t. t < 15) ps) else None)"

definition byte_bits :: "u8 \<Rightarrow> bool list" where
  "byte_bits b = map (bit b) [0..<8]"

lemma test_bit_and_1: "(drop_bit i (b :: u8) AND 1 = 1) \<longleftrightarrow> bit b i"
  by (simp add: bit_iff_odd_drop_bit and_one_eq odd_iff_mod_2_eq_one)

lemma low_pulses_write:
  "low_pulses (write_bit b i @ as) False t = (if bit b i then 5 else 80) # low_pulses as False 0"
proof -
  have "low_pulses as False t = low_pulses as False t'" for t t'
  proof (induction as arbitrary: t t')
    case (Cons a as)
    show ?case
    proof (cases a)
      case (Setpin l)
      with Cons show ?thesis by (cases l) auto
    next
      case (Udelay n)
      with Cons [of "t + n" "t' + n"] show ?thesis by simp
    qed (use Cons [of t t'] in auto)
  qed simp
  from this [of 83 0] this [of 11 0] show ?thesis by (simp add: write_bit_def Let_def test_bit_and_1)
qed

lemma low_pulses_write_data:
  "low_pulses (concat (map (write_bit b) is)) False 0 = map (\<lambda>i. if bit b i then 5 else 80) is"
  by (induction "is") (simp_all add: low_pulses_write)


lemma sensor_bits_write: "sensor_bits (ds18b20_write_data b) = Some (byte_bits b)"
  by (auto simp: sensor_bits_def ds18b20_write_data_def low_pulses_write_data byte_bits_def list_all_iff)

lemma readbyte_loop_bits:
  "length ls \<le> 8 \<Longrightarrow> i < 8 \<Longrightarrow> bit (snd (readbyte_loop ls d)) i =
     (if i + length ls < 8 then bit d (i + length ls) else ls ! (i + length ls - 8))"
proof (induction ls arbitrary: d)
  case (Cons l ls)
  have "bit (push_bit 7 (if l then 1 else 0) OR drop_bit 1 d :: u8) k = (if k = 7 then l else bit d (k + 1))" if "k < 8" for k
    using that by (auto simp: bit_simps dest: bit_imp_le_length)
  with Cons show ?case
    by (auto simp: ds18b20_readbit_def split_def nth_Cons' Let_def)
qed simp

text \<open>
  C36. A byte written is the byte the sensor receives, least significant bit first, each
  bit with a pulse the sensor can tell; a byte the sensor sends bit by bit is the byte read.
\<close>

theorem ds18b20_byte_roundtrip:
  "sensor_bits (ds18b20_write_data b) = Some (byte_bits b)
    \<and> snd (ds18b20_readbyte (byte_bits b @ rest)) = b"
proof
  show "sensor_bits (ds18b20_write_data b) = Some (byte_bits b)" by (rule sensor_bits_write)
  have len: "length (byte_bits b) = 8" by (simp add: byte_bits_def)
  show "snd (ds18b20_readbyte (byte_bits b @ rest)) = b"
  proof (rule bit_word_eqI)
    fix i assume "i < LENGTH(8)"
    then show "bit (snd (ds18b20_readbyte (byte_bits b @ rest))) i = bit b i"
      using readbyte_loop_bits [of "byte_bits b" i 0] len by (simp add: ds18b20_readbyte_def byte_bits_def)
  qed
qed

section \<open>The conversion\<close>

text \<open>The reading: a 16-bit two's complement number of sixteenths of a degree.\<close>

definition raw_temperature :: "u8 \<Rightarrow> u8 \<Rightarrow> int" where
  "raw_temperature hi lo =
     (let r = 256 * int (unat hi) + int (unat lo) in if r < 32768 then r else r - 65536)"

lemma unat_ucast_u32 [simp]: "unat (ucast (a :: u8) :: u32) = unat a"
proof -
  have "unat a < 2 ^ 32" by (rule less_trans [OF unat_u8_lt]) simp
  then show ?thesis by (simp add: unsigned_ucast_eq take_bit_nat_eq_self)
qed

lemma unat_zheng: "unat (ucast a * 16 + ucast b div 16 :: u32) = unat (a :: u8) * 16 + unat (b :: u8) div 16"
proof -
  have "unat a * 16 + unat b div 16 < 4294967296" "unat a * 16 < 4294967296" "unat b div 16 < 4294967296"
    using unat_u8_lt [of a] unat_u8_lt [of b] by linarith+
  then show ?thesis by (simp add: unat_word_ariths unat_div_distrib)
qed

lemma unat_xiaoshu: "unat ((ucast b mod 16) * 10 div 16 :: u32) = unat (b :: u8) mod 16 * 10 div 16"
proof -
  have "unat b mod 16 * 10 < 4294967296" by (rule less_trans [of _ 160]) simp_all
  then show ?thesis by (simp add: unat_word_ariths unat_div_distrib unat_mod_distrib)
qed

lemma unat_NOT_u8: "unat (NOT (a :: u8)) = 255 - unat a"
proof -
  have "NOT a = - 1 - a" by (simp add: not_eq_complement)
  moreover have "unat (- 1 - a) = unat (- 1 :: u8) - unat a" by (rule unat_sub) simp
  moreover have "unat (- 1 :: u8) = 255" by (simp add: unsigned_minus_1_eq_mask mask_eq_exp_minus_1)
  ultimately show ?thesis by simp
qed

lemma len8: "LENGTH(8) = 8"
  by simp

lemma sign_test: "hi AND 0xf8 = (0 :: u8) \<longleftrightarrow> unat hi < 8"
proof -
  have eq: "(0xf8 :: u8) = push_bit 3 (mask 5)" by (simp add: mask_eq_exp_minus_1)
  have "bit (0xf8 :: u8) n \<longleftrightarrow> 3 \<le> n \<and> n < 8" for n unfolding eq by (auto simp: bit_simps)
  then have "hi AND 0xf8 = 0 \<longleftrightarrow> (\<forall>n. \<not> (bit hi n \<and> 3 \<le> n \<and> n < 8))"
    by (auto simp: bit_eq_iff bit_and_iff)
  also have "\<dots> \<longleftrightarrow> (\<forall>k. \<not> bit hi (3 + k))"
    by (metis bit_imp_le_length le_add1 le_Suc_ex len8)
  also have "\<dots> \<longleftrightarrow> drop_bit 3 hi = 0" by (auto simp: bit_eq_iff bit_drop_bit_eq) (metis add_lessD1 add.commute bit_imp_le_length len8)
  also have "\<dots> \<longleftrightarrow> unat (drop_bit 3 hi) = 0" by (simp add: unat_eq_0)
  also have "unat (drop_bit 3 hi) = unat hi div 8" by (simp add: drop_bit_eq_div unat_div_distrib)
  finally show ?thesis by auto
qed

text \<open>
  The conversion is right for the readings of 0 to 125 degrees and, with one exception,
  for -55 degrees and more: the whole part and the tenths, cut off, of the magnitude. The
  exception are the negative multiples of 16 degrees, whose low byte is zero: the carry
  into the high byte is lost, and 16 degrees are missing, so that -16 is shown as -0.0.
\<close>

theorem temperature_conversion:
  assumes "- 880 \<le> raw_temperature hi lo" and "raw_temperature hi lo \<le> 2000"
    and "temperature hi lo = (positive, zheng, xiaoshu)"
  shows "let s = raw_temperature hi lo in
    positive = (0 \<le> s)
    \<and> int (unat zheng) = \<bar>s\<bar> div 16 - (if s < 0 \<and> lo = 0 then 16 else 0)
    \<and> int (unat xiaoshu) = \<bar>s\<bar> mod 16 * 10 div 16"
proof -
  have sixteen: "(256 * h + l) div 16 = h * 16 + l div 16" "(256 * h + l) mod 16 = l mod 16" for h l :: int
    using div_mult_self1 [of 16 l "16 * h"] mod_mult_self1 [of l "16 * h" 16] by (simp_all add: algebra_simps)
  have i: "int (unat w) = uint w" "uint w < 256" "0 \<le> uint w" for w :: u8
    using unsigned_less [where w = w, where 'a = int] by simp_all
  have h: "unat hi < 256" and l: "unat lo < 256" by simp_all
  have lo0: "lo = 0 \<longleftrightarrow> unat lo = 0" by (simp add: unat_eq_0)
  show ?thesis
  proof (cases "unat hi < 8")
    case True
    then have "uint hi < 8" using i(1) [of hi] by linarith
    then have s: "raw_temperature hi lo = 256 * int (unat hi) + int (unat lo)"
      using i(2,3) [of lo] unfolding raw_temperature_def Let_def i(1) by simp
    have t: "positive" "zheng = ucast hi * 16 + ucast lo div 16" "xiaoshu = (ucast lo mod 16) * 10 div 16"
      using assms(3) True by (auto simp: temperature_def sign_test Let_def)
    have nn: "0 \<le> 256 * uint hi + uint lo" using i(3) [of hi] i(3) [of lo] by linarith
    then show ?thesis unfolding s t(2,3) unat_zheng unat_xiaoshu using t(1)
      by (simp add: Let_def zdiv_int zmod_int sixteen) (use nn in linarith)
  next
    case False
    have "8 \<le> uint hi" using False i(1) [of hi] by linarith
    then have "2000 < 256 * uint hi + uint lo" using i(3) [of lo] by linarith
    then have r: "32768 \<le> 256 * int (unat hi) + int (unat lo)"
      using assms(2) unfolding raw_temperature_def Let_def i(1) by (simp split: if_splits)
    then have s: "raw_temperature hi lo = 256 * int (unat hi) + int (unat lo) - 65536"
      by (simp add: raw_temperature_def)
    have c: "\<not> (ucast (NOT lo + 1) :: u32) > 255"
    proof -
      have "unat (ucast (NOT lo + 1) :: u32) \<le> 255" using unat_u8_lt [of "NOT lo + 1"] unfolding unat_ucast_u32 by linarith
      then show ?thesis by (simp add: word_less_nat_alt)
    qed
    then have t: "\<not> positive" "zheng = ucast (NOT hi) * 16 + ucast (NOT lo + 1) div 16"
      "xiaoshu = (ucast (NOT lo + 1) mod 16) * 10 div 16"
      using assms(3) False by (auto simp: temperature_def sign_test Let_def)
    have n: "unat (NOT lo + 1) = (if lo = 0 then 0 else 256 - unat lo)"
    proof -
      have "unat (NOT lo + 1) = (255 - unat lo + 1) mod 256" by (simp add: unat_word_ariths unat_NOT_u8)
      moreover have "255 - unat lo + 1 = 256 - unat lo" using l by linarith
      ultimately show ?thesis using lo0 by auto
    qed
    have dh: "int (255 - unat hi) = 255 - uint hi" using h i(1) [of hi] by linarith
    have neg: "\<not> 0 \<le> raw_temperature hi lo" using i(2,3) unfolding s i(1) by (smt (verit))
    show ?thesis
    proof (cases "lo = 0")
      case True
      then have m: "\<bar>raw_temperature hi lo\<bar> = 256 * (256 - uint hi) + 0" using neg unfolding s i(1) by simp
      show ?thesis unfolding Let_def m t(2,3) unat_zheng unat_xiaoshu n unat_NOT_u8 sixteen using neg t(1) True dh
        by (simp add: of_nat_add of_nat_mult)
    next
      case False
      then have m: "\<bar>raw_temperature hi lo\<bar> = 256 * (255 - uint hi) + (256 - uint lo)"
        using neg unfolding s i(1) by simp
      have dl: "int (256 - unat lo) = 256 - uint lo" using l i(1) [of lo] by linarith
      have "int ((255 - unat hi) * 16 + (256 - unat lo) div 16) = (255 - uint hi) * 16 + (256 - uint lo) div 16"
        "int ((256 - unat lo) mod 16 * 10 div 16) = (256 - uint lo) mod 16 * 10 div 16"
        by (simp_all only: of_nat_add of_nat_mult zdiv_int zmod_int dh dl of_nat_numeral)
      then show ?thesis unfolding Let_def m t(2,3) unat_zheng unat_xiaoshu n unat_NOT_u8 sixteen
        using neg t(1) False by simp
    qed
  qed
qed

theorem temperature_conversion_witness:
  "int (unat (fst (snd (temperature 0xFF 0x00)))) = 0 \<and> raw_temperature 0xFF 0x00 = 16 * (- 16)"
proof -
  have "raw_temperature 0xFF 0x00 = - 256" by (simp add: raw_temperature_def)
  moreover obtain p z x where t: "temperature 0xFF 0x00 = (p, z, x)" by (cases "temperature 0xFF 0x00")
  ultimately show ?thesis using temperature_conversion [of "0xFF" "0x00" p z x] by (simp add: Let_def)
qed

end
