(* ===== verification/Am2305.thy ===== *)
theory Am2305
  imports Prelude
begin

text \<open>
  The humidity and temperature sensor driver am2305.c. The levels the driver reads from the
  pin, in order, are an argument; every reading takes one. The loops that wait for a level
  have no limit: \<open>None\<close> is a driver that is still waiting when the readings end.
\<close>

section \<open>The driver\<close>

text \<open>Two delays and one reading: a low level is the sensor's answer.\<close>

definition am2305_find_success :: "bool list \<Rightarrow> (int \<times> bool list) option" where
  "am2305_find_success ls = (case ls of [] \<Rightarrow> None | l # ls \<Rightarrow> Some (if \<not> l then 1 else 0, ls))"

definition am2305_open :: "bool list \<Rightarrow> (int \<times> bool list) option" where
  "am2305_open ls = map_option (\<lambda>(ret, ls). (if ret \<noteq> 0 then 0 else -1, ls)) (am2305_find_success ls)"

fun wait_high :: "bool list \<Rightarrow> bool list option" where
  "wait_high [] = None"
| "wait_high (l # ls) = (if \<not> l then wait_high ls else Some ls)"

text \<open>In the last bit of the last byte the loop is left at once.\<close>

fun wait_low :: "bool \<Rightarrow> bool list \<Rightarrow> bool list option" where
  "wait_low leave [] = None"
| "wait_low leave (l # ls) = (if l then (if leave then Some ls else wait_low leave ls) else Some ls)"

text \<open>\<open>buffer <<= 1; buffer |= tmp;\<close>\<close>

definition shift_in :: "u8 \<Rightarrow> bool \<Rightarrow> u8" where
  "shift_in buffer tmp = push_bit 1 buffer OR of_bool tmp"

lemma bit_shift_in: "k < 8 \<Longrightarrow> bit (shift_in d b) k = (if k = 0 then b else bit d (k - 1))"
  unfolding shift_in_def bit_or_iff bit_push_bit_iff by (auto simp: bit_of_bool_iff)

text \<open>The bits from \<open>i\<close> on, \<open>n\<close> of them.\<close>

fun read_bits :: "nat \<Rightarrow> nat \<Rightarrow> nat \<Rightarrow> u8 \<Rightarrow> bool list \<Rightarrow> (u8 \<times> bool list) option" where
  "read_bits 0 measure_cnt i buffer ls = Some (buffer, ls)"
| "read_bits (Suc n) measure_cnt i buffer ls =
     (case wait_high ls of None \<Rightarrow> None
      | Some [] \<Rightarrow> None
      | Some (tmp # ls) \<Rightarrow>
          (case wait_low (measure_cnt = 4 \<and> i = 7) ls of None \<Rightarrow> None
           | Some ls \<Rightarrow> read_bits n measure_cnt (i + 1) (shift_in buffer tmp) ls))"

definition read_SensorData :: "nat \<Rightarrow> bool list \<Rightarrow> (u8 \<times> bool list) option" where
  "read_SensorData measure_cnt ls = read_bits 8 measure_cnt 0 0 ls"

fun read_bytes :: "nat \<Rightarrow> nat \<Rightarrow> bool list \<Rightarrow> (u8 list \<times> bool list) option" where
  "read_bytes 0 i ls = Some ([], ls)"
| "read_bytes (Suc n) i ls =
     (case read_SensorData i ls of None \<Rightarrow> None
      | Some (b, ls) \<Rightarrow> map_option (\<lambda>(bs, ls). (b # bs, ls)) (read_bytes n (i + 1) ls))"

text \<open>The result and what is copied to the user; the result is what \<open>copy_to_user\<close> returns.\<close>

definition am2305_read :: "(u8 list \<Rightarrow> int) \<Rightarrow> bool list \<Rightarrow> (int \<times> u8 list) option" where
  "am2305_read copy_to_user ls =
     (case am2305_find_success ls of None \<Rightarrow> None
      | Some (found, ls) \<Rightarrow>
          if found \<noteq> 0 then
            (case wait_high ls of None \<Rightarrow> None
             | Some ls \<Rightarrow>
                 (case wait_low False ls of None \<Rightarrow> None
                  | Some ls \<Rightarrow> map_option (\<lambda>(bs, ls). (copy_to_user bs, bs)) (read_bytes 5 0 ls)))
          else Some (-1, []))"

definition am2305_close :: int where "am2305_close = 0"

definition am2305_init :: "int \<Rightarrow> int" where
  "am2305_init register_chrdev = (if register_chrdev < 0 then -12 else 0)"

section \<open>What the sensor sends\<close>

text \<open>
  The readings of a bit: low for a while, high, then the level 30 microseconds later, which
  is the bit; a one stays high for a while; then low. A byte is its bits, the highest
  first. The numbers of readings in the phases may differ from bit to bit.
\<close>

definition send_bit :: "nat \<times> nat \<Rightarrow> bool \<Rightarrow> bool list" where
  "send_bit t b = replicate (fst t) False @ [True, b] @ (if b then replicate (snd t) True else []) @ [False]"

fun send_bits :: "(nat \<times> nat) list \<Rightarrow> bool list \<Rightarrow> bool list" where
  "send_bits (t # ts) (b # bs) = send_bit t b @ send_bits ts bs"
| "send_bits _ _ = []"

definition high_first :: "u8 \<Rightarrow> bool list" where
  "high_first b = map (\<lambda>i. bit b (7 - i)) [0..<8]"

lemma wait_high_skip [simp]: "wait_high (replicate n False @ True # ls) = Some ls"
  by (induction n) auto

lemma wait_low_skip [simp]: "wait_low False (replicate n True @ False # ls) = Some ls"
  by (induction n) auto

lemma read_bits_sent:
  "length ts = length bs \<Longrightarrow> measure_cnt \<noteq> 4 \<Longrightarrow> read_bits (length bs) measure_cnt i d (send_bits ts bs @ rest)
    = Some (foldl shift_in d bs, rest)"
proof (induction bs arbitrary: ts i d)
  case (Cons b bs)
  then obtain t ts' where "ts = t # ts'" by (cases ts) auto
  with Cons show ?case by (cases b) (auto simp: send_bit_def)
qed simp

text \<open>In the last byte, whose last bit may be cut off while it is still high.\<close>

lemma read_last_sent:
  "length ts = length bs \<Longrightarrow> i + length bs = 8 \<Longrightarrow> \<exists>rest'. read_bits (length bs) 4 i d (send_bits ts bs @ rest)
    = Some (foldl shift_in d bs, rest')"
proof (induction bs arbitrary: ts i d)
  case (Cons b bs)
  then obtain t ts' where ts: "ts = t # ts'" by (cases ts) auto
  show ?case
  proof (cases "i = 7")
    case False
    with Cons ts show ?thesis by (cases b) (auto simp: send_bit_def)
  next
    case True
    with Cons.prems ts have "bs = []" "ts' = []" by auto
    with True ts show ?thesis by (cases "snd t"; cases b) (auto simp: send_bit_def)
  qed
qed simp

lemma bit_foldl:
  "length bs \<le> 8 \<Longrightarrow> i < 8 \<Longrightarrow> bit (foldl shift_in d bs) i =
    (if i < length bs then bs ! (length bs - 1 - i) else bit d (i - length bs))"
proof (induction bs arbitrary: d)
  case (Cons b bs)
  then show ?case by (auto simp: nth_Cons' bit_shift_in)
qed simp

lemma foldl_high_first: "foldl shift_in 0 (high_first b) = b"
proof (rule bit_word_eqI)
  fix i assume "i < LENGTH(8)"
  then show "bit (foldl shift_in 0 (high_first b)) i = bit b i"
    using bit_foldl [of "high_first b" i 0] by (simp add: high_first_def)
qed

lemma length_high_first [simp]: "length (high_first b) = 8"
  by (simp add: high_first_def)

lemma read_byte_sent:
  assumes "length ts = 8"
  shows "measure_cnt \<noteq> 4 \<Longrightarrow> read_SensorData measure_cnt (send_bits ts (high_first b) @ rest) = Some (b, rest)"
    and "\<exists>rest'. read_SensorData 4 (send_bits ts (high_first b) @ rest) = Some (b, rest')"
  using read_bits_sent [of ts "high_first b" measure_cnt 0 0 rest] read_last_sent [of ts "high_first b" 0 0 rest] assms
  by (simp_all add: read_SensorData_def foldl_high_first)

text \<open>
  A frame that the sensor sends is read: with any timing of the phases, the five bytes
  arrive as they were sent. A wire that stays low after the answer is waited for without
  end.
\<close>

theorem am2305_read_frame:
  assumes "length ts0 = 8" "length ts1 = 8" "length ts2 = 8" "length ts3 = 8" "length ts4 = 8"
  shows "am2305_read copy_to_user (False # replicate m False @ True # replicate n True @ False #
      send_bits ts0 (high_first b0) @ send_bits ts1 (high_first b1) @ send_bits ts2 (high_first b2)
      @ send_bits ts3 (high_first b3) @ send_bits ts4 (high_first b4))
    = Some (copy_to_user [b0, b1, b2, b3, b4], [b0, b1, b2, b3, b4])
    \<and> am2305_read copy_to_user (False # replicate m False) = None"
proof
  let ?s = "\<lambda>ts b. send_bits ts (high_first b)"
  obtain r where r: "read_SensorData 4 (?s ts4 b4 @ []) = Some (b4, r)"
    using read_byte_sent(2) [OF assms(5)] by blast
  have "read_bytes 5 0 (?s ts0 b0 @ ?s ts1 b1 @ ?s ts2 b2 @ ?s ts3 b3 @ ?s ts4 b4 @ []) = Some ([b0, b1, b2, b3, b4], r)"
    using assms r by (simp add: read_byte_sent(1) eval_nat_numeral)
  then show "am2305_read copy_to_user (False # replicate m False @ True # replicate n True @ False #
      ?s ts0 b0 @ ?s ts1 b1 @ ?s ts2 b2 @ ?s ts3 b3 @ ?s ts4 b4)
    = Some (copy_to_user [b0, b1, b2, b3, b4], [b0, b1, b2, b3, b4])"
    by (simp add: am2305_read_def am2305_find_success_def)
  have "wait_high (replicate m False) = None" by (induction m) auto
  then show "am2305_read copy_to_user (False # replicate m False) = None"
    by (simp add: am2305_read_def am2305_find_success_def)
qed

theorem am2305_read_frame_witness:
  "am2305_read (\<lambda>_. 0) (False # replicate 1 False @ True # replicate 1 True @ False #
      send_bits (replicate 8 (2, 3)) (high_first 2) @ send_bits (replicate 8 (2, 3)) (high_first 146)
      @ send_bits (replicate 8 (2, 3)) (high_first 1) @ send_bits (replicate 8 (2, 3)) (high_first 13)
      @ send_bits (replicate 8 (2, 3)) (high_first 162))
    = Some (0, [2, 146, 1, 13, 162])"
  using am2305_read_frame [of "replicate 8 (2, 3)" "replicate 8 (2, 3)" "replicate 8 (2, 3)" "replicate 8 (2, 3)"
      "replicate 8 (2, 3)" "\<lambda>_. 0" 1 1 2 146 1 13 162] by (simp del: send_bits.simps replicate.simps)

end
