(* ===== verification/TimeWrap.thy ===== *)
theory TimeWrap
  imports Prelude
begin

text \<open>
  The wrap-around example main.c: comparing two times of which only the low eight bits are
  kept. The operands of the macro are promoted to \<open>int\<close>; the cast to \<open>signed char\<close> keeps
  the low eight bits of the difference.
\<close>

section \<open>The program\<close>

definition time_after :: "int \<Rightarrow> int \<Rightarrow> bool" where
  "time_after unknown known \<longleftrightarrow> sint (of_int (known - unknown) :: u8) < 0"

text \<open>A printed line: after or not, the two times.\<close>

datatype line = First | After int int | Before int int

definition compare_all :: "int \<Rightarrow> line list" where
  "compare_all known_time =
     map (\<lambda>i. if time_after i known_time then After i known_time else Before i known_time) [0..255]"

definition time_main :: "line list" where
  "time_main = (if time_after 255 254 then [First] else []) @ compare_all 5 @ compare_all 253"

section \<open>The window\<close>

lemma sint_u8: "sint (of_int k :: u8) = (k + 128) mod 256 - 128"
  by (simp add: signed_of_int signed_take_bit_eq_take_bit_shift take_bit_eq_mod)

lemma time_after_window: "time_after u k \<longleftrightarrow> (u - k) mod 256 \<in> {1..128}"
proof -
  let ?d = "(u - k) mod 256"
  have d: "0 \<le> ?d" "?d < 256" by simp_all
  have "(k - u + 128) mod 256 = (128 - (u - k)) mod 256" by (simp add: algebra_simps)
  also have "\<dots> = (128 - ?d) mod 256" by (simp add: mod_diff_right_eq)
  also have "\<dots> = (if ?d \<le> 128 then 128 - ?d else 384 - ?d)"
  proof (cases "?d \<le> 128")
    case True
    with d show ?thesis by (simp add: mod_pos_pos_trivial)
  next
    case False
    have "(128 - ?d) mod 256 = (128 - ?d + 256) mod 256" by (rule mod_add_self2 [symmetric])
    also have "\<dots> = 384 - ?d" using d False by (simp add: mod_pos_pos_trivial)
    finally show ?thesis using False by simp
  qed
  finally show ?thesis using d unfolding time_after_def sint_u8 by auto
qed

lemma time_after_mod: "time_after (s mod 256) (t mod 256) = time_after s t"
  by (simp add: time_after_window mod_diff_eq)

text \<open>
  Two times at most 127 apart are compared correctly although only their low eight bits
  are kept, wrapped or not: one is after the other exactly if it is later. At a distance
  of 128 each time is after the other.
\<close>

theorem time_after_correct:
  "(\<bar>s - t\<bar> \<le> 127 \<longrightarrow> time_after (s mod 256) (t mod 256) = (t < s))
    \<and> time_after (u mod 256) ((u + 128) mod 256) \<and> time_after ((u + 128) mod 256) (u mod 256)"
proof (intro conjI impI)
  assume a: "\<bar>s - t\<bar> \<le> 127"
  show "time_after (s mod 256) (t mod 256) = (t < s)"
  proof (cases "0 \<le> s - t")
    case True
    with a have "(s - t) mod 256 = s - t" by (simp add: mod_pos_pos_trivial)
    with a show ?thesis unfolding time_after_mod unfolding time_after_window by auto
  next
    case False
    have "(s - t) mod 256 = (s - t + 256) mod 256" by (rule mod_add_self2 [symmetric])
    also have "\<dots> = s - t + 256" by (rule mod_pos_pos_trivial) (use a False in auto)
    finally show ?thesis using a False unfolding time_after_mod unfolding time_after_window by auto
  qed
qed (unfold time_after_mod, simp_all add: time_after_window)

theorem time_after_correct_witness:
  "time_after 3 250 \<and> \<not> time_after 250 3"
  using time_after_correct [of 259 250 0] time_after_correct [of 250 259 0] by simp

text \<open>
  What the program prints: 6 to 133 are after 5, and 254, 255 and 0 to 125 are after 253.
\<close>

theorem time_main_lines:
  "time_main = First # map (\<lambda>i. if 6 \<le> i \<and> i \<le> 133 then After i 5 else Before i 5) [0..255]
    @ map (\<lambda>i. if 254 \<le> i \<or> i \<le> 125 then After i 253 else Before i 253) [0..255]"
proof -
  have 5: "time_after i 5 = (6 \<le> i \<and> i \<le> 133)" if "0 \<le> i" "i \<le> 255" for i
  proof (cases "5 \<le> i")
    case True
    with that have "(i - 5) mod 256 = i - 5" by (simp add: mod_pos_pos_trivial)
    with that show ?thesis unfolding time_after_window by auto
  next
    case False
    have "(i - 5) mod 256 = (i - 5 + 256) mod 256" by (rule mod_add_self2 [symmetric])
    also have "\<dots> = i - 5 + 256" using that False by (simp add: mod_pos_pos_trivial)
    finally show ?thesis using that False unfolding time_after_window by auto
  qed
  have 253: "time_after i 253 = (254 \<le> i \<or> i \<le> 125)" if "0 \<le> i" "i \<le> 255" for i
  proof (cases "253 \<le> i")
    case True
    with that have "(i - 253) mod 256 = i - 253" by (simp add: mod_pos_pos_trivial)
    with that True show ?thesis unfolding time_after_window by auto
  next
    case False
    have "(i - 253) mod 256 = (i - 253 + 256) mod 256" by (rule mod_add_self2 [symmetric])
    also have "\<dots> = i - 253 + 256" using that False by (simp add: mod_pos_pos_trivial)
    finally show ?thesis using that False unfolding time_after_window by auto
  qed
  show ?thesis
    unfolding time_main_def compare_all_def
    by (auto simp: 5 253 time_after_window [of 255 254] intro!: map_cong)
qed

end
