(* ===== verification/InputDev.thy ===== *)
theory InputDev
  imports Prelude
begin

text \<open>
  The two input drivers: the touch screen my_ts.c and the keys key_input.c. A driver is a
  step system over its interrupts and its timer; what a register or a pin holds when a
  handler runs is part of the event. What is reported to the input layer is a list.
\<close>

section \<open>The touch screen\<close>

datatype ts_report = AbsX nat | AbsY nat | Pressure nat | BtnTouch nat | Sync

text \<open>
  The registers that are written, the sums of the samples and their number. The sums of
  at most four ten-bit samples do not overflow and are unbounded here.
\<close>

record ts =
  adccon :: u32
  adctsc :: u32
  xp :: nat
  yp :: nat
  count :: nat
  ts_timer :: bool  \<comment> \<open>the timer is set\<close>
  reports :: "ts_report list"

definition myts_start_adc :: "ts \<Rightarrow> ts" where
  "myts_start_adc s = s\<lparr>adccon := adccon s OR 1\<rparr>"

definition myts_wait_down :: "ts \<Rightarrow> ts" where
  "myts_wait_down s = s\<lparr>adctsc := 0xd3\<rparr>"

definition myts_wait_up :: "ts \<Rightarrow> ts" where
  "myts_wait_up s = s\<lparr>adctsc := 0x1d3\<rparr>"

definition myts_auto_change :: "ts \<Rightarrow> ts" where
  "myts_auto_change s = s\<lparr>adctsc := 0x0c\<rparr>"

definition report_ts :: "ts_report list \<Rightarrow> ts \<Rightarrow> ts" where
  "report_ts rs s = s\<lparr>reports := reports s @ rs\<rparr>"

text \<open>Bit 15 of \<open>adcdat0\<close> is clear while the pen is down; the low ten bits are the sample.\<close>

definition pen_down :: "u32 \<Rightarrow> bool" where
  "pen_down adcdat0 \<longleftrightarrow> \<not> bit adcdat0 15"

definition sample :: "u32 \<Rightarrow> nat" where
  "sample dat = unat (dat AND 0x3ff)"

definition ts_timer_func :: "u32 \<Rightarrow> ts \<Rightarrow> ts" where
  "ts_timer_func adcdat0 s =
     (let s = s\<lparr>ts_timer := False\<rparr> in
      if pen_down adcdat0 then myts_start_adc (myts_auto_change s) else myts_wait_down s)"

definition myts_ts_irq :: "u32 \<Rightarrow> ts \<Rightarrow> ts" where
  "myts_ts_irq adcdat0 s =
     (if pen_down adcdat0 then myts_start_adc (myts_auto_change s)
      else myts_wait_down (report_ts [Pressure 0, BtnTouch 0, Sync] s))"

definition myts_adc_irq :: "u32 \<Rightarrow> u32 \<Rightarrow> ts \<Rightarrow> ts" where
  "myts_adc_irq adcdat0 adcdat1 s =
     (if pen_down adcdat0 then
        if count s = 4 then
          let s = report_ts [AbsX (xp s div 4), AbsY (yp s div 4), Pressure 1, BtnTouch 1, Sync] s;
              s = s\<lparr>count := 0, xp := 0, yp := 0, ts_timer := True\<rparr>
          in myts_wait_up s
        else
          let s = s\<lparr>xp := xp s + sample adcdat0, yp := yp s + sample adcdat1, count := count s + 1\<rparr>
          in myts_start_adc (myts_auto_change s)
      else myts_wait_down (report_ts [Pressure 0, BtnTouch 0, Sync] s))"

definition myts_init :: ts where
  "myts_init = myts_wait_down \<lparr>adccon = push_bit 14 1 OR push_bit 6 49, adctsc = 0, xp = 0, yp = 0, count = 0,
     ts_timer = True, reports = []\<rparr>"

text \<open>The handlers in any order, with any contents of the data registers.\<close>

inductive ts_step :: "ts \<Rightarrow> ts \<Rightarrow> bool" where
  ts_tc: "ts_step s (myts_ts_irq d0 s)"
| ts_adc: "ts_step s (myts_adc_irq d0 d1 s)"
| ts_tick: "ts_timer s \<Longrightarrow> ts_step s (ts_timer_func d0 s)"

lemmas ts_defs = myts_start_adc_def myts_wait_down_def myts_wait_up_def myts_auto_change_def report_ts_def
  ts_timer_func_def myts_ts_irq_def myts_adc_irq_def

fun in_range :: "ts_report \<Rightarrow> bool" where
  "in_range (AbsX v) = (v \<le> 0x3FF)"
| "in_range (AbsY v) = (v \<le> 0x3FF)"
| "in_range (Pressure v) = (v \<le> 1)"
| "in_range _ = True"

definition ts_inv :: "ts \<Rightarrow> bool" where
  "ts_inv s \<longleftrightarrow> count s \<le> 4 \<and> xp s \<le> 1023 * count s \<and> yp s \<le> 1023 * count s \<and> list_all in_range (reports s)"

lemma sample_le: "sample d \<le> 1023"
proof -
  have m: "(0x3ff :: u32) = mask 10" by (simp add: mask_eq_exp_minus_1)
  have "sample d = take_bit 10 (unat d)"
    unfolding sample_def m take_bit_eq_mask [symmetric] by (simp add: unsigned_take_bit_eq)
  also have "\<dots> < 2 ^ 10" by (rule take_bit_nat_less_exp)
  finally show ?thesis by simp
qed

lemma ts_step_inv: "ts_inv s \<Longrightarrow> ts_step s t \<Longrightarrow> ts_inv t"
proof (erule ts_step.cases)
  fix s' d0 d1
  assume inv: "ts_inv s" and s: "s = s'" "t = myts_adc_irq d0 d1 s'"
  have "xp s div 4 \<le> 1023" "yp s div 4 \<le> 1023" if "count s = 4"
    using inv that by (auto simp: ts_inv_def)
  then show "ts_inv t" using inv sample_le [of d0] sample_le [of d1] unfolding s
    by (auto simp: ts_inv_def ts_defs Let_def)
qed (auto simp: ts_inv_def ts_defs Let_def)

interpretation touch: inv_system "\<lambda>s. s = myts_init" ts_step ts_inv
  by unfold_locales (simp add: ts_inv_def myts_init_def myts_wait_down_def, rule ts_step_inv)

text \<open>
  C39. Every position and pressure that the driver ever reports lies in the range it has
  declared to the input layer, whatever the converter delivers and in whatever order the
  interrupts and the timer come. A report is the mean of four samples; but the samples
  taken before the pen was lifted are not dropped: they enter the mean of the next touch.
\<close>

theorem ts_reports_in_range:
  assumes "reach (\<lambda>s. s = myts_init) ts_step s"
  shows "list_all in_range (reports s) \<and> count s \<le> 4
    \<and> (pen_down d0 \<and> count s = 4 \<longrightarrow>
        reports (myts_adc_irq d0 d1 s) = reports s @ [AbsX (xp s div 4), AbsY (yp s div 4), Pressure 1, BtnTouch 1, Sync])
    \<and> (\<not> pen_down d0 \<longrightarrow> xp (myts_adc_irq d0 d1 s) = xp s \<and> count (myts_adc_irq d0 d1 s) = count s)"
  using touch.reach_inv [OF assms] by (simp add: ts_inv_def ts_defs Let_def)

text \<open>Two samples of 1000, the pen up, and two of 0 in the next touch: the mean is 500.\<close>

definition mixed_touch :: ts where
  "mixed_touch = myts_adc_irq 0 0 (myts_adc_irq 0 0 (myts_adc_irq 0 0 (myts_adc_irq 0x8000 0
     (myts_adc_irq 1000 0 (myts_adc_irq 1000 0 myts_init)))))"

lemma reach_adc: "reach start ts_step s \<Longrightarrow> reach start ts_step (myts_adc_irq d0 d1 s)"
  by (erule reach_step) (rule ts_adc)

theorem ts_reports_in_range_witness:
  "reports mixed_touch = [Pressure 0, BtnTouch 0, Sync, AbsX 500, AbsY 0, Pressure 1, BtnTouch 1, Sync]
    \<and> list_all in_range (reports mixed_touch)"
proof -
  have "reach (\<lambda>s. s = myts_init) ts_step mixed_touch"
    unfolding mixed_touch_def by (intro reach_adc reach_start) simp
  then have "list_all in_range (reports mixed_touch)" by (rule ts_reports_in_range [THEN conjunct1])
  moreover have "reports mixed_touch = [Pressure 0, BtnTouch 0, Sync, AbsX 500, AbsY 0, Pressure 1, BtnTouch 1, Sync]"
    by (simp add: mixed_touch_def myts_init_def ts_defs pen_down_def sample_def Let_def)
  ultimately show ?thesis by blast
qed

section \<open>The keys\<close>

text \<open>The interrupt, the pin and the key of each entry of \<open>key_infos\<close>.\<close>

datatype key = KEY_L | KEY_S | KEY_ENTER | KEY_LEFTSHIFT

definition key_infos :: "(nat \<times> nat \<times> key) list" where
  "key_infos = [(4, 4, KEY_L), (5, 5, KEY_S), (6, 6, KEY_ENTER), (7, 7, KEY_LEFTSHIFT)]"

text \<open>
  The key whose interrupt came last and has not been handled, the time the timer is set
  to, and the key events with their values. \<open>HZ / 100\<close> ticks is the debounce time.
\<close>

record keys =
  irq_info :: "nat option"
  key_timer :: "nat option"
  key_events :: "(key \<times> nat) list"

definition key_input_handleirq :: "nat \<Rightarrow> nat \<Rightarrow> nat \<Rightarrow> keys \<Rightarrow> keys" where
  "key_input_handleirq HZ jiffies dev_id s = s\<lparr>irq_info := Some dev_id, key_timer := Some (jiffies + HZ div 100)\<rparr>"

definition key_timer_func :: "(nat \<Rightarrow> bool) \<Rightarrow> keys \<Rightarrow> keys" where
  "key_timer_func getpin s =
     (let s = s\<lparr>key_timer := None\<rparr> in
      case irq_info s of None \<Rightarrow> s
      | Some i \<Rightarrow>
          let (irq, pin, key_val) = key_infos ! i;
              s = (if getpin pin then s else s\<lparr>key_events := key_events s @ [(key_val, 1)]\<rparr>)
          in s\<lparr>irq_info := None\<rparr>)"

definition key_input_init :: keys where
  "key_input_init = \<lparr>irq_info = None, key_timer = Some 0, key_events = []\<rparr>"

text \<open>Interrupts of keys, and the timer when it is due, each at a time; a low pin is a pressed key.\<close>

inductive key_step :: "nat \<Rightarrow> keys \<Rightarrow> keys \<Rightarrow> bool" for HZ where
  key_irq: "i < length key_infos \<Longrightarrow> key_step HZ s (key_input_handleirq HZ jiffies i s)"
| key_tick: "key_timer s \<noteq> None \<Longrightarrow> key_step HZ s (key_timer_func getpin s)"

definition key_inv :: "keys \<Rightarrow> bool" where
  "key_inv s \<longleftrightarrow> list_all (\<lambda>e. snd e = 1) (key_events s)
     \<and> (irq_info s \<noteq> None \<longrightarrow> key_timer s \<noteq> None \<and> the (irq_info s) < length key_infos)"

lemma key_step_inv: "key_inv s \<Longrightarrow> key_step HZ s t \<Longrightarrow> key_inv t"
  by (erule key_step.cases)
    (auto simp: key_inv_def key_input_handleirq_def key_timer_func_def Let_def split: option.splits prod.splits)

interpretation keypad: inv_system "\<lambda>s. s = key_input_init" "key_step HZ" key_inv for HZ
  by unfold_locales (simp add: key_inv_def key_input_init_def, rule key_step_inv)

text \<open>
  The key driver never stores an entry outside its table, and an interrupt that waits
  is always followed by the timer. But it reports only presses, never the release of a
  key, and of two keys within the debounce time only the second.
\<close>

theorem key_events_presses_only:
  assumes "reach (\<lambda>s. s = key_input_init) (key_step HZ) s" and "i < 4" and "j < 4"
  shows "list_all (\<lambda>e. snd e = 1) (key_events s)
    \<and> (\<forall>k. irq_info s = Some k \<longrightarrow> k < 4 \<and> key_timer s \<noteq> None)
    \<and> key_events (key_timer_func (\<lambda>_. False) (key_input_handleirq HZ t' j (key_input_handleirq HZ t i s)))
      = key_events s @ [(snd (snd (key_infos ! j)), 1)]"
proof -
  have "key_inv s" by (rule keypad.reach_inv [OF assms(1)])
  then show ?thesis
    by (auto simp: key_inv_def key_infos_def key_timer_func_def key_input_handleirq_def Let_def split: prod.splits)
qed

theorem key_events_presses_only_witness:
  "key_events (key_timer_func (\<lambda>_. False) (key_input_handleirq 200 1 2 (key_input_handleirq 200 0 0 key_input_init)))
    = [(KEY_ENTER, 1)]"
  using key_events_presses_only [OF reach_start [of "\<lambda>s. s = key_input_init", OF refl], of 0 2 200 1 0]
  by (simp add: key_input_init_def key_infos_def)

end
