(* ===== verification/VirNet.thy ===== *)
theory VirNet
  imports Prelude
begin

text \<open>
  The virtual network device vir_net.c: every packet handed to the device comes back to it
  as the packet it pretends to receive, with the addresses exchanged. The packet is the
  byte list of the socket buffer; an access behind it is a fault. The kernel's checksum,
  its parsing of the Ethernet header and whether a new buffer can be had are parameters.
\<close>

section \<open>The packet\<close>

text \<open>Offsets of the fields that are touched: \<open>struct ethhdr\<close>, then \<open>struct iphdr\<close>.\<close>

abbreviation (input) h_dest :: nat where "h_dest \<equiv> 0"
abbreviation (input) h_source :: nat where "h_source \<equiv> 6"
abbreviation (input) ip_hdr :: nat where "ip_hdr \<equiv> 14"
abbreviation (input) ip_check :: nat where "ip_check \<equiv> 24"
abbreviation (input) ip_saddr :: nat where "ip_saddr \<equiv> 26"
abbreviation (input) ip_daddr :: nat where "ip_daddr \<equiv> 30"
abbreviation (input) ip_type :: nat where "ip_type \<equiv> 34"

definition wr_bytes :: "u8 list \<Rightarrow> nat \<Rightarrow> u8 list \<Rightarrow> fault + u8 list" where
  "wr_bytes m p bs = (if p + length bs \<le> length m then Inr (put p bs m) else Inl OutOfBounds)"

text \<open>Two fields exchanged through a temporary: the first is saved, overwritten, and written to the second.\<close>

definition exchange :: "nat \<Rightarrow> nat \<Rightarrow> nat \<Rightarrow> u8 list \<Rightarrow> fault + u8 list" where
  "exchange p q n m =
     rbind (rd_bytes m p n) (\<lambda>my_tmp.
     rbind (rd_bytes m q n) (\<lambda>src.
     rbind (wr_bytes m p src) (\<lambda>m. wr_bytes m q my_tmp)))"

text \<open>The kernel, as far as the driver sees it: \<open>ip_fast_csum\<close> gives the two bytes in memory order.\<close>

record net_api =
  dev_alloc_skb_ok :: bool
  ip_fast_csum :: "u8 list \<Rightarrow> u8 \<times> u8"
  eth_type_trans :: "u8 list \<Rightarrow> nat \<times> u8 list"

definition ip_ihl :: "nat \<Rightarrow> nat" where
  "ip_ihl version_ihl = version_ihl mod 16"

definition false_packet :: "net_api \<Rightarrow> u8 list \<Rightarrow> fault + u8 list" where
  "false_packet k m =
     rbind (exchange h_dest h_source 6 m) (\<lambda>m.
     rbind (exchange ip_daddr ip_saddr 4 m) (\<lambda>m.
     rbind (wr_bytes m ip_type [0, 0, 0, 0]) (\<lambda>m.
     rbind (wr_bytes m ip_check [0, 0]) (\<lambda>m.
     rbind (rd8 m ip_hdr) (\<lambda>v.
     rbind (rd_bytes m ip_hdr (4 * ip_ihl v)) (\<lambda>h.
     wr_bytes m ip_check [fst (ip_fast_csum k h), snd (ip_fast_csum k h)]))))))"

section \<open>The device\<close>

text \<open>The counters are \<open>unsigned long\<close> of the 32-bit board; \<open>received\<close> is what \<open>netif_rx\<close> was given.\<close>

record vnet =
  rx_bytes :: u32
  rx_packets :: u32
  tx_bytes :: u32
  tx_packets :: u32
  xmit_count :: u32
  queue_stopped :: bool
  received :: "(nat \<times> u8 list) list"

text \<open>The changed packet stays in the buffer that was sent; a copy of it is received.\<close>

definition construct_false_packet :: "net_api \<Rightarrow> u8 list \<Rightarrow> vnet \<Rightarrow> fault + vnet" where
  "construct_false_packet k skb d =
     rbind (false_packet k skb) (\<lambda>skb.
       if \<not> dev_alloc_skb_ok k then Inl (BadAccess NULL)
       else let (protocol, rx_skb) = eth_type_trans k skb
            in Inr (d\<lparr>rx_bytes := rx_bytes d + of_nat (length rx_skb), rx_packets := rx_packets d + 1,
                      received := received d @ [(protocol, rx_skb)]\<rparr>))"

text \<open>\<open>skb->len\<close> is read after \<open>dev_kfree_skb\<close>: what freed memory holds is the argument \<open>stale\<close>.\<close>

definition ndo_start_xmit :: "net_api \<Rightarrow> u32 \<Rightarrow> u8 list \<Rightarrow> vnet \<Rightarrow> fault + int \<times> vnet" where
  "ndo_start_xmit k stale skb d =
     (let d = d\<lparr>xmit_count := xmit_count d + 1\<rparr>;
          d = d\<lparr>queue_stopped := True\<rparr>
      in rbind (construct_false_packet k skb d) (\<lambda>d.
           let d = d\<lparr>queue_stopped := False\<rparr>;
               d = d\<lparr>tx_bytes := tx_bytes d + stale, tx_packets := xmit_count d\<rparr>
           in Inr (0, d)))"

definition my_virt_init :: vnet where
  "my_virt_init = \<lparr>rx_bytes = 0, rx_packets = 0, tx_bytes = 0, tx_packets = 0, xmit_count = 0,
     queue_stopped = False, received = []\<rparr>"

section \<open>When the packet can be changed\<close>

lemma wr_bytes_Inr: "wr_bytes m p bs = Inr r \<longleftrightarrow> p + length bs \<le> length m \<and> r = put p bs m"
  by (auto simp: wr_bytes_def)

lemma exchange_ok:
  assumes "p + n \<le> length m" and "q + n \<le> length m"
  shows "exchange p q n m = Inr (put q (take n (drop p m)) (put p (take n (drop q m)) m))"
  using assms by (simp add: exchange_def rd_bytes_def wr_bytes_def length_put)

lemma exchange_fault:
  "exchange p q n m = Inl OutOfBounds" if "length m < p + n \<or> length m < q + n"
  using that by (auto simp: exchange_def rd_bytes_def wr_bytes_def)

text \<open>The packet with everything but the checksum done.\<close>

definition swapped :: "u8 list \<Rightarrow> u8 list" where
  "swapped m = put ip_check [0, 0] (put ip_type [0, 0, 0, 0]
     (put ip_saddr (take 4 (drop ip_daddr m)) (put ip_daddr (take 4 (drop ip_saddr m))
       (put h_source (take 6 (drop h_dest m)) (put h_dest (take 6 (drop h_source m)) m)))))"

lemma list_38:
  assumes "38 \<le> length m"
  obtains a0 a1 a2 a3 a4 a5 b0 b1 b2 b3 b4 b5 e0 e1 v c0 c1 c2 c3 c4 c5 c6 c7 c8 k0 k1
    s0 s1 s2 s3 d0 d1 d2 d3 t0 t1 t2 t3 rest where
  "m = [a0, a1, a2, a3, a4, a5, b0, b1, b2, b3, b4, b5, e0, e1, v, c0, c1, c2, c3, c4, c5, c6, c7, c8,
    k0, k1, s0, s1, s2, s3, d0, d1, d2, d3, t0, t1, t2, t3] @ rest"
  using assms that
  by (auto simp: Suc_le_length_iff numeral_eq_Suc)

definition wire_ihl :: "u8 list \<Rightarrow> nat" where
  "wire_ihl m = ip_ihl (unat (m ! ip_hdr))"

text \<open>The IP header of a packet, options included.\<close>

definition ip_header :: "u8 list \<Rightarrow> u8 list" where
  "ip_header m = take (4 * wire_ihl m) (drop ip_hdr m)"

lemma false_packet_long:
  assumes "38 \<le> length m"
  shows "false_packet k m =
    (if length m < 14 + 4 * wire_ihl m then Inl OutOfBounds
     else let h = ip_header (swapped m)
          in Inr (put ip_check [fst (ip_fast_csum k h), snd (ip_fast_csum k h)] (swapped m)))"
  using assms
  by (rule list_38)
    (auto simp: false_packet_def exchange_ok length_put wr_bytes_def rd_bytes_def swapped_def put_def
      wire_ihl_def ip_header_def Let_def)

lemma false_packet_short:
  assumes "length m < 38"
  shows "false_packet k m = Inl OutOfBounds"
proof (cases "length m < 34")
  case True
  then show ?thesis
    by (cases "length m < 12") (simp_all add: false_packet_def exchange_fault exchange_ok length_put)
next
  case False
  then show ?thesis
    using assms by (simp add: false_packet_def exchange_ok length_put wr_bytes_def)
qed

section \<open>The Internet checksum\<close>

text \<open>
  The specification: the one's complement sum of the big-endian 16-bit words. A header is
  valid when the sum over it, the checksum included, is all ones. That \<open>ip_fast_csum\<close>
  gives the complement of the sum is what its documentation says.
\<close>

fun sum16 :: "u8 list \<Rightarrow> nat" where
  "sum16 [] = 0"
| "sum16 [a] = 256 * unat a"
| "sum16 (a # b # bs) = 256 * unat a + unat b + sum16 bs"

definition ones_sum :: "nat \<Rightarrow> nat" where
  "ones_sum s = (if s = 0 then 0 else (s - 1) mod 65535 + 1)"

definition inet_csum :: "(u8 list \<Rightarrow> u8 \<times> u8) \<Rightarrow> bool" where
  "inet_csum f = (\<forall>h. 20 \<le> length h \<longrightarrow>
     256 * unat (fst (f h)) + unat (snd (f h)) = 65535 - ones_sum (sum16 h))"

lemma ones_sum_complement: "ones_sum (s + (65535 - ones_sum s)) = 65535"
proof (cases "s = 0")
  case True
  then show ?thesis by (simp add: ones_sum_def)
next
  case False
  let ?q = "(s - 1) div 65535" and ?r = "(s - 1) mod 65535"
  have s: "s = 65535 * ?q + ?r + 1" using False by simp
  have r: "?r < 65535" by simp
  have "s + (65535 - (?r + 1)) - 1 = 65534 + 65535 * ?q" using s r by linarith
  moreover have "(65534 + 65535 * ?q) mod 65535 = 65534" by simp
  ultimately have "(s + (65535 - (?r + 1)) - 1) mod 65535 = 65534" by metis
  then show ?thesis using False by (simp add: ones_sum_def)
qed

text \<open>The packet the sender expects back: addresses exchanged, type and code zero, a valid header.\<close>

definition echo_of :: "u8 list \<Rightarrow> u8 list \<Rightarrow> bool" where
  "echo_of m r =
     (length r = length m
      \<and> take 6 r = take 6 (drop 6 m) \<and> take 6 (drop 6 r) = take 6 m
      \<and> take 12 (drop 12 r) = take 12 (drop 12 m)
      \<and> take 4 (drop 26 r) = take 4 (drop 30 m) \<and> take 4 (drop 30 r) = take 4 (drop 26 m)
      \<and> take 4 (drop 34 r) = [0, 0, 0, 0] \<and> drop 38 r = drop 38 m
      \<and> ones_sum (sum16 (ip_header r)) = 65535)"

lemma false_packet_echo:
  assumes len: "38 \<le> length m" and fits: "14 + 4 * wire_ihl m \<le> length m"
    and ihl: "5 \<le> wire_ihl m" and csum: "inet_csum (ip_fast_csum k)"
  shows "\<exists>r. false_packet k m = Inr r \<and> echo_of m r"
proof -
  obtain a0 a1 a2 a3 a4 a5 b0 b1 b2 b3 b4 b5 e0 e1 v c0 c1 c2 c3 c4 c5 c6 c7 c8 k0 k1
    s0 s1 s2 s3 d0 d1 d2 d3 t0 t1 t2 t3 rest where
    m: "m = [a0, a1, a2, a3, a4, a5, b0, b1, b2, b3, b4, b5, e0, e1, v, c0, c1, c2, c3, c4, c5, c6, c7, c8,
      k0, k1, s0, s1, s2, s3, d0, d1, d2, d3, t0, t1, t2, t3] @ rest"
    using len by (rule list_38)
  let ?hd = "\<lambda>x y. [v, c0, c1, c2, c3, c4, c5, c6, c7, c8, x, y, d0, d1, d2, d3, s0, s1, s2, s3]"
  let ?tl = "take (4 * ip_ihl (unat v) - 20) ([0, 0, 0, 0] @ rest)"
  let ?sw = "[b0, b1, b2, b3, b4, b5, a0, a1, a2, a3, a4, a5, e0, e1] @ ?hd 0 0 @ [0, 0, 0, 0] @ rest"
  have sw: "swapped m = ?sw" by (simp add: m swapped_def put_def)
  have n: "5 \<le> ip_ihl (unat v)" using ihl by (simp add: m wire_ihl_def)
  have hdr: "ip_header (pre @ ?hd x y @ t) = ?hd x y @ take (4 * ip_ihl (unat v) - 20) t"
    if "length pre = 14" for pre t x y
  proof -
    have "take (4 * ip_ihl (unat v)) (?hd x y @ t) = ?hd x y @ take (4 * ip_ihl (unat v) - 20) t"
      unfolding take_append using n by (simp add: eval_nat_numeral)
    with that show ?thesis by (simp add: ip_header_def wire_ihl_def nth_append)
  qed
  have h: "ip_header (swapped m) = ?hd 0 0 @ ?tl"
    unfolding sw by (rule hdr) simp
  obtain x y where xy: "ip_fast_csum k (?hd 0 0 @ ?tl) = (x, y)" by (cases "ip_fast_csum k (?hd 0 0 @ ?tl)")
  let ?r = "[b0, b1, b2, b3, b4, b5, a0, a1, a2, a3, a4, a5, e0, e1] @ ?hd x y @ [0, 0, 0, 0] @ rest"
  have r: "false_packet k m = Inr ?r"
  proof -
    have "false_packet k m = Inr (put ip_check [fst (ip_fast_csum k (ip_header (swapped m))),
        snd (ip_fast_csum k (ip_header (swapped m)))] (swapped m))"
      using fits by (simp add: false_packet_long [OF len] Let_def)
    then show ?thesis unfolding h xy fst_conv snd_conv unfolding sw by (simp add: put_def)
  qed
  have c: "256 * unat x + unat y = 65535 - ones_sum (sum16 (?hd 0 0 @ ?tl))"
    using csum [unfolded inet_csum_def, rule_format, of "?hd 0 0 @ ?tl"] unfolding xy by simp
  have hr: "ip_header ?r = ?hd x y @ ?tl"
    by (rule hdr) simp
  have "sum16 (ip_header ?r) = sum16 (?hd 0 0 @ ?tl) + (256 * unat x + unat y)"
    unfolding hr by simp
  then have "ones_sum (sum16 (ip_header ?r)) = 65535" unfolding c by (simp only: ones_sum_complement)
  then have "echo_of m ?r" unfolding echo_of_def by (simp add: m)
  with r show ?thesis by blast
qed

section \<open>Transmitting\<close>

text \<open>
  C21. A packet that holds its headers comes back as the packet expected: the addresses of
  both layers exchanged, the four bytes behind the header zero, everything else unchanged
  and the header checksum valid. The queue runs again, and the receive counters and the
  number of packets sent are right; the number of bytes sent grows by what the freed buffer
  holds where its length was.
\<close>

theorem xmit_echoes:
  assumes "38 \<le> length m" and "14 + 4 * wire_ihl m \<le> length m" and "5 \<le> wire_ihl m"
    and "dev_alloc_skb_ok k" and "inet_csum (ip_fast_csum k)"
  shows "\<exists>r d'. ndo_start_xmit k stale m d = Inr (0, d') \<and> echo_of m r
    \<and> received d' = received d @ [eth_type_trans k r]
    \<and> rx_bytes d' = rx_bytes d + of_nat (length (snd (eth_type_trans k r)))
    \<and> rx_packets d' = rx_packets d + 1
    \<and> xmit_count d' = xmit_count d + 1 \<and> tx_packets d' = xmit_count d'
    \<and> tx_bytes d' = tx_bytes d + stale \<and> \<not> queue_stopped d'"
  using false_packet_echo [OF assms(1,2,3,5)] assms(4)
  by (auto simp: ndo_start_xmit_def construct_false_packet_def Let_def split_def)

definition plain_csum :: "u8 list \<Rightarrow> u8 \<times> u8" where
  "plain_csum h = (let c = 65535 - ones_sum (sum16 h) in (of_nat (c div 256), of_nat (c mod 256)))"

lemma inet_csum_plain: "inet_csum plain_csum"
proof -
  have "256 * unat (of_nat (c div 256) :: u8) + unat (of_nat (c mod 256) :: u8) = c" if "c \<le> 65535" for c :: nat
  proof -
    have "c div 256 < 256" using that by linarith
    then show ?thesis by (simp add: unat_of_nat_u8)
  qed
  then show ?thesis by (simp add: inet_csum_def plain_csum_def Let_def)
qed

text \<open>A network layer that takes the type field and removes the Ethernet header.\<close>

definition plain_net :: net_api where
  "plain_net = \<lparr>dev_alloc_skb_ok = True, ip_fast_csum = plain_csum,
     eth_type_trans = (\<lambda>p. (256 * unat (p ! 12) + unat (p ! 13), drop 14 p))\<rparr>"

definition ping :: "u8 list" where
  "ping = [2, 0, 0, 0, 0, 1, 2, 0, 0, 0, 0, 2, 8, 0, 0x45, 0, 0, 28, 0, 0, 0, 0, 64, 1, 0xb9, 0xdd,
     10, 0, 0, 1, 10, 0, 0, 2, 8, 0, 0xf7, 0xff, 0, 0, 0, 0]"

theorem xmit_echoes_witness:
  "\<exists>r d'. ndo_start_xmit plain_net 7 ping my_virt_init = Inr (0, d') \<and> echo_of ping r
    \<and> received d' = [eth_type_trans plain_net r] \<and> rx_packets d' = 1 \<and> tx_packets d' = 1"
  using xmit_echoes [of ping plain_net 7 my_virt_init] inet_csum_plain
  by (fastforce simp: ping_def wire_ihl_def ip_ihl_def plain_net_def my_virt_init_def)

text \<open>
  Transmitting faults exactly when the packet ends before the four bytes behind a
  header without options, when it ends before the header it announces, or when there is no
  buffer for the copy, which is not checked: the fault is then the null pointer.
\<close>

theorem xmit_faults:
  "(ndo_start_xmit k stale m d = Inl OutOfBounds) = (length m < 38 \<or> length m < 14 + 4 * wire_ihl m)
    \<and> (ndo_start_xmit k stale m d = Inl (BadAccess NULL))
        = (38 \<le> length m \<and> 14 + 4 * wire_ihl m \<le> length m \<and> \<not> dev_alloc_skb_ok k)"
  by (cases "length m < 38")
    (auto simp: false_packet_short false_packet_long ndo_start_xmit_def construct_false_packet_def Let_def split_def)

end
