(* ===== verification/I2cDev.thy ===== *)
theory I2cDev
  imports Prelude
begin

text \<open>
  The SMBus functions of the user-space header i2c-dev.h. The union of the data is its 34
  bytes; the \<open>ioctl\<close> of the kernel and the bytes an uninitialised union holds are
  parameters, the adapter with its devices a state of any type. Loops over the block are
  checked: an index outside the union or outside the caller's array is a fault.
\<close>

section \<open>The access\<close>

text \<open>
  The kernel takes the direction, the command, the kind of transaction and the union, and
  gives a result, the union it leaves, and the adapter.
\<close>

record 'd smbus_api =
  smbus_ioctl :: "u8 \<Rightarrow> u8 \<Rightarrow> nat \<Rightarrow> u8 list option \<Rightarrow> 'd \<Rightarrow> int \<times> u8 list \<times> 'd"
  uninit_union :: "u8 list"

definition I2C_SMBUS_WRITE :: u8 where "I2C_SMBUS_WRITE = 0"
definition I2C_SMBUS_READ :: u8 where "I2C_SMBUS_READ = 1"
definition I2C_SMBUS_QUICK :: nat where "I2C_SMBUS_QUICK = 0"
definition I2C_SMBUS_BYTE :: nat where "I2C_SMBUS_BYTE = 1"
definition I2C_SMBUS_BYTE_DATA :: nat where "I2C_SMBUS_BYTE_DATA = 2"
definition I2C_SMBUS_WORD_DATA :: nat where "I2C_SMBUS_WORD_DATA = 3"
definition I2C_SMBUS_PROC_CALL :: nat where "I2C_SMBUS_PROC_CALL = 4"
definition I2C_SMBUS_BLOCK_DATA :: nat where "I2C_SMBUS_BLOCK_DATA = 5"
definition I2C_SMBUS_I2C_BLOCK_BROKEN :: nat where "I2C_SMBUS_I2C_BLOCK_BROKEN = 6"
definition I2C_SMBUS_BLOCK_PROC_CALL :: nat where "I2C_SMBUS_BLOCK_PROC_CALL = 7"
definition I2C_SMBUS_I2C_BLOCK_DATA :: nat where "I2C_SMBUS_I2C_BLOCK_DATA = 8"

definition i2c_smbus_access ::
  "'d smbus_api \<Rightarrow> u8 \<Rightarrow> u8 \<Rightarrow> nat \<Rightarrow> u8 list option \<Rightarrow> 'd \<Rightarrow> int \<times> u8 list \<times> 'd" where
  "i2c_smbus_access k read_write command sz data d = smbus_ioctl k read_write command sz data d"

section \<open>Bytes and words\<close>

text \<open>The members \<open>byte\<close> and \<open>word\<close> of the union, little endian.\<close>

definition union_byte :: "u8 list \<Rightarrow> int" where
  "union_byte b = int (unat (b ! 0))"

definition union_word :: "u8 list \<Rightarrow> int" where
  "union_word b = int (unat (b ! 0)) + 256 * int (unat (b ! 1))"

definition set_byte :: "u8 \<Rightarrow> u8 list \<Rightarrow> u8 list" where
  "set_byte v b = b[0 := v]"

definition set_word :: "u16 \<Rightarrow> u8 list \<Rightarrow> u8 list" where
  "set_word v b = b[0 := of_nat (unat v mod 256), 1 := of_nat (unat v div 256)]"

definition i2c_smbus_write_quick :: "'d smbus_api \<Rightarrow> u8 \<Rightarrow> 'd \<Rightarrow> int \<times> 'd" where
  "i2c_smbus_write_quick k v d =
     (let (r, b, d) = i2c_smbus_access k v 0 I2C_SMBUS_QUICK None d in (r, d))"

definition i2c_smbus_read_byte :: "'d smbus_api \<Rightarrow> 'd \<Rightarrow> int \<times> 'd" where
  "i2c_smbus_read_byte k d =
     (let (r, b, d) = i2c_smbus_access k I2C_SMBUS_READ 0 I2C_SMBUS_BYTE (Some (uninit_union k)) d
      in if r \<noteq> 0 then (-1, d) else (union_byte b, d))"

definition i2c_smbus_write_byte :: "'d smbus_api \<Rightarrow> u8 \<Rightarrow> 'd \<Rightarrow> int \<times> 'd" where
  "i2c_smbus_write_byte k v d =
     (let (r, b, d) = i2c_smbus_access k I2C_SMBUS_WRITE v I2C_SMBUS_BYTE None d in (r, d))"

definition i2c_smbus_read_byte_data :: "'d smbus_api \<Rightarrow> u8 \<Rightarrow> 'd \<Rightarrow> int \<times> 'd" where
  "i2c_smbus_read_byte_data k command d =
     (let (r, b, d) = i2c_smbus_access k I2C_SMBUS_READ command I2C_SMBUS_BYTE_DATA (Some (uninit_union k)) d
      in if r \<noteq> 0 then (-1, d) else (union_byte b, d))"

definition i2c_smbus_write_byte_data :: "'d smbus_api \<Rightarrow> u8 \<Rightarrow> u8 \<Rightarrow> 'd \<Rightarrow> int \<times> 'd" where
  "i2c_smbus_write_byte_data k command v d =
     (let data = set_byte v (uninit_union k);
          (r, b, d) = i2c_smbus_access k I2C_SMBUS_WRITE command I2C_SMBUS_BYTE_DATA (Some data) d
      in (r, d))"

definition i2c_smbus_read_word_data :: "'d smbus_api \<Rightarrow> u8 \<Rightarrow> 'd \<Rightarrow> int \<times> 'd" where
  "i2c_smbus_read_word_data k command d =
     (let (r, b, d) = i2c_smbus_access k I2C_SMBUS_READ command I2C_SMBUS_WORD_DATA (Some (uninit_union k)) d
      in if r \<noteq> 0 then (-1, d) else (union_word b, d))"

definition i2c_smbus_write_word_data :: "'d smbus_api \<Rightarrow> u8 \<Rightarrow> u16 \<Rightarrow> 'd \<Rightarrow> int \<times> 'd" where
  "i2c_smbus_write_word_data k command v d =
     (let data = set_word v (uninit_union k);
          (r, b, d) = i2c_smbus_access k I2C_SMBUS_WRITE command I2C_SMBUS_WORD_DATA (Some data) d
      in (r, d))"

definition i2c_smbus_process_call :: "'d smbus_api \<Rightarrow> u8 \<Rightarrow> u16 \<Rightarrow> 'd \<Rightarrow> int \<times> 'd" where
  "i2c_smbus_process_call k command v d =
     (let data = set_word v (uninit_union k);
          (r, b, d) = i2c_smbus_access k I2C_SMBUS_WRITE command I2C_SMBUS_PROC_CALL (Some data) d
      in if r \<noteq> 0 then (-1, d) else (union_word b, d))"

section \<open>Blocks\<close>

text \<open>
  The loop of the readers over \<open>i\<close> from 1 to \<open>data.block[0]\<close>, and the loop of the
  writers up to the length: how many are left, and \<open>i\<close>.
\<close>

fun block_to_values :: "nat \<Rightarrow> nat \<Rightarrow> u8 list \<Rightarrow> u8 list \<Rightarrow> fault + u8 list" where
  "block_to_values 0 i data vs = Inr vs"
| "block_to_values (Suc n) i data vs =
     (if i < length data \<and> i - 1 < length vs
      then block_to_values n (i + 1) data (vs[i - 1 := data ! i]) else Inl OutOfBounds)"

fun values_to_block :: "nat \<Rightarrow> nat \<Rightarrow> u8 list \<Rightarrow> u8 list \<Rightarrow> fault + u8 list" where
  "values_to_block 0 i vs data = Inr data"
| "values_to_block (Suc n) i vs data =
     (if i < length data \<and> i - 1 < length vs
      then values_to_block n (i + 1) vs (data[i := vs ! (i - 1)]) else Inl OutOfBounds)"

definition clamp_length :: "u8 \<Rightarrow> u8" where
  "clamp_length n = (if n > 32 then 32 else n)"

text \<open>What a reader does with the union the kernel left.\<close>

definition block_result :: "int \<times> u8 list \<times> 'd \<Rightarrow> u8 list \<Rightarrow> fault + int \<times> u8 list \<times> 'd" where
  "block_result res vs =
     (let (r, data, d) = res in
      if r \<noteq> 0 then Inr (-1, vs, d)
      else rbind (block_to_values (unat (data ! 0)) 1 data vs) (\<lambda>vs. Inr (union_byte data, vs, d)))"

definition i2c_smbus_read_block_data ::
  "'d smbus_api \<Rightarrow> u8 \<Rightarrow> u8 list \<Rightarrow> 'd \<Rightarrow> fault + int \<times> u8 list \<times> 'd" where
  "i2c_smbus_read_block_data k command vs d =
     block_result (i2c_smbus_access k I2C_SMBUS_READ command I2C_SMBUS_BLOCK_DATA (Some (uninit_union k)) d) vs"

text \<open>The union the writers fill: the bytes, then the length.\<close>

definition fill_block :: "'d smbus_api \<Rightarrow> u8 \<Rightarrow> u8 list \<Rightarrow> fault + u8 list" where
  "fill_block k n vs =
     rbind (values_to_block (unat n) 1 vs (uninit_union k)) (\<lambda>data. Inr (data[0 := n]))"

definition i2c_smbus_write_block_data ::
  "'d smbus_api \<Rightarrow> u8 \<Rightarrow> u8 \<Rightarrow> u8 list \<Rightarrow> 'd \<Rightarrow> fault + int \<times> 'd" where
  "i2c_smbus_write_block_data k command len vs d =
     (let len = clamp_length len in
      rbind (fill_block k len vs) (\<lambda>data.
        let (r, b, d) = i2c_smbus_access k I2C_SMBUS_WRITE command I2C_SMBUS_BLOCK_DATA (Some data) d
        in Inr (r, d)))"

definition i2c_smbus_read_i2c_block_data ::
  "'d smbus_api \<Rightarrow> u8 \<Rightarrow> u8 \<Rightarrow> u8 list \<Rightarrow> 'd \<Rightarrow> fault + int \<times> u8 list \<times> 'd" where
  "i2c_smbus_read_i2c_block_data k command len vs d =
     (let len = clamp_length len; data = (uninit_union k)[0 := len]
      in block_result (i2c_smbus_access k I2C_SMBUS_READ command
           (if len = 32 then I2C_SMBUS_I2C_BLOCK_BROKEN else I2C_SMBUS_I2C_BLOCK_DATA) (Some data) d) vs)"

definition i2c_smbus_write_i2c_block_data ::
  "'d smbus_api \<Rightarrow> u8 \<Rightarrow> u8 \<Rightarrow> u8 list \<Rightarrow> 'd \<Rightarrow> fault + int \<times> 'd" where
  "i2c_smbus_write_i2c_block_data k command len vs d =
     (let len = clamp_length len in
      rbind (fill_block k len vs) (\<lambda>data.
        let (r, b, d) = i2c_smbus_access k I2C_SMBUS_WRITE command I2C_SMBUS_I2C_BLOCK_BROKEN (Some data) d
        in Inr (r, d)))"

definition i2c_smbus_block_process_call ::
  "'d smbus_api \<Rightarrow> u8 \<Rightarrow> u8 \<Rightarrow> u8 list \<Rightarrow> 'd \<Rightarrow> fault + int \<times> u8 list \<times> 'd" where
  "i2c_smbus_block_process_call k command len vs d =
     (let len = clamp_length len in
      rbind (fill_block k len vs) (\<lambda>data.
        block_result (i2c_smbus_access k I2C_SMBUS_WRITE command I2C_SMBUS_BLOCK_PROC_CALL (Some data) d) vs))"

section \<open>The loops\<close>

lemma unat_clamp: "unat (clamp_length n) = min (unat n) 32"
  by (simp add: clamp_length_def word_less_nat_alt)

lemma block_to_values_ok:
  "1 \<le> i \<Longrightarrow> i + n \<le> length data \<Longrightarrow> i - 1 + n \<le> length vs \<Longrightarrow>
    block_to_values n i data vs = Inr (put (i - 1) (take n (drop i data)) vs)"
proof (induction n arbitrary: i vs)
  case (Suc n)
  have "take (Suc n) (drop i data) = data ! i # take n (drop (i + 1) data)"
    using Suc.prems by (simp add: Cons_nth_drop_Suc [of i data, symmetric])
  moreover have "put i xs (vs[i - 1 := x]) = put (i - 1) (x # xs) vs" for x and xs :: "u8 list"
    using Suc.prems by (cases i) (simp_all add: put_def upd_conv_take_nth_drop add.commute)
  ultimately show ?case using Suc by simp
qed (simp add: put_def)

lemma values_to_block_ok:
  "1 \<le> i \<Longrightarrow> i + n \<le> length data \<Longrightarrow> i - 1 + n \<le> length vs \<Longrightarrow>
    values_to_block n i vs data = Inr (put i (take n (drop (i - 1) vs)) data)"
proof (induction n arbitrary: i data)
  case (Suc n)
  have "take (Suc n) (drop (i - 1) vs) = vs ! (i - 1) # take n (drop i vs)"
  proof (cases i)
    case i: (Suc j)
    then show ?thesis using Suc.prems by (simp add: Cons_nth_drop_Suc [of j vs, symmetric])
  qed (use Suc.prems in simp)
  moreover have "put (i + 1) xs (data[i := x]) = put i (x # xs) data" for x and xs :: "u8 list"
    using Suc.prems by (simp add: put_def upd_conv_take_nth_drop add.commute)
  ultimately show ?case using Suc by simp
qed (simp add: put_def)

section \<open>Block transfers stay inside their arrays\<close>

text \<open>
  What the kernel promises of the call: the union keeps its size, and a block it hands
  back has at most 32 bytes.
\<close>

definition block_kinds :: "nat list" where
  "block_kinds = [I2C_SMBUS_BLOCK_DATA, I2C_SMBUS_I2C_BLOCK_BROKEN, I2C_SMBUS_BLOCK_PROC_CALL, I2C_SMBUS_I2C_BLOCK_DATA]"

definition smbus_kernel :: "'d smbus_api \<Rightarrow> bool" where
  "smbus_kernel k =
     (length (uninit_union k) = 34
      \<and> (\<forall>rw command sz b d. length b = 34 \<longrightarrow>
           (let (r, b', d') = smbus_ioctl k rw command sz (Some b) d in
            length b' = 34 \<and> (r = 0 \<and> sz \<in> set block_kinds \<longrightarrow> unat (b' ! 0) \<le> 32))))"

lemma smbus_kernelD:
  assumes "smbus_kernel k" and "smbus_ioctl k rw command sz (Some b) d = (r, b', d')" and "length b = 34"
  shows "length b' = 34 \<and> (r = 0 \<and> sz \<in> set block_kinds \<longrightarrow> unat (b' ! 0) \<le> 32)"
  using assms(1) [unfolded smbus_kernel_def, THEN conjunct2, rule_format, OF assms(3), of rw command sz d]
  by (simp add: assms(2))

definition blocks_safe :: "u8 list \<Rightarrow> (fault + int \<times> u8 list \<times> 'd) \<Rightarrow> bool" where
  "blocks_safe vs res =
     (\<exists>r vs' d'. res = Inr (r, vs', d') \<and> -1 \<le> r \<and> r \<le> 32 \<and> length vs' = length vs
        \<and> drop (nat r) vs' = drop (nat r) vs)"

lemma block_result_safe:
  assumes "smbus_kernel k" and "length b = 34" and "sz \<in> set block_kinds" and "32 \<le> length vs"
  shows "blocks_safe vs (block_result (i2c_smbus_access k rw command sz (Some b) d) vs)"
proof -
  obtain r b' d' where a: "smbus_ioctl k rw command sz (Some b) d = (r, b', d')" by (metis prod_cases3)
  have b': "length b' = 34" "r = 0 \<Longrightarrow> unat (b' ! 0) \<le> 32"
    using smbus_kernelD [OF assms(1) a assms(2)] assms(3) by simp_all
  show ?thesis
  proof (cases "r = 0")
    case True
    then have n: "unat (b' ! 0) \<le> 32" by (rule b'(2))
    have u: "uint (b' ! 0) = int (unat (b' ! 0))" by simp
    have z: "- 1 \<le> uint (b' ! 0)" "uint (b' ! 0) \<le> 32" using n unfolding u by linarith+
    have "block_to_values (unat (b' ! 0)) 1 b' vs = Inr (put 0 (take (unat (b' ! 0)) (drop 1 b')) vs)"
      using b'(1) assms(4) n by (subst block_to_values_ok) simp_all
    then show ?thesis
      using True n z b'(1) assms(4)
      by (simp add: blocks_safe_def block_result_def i2c_smbus_access_def a union_byte_def length_put put_def min_def)
  next
    case False
    then show ?thesis by (simp add: blocks_safe_def block_result_def i2c_smbus_access_def a)
  qed
qed

lemma fill_block_ok:
  assumes "length (uninit_union k) = 34" and "unat n \<le> 32" and "unat n \<le> length vs"
  shows "fill_block k n vs = Inr (n # take (unat n) vs @ drop (1 + unat n) (uninit_union k))"
proof -
  obtain u us where "uninit_union k = u # us" using assms(1) by (cases "uninit_union k") auto
  then show ?thesis using assms by (simp add: fill_block_def values_to_block_ok put_def)
qed

lemma length_filled: "length u = 34 \<Longrightarrow> n \<le> 32 \<Longrightarrow> n \<le> length vs \<Longrightarrow> length (a # take n vs @ drop (1 + n) u) = 34"
  by simp

text \<open>
  C24. A caller whose array has the 32 bytes of the largest block is safe with every block
  function and any length it asks for: none faults, the result is -1 or the number of
  bytes, at most 32, and the array is changed in these bytes at most; the writers hand the
  kernel at most 32 bytes of the array behind their number.
\<close>

theorem smbus_blocks_in_bounds:
  assumes "smbus_kernel k" and "32 \<le> length vs"
  shows "blocks_safe vs (i2c_smbus_read_block_data k command vs d)
    \<and> blocks_safe vs (i2c_smbus_read_i2c_block_data k command len vs d)
    \<and> blocks_safe vs (i2c_smbus_block_process_call k command len vs d)
    \<and> (let n = min (unat len) 32; b = clamp_length len # take n vs @ drop (1 + n) (uninit_union k) in
       i2c_smbus_write_block_data k command len vs d
         = (let (r, _, d') = smbus_ioctl k I2C_SMBUS_WRITE command I2C_SMBUS_BLOCK_DATA (Some b) d in Inr (r, d'))
       \<and> i2c_smbus_write_i2c_block_data k command len vs d
         = (let (r, _, d') = smbus_ioctl k I2C_SMBUS_WRITE command I2C_SMBUS_I2C_BLOCK_BROKEN (Some b) d in Inr (r, d')))"
proof -
  have u: "length (uninit_union k) = 34" using assms(1) by (simp add: smbus_kernel_def)
  have f: "fill_block k (clamp_length len) vs
      = Inr (clamp_length len # take (min (unat len) 32) vs @ drop (1 + min (unat len) 32) (uninit_union k))"
    using fill_block_ok [OF u, of "clamp_length len" vs] assms(2) by (simp add: unat_clamp)
  have l: "length (clamp_length len # take (min (unat len) 32) vs @ drop (1 + min (unat len) 32) (uninit_union k)) = 34"
    by (rule length_filled) (use u assms(2) in simp_all)
  have "blocks_safe vs (i2c_smbus_block_process_call k command len vs d)"
    unfolding i2c_smbus_block_process_call_def Let_def f rbind.simps
    by (rule block_result_safe [OF assms(1) l _ assms(2)]) (simp add: block_kinds_def)
  moreover have "blocks_safe vs (i2c_smbus_read_block_data k command vs d)"
    unfolding i2c_smbus_read_block_data_def
    by (rule block_result_safe [OF assms(1) u _ assms(2)]) (simp add: block_kinds_def)
  moreover have "blocks_safe vs (i2c_smbus_read_i2c_block_data k command len vs d)"
    unfolding i2c_smbus_read_i2c_block_data_def Let_def
    by (rule block_result_safe [OF assms(1) _ _ assms(2)]) (simp_all add: block_kinds_def u)
  ultimately show ?thesis
    by (simp add: i2c_smbus_write_block_data_def i2c_smbus_write_i2c_block_data_def i2c_smbus_access_def f Let_def)
qed

section \<open>Writing and reading back\<close>

text \<open>
  A memory chip behind the adapter: \<open>mem\<close> reads its cells. An I2C block write stores the
  bytes from the command's cell on, an I2C block read of the announced length returns them.
\<close>

definition chip_writes :: "'d smbus_api \<Rightarrow> ('d \<Rightarrow> nat \<Rightarrow> u8) \<Rightarrow> bool" where
  "chip_writes k mem =
     (\<forall>command b d. length b = 34 \<longrightarrow> unat (b ! 0) \<le> 32 \<longrightarrow>
        (let (r, b', d') = smbus_ioctl k I2C_SMBUS_WRITE command I2C_SMBUS_I2C_BLOCK_BROKEN (Some b) d in
         r = 0 \<and> map (\<lambda>i. mem d' (unat command + i)) [0..<unat (b ! 0)] = take (unat (b ! 0)) (drop 1 b)))"

definition chip_reads :: "'d smbus_api \<Rightarrow> ('d \<Rightarrow> nat \<Rightarrow> u8) \<Rightarrow> bool" where
  "chip_reads k mem =
     (\<forall>command sz b d. sz \<in> {I2C_SMBUS_I2C_BLOCK_BROKEN, I2C_SMBUS_I2C_BLOCK_DATA} \<longrightarrow>
        length b = 34 \<longrightarrow> unat (b ! 0) \<le> 32 \<longrightarrow>
        (let (r, b', d') = smbus_ioctl k I2C_SMBUS_READ command sz (Some b) d in
         r = 0 \<and> b' ! 0 = b ! 0 \<and>
         take (unat (b ! 0)) (drop 1 b') = map (\<lambda>i. mem d (unat command + i)) [0..<unat (b ! 0)]))"

lemma chip_writesD:
  assumes "chip_writes k mem" and "smbus_ioctl k I2C_SMBUS_WRITE command I2C_SMBUS_I2C_BLOCK_BROKEN (Some b) d = (r, b', d')"
    and "length b = 34" and "unat (b ! 0) \<le> 32"
  shows "r = 0 \<and> map (\<lambda>i. mem d' (unat command + i)) [0..<unat (b ! 0)] = take (unat (b ! 0)) (drop 1 b)"
  using assms(1) [unfolded chip_writes_def, rule_format, OF assms(3,4), of command d] by (simp add: assms(2))

lemma chip_readsD:
  assumes "chip_reads k mem" and "smbus_ioctl k I2C_SMBUS_READ command sz (Some b) d = (r, b', d')"
    and "sz \<in> {I2C_SMBUS_I2C_BLOCK_BROKEN, I2C_SMBUS_I2C_BLOCK_DATA}" and "length b = 34" and "unat (b ! 0) \<le> 32"
  shows "r = 0 \<and> b' ! 0 = b ! 0
    \<and> take (unat (b ! 0)) (drop 1 b') = map (\<lambda>i. mem d (unat command + i)) [0..<unat (b ! 0)]"
  using assms(1) [unfolded chip_reads_def, rule_format, OF assms(3,4,5), of command d] by (simp add: assms(2))

text \<open>
  What is written to the chip as an I2C block of any length is read back: the first 32
  bytes at most, in order, with the rest of the reader's array untouched.
\<close>

theorem i2c_block_roundtrip:
  assumes "smbus_kernel k" and "chip_writes k mem" and "chip_reads k mem"
    and "min (unat len) 32 \<le> length vs" and "min (unat len) 32 \<le> length ws"
  shows "\<exists>d1 d2. i2c_smbus_write_i2c_block_data k command len vs d = Inr (0, d1)
    \<and> i2c_smbus_read_i2c_block_data k command len ws d1
      = Inr (int (min (unat len) 32), take (min (unat len) 32) vs @ drop (min (unat len) 32) ws, d2)"
proof -
  let ?n = "min (unat len) 32" and ?c = "clamp_length len"
  let ?b = "?c # take ?n vs @ drop (1 + ?n) (uninit_union k)"
  have u: "length (uninit_union k) = 34" using assms(1) by (simp add: smbus_kernel_def)
  have f: "fill_block k ?c vs = Inr ?b"
    using fill_block_ok [OF u, of ?c vs] assms(4) by (simp add: unat_clamp)
  have l: "length ?b = 34" by (rule length_filled) (use u assms(4) in simp_all)
  obtain r b1 d1 where w: "smbus_ioctl k I2C_SMBUS_WRITE command I2C_SMBUS_I2C_BLOCK_BROKEN (Some ?b) d = (r, b1, d1)"
    by (metis prod_cases3)
  have r: "r = 0" and m: "map (\<lambda>i. mem d1 (unat command + i)) [0..<?n] = take ?n vs"
    using chip_writesD [OF assms(2) w l] assms(4) by (simp_all add: unat_clamp)
  let ?sz = "if ?c = 32 then I2C_SMBUS_I2C_BLOCK_BROKEN else I2C_SMBUS_I2C_BLOCK_DATA"
  let ?a = "(uninit_union k)[0 := ?c]"
  obtain r2 b2 d2 where i: "smbus_ioctl k I2C_SMBUS_READ command ?sz (Some ?a) d1 = (r2, b2, d2)"
    by (metis prod_cases3)
  have a: "length ?a = 34" "?a ! 0 = ?c" using u by simp_all
  have r2: "r2 = 0" "b2 ! 0 = ?c" "take ?n (drop 1 b2) = map (\<lambda>i. mem d1 (unat command + i)) [0..<?n]"
    using chip_readsD [OF assms(3) i _ a(1)] a(2) by (simp_all add: unat_clamp)
  have l2: "length b2 = 34"
    using smbus_kernelD [OF assms(1) i a(1)] by blast
  have v: "block_to_values ?n 1 b2 ws = Inr (put 0 (take ?n vs) ws)"
    using block_to_values_ok [of 1 ?n b2 ws] l2 assms(5) r2(3) m by simp
  have "int (unat ?c) = int ?n" by (simp only: unat_clamp)
  then have "i2c_smbus_read_i2c_block_data k command len ws d1 = Inr (int ?n, take ?n vs @ drop ?n ws, d2)"
    unfolding i2c_smbus_read_i2c_block_data_def Let_def i2c_smbus_access_def i block_result_def prod.case
    using v assms(4) by (simp only: r2 unat_clamp union_byte_def) (simp add: put_def min_def)
  moreover have "i2c_smbus_write_i2c_block_data k command len vs d = Inr (0, d1)"
    unfolding i2c_smbus_write_i2c_block_data_def Let_def f rbind.simps i2c_smbus_access_def w prod.case by (simp only: r)
  ultimately show ?thesis by blast
qed

text \<open>A chip of 256 cells that refuses everything but I2C blocks of at most 32 bytes.\<close>

definition chip_ioctl :: "u8 \<Rightarrow> u8 \<Rightarrow> nat \<Rightarrow> u8 list option \<Rightarrow> (nat \<Rightarrow> u8) \<Rightarrow> int \<times> u8 list \<times> (nat \<Rightarrow> u8)" where
  "chip_ioctl rw command sz data cells =
     (case data of None \<Rightarrow> (-1, [], cells)
      | Some b \<Rightarrow>
          if unat (b ! 0) > 32 \<or> sz \<noteq> I2C_SMBUS_I2C_BLOCK_BROKEN \<and> sz \<noteq> I2C_SMBUS_I2C_BLOCK_DATA then (-1, b, cells)
          else if rw = I2C_SMBUS_WRITE
          then (0, b, \<lambda>j. if unat command \<le> j \<and> j < unat command + unat (b ! 0) then b ! (j - unat command + 1) else cells j)
          else (0, take 1 b @ map (\<lambda>i. cells (unat command + i)) [0..<unat (b ! 0)] @ drop (1 + unat (b ! 0)) b, cells))"

definition chip_api :: "(nat \<Rightarrow> u8) smbus_api" where
  "chip_api = \<lparr>smbus_ioctl = chip_ioctl, uninit_union = replicate 34 0\<rparr>"

lemma chip_kernel: "smbus_kernel chip_api"
  by (auto simp: smbus_kernel_def chip_api_def chip_ioctl_def Let_def nth_append split: option.splits)

lemma chip_api_writes: "chip_writes chip_api (\<lambda>c. c)"
  by (auto simp: chip_writes_def chip_api_def chip_ioctl_def Let_def intro!: nth_equalityI)

lemma chip_api_reads: "chip_reads chip_api (\<lambda>c. c)"
  by (auto simp: chip_reads_def chip_api_def chip_ioctl_def Let_def I2C_SMBUS_READ_def I2C_SMBUS_WRITE_def nth_append min_def)

theorem smbus_blocks_in_bounds_witness:
  "blocks_safe (replicate 32 1) (i2c_smbus_read_i2c_block_data chip_api 0 200 (replicate 32 1) (\<lambda>_. 7))"
  using smbus_blocks_in_bounds [OF chip_kernel, of "replicate 32 1" 0 "\<lambda>_. 7" 200] by simp

theorem i2c_block_roundtrip_witness:
  "\<exists>d1 d2. i2c_smbus_write_i2c_block_data chip_api 16 3 [5, 6, 7, 8] (\<lambda>_. 0) = Inr (0, d1)
    \<and> i2c_smbus_read_i2c_block_data chip_api 16 3 [0, 0, 0, 9] d1 = Inr (3, [5, 6, 7, 9], d2)"
  using i2c_block_roundtrip [OF chip_kernel chip_api_writes chip_api_reads, of 3 "[5, 6, 7, 8]" "[0, 0, 0, 9]" 16 "\<lambda>_. 0"]
  by simp

end
