(* ===== verification/I2cDrivers.thy ===== *)
theory I2cDrivers
  imports Tools I2cDev
begin

text \<open>
  The I2C drivers and the programs on both ways to an EEPROM: i2c_driver.c (a character
  device over the SMBus calls of the kernel) with i2c_test.c, i2c_user-space.c over
  i2c-dev.h, the light sensor of bh1750_drv.c and the camera of ov9650_drv.c. The SMBus
  calls of the kernel are parameters: the value that was read, or a negative error.
\<close>

record 'd i2c_client =
  client_read_byte :: "'d \<Rightarrow> int \<times> 'd"
  client_write_byte :: "u8 \<Rightarrow> 'd \<Rightarrow> int \<times> 'd"
  client_read_byte_data :: "u8 \<Rightarrow> 'd \<Rightarrow> int \<times> 'd"
  client_write_byte_data :: "u8 \<Rightarrow> u8 \<Rightarrow> 'd \<Rightarrow> int \<times> 'd"

section \<open>The EEPROM driver\<close>

text \<open>\<open>data\<close> is an unsigned char: the test for an error compares a value of at least 0.\<close>

definition eeprom_read :: "'d i2c_client \<Rightarrow> u8 list \<Rightarrow> 'd \<Rightarrow> int \<times> u8 list \<times> 'd" where
  "eeprom_read c buf d =
     (let addr = get_user buf 0;
          (r, d) = client_read_byte_data c addr d;
          data = of_int r :: u8
      in if uint data < 0 then (-1, buf, d) else (1, buf[1 := data], d))"

definition eeprom_write :: "'d i2c_client \<Rightarrow> u8 list \<Rightarrow> 'd \<Rightarrow> int \<times> 'd" where
  "eeprom_write c buf d =
     (let addr = get_user buf 0; data = get_user buf 1;
          (ret, d) = client_write_byte_data c addr data d
      in if ret \<noteq> 0 then (-1, d) else (1, d))"

section \<open>The programs\<close>

text \<open>
  \<open>strtoul\<close> of the C library, for the bases 0 and 10 and a 32-bit \<open>unsigned long\<close>:
  blanks, a sign, a prefix that tells the base, digits, saturation.
\<close>

definition digit_val :: "u8 \<Rightarrow> nat" where
  "digit_val c =
     (let n = unat c in
      if 48 \<le> n \<and> n \<le> 57 then n - 48
      else if 97 \<le> n \<and> n \<le> 122 then n - 87 else if 65 \<le> n \<and> n \<le> 90 then n - 55 else 99)"

definition digits :: "nat \<Rightarrow> u8 list \<Rightarrow> nat list" where
  "digits base s = takeWhile (\<lambda>v. v < base) (map digit_val s)"

definition is_blank :: "u8 \<Rightarrow> bool" where
  "is_blank c = (c = 32 \<or> 9 \<le> c \<and> c \<le> 13)"

definition number_base :: "nat \<Rightarrow> u8 list \<Rightarrow> nat \<times> u8 list" where
  "number_base base s =
     (if base \<noteq> 0 then (base, s)
      else if length s \<ge> 3 \<and> s ! 0 = 48 \<and> (s ! 1 = 120 \<or> s ! 1 = 88) \<and> digit_val (s ! 2) < 16 then (16, drop 2 s)
      else if s \<noteq> [] \<and> s ! 0 = 48 then (8, s) else (10, s))"

definition number :: "nat \<Rightarrow> nat list \<Rightarrow> nat" where
  "number base ds = foldl (\<lambda>a v. base * a + v) 0 ds"

definition ULONG_MAX :: nat where "ULONG_MAX = 4294967295"

definition strtoul :: "nat \<Rightarrow> u8 list \<Rightarrow> nat" where
  "strtoul base s =
     (let s = dropWhile is_blank s;
          neg = (s \<noteq> [] \<and> s ! 0 = 45);
          s = (if s \<noteq> [] \<and> (s ! 0 = 45 \<or> s ! 0 = 43) then drop 1 s else s);
          (base, s) = number_base base s;
          v = number base (digits base s)
      in if v > ULONG_MAX then ULONG_MAX else if neg \<and> v \<noteq> 0 then ULONG_MAX + 1 - v else v)"

definition print_usage :: "u8 list list" where
  "print_usage = [chars ''write usage: ./i2c_test w addr data '' @ [10], chars ''read usage: ./i2c_test r addr '' @ [10]]"

text \<open>
  i2c_test.c: the exit code, the lines, the device. The three bytes \<open>junk\<close> are what the
  uninitialised buffer holds; a missing \<open>argv[3]\<close> is the null pointer.
\<close>

definition i2c_test_main ::
  "'d i2c_client \<Rightarrow> bool \<Rightarrow> u8 list \<Rightarrow> u8 list list \<Rightarrow> 'd \<Rightarrow> fault + int \<times> u8 list list \<times> 'd" where
  "i2c_test_main c opened junk argv d =
     (if \<not> opened then Inr (-1, [chars ''can't open dev file'' @ [10]], d)
      else if length argv \<noteq> 3 \<and> length argv \<noteq> 4 then Inr (-1, print_usage, d)
      else if argv ! 1 = chars ''w'' then
        if length argv = 3 then Inl (BadAccess NULL)
        else let buf = junk[0 := of_nat (strtoul 0 (argv ! 2))];
                 buf = buf[1 := of_nat (strtoul 0 (argv ! 3))];
                 (r, d) = eeprom_write c buf d
             in Inr (0, if r < 0 then [chars ''write error'' @ [10]] else [], d)
      else if argv ! 1 = chars ''r'' then
        let buf = junk[0 := of_nat (strtoul 0 (argv ! 2))];
            (r, buf, d) = eeprom_read c buf d
        in Inr (0, if r < 0 then [chars ''read error'' @ [10]]
             else [chars ''has read data :'' @ decimal (unat (buf ! 1)) @ chars '' from '' @ decimal (unat (buf ! 0)) @ [10]], d)
      else Inr (0, print_usage, d))"

text \<open>i2c_user-space.c: \<open>slave\<close> is whether the address of the chip can be set.\<close>

definition i2c_user_main ::
  "'d smbus_api \<Rightarrow> bool \<Rightarrow> bool \<Rightarrow> u8 list list \<Rightarrow> 'd \<Rightarrow> fault + int \<times> u8 list list \<times> 'd" where
  "i2c_user_main k opened slave argv d =
     (if length argv \<noteq> 3 \<and> length argv \<noteq> 4 then Inr (-1, print_usage, d)
      else if \<not> opened then Inr (-1, [chars ''can't open the dev file'' @ [10]], d)
      else let addr = of_nat (strtoul 10 (argv ! 2)) :: u8 in
        if \<not> slave then Inr (-1, [chars ''i2c transfer error'' @ [10]], d)
        else if argv ! 1 = chars ''w'' then
          if length argv = 3 then Inl (BadAccess NULL)
          else let data = of_nat (strtoul 10 (argv ! 3));
                   (r, d) = i2c_smbus_write_byte_data k addr data d
               in Inr (0, if r \<noteq> 0 then [chars ''write error'' @ [10]] else [chars ''has write '' @ [10]], d)
        else if argv ! 1 = chars ''r'' then
          let (r, d) = i2c_smbus_read_byte_data k addr d; data = of_int r :: u8
          in Inr (0, if uint data < 0 then [chars ''read error'' @ [10]]
               else [chars ''has read '' @ decimal (unat data) @ chars '' from '' @ decimal (unat addr) @ [10]], d)
        else Inr (0, print_usage, d))"

section \<open>The light sensor and the camera\<close>

datatype bh_msg = WriteFailed | ReadFailed | Values int int

text \<open>Both commands are sent; only the result of the second is looked at.\<close>

definition BH1750_read :: "'d i2c_client \<Rightarrow> u8 list \<Rightarrow> 'd \<Rightarrow> int \<times> bh_msg list \<times> u8 list \<times> 'd" where
  "BH1750_read c buff d =
     (let (ret, d) = client_write_byte c 0x01 d;
          (ret, d) = client_write_byte c 0x10 d;
          (x0, d) = client_read_byte c d;
          (x1, d) = client_read_byte c d;
          data_buf = [of_int x0, of_int x1]
      in (0, (if ret \<noteq> 0 then [WriteFailed] else []) @ (if x0 < 0 then [ReadFailed] else []) @ [Values x0 x1],
          put 0 (take (length buff) data_buf) buff, d))"

text \<open>The two bytes of the product number; the value that is printed when there is no error.\<close>

definition ov9650_probe :: "'d i2c_client \<Rightarrow> 'd \<Rightarrow> int \<times> u32 option \<times> 'd" where
  "ov9650_probe c d =
     (let (r, d) = client_read_byte_data c 0x0A d;
          data = of_int r :: u32;
          data = push_bit 8 data;
          (r, d) = client_read_byte_data c 0x0B d;
          data = data OR of_int r
      in if sint data < 0 then (-1, None, d) else (0, Some data, d))"

section \<open>Numbers on the command line\<close>

lemma unat_digit: "k < 10 \<Longrightarrow> unat (48 + of_nat k :: u8) = 48 + k"
  using unat_of_nat_u8 [of "48 + k"] by simp

lemma digit_val_digit: "k < 10 \<Longrightarrow> digit_val (of_nat (48 + k)) = k"
  by (simp add: digit_val_def unat_digit)

lemma decimal_induct [case_names digit more]:
  assumes "\<And>n. n < 10 \<Longrightarrow> P n [of_nat (48 + n)]"
    and "\<And>n. 10 \<le> n \<Longrightarrow> P (n div 10) (decimal (n div 10)) \<Longrightarrow> P n (decimal (n div 10) @ [of_nat (48 + n mod 10)])"
  shows "P n (decimal n)"
proof (induction n rule: less_induct)
  case (less n)
  then show ?case
    using assms by (cases "n < 10") (simp_all add: decimal.simps [of n])
qed

lemma decimal_digits: "\<forall>c \<in> set (decimal n). \<exists>k < 10. c = of_nat (48 + k)"
proof (induction n rule: decimal_induct)
  case (more n)
  moreover have "n mod 10 < 10" by simp
  ultimately show ?case by (metis Un_iff empty_iff insert_iff list.set set_append)
qed auto

lemma decimal_head: "\<exists>k cs. decimal n = of_nat (48 + k) # cs \<and> k < 10 \<and> (k = 0 \<longrightarrow> n = 0 \<and> cs = [])"
  by (induction n rule: decimal_induct) auto

lemma number_snoc: "number b (vs @ [v]) = b * number b vs + v"
  by (simp add: number_def)

lemma number_decimal: "number 10 (map digit_val (decimal n)) = n"
proof (induction n rule: decimal_induct)
  case (digit n)
  then show ?case by (simp add: number_def digit_val_digit del: of_nat_add)
next
  case (more n)
  then show ?case by (simp add: number_snoc digit_val_digit del: of_nat_add)
qed

lemma digits_decimal: "digits 10 (decimal n) = map digit_val (decimal n)"
proof -
  have "\<forall>c \<in> set (decimal n). digit_val c < 10"
  proof
    fix c assume "c \<in> set (decimal n)"
    then obtain k where "k < 10" "c = of_nat (48 + k)" using decimal_digits by blast
    then show "digit_val c < 10" using digit_val_digit [of k] by (simp del: of_nat_add)
  qed
  then show ?thesis by (simp add: digits_def)
qed

lemma digit_byte:
  assumes "k < 10"
  shows "\<not> is_blank (of_nat (48 + k))" "of_nat (48 + k) \<noteq> (45 :: u8)" "of_nat (48 + k) \<noteq> (43 :: u8)"
    "(of_nat (48 + k) = (48 :: u8)) = (k = 0)"
proof -
  have u: "unat (of_nat (48 + k) :: u8) = 48 + k" using unat_digit [OF assms] by simp
  show "\<not> is_blank (of_nat (48 + k))" unfolding is_blank_def word_le_nat_alt word_unat_eq_iff u by simp
  show "of_nat (48 + k) \<noteq> (45 :: u8)" "of_nat (48 + k) \<noteq> (43 :: u8)" "(of_nat (48 + k) = (48 :: u8)) = (k = 0)"
    unfolding word_unat_eq_iff u by simp_all
qed

lemma strtoul_decimal:
  assumes "n \<le> ULONG_MAX" and "base = 0 \<or> base = 10"
  shows "strtoul base (decimal n) = n"
proof -
  obtain k cs where d: "decimal n = of_nat (48 + k) # cs" and k: "k < 10" "k = 0 \<longrightarrow> n = 0 \<and> cs = []"
    using decimal_head by blast
  note b = digit_byte [OF k(1), folded d]
  have blank: "dropWhile is_blank (decimal n) = decimal n" unfolding d using b(1) by simp
  have sign: "decimal n ! 0 \<noteq> 45" "decimal n ! 0 \<noteq> 43" "decimal n \<noteq> []" unfolding d using b by simp_all
  show ?thesis
  proof (cases "k = 0 \<and> base = 0")
    case True
    then have "decimal n = [48]" "n = 0" using k(2) d by simp_all
    then show ?thesis using True by (simp add: strtoul_def is_blank_def number_base_def digits_def digit_val_def number_def ULONG_MAX_def)
  next
    case False
    then have nb: "number_base base (decimal n) = (10, decimal n)"
      using assms(2) b(4) by (auto simp: number_base_def d)
    show ?thesis
      using assms(1) sign by (simp add: strtoul_def blank nb digits_decimal number_decimal Let_def)
  qed
qed

section \<open>Writing and reading a cell\<close>

text \<open>
  The chip as the two programs see it: cells that keep what was written. The driver's
  client and the adapter of the program may be the same chip.
\<close>

definition chip_client :: "'d i2c_client \<Rightarrow> ('d \<Rightarrow> u8 \<Rightarrow> u8) \<Rightarrow> bool" where
  "chip_client c cell =
     (\<forall>a v d. fst (client_write_byte_data c a v d) = 0
        \<and> cell (snd (client_write_byte_data c a v d)) = (cell d)(a := v)
        \<and> fst (client_read_byte_data c a d) = int (unat (cell d a))
        \<and> cell (snd (client_read_byte_data c a d)) = cell d)"

definition chip_adapter :: "'d smbus_api \<Rightarrow> ('d \<Rightarrow> u8 \<Rightarrow> u8) \<Rightarrow> bool" where
  "chip_adapter k cell =
     (length (uninit_union k) = 34
      \<and> (\<forall>a b d. b \<noteq> [] \<longrightarrow>
           (let (r, b', d') = smbus_ioctl k I2C_SMBUS_WRITE a I2C_SMBUS_BYTE_DATA (Some b) d in
            r = 0 \<and> cell d' = (cell d)(a := b ! 0))
           \<and> (let (r, b', d') = smbus_ioctl k I2C_SMBUS_READ a I2C_SMBUS_BYTE_DATA (Some b) d in
              r = 0 \<and> b' ! 0 = cell d a \<and> cell d' = cell d)))"

definition read_line :: "string \<Rightarrow> u8 \<Rightarrow> u8 \<Rightarrow> u8 list" where
  "read_line lead v a = chars lead @ decimal (unat v) @ chars '' from '' @ decimal (unat a) @ [10]"

lemma r_not_w: "chars ''r'' \<noteq> chars ''w''"
  by (simp add: chars_def)

lemma junk_buf:
  assumes "length junk = 3"
  shows "get_user (junk[0 := a]) 0 = a" "junk[0 := a, 1 := v] = [a, v, junk ! 2]" "length (junk[0 := a]) = 3"
    "(junk[0 := a])[1 := v] ! 0 = a"
proof -
  obtain x y z where "junk = [x, y, z]" using assms by (auto simp: numeral_3_eq_3 length_Suc_conv)
  then show "get_user (junk[0 := a]) 0 = a" "junk[0 := a, 1 := v] = [a, v, junk ! 2]" "length (junk[0 := a]) = 3"
    "(junk[0 := a])[1 := v] ! 0 = a"
    by (simp_all add: get_user_def)
qed

lemma test_writes:
  assumes "chip_client c cell" and "a \<le> ULONG_MAX" and "v \<le> ULONG_MAX" and "length junk = 3"
  shows "\<exists>d1. i2c_test_main c True junk [p, chars ''w'', decimal a, decimal v] d = Inr (0, [], d1)
    \<and> cell d1 = (cell d)(of_nat a := of_nat v)"
proof -
  obtain r d1 where w: "client_write_byte_data c (of_nat a) (of_nat v) d = (r, d1)" by fastforce
  have "r = 0" "cell d1 = (cell d)(of_nat a := of_nat v)"
    using assms(1) w unfolding chip_client_def by (metis fst_conv, metis snd_conv)
  moreover have "junk \<noteq> []" using assms(4) by auto
  ultimately show ?thesis
    by (simp add: i2c_test_main_def eeprom_write_def get_user_def Let_def strtoul_decimal assms(2-4)
      junk_buf(2) [OF assms(4), unfolded One_nat_def] w)
qed

lemma test_reads:
  assumes "client_read_byte_data c (of_nat a) d = (x, d1)" and "a \<le> ULONG_MAX" and "length junk = 3"
  shows "i2c_test_main c True junk [p, chars ''r'', decimal a] d
    = Inr (0, [read_line ''has read data :'' (of_int x) (of_nat a)], d1)"
proof -
  have l: "length (junk[0 := of_nat a]) = 3" using assms(3) by simp
  show ?thesis
    using r_not_w assms(1,3) junk_buf(1,4) [OF assms(3)]
    by (simp add: i2c_test_main_def eeprom_read_def Let_def strtoul_decimal assms(2) read_line_def)
qed

lemma user_writes:
  assumes "chip_adapter k cell" and "a \<le> ULONG_MAX" and "v \<le> ULONG_MAX"
  shows "\<exists>d1. i2c_user_main k True True [p, chars ''w'', decimal a, decimal v] d = Inr (0, [chars ''has write '' @ [10]], d1)
    \<and> cell d1 = (cell d)(of_nat a := of_nat v)"
proof -
  let ?b = "set_byte (of_nat v) (uninit_union k)"
  obtain r b d1 where w: "smbus_ioctl k I2C_SMBUS_WRITE (of_nat a) I2C_SMBUS_BYTE_DATA (Some ?b) d = (r, b, d1)"
    by (metis prod_cases3)
  have u: "length (uninit_union k) = 34" using assms(1) by (simp add: chip_adapter_def)
  have b: "?b \<noteq> []" "?b ! 0 = of_nat v" using u by (auto simp: set_byte_def)
  have "r = 0 \<and> cell d1 = (cell d)(of_nat a := ?b ! 0)"
    using assms(1) [unfolded chip_adapter_def, THEN conjunct2, rule_format, OF b(1), of "of_nat a" d]
    by (simp add: w)
  then show ?thesis
    by (simp add: i2c_user_main_def i2c_smbus_write_byte_data_def i2c_smbus_access_def Let_def strtoul_decimal assms(2,3) w b(2))
qed

lemma user_reads:
  assumes "i2c_smbus_read_byte_data k (of_nat a) d = (x, d1)" and "a \<le> ULONG_MAX"
  shows "i2c_user_main k True True [p, chars ''r'', decimal a] d
    = Inr (0, [read_line ''has read '' (of_int x) (of_nat a)], d1)"
  using r_not_w assms by (simp add: i2c_user_main_def Let_def strtoul_decimal read_line_def)

lemma adapter_read:
  assumes "chip_adapter k cell"
  shows "\<exists>d1. i2c_smbus_read_byte_data k a d = (int (unat (cell d a)), d1)"
proof -
  obtain r b d1 where i: "smbus_ioctl k I2C_SMBUS_READ a I2C_SMBUS_BYTE_DATA (Some (uninit_union k)) d = (r, b, d1)"
    by (metis prod_cases3)
  have u: "uninit_union k \<noteq> []" using assms by (auto simp: chip_adapter_def)
  have "r = 0 \<and> b ! 0 = cell d a"
    using assms [unfolded chip_adapter_def, THEN conjunct2, rule_format, OF u, of a d] by (simp add: i)
  then show ?thesis by (simp add: i2c_smbus_read_byte_data_def i2c_smbus_access_def i union_byte_def)
qed

text \<open>
  C33. What either of the two programs writes to a cell of the chip, both read back and
  print: the driver's program through the character device, the other through the adapter.
  Numbers too large for a byte are taken modulo 256.
\<close>

theorem i2c_write_then_read:
  assumes "chip_client c cell" and "chip_adapter k cell" and "a \<le> ULONG_MAX" and "v \<le> ULONG_MAX" and "length junk = 3"
    and "prog = i2c_test_main c True junk [p, chars ''w'', decimal a, decimal v] d
      \<or> prog = i2c_user_main k True True [p, chars ''w'', decimal a, decimal v] d"
  shows "\<exists>lines d1 d2 d3. prog = Inr (0, lines, d1)
    \<and> i2c_test_main c True junk [p, chars ''r'', decimal a] d1
      = Inr (0, [read_line ''has read data :'' (of_nat v) (of_nat a)], d2)
    \<and> i2c_user_main k True True [p, chars ''r'', decimal a] d1
      = Inr (0, [read_line ''has read '' (of_nat v) (of_nat a)], d3)"
proof -
  obtain lines d1 where w: "prog = Inr (0, lines, d1)" and c: "cell d1 = (cell d)(of_nat a := of_nat v)"
    using assms(6) test_writes [OF assms(1,3,4,5), of p d] user_writes [OF assms(2,3,4), of p d] by auto
  obtain x d2 where r: "client_read_byte_data c (of_nat a) d1 = (x, d2)" by fastforce
  have "x = int (unat (cell d1 (of_nat a)))" using assms(1) r unfolding chip_client_def by (metis fst_conv)
  then have t: "i2c_test_main c True junk [p, chars ''r'', decimal a] d1
      = Inr (0, [read_line ''has read data :'' (of_nat v) (of_nat a)], d2)"
    using test_reads [OF r assms(3,5), of p] by (simp add: c)
  obtain d3 where "i2c_smbus_read_byte_data k (of_nat a) d1 = (int (unat (cell d1 (of_nat a))), d3)"
    using adapter_read [OF assms(2)] by blast
  from user_reads [OF this assms(3), of p]
  have "i2c_user_main k True True [p, chars ''r'', decimal a] d1
      = Inr (0, [read_line ''has read '' (of_nat v) (of_nat a)], d3)"
    by (simp add: c)
  with w t show ?thesis by blast
qed

definition cell_client :: "(u8 \<Rightarrow> u8) i2c_client" where
  "cell_client = \<lparr>client_read_byte = (\<lambda>d. (-5, d)), client_write_byte = (\<lambda>v d. (0, d)),
     client_read_byte_data = (\<lambda>a d. (int (unat (d a)), d)), client_write_byte_data = (\<lambda>a v d. (0, d(a := v)))\<rparr>"

definition cell_adapter :: "(u8 \<Rightarrow> u8) smbus_api" where
  "cell_adapter = \<lparr>smbus_ioctl = (\<lambda>rw a sz data d. case data of None \<Rightarrow> (-1, [], d)
       | Some b \<Rightarrow> if rw = I2C_SMBUS_WRITE then (0, b, d(a := b ! 0)) else (0, b[0 := d a], d)),
     uninit_union = replicate 34 0\<rparr>"

lemma cell_client_chip: "chip_client cell_client (\<lambda>d. d)"
  by (simp add: chip_client_def cell_client_def)

lemma cell_adapter_chip: "chip_adapter cell_adapter (\<lambda>d. d)"
  by (simp add: chip_adapter_def cell_adapter_def I2C_SMBUS_READ_def I2C_SMBUS_WRITE_def)

theorem i2c_write_then_read_witness:
  "\<exists>lines d1 d2 d3. i2c_user_main cell_adapter True True [[], chars ''w'', decimal 3, decimal 300] (\<lambda>_. 0) = Inr (0, lines, d1)
    \<and> i2c_test_main cell_client True [0, 0, 0] [[], chars ''r'', decimal 3] d1
      = Inr (0, [read_line ''has read data :'' (of_nat 300) (of_nat 3)], d2)
    \<and> i2c_user_main cell_adapter True True [[], chars ''r'', decimal 3] d1
      = Inr (0, [read_line ''has read '' (of_nat 300) (of_nat 3)], d3)"
  by (rule i2c_write_then_read [OF cell_client_chip cell_adapter_chip, where d = "\<lambda>_. 0"])
    (simp_all add: ULONG_MAX_def)

section \<open>Errors that are not seen\<close>

text \<open>
  A failing read of the chip is reported as data: the driver returns success with the
  low byte of the error, its program prints that number, the other program prints 255, and
  neither prints an error; the light sensor's read returns 0 whatever failed, and copies
  the low bytes of the errors.
\<close>

theorem i2c_read_errors_unseen:
  assumes "client_read_byte_data c (of_nat a) d = (- int e, d1)" and "0 < e" and "e < 256"
    and "i2c_smbus_read_byte_data k (of_nat a) d' = (-1, d1')"
    and "a \<le> ULONG_MAX" and "length junk = 3" and "2 \<le> length buff"
  shows "eeprom_read c [of_nat a, x] d = (1, [of_nat a, of_nat (256 - e)], d1)
    \<and> i2c_test_main c True junk [p, chars ''r'', decimal a] d
      = Inr (0, [read_line ''has read data :'' (of_nat (256 - e)) (of_nat a)], d1)
    \<and> i2c_user_main k True True [p, chars ''r'', decimal a] d' = Inr (0, [read_line ''has read '' 255 (of_nat a)], d1')
    \<and> (\<exists>msgs x0 x1 d''. BH1750_read c buff d = (0, msgs, of_int x0 # of_int x1 # drop 2 buff, d''))"
proof -
  have e: "of_int (- int e) = (of_nat (256 - e) :: u8)"
  proof -
    have "(of_nat (256 - e) :: u8) = of_nat 256 - of_nat e" using assms(3) by (intro of_nat_diff) simp
    then show ?thesis by simp
  qed
  have m1: "(of_int (-1) :: u8) = 255" by simp
  have "eeprom_read c [of_nat a, x] d = (1, [of_nat a, of_nat (256 - e)], d1)"
    using assms(1) e by (simp add: eeprom_read_def get_user_def)
  moreover have "\<exists>msgs x0 x1 d''. BH1750_read c buff d = (0, msgs, of_int x0 # of_int x1 # drop 2 buff, d'')"
    using assms(7) by (auto simp: BH1750_read_def Let_def put_def numeral_2_eq_2 split: prod.split)
  ultimately show ?thesis
    using test_reads [OF assms(1,5,6), of p] user_reads [OF assms(4,5), of p] unfolding e m1 by simp
qed

definition silent_client :: "nat i2c_client" where
  "silent_client = \<lparr>client_read_byte = (\<lambda>d. (-6, d)), client_write_byte = (\<lambda>v d. (-6, d)),
     client_read_byte_data = (\<lambda>a d. (-6, d)), client_write_byte_data = (\<lambda>a v d. (-6, d))\<rparr>"

definition silent_adapter :: "nat smbus_api" where
  "silent_adapter = \<lparr>smbus_ioctl = (\<lambda>rw a sz b d. (-1, [], d)), uninit_union = replicate 34 0\<rparr>"

theorem i2c_read_errors_unseen_witness:
  "i2c_test_main silent_client True [0, 0, 0] [[], chars ''r'', decimal 3] 7
      = Inr (0, [read_line ''has read data :'' 250 3], 7)
    \<and> i2c_user_main silent_adapter True True [[], chars ''r'', decimal 3] 7 = Inr (0, [read_line ''has read '' 255 3], 7)"
  using i2c_read_errors_unseen [of silent_client 3 7 6 7 silent_adapter 7 7 "[0, 0, 0]" "[0, 0]" 0 "[]"]
  by (simp add: silent_client_def silent_adapter_def ULONG_MAX_def i2c_smbus_read_byte_data_def i2c_smbus_access_def)

section \<open>The camera's number\<close>

lemma sint_neg_bit: "sint (x :: u32) < 0 \<longleftrightarrow> bit x 31"
  by (simp add: sint_uint signed_take_bit_negative_iff bit_uint_iff)

lemma small_int_bit:
  assumes "- 4095 \<le> r" and "r \<le> (255 :: int)" and "12 \<le> n"
  shows "bit r n = (r < 0)"
proof -
  have p: "(4096 :: int) \<le> 2 ^ n" using power_increasing [OF assms(3), of "2 :: int"] by simp
  show ?thesis
  proof (cases "r < 0")
    case True
    have "(r + 2 ^ n) div 2 ^ n = 0" by (rule div_pos_pos_trivial) (use p True assms(1) in linarith)+
    moreover have "(r + 2 ^ n) div 2 ^ n = r div 2 ^ n + 1" by (rule div_add_self2) simp
    ultimately have "r div 2 ^ n = -1" by linarith
    then show ?thesis using True by (simp add: bit_iff_odd)
  next
    case False
    have "r div 2 ^ n = 0" by (rule div_pos_pos_trivial) (use p False assms(2) in linarith)+
    then show ?thesis using False by (simp add: bit_iff_odd)
  qed
qed

lemma ov_data_negative:
  assumes "- 4095 \<le> r0" "r0 \<le> 255" "- 4095 \<le> r1" "r1 \<le> 255"
  shows "sint (push_bit 8 (of_int r0) OR of_int r1 :: u32) < 0 \<longleftrightarrow> r0 < 0 \<or> r1 < 0"
  unfolding sint_neg_bit using small_int_bit [OF assms(1,2), of 23] small_int_bit [OF assms(3,4), of 31]
  by (simp add: bit_simps)

lemma ov_data_value:
  assumes "0 \<le> r0" "r0 \<le> 255" "0 \<le> r1" "r1 \<le> (255 :: int)"
  shows "push_bit 8 (of_int r0) OR of_int r1 = (of_int (256 * r0 + r1) :: u32)"
proof -
  have "push_bit 8 r0 OR r1 = push_bit 8 r0 + r1"
  proof (rule disjunctive_add [symmetric])
    fix n
    show "\<not> bit (push_bit 8 r0) n \<or> \<not> bit r1 n"
    proof (cases "n < 8")
      case False
      then have "(256 :: int) \<le> 2 ^ n" using power_increasing [of 8 n "2 :: int"] by simp
      then have "r1 div 2 ^ n = 0" using assms(3,4) by (intro div_pos_pos_trivial) linarith+
      then show ?thesis by (simp add: bit_iff_odd)
    qed (simp add: bit_push_bit_iff)
  qed
  then have "(of_int (push_bit 8 r0 OR r1) :: u32) = of_int (256 * r0 + r1)" by (simp add: push_bit_eq_mult mult.commute)
  then show ?thesis by (simp add: of_int_or_eq of_int_push_bit)
qed

text \<open>
  The camera is accepted exactly when both bytes of its product number could be read,
  although only the combined value is tested: the sign of either error survives the shift
  and the combination. The number is then the two bytes, the first one high.
\<close>

theorem ov9650_probe_checks_both:
  assumes "client_read_byte_data c 0x0A d = (r0, d1)" and "client_read_byte_data c 0x0B d1 = (r1, d2)"
    and "- 4095 \<le> r0" "r0 \<le> 255" "- 4095 \<le> r1" "r1 \<le> 255"
  shows "ov9650_probe c d =
    (if r0 < 0 \<or> r1 < 0 then (-1, None, d2) else (0, Some (of_int (256 * r0 + r1)), d2))"
  using ov_data_negative [OF assms(3-6)] ov_data_value [OF _ assms(4) _ assms(6)] assms(1,2)
  by (auto simp: ov9650_probe_def)

theorem ov9650_probe_checks_both_witness:
  "ov9650_probe silent_client 7 = (-1, None, 7)"
  using ov9650_probe_checks_both [of silent_client 7 "-6" 7 "-6" 7] by (simp add: silent_client_def)

end
