(* ===== verification/Lcd.thy ===== *)
theory Lcd
  imports Prelude
begin

text \<open>
  The frame buffer driver lcd.c: the palette with its packing of colours, the geometry it
  announces, and the registers it programs. The address of the frame buffer is what the
  kernel's allocation gives. Pins, mapping and registration are left out.
\<close>

section \<open>Colours\<close>

record fb_bitfield =
  offset :: nat
  bf_length :: nat

definition chan_to_field :: "u32 \<Rightarrow> fb_bitfield \<Rightarrow> u32" where
  "chan_to_field chan bf =
     (let chan = chan AND 0xffff; chan = drop_bit (16 - bf_length bf) chan in push_bit (offset bf) chan)"

text \<open>The announced screen: \<open>fix\<close> and \<open>var\<close> of \<open>struct fb_info\<close>.\<close>

record fb_info =
  smem_start :: u32
  smem_len :: nat
  line_length :: nat
  xres :: nat
  yres :: nat
  bits_per_pixel :: nat
  red :: fb_bitfield
  green :: fb_bitfield
  blue :: fb_bitfield

definition mylcd_info :: "u32 \<Rightarrow> fb_info" where
  "mylcd_info start =
     \<lparr>smem_start = start, smem_len = 480 * 272 * 16 div 2, line_length = 480 * 16 div 2,
      xres = 480, yres = 272, bits_per_pixel = 16,
      red = \<lparr>offset = 11, bf_length = 5\<rparr>, green = \<lparr>offset = 5, bf_length = 6\<rparr>, blue = \<lparr>offset = 0, bf_length = 5\<rparr>\<rparr>"

text \<open>The palette has 16 entries; entry 16 passes the test.\<close>

definition mylcd_setcolreg :: "nat \<Rightarrow> u32 \<Rightarrow> u32 \<Rightarrow> u32 \<Rightarrow> fb_info \<Rightarrow> u32 list \<Rightarrow> fault + int \<times> u32 list" where
  "mylcd_setcolreg regno r g b info my_palette =
     (if regno > 16 then Inr (1, my_palette)
      else let val = chan_to_field r (red info);
               val = val OR chan_to_field g (green info);
               val = val OR chan_to_field b (blue info)
           in if regno < length my_palette then Inr (0, my_palette[regno := val]) else Inl OutOfBounds)"

section \<open>Registers\<close>

record mylcd_regs =
  lcdcon1 :: u32
  lcdcon2 :: u32
  lcdcon3 :: u32
  lcdcon4 :: u32
  lcdcon5 :: u32
  lcdsaddr1 :: u32
  lcdsaddr2 :: u32
  lcdsaddr3 :: u32

text \<open>The writes to the controller, in order; \<open>|=\<close> reads the register back.\<close>

definition mylcd_init_regs :: "fb_info \<Rightarrow> mylcd_regs \<Rightarrow> mylcd_regs" where
  "mylcd_init_regs info r =
     (let r = r\<lparr>lcdcon1 := push_bit 8 4 OR push_bit 5 3 OR push_bit 1 0xc OR push_bit 0 0\<rparr>;
          r = r\<lparr>lcdcon2 := push_bit 24 2 OR push_bit 14 271 OR push_bit 6 4 OR push_bit 0 8\<rparr>;
          r = r\<lparr>lcdcon3 := push_bit 19 10 OR push_bit 8 479 OR push_bit 0 19\<rparr>;
          r = r\<lparr>lcdcon4 := push_bit 0 29\<rparr>;
          r = r\<lparr>lcdcon5 := push_bit 11 1 OR push_bit 10 0 OR push_bit 9 1 OR push_bit 8 1 OR push_bit 3 0 OR push_bit 0 1\<rparr>;
          r = r\<lparr>lcdsaddr1 := drop_bit 1 (smem_start info) AND NOT (push_bit 30 3)\<rparr>;
          r = r\<lparr>lcdsaddr2 := drop_bit 1 (smem_start info + of_nat (smem_len info)) AND 0x1fffff\<rparr>;
          r = r\<lparr>lcdsaddr3 := 480 * 16 div 16\<rparr>;
          r = r\<lparr>lcdcon1 := lcdcon1 r OR push_bit 0 1\<rparr>
      in r\<lparr>lcdcon5 := lcdcon5 r OR push_bit 3 1\<rparr>)"

definition mylcd_exit_regs :: "mylcd_regs \<Rightarrow> mylcd_regs" where
  "mylcd_exit_regs r = r\<lparr>lcdcon1 := lcdcon1 r AND NOT (push_bit 0 1)\<rparr>"

section \<open>Packing a colour\<close>

text \<open>The specification: five bits of red, six of green and five of blue, from the top.\<close>

definition top_bits :: "nat \<Rightarrow> u32 \<Rightarrow> nat" where
  "top_bits n c = unat c mod 65536 div 2 ^ (16 - n)"

lemma and_ffff: "(c :: u32) AND 0xffff = take_bit 16 c"
  by (simp add: take_bit_eq_mask mask_eq_exp_minus_1)

lemma top_bits_lt: "n \<le> 16 \<Longrightarrow> top_bits n c < 2 ^ n"
proof -
  assume n: "n \<le> 16"
  have "unat c mod 65536 < 65536" by simp
  then have "unat c mod 65536 < 2 ^ n * 2 ^ (16 - n)" using n by (simp flip: power_add)
  then show ?thesis unfolding top_bits_def by (simp add: less_mult_imp_div_less)
qed

lemma field_value:
  assumes "n \<le> 16" and "off + n \<le> 16"
  shows "unat (chan_to_field c \<lparr>offset = off, bf_length = n\<rparr>) = top_bits n c * 2 ^ off"
proof -
  have a: "unat (drop_bit (16 - n) (take_bit 16 c)) = top_bits n c"
    unfolding unsigned_drop_bit_eq unsigned_take_bit_eq top_bits_def
    by (simp add: take_bit_eq_mod drop_bit_eq_div)
  have "top_bits n c * 2 ^ off < 2 ^ n * 2 ^ off" using top_bits_lt [OF assms(1)] by simp
  also have "2 ^ n * 2 ^ off = (2 :: nat) ^ (off + n)" by (simp add: power_add)
  also have "\<dots> \<le> 2 ^ 16" by (rule power_increasing) (use assms(2) in simp_all)
  finally have "top_bits n c * 2 ^ off < 2 ^ 32" by simp
  then have t: "take_bit 32 (top_bits n c * 2 ^ off) = top_bits n c * 2 ^ off" by (rule take_bit_nat_eq_self)
  show ?thesis
    unfolding chan_to_field_def and_ffff Let_def
    unfolding unsigned_push_bit_eq fb_bitfield.simps a unfolding push_bit_eq_mult by (simp add: t)
qed

lemma or_below:
  assumes "unat (a :: u32) = x * 2 ^ k" and "unat b < 2 ^ k"
  shows "unat (a OR b) = x * 2 ^ k + unat b"
proof -
  have "unat a = push_bit k x" using assms(1) by (simp add: push_bit_eq_mult)
  moreover have "push_bit k x OR unat b = push_bit k x + unat b"
  proof (rule disjunctive_add [symmetric])
    fix n
    show "\<not> bit (push_bit k x) n \<or> \<not> bit (unat b) n"
    proof (cases "n < k")
      case False
      then have "(2 :: nat) ^ k \<le> 2 ^ n" by (simp add: power_increasing)
      then have "unat b < 2 ^ n" using assms(2) by linarith
      then have "unat b div 2 ^ n = 0" by (rule div_less)
      then show ?thesis by (simp add: bit_iff_odd del: bit_unsigned_iff)
    qed (simp add: bit_push_bit_iff)
  qed
  ultimately show ?thesis by (simp add: unsigned_or_eq push_bit_eq_mult)
qed

lemma rgb565:
  "unat (chan_to_field r (red (mylcd_info st)) OR chan_to_field g (green (mylcd_info st))
      OR chan_to_field b (blue (mylcd_info st)))
    = top_bits 5 r * 2048 + top_bits 6 g * 32 + top_bits 5 b"
proof -
  have b: "unat (chan_to_field b (blue (mylcd_info st))) = top_bits 5 b"
    using field_value [of 5 0 b] by (simp add: mylcd_info_def)
  have g: "unat (chan_to_field g (green (mylcd_info st))) = top_bits 6 g * 2 ^ 5"
    using field_value [of 6 5 g] by (simp add: mylcd_info_def)
  have r: "unat (chan_to_field r (red (mylcd_info st))) = top_bits 5 r * 2 ^ 11"
    using field_value [of 5 11 r] by (simp add: mylcd_info_def)
  have gb: "unat (chan_to_field g (green (mylcd_info st)) OR chan_to_field b (blue (mylcd_info st)))
      = top_bits 6 g * 32 + top_bits 5 b"
    using or_below [OF g, of "chan_to_field b (blue (mylcd_info st))"] top_bits_lt [of 5 b] b by simp
  have "top_bits 6 g * 32 + top_bits 5 b < 2048"
    using top_bits_lt [of 6 g] top_bits_lt [of 5 b] by simp
  then show ?thesis using or_below [OF r, of "chan_to_field g (green (mylcd_info st)) OR chan_to_field b (blue (mylcd_info st))"] gb
    by (simp add: or.assoc)
qed

text \<open>
  A palette entry below 16 becomes the colour packed into 16 bits: the top five, six
  and five bits of the channels, whatever their upper halves hold. Entry 16 passes the test
  of the driver and is written behind the palette; larger ones are refused.
\<close>

theorem mylcd_setcolreg_packs:
  assumes "length pal = 16"
  shows "(if n < 16 then \<exists>v. mylcd_setcolreg n r g b (mylcd_info st) pal = Inr (0, pal[n := v])
        \<and> unat v = top_bits 5 r * 2048 + top_bits 6 g * 32 + top_bits 5 b
      else if n = 16 then mylcd_setcolreg n r g b (mylcd_info st) pal = Inl OutOfBounds
      else mylcd_setcolreg n r g b (mylcd_info st) pal = Inr (1, pal))"
  using assms rgb565 [of r st g b] by (auto simp: mylcd_setcolreg_def Let_def or.assoc)

theorem mylcd_setcolreg_packs_witness:
  "\<exists>v. mylcd_setcolreg 1 0xffff 0x8000 0x0fff (mylcd_info 0) (replicate 16 0) = Inr (0, (replicate 16 0)[1 := v])
    \<and> unat v = 31 * 2048 + 32 * 32 + 1"
  using mylcd_setcolreg_packs [of "replicate 16 0" 1 "0xffff" "0x8000" "0x0fff" 0] by (simp add: top_bits_def)

section \<open>What is shown\<close>

text \<open>
  The controller shows \<open>lcdsaddr3\<close> half words in each line, one line behind the other from
  the start address; \<open>LINEVAL\<close> is the number of lines less one, \<open>HOZVAL\<close> the number of
  pixels less one. A client of the frame buffer puts pixel \<open>(x, y)\<close> at
  \<open>y * line_length + x * bits_per_pixel / 8\<close>.
\<close>

definition shown_at :: "mylcd_regs \<Rightarrow> nat \<Rightarrow> nat \<times> nat" where
  "shown_at r off = (let w = unat (lcdsaddr3 r) in (off div 2 mod w, off div 2 div w))"

definition lines_shown :: "mylcd_regs \<Rightarrow> nat" where
  "lines_shown r = unat (lcdcon2 r) div 2 ^ 14 mod 1024 + 1"

definition pixels_shown :: "mylcd_regs \<Rightarrow> nat" where
  "pixels_shown r = unat (lcdcon3 r) div 2 ^ 8 mod 2048 + 1"

definition client_offset :: "fb_info \<Rightarrow> nat \<Rightarrow> nat \<Rightarrow> nat" where
  "client_offset info x y = y * line_length info + x * bits_per_pixel info div 8"

lemma init_regs:
  "lcdsaddr3 (mylcd_init_regs i r) = 480"
  "lines_shown (mylcd_init_regs i r) = 272" "pixels_shown (mylcd_init_regs i r) = 480"
  by (simp_all add: mylcd_init_regs_def Let_def lines_shown_def pixels_shown_def)

text \<open>
  The geometry is wrong by a factor of four: the announced line of 3840 bytes is four
  lines of the controller, so that a client's line \<open>y\<close> is shown as line \<open>4 * y\<close> and only
  its first 68 lines are seen at all. What the controller shows, and everything a client
  writes, lies in the allocated memory. The controller is enabled, and unloading disables it.
\<close>

theorem mylcd_geometry:
  assumes "x < xres (mylcd_info st)" and "y < yres (mylcd_info st)"
  shows "shown_at (mylcd_init_regs (mylcd_info st) r) (client_offset (mylcd_info st) x y) = (x, 4 * y)
    \<and> (4 * y < lines_shown (mylcd_init_regs (mylcd_info st) r)) = (y < 68)
    \<and> client_offset (mylcd_info st) x y + 2 \<le> smem_len (mylcd_info st)
    \<and> 2 * (lines_shown (mylcd_init_regs (mylcd_info st) r) * pixels_shown (mylcd_init_regs (mylcd_info st) r))
        \<le> smem_len (mylcd_info st)
    \<and> bit (lcdcon1 (mylcd_init_regs (mylcd_info st) r)) 0
    \<and> \<not> bit (lcdcon1 (mylcd_exit_regs (mylcd_init_regs (mylcd_info st) r))) 0"
proof -
  have x: "x < 480" and y: "y < 272" using assms by (simp_all add: mylcd_info_def)
  have o: "client_offset (mylcd_info st) x y = 2 * (x + 480 * (4 * y))"
    by (simp add: client_offset_def mylcd_info_def)
  have l: "smem_len (mylcd_info st) = 1044480" by (simp add: mylcd_info_def)
  have "shown_at (mylcd_init_regs (mylcd_info st) r) (client_offset (mylcd_info st) x y) = (x, 4 * y)"
  proof -
    have "(x + 480 * (4 * y)) mod 480 = x" "(x + 480 * (4 * y)) div 480 = 4 * y"
      using x mod_mult_self2 [of x 480 "4 * y"] div_mult_self2 [of 480 x "4 * y"] by simp_all
    then show ?thesis unfolding shown_at_def o init_regs Let_def by (simp del: mult_numeral_1_right)
  qed
  moreover have "bit (lcdcon1 (mylcd_init_regs (mylcd_info st) r)) 0"
    by (simp add: mylcd_init_regs_def Let_def bit_simps)
  moreover have "\<not> bit (lcdcon1 (mylcd_exit_regs (mylcd_init_regs (mylcd_info st) r))) 0"
    by (simp add: mylcd_exit_regs_def bit_simps)
  ultimately show ?thesis unfolding init_regs o l using x y by auto
qed

theorem mylcd_geometry_witness:
  "shown_at (mylcd_init_regs (mylcd_info 0x31000000) \<lparr>lcdcon1 = 0, lcdcon2 = 0, lcdcon3 = 0, lcdcon4 = 0,
      lcdcon5 = 0, lcdsaddr1 = 0, lcdsaddr2 = 0, lcdsaddr3 = 0\<rparr>) (client_offset (mylcd_info 0x31000000) 7 3) = (7, 12)"
  using mylcd_geometry [of 7 "0x31000000" 3] by (simp add: mylcd_info_def)

end
