(* ===== verification/DmaDev.thy ===== *)
theory DmaDev
  imports Prelude
begin

text \<open>
  The DMA driver the_dma.c: a copy of 200 KB by the processor or by channel 2 of the DMA
  controller, and the resources that loading takes and unloading gives back. Both buffers
  lie in one memory of bytes at physical addresses, which the controller sees as the
  processor does. What the controller does with its registers and that memory is a parameter,
  with its data sheet as hypothesis; so is a signal that ends the waiting early.
\<close>

section \<open>The copy\<close>

definition TRANS_SIZE :: nat where "TRANS_SIZE = 200 * 1024"
definition MEM_NO_DMA :: nat where "MEM_NO_DMA = 0"
definition MEM_DMA :: nat where "MEM_DMA = 1"
definition ENOTTY :: int where "ENOTTY = 25"

record dma_regs =
  disrc :: u32
  disrcc :: u32
  didst :: u32
  didstc :: u32
  dcon :: u32
  dstat :: u32
  dcsrc :: u32
  dcdst :: u32
  dimasktrig :: u32

type_synonym phys = "u32 \<Rightarrow> u8"

record dma_dev =
  phys_mem :: phys
  mydma_regs :: dma_regs
  expert :: bool

text \<open>
  \<open>my_src\<close> and \<open>my_dst\<close> are mappings of the memory at their physical addresses: what is
  written, copied and compared through them is that memory.
\<close>

definition memset :: "u32 \<Rightarrow> u8 \<Rightarrow> nat \<Rightarrow> phys \<Rightarrow> phys" where
  "memset base v n m = (\<lambda>a. if unat (a - base) < n then v else m a)"

definition read_mem :: "u32 \<Rightarrow> nat \<Rightarrow> phys \<Rightarrow> u8 list" where
  "read_mem base n m = map (\<lambda>i. m (base + of_nat i)) [0..<n]"

text \<open>
  The registers of channel 2 for a source and a destination address. The trigger register
  is written, read back, and written with the request bit.
\<close>

definition dma_setup :: "u32 \<Rightarrow> u32 \<Rightarrow> dma_regs \<Rightarrow> dma_regs" where
  "dma_setup src_phys dst_phys r =
     (let r = r\<lparr>disrc := src_phys\<rparr>;
          r = r\<lparr>disrcc := push_bit 0 0 OR push_bit 1 0\<rparr>;
          r = r\<lparr>didst := dst_phys\<rparr>;
          r = r\<lparr>didstc := push_bit 0 0 OR push_bit 1 0 OR push_bit 2 0\<rparr>;
          r = r\<lparr>dcon := push_bit 31 0 OR push_bit 30 1 OR push_bit 29 1 OR push_bit 28 0 OR push_bit 27 1
                 OR push_bit 23 0 OR push_bit 22 1 OR push_bit 20 0 OR of_nat TRANS_SIZE\<rparr>;
          r = r\<lparr>dimasktrig := push_bit 1 1\<rparr>
      in r\<lparr>dimasktrig := dimasktrig r OR push_bit 0 1\<rparr>)"

text \<open>
  The controller: from the registers and the memory to the memory when the driver stops
  waiting, and whether the interrupt has come by then.
\<close>

type_synonym dma_engine = "dma_regs \<Rightarrow> phys \<Rightarrow> phys \<times> bool"

definition my_dma_func :: "dma_dev \<Rightarrow> dma_dev" where
  "my_dma_func d = d\<lparr>expert := True\<rparr>"

datatype dma_msg = NoDmaOk | NoDmaError | DmaOk | DmaError | CmdError

text \<open>The copy of the processor: the loop over \<open>i\<close>, with \<open>n\<close> bytes left.\<close>

fun copy_loop :: "u32 \<Rightarrow> u32 \<Rightarrow> nat \<Rightarrow> nat \<Rightarrow> phys \<Rightarrow> phys" where
  "copy_loop src dst 0 i m = m"
| "copy_loop src dst (Suc n) i m = copy_loop src dst n (i + 1) (m(dst + of_nat i := m (src + of_nat i)))"

definition my_ioctl :: "dma_engine \<Rightarrow> u32 \<Rightarrow> u32 \<Rightarrow> nat \<Rightarrow> dma_dev \<Rightarrow> int \<times> dma_msg list \<times> dma_dev" where
  "my_ioctl engine src_phys dst_phys cmd d =
     (let d = d\<lparr>phys_mem := memset src_phys 0x11 TRANS_SIZE (phys_mem d)\<rparr>;
          d = d\<lparr>phys_mem := memset dst_phys 0xff TRANS_SIZE (phys_mem d)\<rparr>;
          d = d\<lparr>expert := False\<rparr>
      in if cmd = MEM_NO_DMA then
           let d = d\<lparr>phys_mem := copy_loop src_phys dst_phys TRANS_SIZE 0 (phys_mem d)\<rparr>;
               same = (read_mem src_phys TRANS_SIZE (phys_mem d) = read_mem dst_phys TRANS_SIZE (phys_mem d))
           in (0, [if same then NoDmaOk else NoDmaError], d)
         else if cmd = MEM_DMA then
           let d = d\<lparr>mydma_regs := dma_setup src_phys dst_phys (mydma_regs d)\<rparr>;
               (m, finished) = engine (mydma_regs d) (phys_mem d);
               d = d\<lparr>phys_mem := m\<rparr>;
               d = (if finished then my_dma_func d else d);
               same = (read_mem src_phys TRANS_SIZE (phys_mem d) = read_mem dst_phys TRANS_SIZE (phys_mem d))
           in (0, [if same then DmaOk else DmaError], d)
         else (-ENOTTY, [CmdError], d))"

section \<open>Loading and unloading\<close>

text \<open>What is in use in the kernel: counts, and whether somebody has the interrupt.\<close>

record dma_kernel =
  chrdevs :: nat
  classes :: nat
  devices :: nat
  buffers :: nat
  irq_taken :: bool
  mappings :: nat

definition dma_free_all :: "dma_kernel \<Rightarrow> dma_kernel" where
  "dma_free_all k =
     (let k = k\<lparr>buffers := buffers k - 1\<rparr>; k = k\<lparr>buffers := buffers k - 1\<rparr>;
          k = k\<lparr>devices := devices k - 1\<rparr>; k = k\<lparr>classes := classes k - 1\<rparr>
      in k\<lparr>chrdevs := chrdevs k - 1\<rparr>)"

text \<open>
  The interrupt is requested exclusively: a second request fails. Whether the registers can
  be mapped is the argument. The results of the calls before are not checked.
\<close>

definition my_dma_init :: "bool \<Rightarrow> dma_kernel \<Rightarrow> int \<times> dma_kernel" where
  "my_dma_init ioremap_ok k =
     (let k = k\<lparr>chrdevs := chrdevs k + 1\<rparr>;
          k = k\<lparr>classes := classes k + 1\<rparr>; k = k\<lparr>devices := devices k + 1\<rparr>;
          k = k\<lparr>buffers := buffers k + 1\<rparr>; k = k\<lparr>buffers := buffers k + 1\<rparr>
      in if irq_taken k then (-16, dma_free_all k)
         else let k = k\<lparr>irq_taken := True\<rparr> in
           if \<not> ioremap_ok then (-16, dma_free_all k)
           else (0, k\<lparr>mappings := mappings k + 1\<rparr>))"

definition my_dma_exit :: "dma_kernel \<Rightarrow> dma_kernel" where
  "my_dma_exit k =
     (let k = k\<lparr>mappings := mappings k - 1\<rparr>; k = k\<lparr>irq_taken := False\<rparr> in dma_free_all k)"

section \<open>What the registers say\<close>

text \<open>
  The data sheet: bits 19 to 0 of \<open>DCON\<close> count the transfers, bits 21 and 20 are the size
  of one, bit 28 makes it a burst of four; \<open>DMASKTRIG\<close> has the channel switch in bit 1 and
  the software trigger in bit 0. With both addresses counting up, and bits 30, 29 and 27 set
  (synchronised to the bus, interrupt at the end, the whole at one request), one request
  copies all of it.
\<close>

definition dma_bytes :: "u32 \<Rightarrow> nat" where
  "dma_bytes c = (let n = unat c in n mod 2 ^ 20 * 2 ^ (n div 2 ^ 20 mod 4) * (if bit c 28 then 4 else 1))"

definition whole_copy :: "dma_regs \<Rightarrow> bool" where
  "whole_copy r =
     (disrcc r = 0 \<and> didstc r = 0 \<and> bit (dcon r) 30 \<and> bit (dcon r) 29 \<and> bit (dcon r) 27
      \<and> \<not> bit (dcon r) 23 \<and> bit (dimasktrig r) 1 \<and> bit (dimasktrig r) 0)"

text \<open>
  A controller that does what its registers say: from the address in \<open>DISRC\<close> to the one
  in \<open>DIDST\<close> it copies a prefix of what \<open>DCON\<close> counts, all of it when the interrupt has come;
  no other byte changes. The interrupt has come unless a signal ended the waiting first.
  Nothing is said of blocks that overlap.
\<close>

definition blit :: "u32 \<Rightarrow> u32 \<Rightarrow> nat \<Rightarrow> phys \<Rightarrow> phys" where
  "blit src dst n m = (\<lambda>a. if unat (a - dst) < n then m (src + (a - dst)) else m a)"

definition apart :: "nat \<Rightarrow> u32 \<Rightarrow> u32 \<Rightarrow> bool" where
  "apart n a b = (n \<le> unat (b - a) \<and> n \<le> unat (a - b))"

definition engine_ok :: "dma_engine \<Rightarrow> bool" where
  "engine_ok e =
     (\<forall>r m. whole_copy r \<longrightarrow> apart (dma_bytes (dcon r)) (disrc r) (didst r) \<longrightarrow>
        (let (m', finished) = e r m in
         \<exists>n \<le> dma_bytes (dcon r). m' = blit (disrc r) (didst r) n m \<and> (finished \<longrightarrow> n = dma_bytes (dcon r))))"

lemma dcon_value: "dcon (dma_setup s d r) = 0x68432000"
  by (simp add: dma_setup_def TRANS_SIZE_def Let_def)

lemma setup_bytes: "dma_bytes (dcon (dma_setup s d r)) = TRANS_SIZE"
  unfolding dma_bytes_def dcon_value by (simp add: TRANS_SIZE_def bit_numeral_rec)

lemma setup_whole: "whole_copy (dma_setup s d r)"
  unfolding whole_copy_def dcon_value
  by (simp add: dma_setup_def Let_def bit_simps)

lemma setup_addresses: "disrc (dma_setup s d r) = s" "didst (dma_setup s d r) = d"
  by (simp_all add: dma_setup_def Let_def)

section \<open>The two copies\<close>

text \<open>Addresses in a block, by their distance from its start.\<close>

lemma dist_add: "i < TRANS_SIZE \<Longrightarrow> unat (b + of_nat i - b :: u32) = i"
  by (simp add: TRANS_SIZE_def unat_of_nat)

lemma apart_dist:
  assumes "apart n a b" and "unat (x - a) < n"
  shows "\<not> unat (x - b) < (n :: nat)"
proof
  assume l: "unat (x - b) < n"
  let ?k = "x - a :: u32" and ?l = "x - b"
  have "b - a = ?k - ?l" "a - b = ?l - ?k" by simp_all
  moreover have "unat (?k - ?l) = unat ?k - unat ?l \<or> unat (?l - ?k) = unat ?l - unat ?k"
    using unat_sub [of ?l ?k] unat_sub [of ?k ?l] by (metis linorder_le_cases)
  ultimately have "unat (b - a) \<le> unat ?k \<or> unat (a - b) \<le> unat ?l" by auto
  then show False using assms l by (auto simp: apart_def)
qed

lemma apart_sym: "apart n a b \<Longrightarrow> apart n b a"
  by (simp add: apart_def)

lemma read_mem_cong: "(\<And>i. i < n \<Longrightarrow> m (b + of_nat i) = m' (b + of_nat i)) \<Longrightarrow> read_mem b n m = read_mem b n m'"
  by (simp add: read_mem_def)

lemma copy_loop_blit:
  assumes "apart TRANS_SIZE s d"
  shows "i + n \<le> TRANS_SIZE \<Longrightarrow> copy_loop s d n i (blit s d i m) = blit s d (i + n) m"
proof (induction n arbitrary: i)
  case (Suc n)
  then have i: "i < TRANS_SIZE" by simp
  have "\<not> unat (s + of_nat i - d) < i"
    using apart_dist [OF assms, of "s + of_nat i"] dist_add [OF i, of s] i by auto
  then have s: "blit s d i m (s + of_nat i) = m (s + of_nat i)" by (simp add: blit_def)
  have "(blit s d i m)(d + of_nat i := m (s + of_nat i)) = blit s d (Suc i) m"
  proof
    fix a
    show "((blit s d i m)(d + of_nat i := m (s + of_nat i))) a = blit s d (Suc i) m a"
    proof (cases "unat (a - d) = i")
      case True
      then have "of_nat i = a - d" by auto
      then show ?thesis using True by (simp add: blit_def)
    next
      case False
      then have "a \<noteq> d + of_nat i" using dist_add [OF i, of d] by auto
      then show ?thesis using False by (auto simp: blit_def less_Suc_eq)
    qed
  qed
  then show ?case using Suc.IH [of "Suc i"] Suc.prems s by simp
qed simp

text \<open>The memory after the two calls of \<open>memset\<close>, and what a copied prefix makes of it.\<close>

definition prepared :: "u32 \<Rightarrow> u32 \<Rightarrow> phys \<Rightarrow> phys" where
  "prepared s d m = memset d 0xff TRANS_SIZE (memset s 0x11 TRANS_SIZE m)"

definition outside :: "u32 \<Rightarrow> u32 \<Rightarrow> u32 \<Rightarrow> bool" where
  "outside s d a = (TRANS_SIZE \<le> unat (a - s) \<and> TRANS_SIZE \<le> unat (a - d))"

lemma prepared_at:
  assumes "apart TRANS_SIZE s d"
  shows "unat (a - s) < TRANS_SIZE \<Longrightarrow> prepared s d m a = 0x11" "unat (a - d) < TRANS_SIZE \<Longrightarrow> prepared s d m a = 0xff"
    "outside s d a \<Longrightarrow> prepared s d m a = m a"
  using apart_dist [OF assms] by (auto simp: prepared_def memset_def outside_def)

lemma copied_prefix:
  assumes ap: "apart TRANS_SIZE s d" and n: "n \<le> TRANS_SIZE"
  shows "read_mem s TRANS_SIZE (blit s d n (prepared s d m)) = replicate TRANS_SIZE 0x11"
    and "read_mem d TRANS_SIZE (blit s d n (prepared s d m)) = replicate n 0x11 @ replicate (TRANS_SIZE - n) 0xff"
    and "outside s d a \<Longrightarrow> blit s d n (prepared s d m) a = m a"
proof -
  let ?m = "prepared s d m"
  have "blit s d n ?m (s + of_nat i) = 0x11" if "i < TRANS_SIZE" for i
  proof -
    have u: "unat (s + of_nat i - s) < TRANS_SIZE" using dist_add [OF that, of s] that by simp
    show ?thesis using apart_dist [OF ap u] prepared_at(1) [OF ap u] n by (simp add: blit_def)
  qed
  then show "read_mem s TRANS_SIZE (blit s d n ?m) = replicate TRANS_SIZE 0x11"
    unfolding read_mem_def by (intro nth_equalityI) auto
  have "blit s d n ?m (d + of_nat i) = (if i < n then 0x11 else 0xff)" if i: "i < TRANS_SIZE" for i
  proof -
    have u: "unat (d + of_nat i - d) = i" "unat (s + of_nat i - s) < TRANS_SIZE"
      using dist_add [OF i, of d] dist_add [OF i, of s] i by simp_all
    have p: "?m (d + of_nat i) = 0xff" using prepared_at(2) [OF ap, of "d + of_nat i"] u(1) i by simp
    have q: "?m (s + of_nat i) = 0x11" by (rule prepared_at(1) [OF ap u(2)])
    have "d + of_nat i - d = of_nat i" by simp
    with u(1) show ?thesis unfolding blit_def using p q by (auto simp del: add_diff_cancel_left')
  qed
  then show "read_mem d TRANS_SIZE (blit s d n ?m) = replicate n 0x11 @ replicate (TRANS_SIZE - n) 0xff"
    unfolding read_mem_def using n by (intro nth_equalityI) (auto simp: nth_append)
  show "blit s d n ?m a = m a" if "outside s d a"
    using that n prepared_at(3) [OF ap that] by (auto simp: blit_def outside_def)
qed

lemma engine_copies:
  assumes "engine_ok e" and "apart TRANS_SIZE s d" and "e (dma_setup s d r) m = (m', fin)"
  shows "\<exists>n \<le> TRANS_SIZE. m' = blit s d n m \<and> (fin \<longrightarrow> n = TRANS_SIZE)"
  using assms(1) [unfolded engine_ok_def, rule_format, OF setup_whole, of s d r m] assms(2,3)
  by (simp add: setup_bytes setup_addresses)

lemma prefix_whole:
  assumes "n \<le> TRANS_SIZE"
  shows "replicate TRANS_SIZE (0x11 :: u8) = replicate n 0x11 @ replicate (TRANS_SIZE - n) 0xff \<longleftrightarrow> n = TRANS_SIZE"
proof
  assume "replicate TRANS_SIZE (0x11 :: u8) = replicate n 0x11 @ replicate (TRANS_SIZE - n) 0xff"
  then have "set (replicate (TRANS_SIZE - n) (0xff :: u8)) \<subseteq> set (replicate TRANS_SIZE 0x11)" by simp
  then show "n = TRANS_SIZE" using assms by (auto split: if_splits)
qed simp

text \<open>
  C38. Of two buffers that do not overlap, the copy of the processor always succeeds. The
  registers ask the controller for exactly the 200 KB from the source to the destination, so
  that its copy is complete and reported as such when the interrupt has come, which the
  handler notes; when a signal ends the waiting, a prefix has been copied, an error is printed
  unless it is the whole, and the call still returns 0 while the controller goes on. Any other
  command is refused, but both buffers have been overwritten already. No byte outside the two
  buffers changes.
\<close>

theorem my_ioctl_copies:
  assumes "engine_ok e" and "apart TRANS_SIZE s t" and "my_ioctl e s t cmd d = (r, msgs, d')"
  shows "read_mem s TRANS_SIZE (phys_mem d') = replicate TRANS_SIZE 0x11
    \<and> (if cmd = MEM_NO_DMA then r = 0 \<and> msgs = [NoDmaOk] \<and> read_mem t TRANS_SIZE (phys_mem d') = replicate TRANS_SIZE 0x11
       else if cmd = MEM_DMA then r = 0
         \<and> (\<exists>n \<le> TRANS_SIZE. read_mem t TRANS_SIZE (phys_mem d') = replicate n 0x11 @ replicate (TRANS_SIZE - n) 0xff
              \<and> msgs = [if n = TRANS_SIZE then DmaOk else DmaError] \<and> (expert d' \<longrightarrow> n = TRANS_SIZE))
         \<and> expert d' = snd (e (mydma_regs d') (prepared s t (phys_mem d)))
       else r = -ENOTTY \<and> msgs = [CmdError] \<and> read_mem t TRANS_SIZE (phys_mem d') = replicate TRANS_SIZE 0xff)
    \<and> (\<forall>a. TRANS_SIZE \<le> unat (a - s) \<and> TRANS_SIZE \<le> unat (a - t) \<longrightarrow> phys_mem d' a = phys_mem d a)"
proof -
  let ?m = "prepared s t (phys_mem d)"
  note B = copied_prefix [OF assms(2)]
  have Z: "blit s t 0 ?m = ?m" by (simp add: blit_def)
  have c: "copy_loop s t TRANS_SIZE 0 ?m = blit s t TRANS_SIZE ?m"
    using copy_loop_blit [OF assms(2), of 0 TRANS_SIZE ?m] Z by simp
  obtain m' fin where e: "e (dma_setup s t (mydma_regs d)) ?m = (m', fin)" by fastforce
  obtain n where n: "n \<le> TRANS_SIZE" "m' = blit s t n ?m" "fin \<longrightarrow> n = TRANS_SIZE"
    using engine_copies [OF assms(1,2) e] by blast
  consider "cmd = MEM_NO_DMA" | "cmd = MEM_DMA" "cmd \<noteq> MEM_NO_DMA" | "cmd \<noteq> MEM_NO_DMA" "cmd \<noteq> MEM_DMA" by blast
  then show ?thesis
  proof cases
    case 1
    then have "r = 0" "msgs = [NoDmaOk]" "phys_mem d' = blit s t TRANS_SIZE ?m"
      using assms(3) by (auto simp: my_ioctl_def Let_def c B simp flip: prepared_def)
    then show ?thesis using 1 B [where n = TRANS_SIZE and m = "phys_mem d"] by (auto simp: outside_def)
  next
    case 2
    then have "r = 0" "msgs = [if n = TRANS_SIZE then DmaOk else DmaError]" "phys_mem d' = m'" "expert d' = fin"
      "mydma_regs d' = dma_setup s t (mydma_regs d)"
      using assms(3) prefix_whole [OF n(1)]
      by (auto simp: my_ioctl_def my_dma_func_def Let_def e B [OF n(1)] n(2) split: if_splits simp flip: prepared_def)
    then show ?thesis using 2 n B [OF n(1), where m = "phys_mem d"] by (auto simp: outside_def e)
  next
    case 3
    then have "r = -ENOTTY" "msgs = [CmdError]" "phys_mem d' = blit s t 0 ?m"
      using assms(3) unfolding Z by (auto simp: my_ioctl_def Let_def simp flip: prepared_def)
    then show ?thesis using 3 B [where n = 0 and m = "phys_mem d"] by (auto simp: outside_def)
  qed
qed

text \<open>A controller that stops after half of the bytes.\<close>

definition half_engine :: dma_engine where
  "half_engine r m = (blit (disrc r) (didst r) (dma_bytes (dcon r) div 2) m, False)"

lemma half_engine_ok: "engine_ok half_engine"
  unfolding engine_ok_def half_engine_def Let_def prod.case by (metis div_le_dividend)

definition idle_dma :: dma_dev where
  "idle_dma = \<lparr>phys_mem = (\<lambda>a. 0),
     mydma_regs = \<lparr>disrc = 0, disrcc = 0, didst = 0, didstc = 0, dcon = 0, dstat = 0, dcsrc = 0,
       dcdst = 0, dimasktrig = 0\<rparr>, expert = False\<rparr>"

theorem my_ioctl_copies_witness:
  "\<exists>r msgs d'. my_ioctl half_engine 0x31000000 0x31040000 MEM_DMA idle_dma = (r, msgs, d') \<and> r = 0
     \<and> read_mem 0x31000000 TRANS_SIZE (phys_mem d') = replicate TRANS_SIZE 0x11"
proof -
  obtain r msgs d' where i: "my_ioctl half_engine 0x31000000 0x31040000 MEM_DMA idle_dma = (r, msgs, d')"
    by (metis prod_cases3)
  have "apart TRANS_SIZE 0x31000000 0x31040000" by (simp add: apart_def TRANS_SIZE_def)
  from my_ioctl_copies [OF half_engine_ok this i] i show ?thesis by (auto simp: MEM_DMA_def MEM_NO_DMA_def)
qed

section \<open>Loading\<close>

text \<open>
  Loading and unloading gives everything back, and so does a load that fails because
  the interrupt is taken. A load that fails to map the registers keeps the interrupt, and
  every later load fails.
\<close>

theorem my_dma_init_irq_leak:
  "(if irq_taken k then my_dma_init m k = (-16, k)
    else if m then fst (my_dma_init m k) = 0 \<and> my_dma_exit (snd (my_dma_init m k)) = k
    else my_dma_init m k = (-16, k\<lparr>irq_taken := True\<rparr>)
      \<and> (\<forall>m'. fst (my_dma_init m' (snd (my_dma_init m k))) = -16))"
  by (simp add: my_dma_init_def my_dma_exit_def dma_free_all_def Let_def)

end
