(* ===== verification/MouseDrv.thy ===== *)
theory MouseDrv
  imports Prelude
begin

text \<open>
  The mouse drivers usb_mid.c and usb_hard.c: one transfer that is submitted again by its
  own completion, its buffer, and the input device of usb_hard. Both keep them in global
  variables. Transfers, buffers and input devices are addresses in a small heap; what is
  touched after it was freed is a fault. A transfer has a count of its references: the driver
  holds one, and the core another one for as long as it is submitted, so that it outlives
  \<open>usb_free_urb\<close> until its completion. Whether an allocation succeeds is an argument.
\<close>

section \<open>The heap and the USB core\<close>

record urb =
  transfer_buffer :: addr
  transfer_length :: nat
  submitted :: bool
  refs :: nat

record mouse =
  urbs :: "addr \<rightharpoonup> urb"
  bufs :: "addr \<rightharpoonup> nat"  \<comment> \<open>their sizes\<close>
  inputs :: "addr list"
  fresh :: addr
  my_maxpack :: nat
  my_buffer :: addr
  my_urb :: addr
  my_input_dev :: addr
  count :: nat
  bound :: nat
  log :: "(nat \<times> u8 list) list"

definition usb_buffer_alloc :: "bool \<Rightarrow> nat \<Rightarrow> mouse \<Rightarrow> addr \<times> mouse" where
  "usb_buffer_alloc ok n s =
     (if ok then (fresh s, s\<lparr>bufs := (bufs s)(fresh s \<mapsto> n), fresh := fresh s + 1\<rparr>) else (NULL, s))"

definition usb_alloc_urb :: "bool \<Rightarrow> mouse \<Rightarrow> addr \<times> mouse" where
  "usb_alloc_urb ok s =
     (if ok then (fresh s, s\<lparr>urbs := (urbs s)(fresh s \<mapsto> \<lparr>transfer_buffer = NULL, transfer_length = 0, submitted = False, refs = 1\<rparr>), fresh := fresh s + 1\<rparr>)
      else (NULL, s))"

definition usb_fill_int_urb :: "addr \<Rightarrow> addr \<Rightarrow> nat \<Rightarrow> mouse \<Rightarrow> fault + mouse" where
  "usb_fill_int_urb u b n s =
     (case urbs s u of None \<Rightarrow> Inl (BadAccess u)
      | Some x \<Rightarrow> Inr (s\<lparr>urbs := (urbs s)(u \<mapsto> x\<lparr>transfer_buffer := b, transfer_length := n\<rparr>)\<rparr>))"

text \<open>
  The core refuses the null pointer and a transfer that is already submitted; \<open>ok\<close> is
  whether it accepts the others, of which it takes a reference.
\<close>

definition usb_submit_urb :: "bool \<Rightarrow> addr \<Rightarrow> mouse \<Rightarrow> fault + mouse" where
  "usb_submit_urb ok u s =
     (if u = NULL then Inr s
      else case urbs s u of None \<Rightarrow> Inl (BadAccess u)
        | Some x \<Rightarrow> Inr (if ok \<and> \<not> submitted x
            then s\<lparr>urbs := (urbs s)(u \<mapsto> x\<lparr>submitted := True, refs := refs x + 1\<rparr>)\<rparr> else s))"

text \<open>A reference is given up; the last one frees the transfer. This is all \<open>usb_free_urb\<close> does.\<close>

definition usb_put_urb :: "addr \<Rightarrow> mouse \<Rightarrow> fault + mouse" where
  "usb_put_urb u s =
     (case urbs s u of None \<Rightarrow> Inl (BadAccess u)
      | Some x \<Rightarrow> Inr (s\<lparr>urbs := (urbs s)(u := if refs x \<le> 1 then None else Some (x\<lparr>refs := refs x - 1\<rparr>))\<rparr>))"

definition usb_free_urb :: "addr \<Rightarrow> mouse \<Rightarrow> fault + mouse" where
  "usb_free_urb u s = (if u = NULL then Inr s else usb_put_urb u s)"

text \<open>
  The core gives a submitted transfer back: it is no longer submitted, its function runs
  with the buffer that the device has filled with \<open>data\<close>, and the core's reference is given up.
\<close>

type_synonym completion = "bool \<Rightarrow> u8 list \<Rightarrow> mouse \<Rightarrow> fault + mouse"

definition complete :: "completion \<Rightarrow> bool \<Rightarrow> u8 list \<Rightarrow> addr \<Rightarrow> mouse \<Rightarrow> fault + mouse" where
  "complete fn submit_ok data u s =
     (case urbs s u of None \<Rightarrow> Inl (BadAccess u)
      | Some x \<Rightarrow>
          if submitted x then
            rbind (fn submit_ok data (s\<lparr>urbs := (urbs s)(u \<mapsto> x\<lparr>submitted := False\<rparr>)\<rparr>)) (usb_put_urb u)
          else Inr s)"

text \<open>Killing a transfer completes it, if it is submitted, and refuses to have it submitted again.\<close>

definition usb_kill_urb :: "completion \<Rightarrow> u8 list \<Rightarrow> addr \<Rightarrow> mouse \<Rightarrow> fault + mouse" where
  "usb_kill_urb fn data u s = (if u = NULL then Inr s else complete fn False data u s)"

text \<open>A buffer is given back with the size it was asked for.\<close>

definition usb_buffer_free :: "nat \<Rightarrow> addr \<Rightarrow> mouse \<Rightarrow> fault + mouse" where
  "usb_buffer_free n b s =
     (if b = NULL then Inr s
      else if bufs s b = Some n then Inr (s\<lparr>bufs := (bufs s)(b := None)\<rparr>) else Inl (BadAccess b))"

text \<open>
  An input device: unregistering a registered device gives up the last reference and frees
  it; freeing is for devices that were never registered.
\<close>

definition input_allocate_device :: "bool \<Rightarrow> mouse \<Rightarrow> addr \<times> mouse" where
  "input_allocate_device ok s =
     (if ok then (fresh s, s\<lparr>inputs := fresh s # inputs s, fresh := fresh s + 1\<rparr>) else (NULL, s))"

definition input_use :: "addr \<Rightarrow> mouse \<Rightarrow> fault + mouse" where
  "input_use i s = (if i \<in> set (inputs s) then Inr s else Inl (BadAccess i))"

definition input_release :: "addr \<Rightarrow> mouse \<Rightarrow> fault + mouse" where
  "input_release i s = rbind (input_use i s) (\<lambda>s. Inr (s\<lparr>inputs := remove1 i (inputs s)\<rparr>))"

text \<open>The bytes of a buffer, which the device has filled with \<open>data\<close>.\<close>

definition read_buffer :: "addr \<Rightarrow> nat \<Rightarrow> u8 list \<Rightarrow> mouse \<Rightarrow> fault + u8 list" where
  "read_buffer b n data s =
     (if n = 0 then Inr []
      else case bufs s b of None \<Rightarrow> Inl (BadAccess b)
        | Some k \<Rightarrow> if k < n then Inl OutOfBounds else Inr (map (get_user data) [0..<n]))"

section \<open>usb_mid\<close>

definition mid_complete_fn :: "bool \<Rightarrow> u8 list \<Rightarrow> mouse \<Rightarrow> fault + mouse" where
  "mid_complete_fn submit_ok data s =
     rbind (read_buffer (my_buffer s) (my_maxpack s) data s) (\<lambda>bytes.
       usb_submit_urb submit_ok (my_urb s) (s\<lparr>log := log s @ [(count s, bytes)], count := count s + 1\<rparr>))"

definition mid_probe :: "bool \<Rightarrow> bool \<Rightarrow> bool \<Rightarrow> nat \<Rightarrow> mouse \<Rightarrow> fault + mouse" where
  "mid_probe buf_ok urb_ok submit_ok wMaxPacketSize s =
     (let s = s\<lparr>my_maxpack := wMaxPacketSize\<rparr>;
          (b, s) = usb_buffer_alloc buf_ok (my_maxpack s) s; s = s\<lparr>my_buffer := b\<rparr>;
          (u, s) = usb_alloc_urb urb_ok s; s = s\<lparr>my_urb := u\<rparr>
      in rbind (usb_fill_int_urb (my_urb s) (my_buffer s) (my_maxpack s) s) (\<lambda>s.
         rbind (usb_submit_urb submit_ok (my_urb s) s) (\<lambda>s. Inr (s\<lparr>bound := bound s + 1\<rparr>))))"

definition mid_disconnect :: "u8 list \<Rightarrow> mouse \<Rightarrow> fault + mouse" where
  "mid_disconnect data s =
     rbind (usb_kill_urb mid_complete_fn data (my_urb s) s) (\<lambda>s.
     rbind (usb_free_urb (my_urb s) s) (\<lambda>s.
     rbind (usb_buffer_free (my_maxpack s) (my_buffer s) s) (\<lambda>s. Inr (s\<lparr>bound := bound s - 1\<rparr>))))"

section \<open>usb_hard\<close>

text \<open>The letters it prints for the buttons.\<close>

definition button_text :: "u8 \<Rightarrow> string" where
  "button_text b = (if b = 1 then ''l'' else if b = 2 then ''s'' else if b = 4 then [CHR 0x0A] else '''')"

definition hard_complete_fn :: "bool \<Rightarrow> u8 list \<Rightarrow> mouse \<Rightarrow> fault + mouse" where
  "hard_complete_fn submit_ok data s =
     rbind (read_buffer (my_buffer s) 1 data s) (\<lambda>bytes.
       usb_submit_urb submit_ok (my_urb s)
         (s\<lparr>log := log s @ [(0, map (\<lambda>c. of_nat (of_char c)) (button_text (bytes ! 0)))]\<rparr>))"

definition hard_probe :: "bool \<Rightarrow> bool \<Rightarrow> bool \<Rightarrow> bool \<Rightarrow> nat \<Rightarrow> mouse \<Rightarrow> fault + mouse" where
  "hard_probe buf_ok urb_ok input_ok submit_ok wMaxPacketSize s =
     (let s = s\<lparr>my_maxpack := wMaxPacketSize\<rparr>;
          (b, s) = usb_buffer_alloc buf_ok (my_maxpack s) s; s = s\<lparr>my_buffer := b\<rparr>;
          (u, s) = usb_alloc_urb urb_ok s; s = s\<lparr>my_urb := u\<rparr>
      in rbind (usb_fill_int_urb (my_urb s) (my_buffer s) (my_maxpack s) s) (\<lambda>s.
         let (i, s) = input_allocate_device input_ok s; s = s\<lparr>my_input_dev := i\<rparr>
         in rbind (input_use (my_input_dev s) s) (\<lambda>s.
            rbind (usb_submit_urb submit_ok (my_urb s) s) (\<lambda>s. Inr (s\<lparr>bound := bound s + 1\<rparr>)))))"

text \<open>\<open>usb_free_urb\<close> is called with 0, and the unregistered input device is freed again.\<close>

definition hard_disconnect :: "u8 list \<Rightarrow> mouse \<Rightarrow> fault + mouse" where
  "hard_disconnect data s =
     rbind (usb_kill_urb hard_complete_fn data (my_urb s) s) (\<lambda>s.
     rbind (usb_free_urb 0 s) (\<lambda>s.
     rbind (usb_buffer_free (my_maxpack s) (my_buffer s) s) (\<lambda>s.
     rbind (input_release (my_input_dev s) s) (\<lambda>s.
     rbind (input_release (my_input_dev s) s) (\<lambda>s. Inr (s\<lparr>bound := bound s - 1\<rparr>))))))"

section \<open>One mouse at a time\<close>

definition no_mouse :: mouse where
  "no_mouse = \<lparr>urbs = Map.empty, bufs = Map.empty, inputs = [], fresh = 1, my_maxpack = 0, my_buffer = NULL,
     my_urb = NULL, my_input_dev = NULL, count = 0, bound = 0, log = []\<rparr>"

text \<open>
  The runs of usb_mid in which memory is available and a mouse is probed only when no other
  is bound: between the calls of the driver, each of which is one step, the core completes any
  submitted transfer, and it disconnects a bound mouse.
\<close>

definition pending :: "mouse \<Rightarrow> addr \<Rightarrow> bool" where
  "pending s u = (case urbs s u of None \<Rightarrow> False | Some x \<Rightarrow> submitted x)"

inductive mid_step :: "fault + mouse \<Rightarrow> fault + mouse \<Rightarrow> bool" where
  mid_probes: "bound s = 0 \<Longrightarrow> mid_step (Inr s) (mid_probe True True ok n s)"
| mid_completes: "pending s u \<Longrightarrow> mid_step (Inr s) (complete mid_complete_fn ok data u s)"
| mid_disconnects: "bound s \<noteq> 0 \<Longrightarrow> mid_step (Inr s) (mid_disconnect data s)"

inductive_cases mid_stepE: "mid_step r r'"

text \<open>Unbound, nothing is allocated; bound, exactly the transfer and the buffer of the globals.\<close>

definition mid_inv :: "mouse \<Rightarrow> bool" where
  "mid_inv s =
     (0 < fresh s \<and>
      (if bound s = 0 then dom (urbs s) = {} \<and> bufs s = Map.empty
       else bound s = 1 \<and> my_urb s \<noteq> NULL \<and> my_buffer s \<noteq> NULL \<and> bufs s = [my_buffer s \<mapsto> my_maxpack s]
         \<and> dom (urbs s) = {my_urb s} \<and> transfer_buffer (the (urbs s (my_urb s))) = my_buffer s \<and> transfer_length (the (urbs s (my_urb s))) = my_maxpack s
         \<and> refs (the (urbs s (my_urb s))) = (if submitted (the (urbs s (my_urb s))) then 2 else 1)))"

definition mid_ok :: "fault + mouse \<Rightarrow> bool" where
  "mid_ok r = (case r of Inl e \<Rightarrow> False | Inr s \<Rightarrow> mid_inv s)"

lemma mid_ok_simps [simp]: "mid_ok (Inr s) = mid_inv s" "mid_ok (Inl e) = False"
  by (simp_all add: mid_ok_def)

lemmas core_defs = usb_buffer_alloc_def usb_alloc_urb_def usb_fill_int_urb_def usb_submit_urb_def usb_kill_urb_def
  usb_free_urb_def usb_put_urb_def usb_buffer_free_def

lemma mid_probe_ok: "mid_inv s \<Longrightarrow> bound s = 0 \<Longrightarrow> mid_ok (mid_probe True True ok n s)"
  by (auto simp: mid_inv_def mid_probe_def core_defs Let_def)

lemma mid_bound:
  assumes "mid_inv s" and "bound s \<noteq> 0"
  obtains x where "urbs s = [my_urb s \<mapsto> x]" "transfer_buffer x = my_buffer s" "transfer_length x = my_maxpack s" "bufs s = [my_buffer s \<mapsto> my_maxpack s]"
    "bound s = 1" "my_urb s \<noteq> NULL" "my_buffer s \<noteq> NULL" "0 < fresh s" "refs x = (if submitted x then 2 else 1)"
  using assms that by (auto simp: mid_inv_def dom_eq_singleton_conv)

text \<open>A completion while the mouse is bound: the transfer is as before, submitted again or not.\<close>

lemma mid_complete_bound:
  assumes "mid_inv s" and "bound s \<noteq> 0"
  shows "\<exists>s'. complete mid_complete_fn ok data (my_urb s) s = Inr s' \<and> mid_inv s' \<and> bound s' = bound s
    \<and> my_urb s' = my_urb s \<and> (\<not> ok \<longrightarrow> \<not> pending s' (my_urb s))"
  using assms
proof (rule mid_bound)
  fix x
  assume x: "urbs s = [my_urb s \<mapsto> x]" "transfer_buffer x = my_buffer s" "transfer_length x = my_maxpack s" "bufs s = [my_buffer s \<mapsto> my_maxpack s]"
    "bound s = 1" "my_urb s \<noteq> NULL" "my_buffer s \<noteq> NULL" "0 < fresh s" "refs x = (if submitted x then 2 else 1)"
  then show ?thesis using assms(1)
    by (auto simp: mid_inv_def complete_def mid_complete_fn_def read_buffer_def usb_submit_urb_def usb_put_urb_def
      pending_def)
qed

lemma mid_complete_ok:
  assumes "mid_inv s" and "pending s u"
  shows "mid_ok (complete mid_complete_fn ok data u s)"
proof -
  have b: "bound s \<noteq> 0"
  proof
    assume "bound s = 0"
    then have "urbs s u = None" using assms(1) by (simp add: mid_inv_def)
    then show False using assms(2) by (simp add: pending_def)
  qed
  obtain x where "urbs s = [my_urb s \<mapsto> x]" by (rule mid_bound [OF assms(1) b])
  then have "u = my_urb s" using assms(2) by (simp add: pending_def split: if_splits)
  then show ?thesis using mid_complete_bound [OF assms(1) b, of ok data] by auto
qed

lemma mid_disconnect_ok:
  assumes "mid_inv s" and "bound s \<noteq> 0"
  shows "mid_ok (mid_disconnect data s)"
proof -
  obtain s1 where k: "usb_kill_urb mid_complete_fn data (my_urb s) s = Inr s1" and inv: "mid_inv s1" "bound s1 \<noteq> 0"
    and idle: "\<not> pending s1 (my_urb s1)"
    using mid_complete_bound [OF assms, of False data] assms by (auto simp: usb_kill_urb_def mid_inv_def split: if_splits)
  show ?thesis using inv
  proof (rule mid_bound)
    fix x
    assume "urbs s1 = [my_urb s1 \<mapsto> x]" "bufs s1 = [my_buffer s1 \<mapsto> my_maxpack s1]" "bound s1 = 1" "my_urb s1 \<noteq> NULL"
      "my_buffer s1 \<noteq> NULL" "0 < fresh s1" "refs x = (if submitted x then 2 else 1)"
    then show ?thesis using k idle
      by (simp add: mid_disconnect_def usb_free_urb_def usb_put_urb_def usb_buffer_free_def mid_inv_def pending_def)
  qed
qed

interpretation mid: inv_system "\<lambda>r. r = Inr no_mouse" mid_step mid_ok
proof
  show "mid_ok r" if "r = Inr no_mouse" for r
    using that by (simp add: mid_inv_def no_mouse_def)
  show "mid_ok t" if "mid_ok r" and "mid_step r t" for r t
    using that(2,1) by (auto elim!: mid_stepE simp: mid_probe_ok mid_complete_ok mid_disconnect_ok)
qed

text \<open>
  C26. As long as memory is available and one mouse is bound at a time, usb_mid never
  faults, in any order of probing, completions and disconnecting, although every completion
  may submit the transfer again; the device never writes into memory that was freed, or
  behind a buffer, because the buffer of a submitted transfer is allocated with the length of
  the transfer; and whenever no mouse is bound, every transfer and every buffer has been
  freed and nothing can be completed any more.
\<close>

theorem usb_mid_one_mouse:
  assumes "reach (\<lambda>r. r = Inr no_mouse) mid_step r"
  shows "\<exists>s. r = Inr s \<and> (if bound s = 0 then urbs s = Map.empty \<and> bufs s = Map.empty
    else (\<exists>x. urbs s (my_urb s) = Some x \<and> transfer_buffer x = my_buffer s) \<and> my_buffer s \<in> dom (bufs s))
    \<and> (\<forall>u x. urbs s u = Some x \<and> submitted x \<longrightarrow> bufs s (transfer_buffer x) = Some (transfer_length x))"
  using mid.reach_inv [OF assms] by (cases r) (auto simp: mid_inv_def dom_eq_singleton_conv split: if_splits)

theorem usb_mid_one_mouse_witness:
  "\<exists>s. mid_probe True True True 4 no_mouse = Inr s
    \<and> (\<exists>x. urbs s (my_urb s) = Some x \<and> transfer_buffer x = my_buffer s)"
proof -
  have "reach (\<lambda>r. r = Inr no_mouse) mid_step (mid_probe True True True 4 no_mouse)"
    by (rule reach_step [OF reach_start], rule refl, rule mid_probes) (simp add: no_mouse_def)
  from usb_mid_one_mouse [OF this] show ?thesis
    by (auto simp: mid_probe_def core_defs no_mouse_def Let_def)
qed

section \<open>What goes wrong\<close>

lemma hard_disconnect_inputs:
  "usb_kill_urb hard_complete_fn data u s = Inr s' \<Longrightarrow> inputs s' = inputs s" "usb_buffer_free n b s = Inr s' \<Longrightarrow> inputs s' = inputs s"
  by (auto simp: usb_kill_urb_def complete_def hard_complete_fn_def usb_submit_urb_def usb_put_urb_def usb_buffer_free_def
    read_buffer_def rbind_Inr_conv split: if_splits option.splits)

text \<open>
  With two mice the globals describe the second: disconnecting either frees the
  second's buffer, and the next report of the first mouse reads it. A failed allocation
  of the transfer is used as a null pointer. And usb_hard frees its input device twice at
  every disconnect, in whatever state.
\<close>

theorem mouse_driver_faults:
  assumes "distinct (inputs s)"
  shows "rbind (mid_probe True True True 4 no_mouse) (\<lambda>s.
      rbind (mid_probe True True True 4 s) (\<lambda>s.
      rbind (mid_disconnect [1, 2, 3, 4] s) (complete mid_complete_fn True [1, 2, 3, 4] 2))) = Inl (BadAccess 3)
    \<and> mid_probe b False ok n no_mouse = Inl (BadAccess NULL)
    \<and> (\<exists>e. hard_disconnect data s = Inl e)"
proof (intro conjI)
  show "rbind (mid_probe True True True 4 no_mouse) (\<lambda>s.
      rbind (mid_probe True True True 4 s) (\<lambda>s.
      rbind (mid_disconnect [1, 2, 3, 4] s) (complete mid_complete_fn True [1, 2, 3, 4] 2))) = Inl (BadAccess 3)"
    by (simp add: mid_probe_def mid_disconnect_def complete_def mid_complete_fn_def read_buffer_def core_defs no_mouse_def get_user_def)
  show "mid_probe b False ok n no_mouse = Inl (BadAccess NULL)"
    by (simp add: mid_probe_def core_defs no_mouse_def Let_def)
  show "\<exists>e. hard_disconnect data s = Inl e"
  proof (cases "usb_kill_urb hard_complete_fn data (my_urb s) s")
    case (Inl e)
    then show ?thesis by (simp add: hard_disconnect_def)
  next
    case k: (Inr s1)
    show ?thesis
    proof (cases "usb_buffer_free (my_maxpack s1) (my_buffer s1) s1")
      case (Inl e)
      then show ?thesis
        using k by (auto simp: hard_disconnect_def usb_free_urb_def usb_buffer_free_def split: if_splits)
    next
      case (Inr s2)
      have d: "distinct (inputs s2)" using assms hard_disconnect_inputs(1) [OF k] hard_disconnect_inputs(2) [OF Inr] by simp
      show ?thesis using k Inr d by (simp add: hard_disconnect_def usb_free_urb_def input_release_def input_use_def)
    qed
  qed
qed

theorem mouse_driver_faults_witness:
  "rbind (hard_probe True True True True 4 no_mouse) (hard_disconnect [2, 0, 0, 0]) = Inl (BadAccess 3)
    \<and> (\<exists>e. hard_disconnect [2, 0, 0, 0] no_mouse = Inl e)"
  using mouse_driver_faults [of no_mouse True True 4 "[2, 0, 0, 0]"]
  by (simp add: hard_probe_def hard_disconnect_def complete_def hard_complete_fn_def read_buffer_def get_user_def input_allocate_device_def input_use_def input_release_def core_defs no_mouse_def)

end
