(* ===== verification/HwControl.thy ===== *)
theory HwControl
  imports Prelude
begin

text \<open>
  The output pins of hw_control.c: four pins of port F, set from the four bytes that are
  written. What an operation does is the list of its calls on the pins; what they do to the
  port is the specification.
\<close>

datatype direction = GPIO_INPUT | GPIO_OUTPUT

datatype gpio_call = Cfgpin nat direction | Setpin nat bool

definition hw_control_open :: "gpio_call list \<times> int" where
  "hw_control_open = (concat (map (\<lambda>i. [Cfgpin i GPIO_OUTPUT, Setpin i False]) [3..<7]), 0)"

text \<open>Four bytes are copied, whatever size was asked for, into an array of ten.\<close>

definition hw_control_write :: "u8 list \<Rightarrow> gpio_call list \<times> int" where
  "hw_control_write buf =
     (let data_buf = map (get_user buf) [0..<4]
      in (map (\<lambda>(i, j). if data_buf ! j \<noteq> 0 then Setpin i True else Setpin i False) (zip [3..<7] [0..<4]), 4))"

definition hw_control_close :: "gpio_call list \<times> int" where
  "hw_control_close = (map (\<lambda>i. Cfgpin i GPIO_INPUT) [2..<8], 0)"

definition hw_control_init :: "int \<Rightarrow> int" where
  "hw_control_init major = (if major < 0 then -12 else 0)"

text \<open>The port: direction and level of each pin.\<close>

record port =
  dir_of :: "nat \<Rightarrow> direction"
  level_of :: "nat \<Rightarrow> bool"

fun gpio_run :: "gpio_call list \<Rightarrow> port \<Rightarrow> port" where
  "gpio_run [] p = p"
| "gpio_run (Cfgpin i d # cs) p = gpio_run cs (p\<lparr>dir_of := (dir_of p)(i := d)\<rparr>)"
| "gpio_run (Setpin i v # cs) p = gpio_run cs (p\<lparr>level_of := (level_of p)(i := v)\<rparr>)"

lemma gpio_run_append: "gpio_run (as @ bs) p = gpio_run bs (gpio_run as p)"
  by (induction as p rule: gpio_run.induct) simp_all

lemma pins_upt: "[3..<7] = [3, 4, 5, 6 :: nat]" "[2..<8] = [2, 3, 4, 5, 6, 7 :: nat]" "[0..<4] = [0, 1, 2, 3 :: nat]"
  by (simp_all add: upt_rec)

text \<open>
  The driver keeps to the pins 3 to 6 while it is open, but not when it is closed:
  pins 2 and 7, which it never configured, become inputs too.
\<close>

definition hw_pin :: "nat \<Rightarrow> bool" where
  "hw_pin i = (3 \<le> i \<and> i \<le> 6)"

text \<open>
  Opened, the four pins are outputs and low; a write of any size sets pin \<open>3 + j\<close> to
  whether byte \<open>j\<close> is not zero, missing bytes counting as zero, and reports four bytes; no
  other pin is touched. Closing makes the four pins inputs, and pins 2 and 7 as well.
\<close>

theorem hw_control_session:
  "let opened = gpio_run (fst hw_control_open) p;
       written = gpio_run (fst (hw_control_write buf)) opened;
       closed = gpio_run (fst hw_control_close) written in
   dir_of opened i = (if hw_pin i then GPIO_OUTPUT else dir_of p i)
   \<and> level_of opened i = (if hw_pin i then False else level_of p i)
   \<and> dir_of written = dir_of opened
   \<and> level_of written i = (if hw_pin i then i - 3 < length buf \<and> buf ! (i - 3) \<noteq> 0 else level_of p i)
   \<and> snd (hw_control_write buf) = 4
   \<and> dir_of closed i = (if hw_pin i \<or> i = 2 \<or> i = 7 then GPIO_INPUT else dir_of p i)
   \<and> level_of closed = level_of written"
proof -
  have eq: "hw_pin i = (i = 3 \<or> i = 4 \<or> i = 5 \<or> i = 6)" by (auto simp: hw_pin_def)
  show ?thesis
    unfolding eq
    by (auto simp: hw_control_open_def hw_control_write_def hw_control_close_def pins_upt Let_def get_user_def)
qed

end
