(* ===== verification/Flash.thy ===== *)
theory Flash
  imports Prelude
begin

text \<open>
  The flash drivers: the three functions nandflash.c gives to the NAND layer and the
  control register it programs, norflash.c with its two probes and the resources it holds,
  and the partition tables of both. The MTD layer of the kernel is a parameter.
\<close>

section \<open>The NAND controller\<close>

record nand_regs =
  nfconf :: u32
  nfcont :: u32
  nfcmd :: u32
  nfaddr :: u32
  nfdata :: u32
  nfeccd0 :: u32
  nfeccd1 :: u32
  nfeccd :: u32
  nfstat :: u32

definition NAND_CLE :: u32 where "NAND_CLE = 0x02"

definition my_select_chip :: "int \<Rightarrow> nand_regs \<Rightarrow> nand_regs" where
  "my_select_chip chip r =
     (if chip = -1 then r\<lparr>nfcont := nfcont r OR push_bit 1 1\<rparr>
      else r\<lparr>nfcont := nfcont r AND NOT (push_bit 1 1)\<rparr>)"

definition my_cmd_strl :: "u32 \<Rightarrow> u32 \<Rightarrow> nand_regs \<Rightarrow> nand_regs" where
  "my_cmd_strl dat ctrl r = (if ctrl AND NAND_CLE \<noteq> 0 then r\<lparr>nfcmd := dat\<rparr> else r\<lparr>nfaddr := dat\<rparr>)"

definition my_dev_ready :: "nand_regs \<Rightarrow> u32" where
  "my_dev_ready r = nfstat r AND 1"

text \<open>The timings are \<open>TACLS = 0\<close>, \<open>TWRPH0 = 1\<close>, \<open>TWRPH1 = 0\<close>.\<close>

definition my_nand_setup :: "nand_regs \<Rightarrow> nand_regs" where
  "my_nand_setup r =
     (let r = r\<lparr>nfconf := push_bit 12 0 OR push_bit 8 1 OR push_bit 4 0\<rparr>
      in r\<lparr>nfcont := push_bit 1 1 OR push_bit 0 1\<rparr>)"

section \<open>Partitions\<close>

datatype part_offset = Offset nat | OFS_APPEND
datatype part_size = Size nat | SIZ_FULL

record partition =
  part_name :: string
  part_start :: part_offset
  part_len :: part_size

definition my_nand_part :: "partition list" where
  "my_nand_part =
     [\<lparr>part_name = ''my_boot'', part_start = Offset 0, part_len = Size 0x100000\<rparr>,
      \<lparr>part_name = ''my_kernel'', part_start = Offset (0x100000 + 0x20000), part_len = Size 0x400000\<rparr>,
      \<lparr>part_name = ''my_yaffs2'', part_start = OFS_APPEND, part_len = SIZ_FULL\<rparr>]"

definition my_mtd_parts :: "partition list" where
  "my_mtd_parts =
     [\<lparr>part_name = ''my_first'', part_start = Offset 0, part_len = Size 0x100000\<rparr>,
      \<lparr>part_name = ''my_second'', part_start = OFS_APPEND, part_len = SIZ_FULL\<rparr>]"

text \<open>
  What the MTD layer makes of a table: a partition that is appended starts at the end of
  the one before, a full one reaches to the end of the device.
\<close>

fun layout :: "nat \<Rightarrow> nat \<Rightarrow> partition list \<Rightarrow> (nat \<times> nat) list" where
  "layout sz cur [] = []"
| "layout sz cur (p # ps) =
     (let st = (case part_start p of Offset n \<Rightarrow> n | OFS_APPEND \<Rightarrow> cur);
          len = (case part_len p of Size n \<Rightarrow> n | SIZ_FULL \<Rightarrow> sz - st)
      in (st, len) # layout sz (st + len) ps)"

section \<open>The NOR driver\<close>

record nor =
  maps :: nat
  mtds :: nat
  mapped :: nat
  nor_msgs :: "string list"

definition my_nor_init :: "(string \<Rightarrow> bool) \<Rightarrow> nor \<Rightarrow> int \<times> nor" where
  "my_nor_init do_map_probe s =
     (let s = s\<lparr>maps := maps s + 1\<rparr>; s = s\<lparr>mapped := mapped s + 1\<rparr>
      in if \<not> do_map_probe ''cfi_probe'' then
           if \<not> do_map_probe ''jedec_probe'' then
             let s = s\<lparr>nor_msgs := nor_msgs s @ [''failed to probe'']\<rparr>;
                 s = s\<lparr>mapped := mapped s - 1\<rparr>; s = s\<lparr>maps := maps s - 1\<rparr>
             in (-5, s)
           else (0, s\<lparr>mtds := mtds s + 1, nor_msgs := nor_msgs s @ [''use the jedec probe'', ''use the cfi probe'']\<rparr>)
         else (0, s\<lparr>mtds := mtds s + 1, nor_msgs := nor_msgs s @ [''use the cfi probe'']\<rparr>))"

definition my_nor_exit :: "nor \<Rightarrow> nor" where
  "my_nor_exit s = (let s = s\<lparr>mapped := mapped s - 1\<rparr> in s\<lparr>maps := maps s - 1\<rparr>)"

section \<open>Properties\<close>

text \<open>
  Selecting and deselecting the chip changes the select bit of the control register and
  nothing else, so that after the setup the controller stays enabled and the chip is
  deselected in between; a byte goes to the command register or to the address register,
  as the flag says, never to both.
\<close>

theorem nand_select_bit:
  "bit (nfcont (my_select_chip chip r)) i = (if i = 1 then chip = -1 else bit (nfcont r) i)
    \<and> my_select_chip chip r = r\<lparr>nfcont := nfcont (my_select_chip chip r)\<rparr>
    \<and> bit (nfcont (my_select_chip chip (my_nand_setup r))) 0
    \<and> (nfcmd (my_cmd_strl dat ctrl r), nfaddr (my_cmd_strl dat ctrl r))
        = (if bit ctrl 1 then (dat, nfaddr r) else (nfcmd r, dat))
    \<and> nfcont (my_cmd_strl dat ctrl r) = nfcont r
    \<and> (my_dev_ready r \<noteq> 0) = bit (nfstat r) 0"
proof -
  have b: "bit (push_bit 1 1 :: u32) n = (n = 1)" for n by (auto simp: bit_simps)
  have "bit (NOT 2 :: int) n = (n \<noteq> 1)" for n unfolding bit_not_int_iff by (simp add: bit_2_iff)
  then have b3: "bit (- 3 :: int) n = (n \<noteq> 1)" for n by simp
  have cle: "(ctrl AND NAND_CLE \<noteq> 0) = bit ctrl 1"
  proof -
    have "bit NAND_CLE n = (n = 1)" for n using b [of n] by (simp add: NAND_CLE_def)
    then have a: "bit (ctrl AND NAND_CLE) n = (n = 1 \<and> bit ctrl 1)" for n by (auto simp: bit_and_iff)
    show ?thesis
    proof (cases "bit ctrl 1")
      case True
      then have "bit (ctrl AND NAND_CLE) 1" by (simp only: a)
      then show ?thesis using True by auto
    next
      case False
      then have "ctrl AND NAND_CLE = 0" by (intro bit_eqI) (simp add: a)
      then show ?thesis using False by simp
    qed
  qed
  have "my_nand_setup r = r\<lparr>nfconf := 0x100, nfcont := 3\<rparr>" by (simp add: my_nand_setup_def)
  moreover have "(nfstat r AND 1 \<noteq> 0) = bit (nfstat r) 0" by (simp add: and_one_eq bit_0 odd_iff_mod_2_eq_one)
  ultimately show ?thesis
    by (auto simp: my_select_chip_def my_cmd_strl_def my_dev_ready_def cle bit_2_iff b3 bit_or_iff bit_and_iff bit_not_iff
      dest: bit_imp_le_length)
qed

text \<open>
  On a device that is large enough the partitions of the NAND table follow one another up
  to the end, but for 128 KB behind the boot loader that belong to none; the table of the
  NOR driver covers its 16 MB.
\<close>

lemma partition_layouts:
  "0x520000 \<le> sz \<Longrightarrow> layout sz 0 my_nand_part
    = [(0, 0x100000), (0x120000, 0x400000), (0x520000, sz - 0x520000)]"
  "layout 0x1000000 0 my_mtd_parts = [(0, 0x100000), (0x100000, 0xf00000)]"
  by (simp_all add: my_nand_part_def my_mtd_parts_def)

text \<open>
  A failed load gives everything back; a load and an unload leave the probed device behind;
  a device found by the second probe is reported as found by both.
\<close>

lemma my_nor_init_paths:
  "my_nor_init p s = (if p ''cfi_probe'' then (0, s\<lparr>maps := maps s + 1, mapped := mapped s + 1, mtds := mtds s + 1,
       nor_msgs := nor_msgs s @ [''use the cfi probe'']\<rparr>)
     else if p ''jedec_probe'' then (0, s\<lparr>maps := maps s + 1, mapped := mapped s + 1, mtds := mtds s + 1,
       nor_msgs := nor_msgs s @ [''use the jedec probe'', ''use the cfi probe'']\<rparr>)
     else (-5, s\<lparr>nor_msgs := nor_msgs s @ [''failed to probe'']\<rparr>))"
  "fst (my_nor_init p s) = 0 \<Longrightarrow> mtds (my_nor_exit (snd (my_nor_init p s))) = mtds s + 1"
  by (auto simp: my_nor_init_def my_nor_exit_def Let_def split: if_splits)

end
