(* ===== verification/I2cTool.thy ===== *)
theory I2cTool
  imports I2cDrivers
begin

text \<open>
  What the programs of i2c-tools share: the numbers of their command lines with the place
  where a number ends, the answer of the user (util.c), the opening of a bus and the choice
  of a chip (i2cbusses.c). A program runs on a state of the bus, the standard input and the
  standard output; it ends with an exit code, or goes wrong. What is written to the
  standard error output (usage, warnings, questions) is left out.
\<close>

section \<open>A running program\<close>

record 'd tool =
  dev :: 'd
  stdin :: "u8 list"
  stdout :: "u8 list"

datatype 'd stop = Exit int "'d tool" | Crash fault

text \<open>
  The host: the SMBus calls of an open bus, the result of opening a device file (a
  descriptor or a negative error), the functions the adapter of a file has, the choice of
  the chip (forced or not) and the switch for packet error checking.
\<close>

record 'd host =
  smbus :: "'d smbus_api"
  open_file :: "u8 list \<Rightarrow> int"
  get_funcs :: "u8 list \<Rightarrow> u32 option"
  set_slave :: "bool \<Rightarrow> int \<Rightarrow> 'd \<Rightarrow> int \<times> 'd"
  set_pec :: "bool \<Rightarrow> 'd \<Rightarrow> int \<times> 'd"

definition on_dev :: "('d \<Rightarrow> int \<times> 'd) \<Rightarrow> 'd tool \<Rightarrow> int \<times> 'd tool" where
  "on_dev f s = (let (r, d) = f (dev s) in (r, s\<lparr>dev := d\<rparr>))"

definition print :: "u8 list \<Rightarrow> 'd tool \<Rightarrow> 'd tool" where
  "print t s = s\<lparr>stdout := stdout s @ t\<rparr>"

lemma on_dev_sel [simp]:
  "stdin (snd (on_dev f s)) = stdin s" "stdout (snd (on_dev f s)) = stdout s"
  by (simp_all add: on_dev_def split_def Let_def)

lemma print_sel [simp]: "dev (print t s) = dev s" "stdin (print t s) = stdin s" "stdout (print t s) = stdout s @ t"
  by (simp_all add: print_def)

lemma print_print: "print u (print t s) = print (t @ u) s"
  by (simp add: print_def)

lemma print_Nil [simp]: "print [] s = s"
  by (simp add: print_def)

text \<open>The C string of a byte list: the byte behind its end is the terminator.\<close>

definition char_at :: "u8 list \<Rightarrow> nat \<Rightarrow> u8" where
  "char_at s i = (if i < length s then s ! i else 0)"

section \<open>Numbers\<close>

text \<open>
  \<open>strtol\<close> and \<open>strtoul\<close> of the C library for a 32-bit \<open>long\<close>: the sign, the value of the
  digits, and the rest behind them, which is the whole string when there is no digit.
\<close>

definition scan_number :: "nat \<Rightarrow> u8 list \<Rightarrow> bool \<times> nat \<times> u8 list" where
  "scan_number base s =
     (let t = dropWhile is_blank s;
          neg = (t \<noteq> [] \<and> t ! 0 = 45);
          t = (if t \<noteq> [] \<and> (t ! 0 = 45 \<or> t ! 0 = 43) then drop 1 t else t);
          (b, u) = number_base base t;
          ds = digits b u
      in (neg, number b ds, if ds = [] then s else drop (length ds) u))"

definition strtol :: "nat \<Rightarrow> u8 list \<Rightarrow> int \<times> u8 list" where
  "strtol base s =
     (let (neg, v, rest) = scan_number base s;
          r = (if neg then - int v else int v)
      in (if r > 2147483647 then 2147483647 else if r < - 2147483648 then - 2147483648 else r, rest))"

definition strtoul_end :: "nat \<Rightarrow> u8 list \<Rightarrow> nat \<times> u8 list" where
  "strtoul_end base s = (strtoul base s, snd (snd (scan_number base s)))"

text \<open>A decimal number is read as itself, to its end.\<close>

lemma number_base_decimal:
  "number_base 0 (decimal n) = (if n = 0 then (8, [48]) else (10, decimal n))"
proof -
  obtain k cs where d: "decimal n = of_nat (48 + k) # cs" and k: "k < 10" "k = 0 \<longrightarrow> n = 0 \<and> cs = []"
    using decimal_head by blast
  show ?thesis
  proof (cases "k = 0")
    case True
    then show ?thesis using k(2) d by (simp add: number_base_def)
  next
    case False
    have "n \<noteq> 0"
    proof
      assume "n = 0"
      then have "of_nat (48 + k) = (48 :: u8)" using d by (simp add: decimal.simps [of 0])
      then show False using False digit_byte(4) [OF k(1)] by simp
    qed
    with False show ?thesis using digit_byte(4) [OF k(1)] by (simp add: number_base_def d)
  qed
qed

lemma scan_decimal: "scan_number 0 (decimal n) = (False, n, [])"
proof -
  obtain k cs where d: "decimal n = of_nat (48 + k) # cs" and k: "k < 10" "k = 0 \<longrightarrow> n = 0 \<and> cs = []"
    using decimal_head by blast
  note b = digit_byte [OF k(1), folded d]
  have blank: "dropWhile is_blank (decimal n) = decimal n" unfolding d using b(1) by simp
  have sign: "decimal n ! 0 \<noteq> 45" "decimal n ! 0 \<noteq> 43" "decimal n \<noteq> []" unfolding d using b by simp_all
  have ds: "digits 8 [48] = [0]" "number 8 [0] = 0"
    by (simp_all add: digits_def digit_val_def number_def)
  show ?thesis
    using sign by (simp add: scan_number_def blank number_base_decimal ds digits_decimal number_decimal Let_def)
qed

lemma scan_decimal_10: "scan_number 10 (decimal n) = (False, n, [])"
proof -
  obtain k cs where d: "decimal n = of_nat (48 + k) # cs" and k: "k < 10"
    using decimal_head by blast
  note b = digit_byte [OF k, folded d]
  have blank: "dropWhile is_blank (decimal n) = decimal n" unfolding d using b(1) by simp
  have sign: "decimal n ! 0 \<noteq> 45" "decimal n ! 0 \<noteq> 43" "decimal n \<noteq> []" unfolding d using b by simp_all
  show ?thesis
    using sign by (simp add: scan_number_def blank number_base_def digits_decimal number_decimal Let_def)
qed

lemma strtol_decimal: "n \<le> 2147483647 \<Longrightarrow> strtol 0 (decimal n) = (int n, [])"
  by (simp add: strtol_def scan_decimal)

lemma strtoul_end_decimal: "n \<le> ULONG_MAX \<Longrightarrow> strtoul_end 0 (decimal n) = (n, [])"
  by (simp add: strtoul_end_def scan_decimal strtoul_decimal)

section \<open>util.c\<close>

text \<open>The loop that discards the rest of the line; a line without end counts as no.\<close>

fun flush_line :: "u8 \<Rightarrow> u8 list \<Rightarrow> bool \<Rightarrow> bool \<times> u8 list" where
  "flush_line c inp ret =
     (if c = 10 then (ret, inp)
      else case inp of [] \<Rightarrow> (False, []) | c' # inp' \<Rightarrow> flush_line c' inp' ret)"

declare flush_line.simps [simp del]

definition user_ack :: "bool \<Rightarrow> 'd tool \<Rightarrow> bool \<times> 'd tool" where
  "user_ack dflt s =
     (case stdin s of [] \<Rightarrow> (False, s)
      | c # inp \<Rightarrow>
          let ret = (if c = 121 \<or> c = 89 then True else if c = 110 \<or> c = 78 then False else dflt);
              (ret, inp) = flush_line c inp ret
          in (ret, s\<lparr>stdin := inp\<rparr>))"

lemma flush_line_spec:
  "flush_line c inp ret =
    (if 10 \<in> set (c # inp) then (ret, drop (length (takeWhile (\<lambda>b. b \<noteq> 10) (c # inp)) + 1) (c # inp)) else (False, []))"
proof (induction inp arbitrary: c)
  case Nil
  show ?case by (subst flush_line.simps) simp
next
  case (Cons a inp)
  show ?case by (subst flush_line.simps) (simp add: Cons.IH)
qed

lemma user_ack_dev [simp]: "dev (snd (user_ack dflt s)) = dev s" "stdout (snd (user_ack dflt s)) = stdout s"
  by (simp_all add: user_ack_def Let_def split: list.split prod.split)

text \<open>
  What the answer of the user means: a first line, with its end, that begins with y, or,
  where yes is the default, with anything but n. The questions take one line each.
\<close>

definition says :: "bool \<Rightarrow> u8 list \<Rightarrow> bool" where
  "says dflt inp = (10 \<in> set inp \<and> (inp ! 0 \<in> {121, 89} \<or> dflt \<and> inp ! 0 \<notin> {110, 78}))"

definition next_line :: "u8 list \<Rightarrow> u8 list" where
  "next_line inp = drop 1 (dropWhile (\<lambda>b. b \<noteq> 10) inp)"

lemma user_ack_says: "fst (user_ack dflt s) = says dflt (stdin s)" "stdin (snd (user_ack dflt s)) = next_line (stdin s)"
proof -
  have d: "drop (Suc (length (takeWhile P xs))) xs = drop 1 (dropWhile P xs)" for P and xs :: "u8 list"
    by (metis Suc_eq_plus1 add.commute drop_drop dropWhile_eq_drop)
  have n: "10 \<notin> set xs \<Longrightarrow> dropWhile (\<lambda>b. b \<noteq> 10) xs = []" for xs :: "u8 list" by auto
  show "fst (user_ack dflt s) = says dflt (stdin s)"
    by (cases "stdin s") (auto simp: user_ack_def says_def flush_line_spec Let_def)
  show "stdin (snd (user_ack dflt s)) = next_line (stdin s)"
  proof (cases "stdin s")
    case (Cons c inp)
    show ?thesis
    proof (cases "10 \<in> set (c # inp)")
      case True
      then show ?thesis using Cons d [of "\<lambda>b. b \<noteq> 10" "c # inp"]
        by (auto simp: user_ack_def next_line_def flush_line_spec Let_def split: if_splits)
    next
      case False
      have "next_line (c # inp) = []" unfolding next_line_def n [OF False] by simp
      then show ?thesis using Cons False by (simp add: user_ack_def flush_line_spec Let_def)
    qed
  qed (simp add: user_ack_def next_line_def)
qed

section \<open>Opening a bus\<close>

definition ENOENT :: int where "ENOENT = 2"
definition ENOTDIR :: int where "ENOTDIR = 20"

text \<open>\<open>%d\<close> of a number that may be negative.\<close>

definition decimal_int :: "int \<Rightarrow> u8 list" where
  "decimal_int n = (if n < 0 then 45 # decimal (nat (- n)) else decimal (nat n))"

text \<open>
  The file name is built in an array of 20 bytes, first cut to it, then by a \<open>sprintf\<close> that
  has to fit. The result is the descriptor or the error, and the name.
\<close>

definition open_i2c_dev :: "'d host \<Rightarrow> int \<Rightarrow> nat \<Rightarrow> fault + int \<times> u8 list" where
  "open_i2c_dev h i2cbus sz =
     (let filename = take (sz - 1) (chars ''/dev/i2c/'' @ decimal_int i2cbus);
          fl = open_file h filename
      in if fl = -ENOENT \<or> fl = -ENOTDIR then
           let filename = chars ''/dev/i2c-'' @ decimal_int i2cbus
           in if length filename + 1 > sz then Inl OutOfBounds else Inr (open_file h filename, filename)
         else Inr (fl, filename))"

definition set_slave_addr :: "'d host \<Rightarrow> int \<Rightarrow> bool \<Rightarrow> 'd tool \<Rightarrow> int \<times> 'd tool" where
  "set_slave_addr h address force s =
     (let (r, s) = on_dev (set_slave h force address) s in (if r < 0 then r else 0, s))"

text \<open>\<open>CHIP-ADDRESS\<close>: the address, or a negative error.\<close>

definition parse_i2c_address :: "u8 list \<Rightarrow> int" where
  "parse_i2c_address arg =
     (let (address, rest) = strtol 0 arg in
      if rest \<noteq> [] \<or> arg = [] then -1
      else if address < 0x03 \<or> address > 0x77 then -2
      else address)"

lemma parse_i2c_address_range:
  "0 \<le> parse_i2c_address arg \<Longrightarrow> 0x03 \<le> parse_i2c_address arg \<and> parse_i2c_address arg \<le> 0x77"
  by (auto simp: parse_i2c_address_def Let_def split_def split: if_splits)

lemma length_decimal: "n < 10 ^ k \<Longrightarrow> 0 < k \<Longrightarrow> length (decimal n) \<le> k"
proof (induction k arbitrary: n)
  case (Suc k)
  show ?case
  proof (cases "n < 10")
    case True
    then show ?thesis by (simp add: decimal.simps [of n])
  next
    case False
    then have k: "0 < k" using Suc.prems(1) by (cases k) simp_all
    have "n div 10 < 10 ^ k" using Suc.prems(1) by (simp add: less_mult_imp_div_less mult.commute)
    from Suc.IH [OF this k] show ?thesis using False by (simp add: decimal.simps [of n])
  qed
qed simp

lemma open_i2c_dev_fits:
  assumes "0 \<le> i2cbus" and "i2cbus < 10 ^ 10"
  shows "\<exists>r. open_i2c_dev h i2cbus 20 = Inr r"
proof -
  have "length (decimal (nat i2cbus)) \<le> 10" by (rule length_decimal) (use assms in simp_all)
  then show ?thesis using assms(1) by (simp add: open_i2c_dev_def decimal_int_def Let_def chars_def)
qed

section \<open>Functions of the adapter\<close>

definition I2C_FUNC_I2C :: u32 where "I2C_FUNC_I2C = 0x00000001"
definition I2C_FUNC_SMBUS_PEC :: u32 where "I2C_FUNC_SMBUS_PEC = 0x00000008"
definition I2C_FUNC_SMBUS_BLOCK_PROC_CALL :: u32 where "I2C_FUNC_SMBUS_BLOCK_PROC_CALL = 0x00008000"
definition I2C_FUNC_SMBUS_QUICK :: u32 where "I2C_FUNC_SMBUS_QUICK = 0x00010000"
definition I2C_FUNC_SMBUS_READ_BYTE :: u32 where "I2C_FUNC_SMBUS_READ_BYTE = 0x00020000"
definition I2C_FUNC_SMBUS_WRITE_BYTE :: u32 where "I2C_FUNC_SMBUS_WRITE_BYTE = 0x00040000"
definition I2C_FUNC_SMBUS_READ_BYTE_DATA :: u32 where "I2C_FUNC_SMBUS_READ_BYTE_DATA = 0x00080000"
definition I2C_FUNC_SMBUS_WRITE_BYTE_DATA :: u32 where "I2C_FUNC_SMBUS_WRITE_BYTE_DATA = 0x00100000"
definition I2C_FUNC_SMBUS_READ_WORD_DATA :: u32 where "I2C_FUNC_SMBUS_READ_WORD_DATA = 0x00200000"
definition I2C_FUNC_SMBUS_WRITE_WORD_DATA :: u32 where "I2C_FUNC_SMBUS_WRITE_WORD_DATA = 0x00400000"
definition I2C_FUNC_SMBUS_PROC_CALL :: u32 where "I2C_FUNC_SMBUS_PROC_CALL = 0x00800000"
definition I2C_FUNC_SMBUS_READ_BLOCK_DATA :: u32 where "I2C_FUNC_SMBUS_READ_BLOCK_DATA = 0x01000000"
definition I2C_FUNC_SMBUS_WRITE_BLOCK_DATA :: u32 where "I2C_FUNC_SMBUS_WRITE_BLOCK_DATA = 0x02000000"
definition I2C_FUNC_SMBUS_READ_I2C_BLOCK :: u32 where "I2C_FUNC_SMBUS_READ_I2C_BLOCK = 0x04000000"
definition I2C_FUNC_SMBUS_WRITE_I2C_BLOCK :: u32 where "I2C_FUNC_SMBUS_WRITE_I2C_BLOCK = 0x08000000"

definition has :: "u32 \<Rightarrow> u32 \<Rightarrow> bool" where
  "has funcs f = (funcs AND f \<noteq> 0)"

section \<open>Hexadecimal numbers\<close>

text \<open>\<open>%x\<close>, and \<open>%0*x\<close> with its width.\<close>

definition hex_digit :: "nat \<Rightarrow> u8" where
  "hex_digit n = of_nat (if n < 10 then 48 + n else 87 + n)"

function hexadecimal :: "nat \<Rightarrow> u8 list" where
  "hexadecimal n = (if n < 16 then [hex_digit n] else hexadecimal (n div 16) @ [hex_digit (n mod 16)])"
  by pat_completeness auto
termination by (relation "measure id") auto

declare hexadecimal.simps [simp del]

definition hex :: "nat \<Rightarrow> nat \<Rightarrow> u8 list" where
  "hex w n = (let h = hexadecimal n in replicate (w - length h) 48 @ h)"

lemma hex_2: "n < 256 \<Longrightarrow> hex 2 n = [hex_digit (n div 16), hex_digit (n mod 16)]"
proof -
  assume "n < 256"
  then have "n div 16 < 16" by linarith
  then show ?thesis by (simp add: hex_def hexadecimal.simps [of n] hexadecimal.simps [of "n div 16"] hex_digit_def)
qed

section \<open>A recording bus\<close>

text \<open>
  The specification of what a program does to the bus: a host that records every
  transaction with the address of the chip, and answers as a function of what was recorded
  before, so that it can behave like any collection of chips.
\<close>

record transaction =
  chip :: int
  rw :: u8
  command :: u8
  kind :: nat
  payload :: "u8 list option"

record recording =
  cur :: int
  log :: "transaction list"

record answers =
  answer :: "transaction list \<Rightarrow> transaction \<Rightarrow> int \<times> u8 list"
  slave_answer :: "transaction list \<Rightarrow> bool \<Rightarrow> int \<Rightarrow> int"
  pec_answer :: "bool \<Rightarrow> int"

definition rec_smbus :: "answers \<Rightarrow> u8 list \<Rightarrow> recording smbus_api" where
  "rec_smbus an u = \<lparr>smbus_ioctl = (\<lambda>r c k b d.
       let t = \<lparr>chip = cur d, rw = r, command = c, kind = k, payload = b\<rparr>; (res, b') = answer an (log d) t
       in (res, b', d\<lparr>log := log d @ [t]\<rparr>)), uninit_union = u\<rparr>"

definition rec_host :: "answers \<Rightarrow> u8 list \<Rightarrow> (u8 list \<Rightarrow> int) \<Rightarrow> (u8 list \<Rightarrow> u32 option) \<Rightarrow> recording host" where
  "rec_host an u opens funcs = \<lparr>smbus = rec_smbus an u, open_file = opens, get_funcs = funcs,
     set_slave = (\<lambda>force a d. let r = slave_answer an (log d) force a in (r, if r < 0 then d else d\<lparr>cur := a\<rparr>)),
     set_pec = (\<lambda>on d. (pec_answer an on, d))\<rparr>"

text \<open>The result of an access that returns a value, and the transaction it makes.\<close>

definition value_of :: "(u8 list \<Rightarrow> int) \<Rightarrow> int \<times> u8 list \<Rightarrow> int" where
  "value_of f a = (if fst a \<noteq> 0 then -1 else f (snd a))"

lemma rec_slave_addr [simp]:
  "set_slave_addr (rec_host an u opens funcs) a force s =
    (let r = slave_answer an (log (dev s)) force a
     in if r < 0 then (r, s) else (0, s\<lparr>dev := (dev s)\<lparr>cur := a\<rparr>\<rparr>))"
  by (simp add: set_slave_addr_def on_dev_def rec_host_def Let_def)

lemma rec_host_sel [simp]:
  "smbus (rec_host an u opens funcs) = rec_smbus an u"
  "open_file (rec_host an u opens funcs) = opens" "get_funcs (rec_host an u opens funcs) = funcs"
  by (simp_all add: rec_host_def)

lemma rec_reads [simp]:
  "i2c_smbus_read_byte (rec_smbus an u) d =
    (let t = \<lparr>chip = cur d, rw = 1, command = 0, kind = 1, payload = Some u\<rparr>
     in (value_of union_byte (answer an (log d) t), d\<lparr>log := log d @ [t]\<rparr>))"
  "i2c_smbus_read_byte_data (rec_smbus an u) c d =
    (let t = \<lparr>chip = cur d, rw = 1, command = c, kind = 2, payload = Some u\<rparr>
     in (value_of union_byte (answer an (log d) t), d\<lparr>log := log d @ [t]\<rparr>))"
  "i2c_smbus_read_word_data (rec_smbus an u) c d =
    (let t = \<lparr>chip = cur d, rw = 1, command = c, kind = 3, payload = Some u\<rparr>
     in (value_of union_word (answer an (log d) t), d\<lparr>log := log d @ [t]\<rparr>))"
  by (simp_all add: rec_smbus_def value_of_def i2c_smbus_read_byte_def i2c_smbus_read_byte_data_def
    i2c_smbus_read_word_data_def i2c_smbus_access_def Let_def split_def I2C_SMBUS_READ_def I2C_SMBUS_BYTE_def
    I2C_SMBUS_BYTE_DATA_def I2C_SMBUS_WORD_DATA_def)

lemma rec_writes [simp]:
  "i2c_smbus_write_quick (rec_smbus an u) v d =
    (let t = \<lparr>chip = cur d, rw = v, command = 0, kind = 0, payload = None\<rparr>
     in (fst (answer an (log d) t), d\<lparr>log := log d @ [t]\<rparr>))"
  "i2c_smbus_write_byte (rec_smbus an u) v d =
    (let t = \<lparr>chip = cur d, rw = 0, command = v, kind = 1, payload = None\<rparr>
     in (fst (answer an (log d) t), d\<lparr>log := log d @ [t]\<rparr>))"
  "i2c_smbus_write_byte_data (rec_smbus an u) c v d =
    (let t = \<lparr>chip = cur d, rw = 0, command = c, kind = 2, payload = Some (set_byte v u)\<rparr>
     in (fst (answer an (log d) t), d\<lparr>log := log d @ [t]\<rparr>))"
  "i2c_smbus_write_word_data (rec_smbus an u) c w d =
    (let t = \<lparr>chip = cur d, rw = 0, command = c, kind = 3, payload = Some (set_word w u)\<rparr>
     in (fst (answer an (log d) t), d\<lparr>log := log d @ [t]\<rparr>))"
  by (simp_all add: rec_smbus_def i2c_smbus_write_quick_def i2c_smbus_write_byte_def i2c_smbus_write_byte_data_def
    i2c_smbus_write_word_data_def i2c_smbus_access_def Let_def split_def I2C_SMBUS_WRITE_def I2C_SMBUS_BYTE_def
    I2C_SMBUS_BYTE_DATA_def I2C_SMBUS_WORD_DATA_def I2C_SMBUS_QUICK_def)

text \<open>A block that is written: its length, its bytes, and the rest of the union as it was.\<close>

lemma rec_block_writes:
  assumes "length u = 34" and "length vs \<le> 32"
  shows "i2c_smbus_write_block_data (rec_smbus an u) c (of_nat (length vs)) vs d =
    (let t = \<lparr>chip = cur d, rw = 0, command = c, kind = 5,
               payload = Some (of_nat (length vs) # vs @ drop (1 + length vs) u)\<rparr>
     in Inr (fst (answer an (log d) t), d\<lparr>log := log d @ [t]\<rparr>))"
    and "i2c_smbus_write_i2c_block_data (rec_smbus an u) c (of_nat (length vs)) vs d =
    (let t = \<lparr>chip = cur d, rw = 0, command = c, kind = 6,
               payload = Some (of_nat (length vs) # vs @ drop (1 + length vs) u)\<rparr>
     in Inr (fst (answer an (log d) t), d\<lparr>log := log d @ [t]\<rparr>))"
proof -
  have n: "unat (of_nat (length vs) :: u8) = length vs" using assms(2) by (simp add: unat_of_nat)
  then have c: "clamp_length (of_nat (length vs)) = of_nat (length vs)"
    using assms(2) by (simp add: clamp_length_def word_less_nat_alt)
  have u: "uninit_union (rec_smbus an u) = u" by (simp add: rec_smbus_def)
  have f: "fill_block (rec_smbus an u) (of_nat (length vs)) vs = Inr (of_nat (length vs) # vs @ drop (1 + length vs) u)"
    using assms by (subst fill_block_ok) (simp_all add: n u)
  show "i2c_smbus_write_block_data (rec_smbus an u) c (of_nat (length vs)) vs d =
    (let t = \<lparr>chip = cur d, rw = 0, command = c, kind = 5,
               payload = Some (of_nat (length vs) # vs @ drop (1 + length vs) u)\<rparr>
     in Inr (fst (answer an (log d) t), d\<lparr>log := log d @ [t]\<rparr>))"
    by (simp add: i2c_smbus_write_block_data_def c f Let_def i2c_smbus_access_def I2C_SMBUS_WRITE_def
      I2C_SMBUS_BLOCK_DATA_def) (simp add: rec_smbus_def split_def Let_def)
  show "i2c_smbus_write_i2c_block_data (rec_smbus an u) c (of_nat (length vs)) vs d =
    (let t = \<lparr>chip = cur d, rw = 0, command = c, kind = 6,
               payload = Some (of_nat (length vs) # vs @ drop (1 + length vs) u)\<rparr>
     in Inr (fst (answer an (log d) t), d\<lparr>log := log d @ [t]\<rparr>))"
    by (simp add: i2c_smbus_write_i2c_block_data_def c f Let_def i2c_smbus_access_def I2C_SMBUS_WRITE_def
      I2C_SMBUS_I2C_BLOCK_BROKEN_def) (simp add: rec_smbus_def split_def Let_def)
qed

lemma rec_slave [simp]:
  "set_slave (rec_host an u opens funcs) f a d =
    (let r = slave_answer an (log d) f a in (r, if r < 0 then d else d\<lparr>cur := a\<rparr>))"
  "set_pec (rec_host an u opens funcs) e d = (pec_answer an e, d)"
  by (simp_all add: rec_host_def)

end
