(* ===== verification/I2cBusses.thy ===== *)
theory I2cBusses
  imports I2cTool
begin

text \<open>
  The list of I2C busses of i2cbusses.c, from /proc/bus/i2c or from sysfs, and the search
  for a bus by its number or name. The array of adapters grows in bunches of eight and ends
  with a zero entry: it is the list of its entries together with the size of its memory. The
  files and directories of the system are a parameter, as is which allocation succeeds.
\<close>

section \<open>Adapters\<close>

datatype adt = adt_dummy | adt_isa | adt_i2c | adt_smbus | adt_unknown

record i2c_adap =
  nr :: int
  adap_name :: "u8 list"
  adap_funcs :: "u8 list"
  adap_algo :: "u8 list"

fun adap_types :: "adt \<Rightarrow> u8 list \<times> u8 list" where
  "adap_types adt_dummy = (chars ''dummy'', chars ''Dummy bus'')"
| "adap_types adt_isa = (chars ''isa'', chars ''ISA bus'')"
| "adap_types adt_i2c = (chars ''i2c'', chars ''I2C adapter'')"
| "adap_types adt_smbus = (chars ''smbus'', chars ''SMBus adapter'')"
| "adap_types adt_unknown = (chars ''unknown'', chars ''N/A'')"

definition i2c_get_funcs :: "'d host \<Rightarrow> int \<Rightarrow> fault + adt" where
  "i2c_get_funcs h i2cbus =
     rbind (open_i2c_dev h i2cbus 20) (\<lambda>(fl, filename).
       if fl < 0 then Inr adt_unknown
       else case get_funcs h filename of None \<Rightarrow> Inr adt_unknown
         | Some funcs \<Rightarrow>
             if has funcs I2C_FUNC_I2C then Inr adt_i2c
             else if has funcs (I2C_FUNC_SMBUS_READ_BYTE OR I2C_FUNC_SMBUS_WRITE_BYTE
               OR I2C_FUNC_SMBUS_READ_BYTE_DATA OR I2C_FUNC_SMBUS_WRITE_BYTE_DATA
               OR I2C_FUNC_SMBUS_READ_WORD_DATA OR I2C_FUNC_SMBUS_WRITE_WORD_DATA) then Inr adt_smbus
             else Inr adt_dummy)"

text \<open>The array: its size in entries, and the entries that are set.\<close>

record adap_array =
  capacity :: nat
  entries :: "i2c_adap list"

definition BUNCH :: nat where "BUNCH = 8"

text \<open>\<open>realloc\<close> to room for \<open>n + BUNCH\<close> entries, the new ones zero.\<close>

definition more_adapters :: "bool \<Rightarrow> nat \<Rightarrow> adap_array \<Rightarrow> adap_array option" where
  "more_adapters ok n as = (if ok then Some (as\<lparr>capacity := n + BUNCH\<rparr>) else None)"

text \<open>Entry \<open>count\<close> is filled; that it lies in the array is checked.\<close>

definition set_adapter :: "i2c_adap \<Rightarrow> adap_array \<Rightarrow> fault + adap_array" where
  "set_adapter a as =
     (if length (entries as) < capacity as then Inr (as\<lparr>entries := entries as @ [a]\<rparr>) else Inl OutOfBounds)"

text \<open>
  One more adapter, as both parts of the code do it: more space when it is needed, then
  the memory of the name. \<open>None\<close> is the return of the null pointer.
\<close>

definition add_adapter :: "(nat \<Rightarrow> bool) \<Rightarrow> i2c_adap \<Rightarrow> adap_array \<Rightarrow> fault + adap_array option" where
  "add_adapter mem a as =
     (let count = length (entries as) in
      case (if (count + 1) mod BUNCH = 0 then more_adapters (mem (2 * count)) (count + 1) as else Some as) of
        None \<Rightarrow> Inr None
      | Some as \<Rightarrow> if \<not> mem (2 * count + 1) then Inr None
          else rbind (set_adapter a as) (\<lambda>as. Inr (Some as)))"

section \<open>Lines\<close>

text \<open>\<open>fgets\<close> of at most \<open>n - 1\<close> bytes: the line with its end, and what is left of the file.\<close>

fun fgets :: "nat \<Rightarrow> u8 list \<Rightarrow> u8 list \<times> u8 list" where
  "fgets 0 f = ([], f)"
| "fgets (Suc n) [] = ([], [])"
| "fgets (Suc n) (c # f) = (if n = 0 then ([], c # f) else if c = 10 then ([c], f)
     else (let (l, rest) = fgets n f in (c # l, rest)))"

text \<open>\<open>strrchr\<close> of a tab, which is overwritten: what is before it and behind it.\<close>

fun split_last_tab :: "u8 list \<Rightarrow> (u8 list \<times> u8 list) option" where
  "split_last_tab [] = None"
| "split_last_tab (c # s) =
     (case split_last_tab s of Some (a, b) \<Rightarrow> Some (c # a, b)
      | None \<Rightarrow> if c = 9 then Some ([], s) else None)"

definition rtrim :: "u8 list \<Rightarrow> u8 list" where
  "rtrim s = rev (dropWhile (\<lambda>c. c = 32 \<or> c = 10) (rev s))"

text \<open>
  \<open>sscanf\<close> with \<open>i2c-%d\<close>: a mismatch, the end of the string before the number, or the number.
\<close>

datatype scanned = Mismatch | InputEnd | Scanned int

fun scan_prefix :: "u8 list \<Rightarrow> u8 list \<Rightarrow> scanned + u8 list" where
  "scan_prefix [] s = Inr s"
| "scan_prefix (p # ps) [] = Inl InputEnd"
| "scan_prefix (p # ps) (c # s) = (if p = c then scan_prefix ps s else Inl Mismatch)"

definition scan_bus :: "u8 list \<Rightarrow> scanned" where
  "scan_bus s =
     (case scan_prefix (chars ''i2c-'') s of Inl e \<Rightarrow> e
      | Inr t \<Rightarrow>
          let t = dropWhile is_blank t in
          if t = [] then InputEnd
          else if snd (strtol 10 t) = t then Mismatch else Scanned (fst (strtol 10 t)))"

section \<open>The list of the busses\<close>

record file_system =
  file_content :: "u8 list \<Rightarrow> u8 list option"
  dir_names :: "u8 list \<Rightarrow> u8 list list option"
  calloc_ok :: bool
  alloc_ok :: "nat \<Rightarrow> bool"
  uninit_nr :: int
  uninit_words :: "u8 list \<times> u8 list"

text \<open>
  The lines of /proc/bus/i2c. A line without three tabs makes the code write through the
  null pointer that \<open>strrchr\<close> gave.
\<close>

definition proc_adapter :: "int \<Rightarrow> u8 list \<Rightarrow> fault + i2c_adap" where
  "proc_adapter uninit s =
     (case split_last_tab s of None \<Rightarrow> Inl (BadAccess NULL)
      | Some (s, algo) \<Rightarrow>
        case split_last_tab s of None \<Rightarrow> Inl (BadAccess NULL)
        | Some (s, name) \<Rightarrow>
          case split_last_tab s of None \<Rightarrow> Inl (BadAccess NULL)
          | Some (s, typ) \<Rightarrow>
              Inr \<lparr>nr = (case scan_bus s of Scanned n \<Rightarrow> n | _ \<Rightarrow> uninit), adap_name = rtrim name,
                   adap_funcs = rtrim typ, adap_algo = rtrim algo\<rparr>)"

function proc_lines :: "file_system \<Rightarrow> u8 list \<Rightarrow> adap_array \<Rightarrow> fault + adap_array option" where
  "proc_lines fs f as =
     (if f = [] then Inr (Some as)
      else let (s, f) = fgets 120 f in
        rbind (proc_adapter (uninit_nr fs) s) (\<lambda>a.
        rbind (add_adapter (alloc_ok fs) a as) (\<lambda>r.
          case r of None \<Rightarrow> Inr None | Some as \<Rightarrow> proc_lines fs f as)))"
  by pat_completeness auto

lemma fgets_le: "length (snd (fgets n f)) \<le> length f"
  by (induction n f rule: fgets.induct) (auto simp: split_def Let_def)

lemma fgets_shorter: "f \<noteq> [] \<Longrightarrow> 1 < n \<Longrightarrow> length (snd (fgets n f)) < length f"
  using fgets_le by (cases f; cases n) (auto simp: split_def Let_def le_imp_less_Suc)

lemma fgets_rest: "(l, rest) = fgets n f \<Longrightarrow> f \<noteq> [] \<Longrightarrow> 1 < n \<Longrightarrow> length rest < length f"
  using fgets_shorter [of f n] by (simp add: prod_eq_iff)

termination proc_lines
  by (relation "measure (\<lambda>(fs, f, as). length f)") (auto dest!: fgets_rest)

text \<open>
  One line of /proc/mounts: the second and the third word, each as far as it is there;
  words end at a space, so that the last one takes the rest of the line.
\<close>

definition not_space :: "u8 \<Rightarrow> bool" where
  "not_space c = (c \<noteq> 32)"

definition scan_mount :: "u8 list \<Rightarrow> u8 list \<times> u8 list \<Rightarrow> u8 list \<times> u8 list" where
  "scan_mount l old =
     (let w = takeWhile not_space l; l = dropWhile is_blank (dropWhile not_space l) in
      if w = [] \<or> takeWhile not_space l = [] then old
      else let sysfs = takeWhile not_space l; l = dropWhile is_blank (dropWhile not_space l) in
        if takeWhile not_space l = [] then (sysfs, snd old) else (sysfs, takeWhile not_space l))"

definition to_lower :: "u8 \<Rightarrow> u8" where
  "to_lower c = (if 65 \<le> c \<and> c \<le> 90 then c + 32 else c)"

definition NAME_MAX :: nat where "NAME_MAX = 255"

text \<open>The search for the sysfs line; the words of the line before stay when a line has fewer.\<close>

function find_sysfs :: "u8 list \<Rightarrow> u8 list \<times> u8 list \<Rightarrow> u8 list option" where
  "find_sysfs f old =
     (if f = [] then None
      else let (n, f) = fgets NAME_MAX f; (sysfs, fstype) = scan_mount n old in
        if map to_lower fstype = chars ''sysfs'' then Some sysfs else find_sysfs f (sysfs, fstype))"
  by pat_completeness auto

termination find_sysfs
proof (relation "measure (\<lambda>(f, old). length f)", goal_cases)
  case (2 f old l rest sysfs fstype)
  then show ?case by (simp add: fgets_rest NAME_MAX_def)
qed simp

text \<open>A path built by \<open>sprintf\<close> in an array of \<open>NAME_MAX\<close> bytes.\<close>

definition path_n :: "u8 list list \<Rightarrow> fault + u8 list" where
  "path_n parts =
     (let p = concat parts in if length p + 1 > NAME_MAX then Inl OutOfBounds else Inr p)"

definition dot :: "u8 list \<Rightarrow> bool" where
  "dot d = (d = chars ''.'' \<or> d = chars ''..'')"

text \<open>The directory of a device: the first \<open>i2c-\<close> entry with a name file.\<close>

fun find_in_device :: "file_system \<Rightarrow> u8 list \<Rightarrow> u8 list \<Rightarrow> u8 list list \<Rightarrow> fault + u8 list option" where
  "find_in_device fs sysfs d [] = Inr None"
| "find_in_device fs sysfs d (dd # dds) =
     (if dot dd \<or> take 4 dd \<noteq> chars ''i2c-'' then find_in_device fs sysfs d dds
      else rbind (path_n [sysfs, chars ''/'', d, chars ''/device/'', dd, chars ''/name'']) (\<lambda>n.
        case file_content fs n of Some f \<Rightarrow> Inr (Some f) | None \<Rightarrow> find_in_device fs sysfs d dds))"

text \<open>The three places where the name of a bus can be.\<close>

definition find_name_file :: "file_system \<Rightarrow> u8 list \<Rightarrow> u8 list \<Rightarrow> fault + u8 list option" where
  "find_name_file fs sysfs d =
     rbind (path_n [sysfs, chars ''/'', d, chars ''/name'']) (\<lambda>n.
     case file_content fs n of Some f \<Rightarrow> Inr (Some f)
     | None \<Rightarrow>
       rbind (path_n [sysfs, chars ''/'', d, chars ''/device/name'']) (\<lambda>n.
       case file_content fs n of Some f \<Rightarrow> Inr (Some f)
       | None \<Rightarrow>
         rbind (path_n [sysfs, chars ''/'', d, chars ''/device'']) (\<lambda>n.
         case dir_names fs n of None \<Rightarrow> Inr None | Some dds \<Rightarrow> find_in_device fs sysfs d dds)))"

text \<open>One entry of the directory: its adapter, or nothing to add.\<close>

definition sysfs_adapter :: "'d host \<Rightarrow> file_system \<Rightarrow> u8 list \<Rightarrow> u8 list \<Rightarrow> fault + i2c_adap option" where
  "sysfs_adapter h fs sysfs d =
     (if dot d then Inr None
      else rbind (find_name_file fs sysfs d) (\<lambda>found.
        case found of None \<Rightarrow> Inr None
        | Some f \<Rightarrow>
          if f = [] then Inr None
          else let s = takeWhile (\<lambda>c. c \<noteq> 10) (fst (fgets 120 f)) in
            if scan_bus d = Mismatch then Inr None
            else let i2cbus = (case scan_bus d of Scanned n \<Rightarrow> n | _ \<Rightarrow> uninit_nr fs) in
              rbind (if take 4 s = chars ''ISA '' then Inr adt_isa else i2c_get_funcs h i2cbus) (\<lambda>typ.
              Inr (Some \<lparr>nr = i2cbus, adap_name = s, adap_funcs = fst (adap_types typ),
                adap_algo = snd (adap_types typ)\<rparr>))))"

fun sysfs_entries :: "'d host \<Rightarrow> file_system \<Rightarrow> u8 list \<Rightarrow> u8 list list \<Rightarrow> adap_array \<Rightarrow> fault + adap_array option" where
  "sysfs_entries h fs sysfs [] as = Inr (Some as)"
| "sysfs_entries h fs sysfs (d # ds) as =
     rbind (sysfs_adapter h fs sysfs d) (\<lambda>new.
       case new of None \<Rightarrow> sysfs_entries h fs sysfs ds as
       | Some a \<Rightarrow>
         rbind (add_adapter (alloc_ok fs) a as) (\<lambda>r.
           case r of None \<Rightarrow> Inr None | Some as \<Rightarrow> sysfs_entries h fs sysfs ds as))"

definition gather_i2c_busses :: "'d host \<Rightarrow> file_system \<Rightarrow> fault + adap_array option" where
  "gather_i2c_busses h fs =
     (if \<not> calloc_ok fs then Inr None
      else let adapters = \<lparr>capacity = BUNCH, entries = []\<rparr> in
        case file_content fs (chars ''/proc/bus/i2c'') of Some f \<Rightarrow> proc_lines fs f adapters
        | None \<Rightarrow>
          case file_content fs (chars ''/proc/mounts'') of None \<Rightarrow> Inr (Some adapters)
          | Some f \<Rightarrow>
            case find_sysfs f (uninit_words fs) of None \<Rightarrow> Inr (Some adapters)
            | Some sysfs \<Rightarrow>
              let sysfs = sysfs @ chars ''/class/i2c-dev'' in
              if length sysfs + 1 > NAME_MAX then Inl OutOfBounds
              else case dir_names fs sysfs of None \<Rightarrow> Inr (Some adapters)
                | Some ds \<Rightarrow> sysfs_entries h fs sysfs ds adapters)"

section \<open>Looking a bus up\<close>

text \<open>The walk to the entry without a name: index by index, in the array.\<close>

function walk :: "u8 list \<Rightarrow> adap_array \<Rightarrow> nat \<Rightarrow> int \<Rightarrow> fault + int" where
  "walk bus_name as i i2cbus =
     (if i \<ge> capacity as then Inl OutOfBounds
      else if i \<ge> length (entries as) then Inr i2cbus
      else if adap_name (entries as ! i) = bus_name then
        if i2cbus \<ge> 0 then Inr (-4) else walk bus_name as (i + 1) (nr (entries as ! i))
      else walk bus_name as (i + 1) i2cbus)"
  by pat_completeness auto
termination
  by (relation "measure (\<lambda>(b, as, i, n). length (entries as) - i)") auto

declare walk.simps [simp del] proc_lines.simps [simp del] find_sysfs.simps [simp del]

definition lookup_i2c_bus_by_name :: "'d host \<Rightarrow> file_system \<Rightarrow> u8 list \<Rightarrow> fault + int" where
  "lookup_i2c_bus_by_name h fs bus_name =
     rbind (gather_i2c_busses h fs) (\<lambda>adapters.
       case adapters of None \<Rightarrow> Inr (-3) | Some as \<Rightarrow> walk bus_name as 0 (-1))"

definition lookup_i2c_bus :: "'d host \<Rightarrow> file_system \<Rightarrow> u8 list \<Rightarrow> fault + int" where
  "lookup_i2c_bus h fs arg =
     (let (i2cbus, rest) = strtoul_end 0 arg in
      if rest \<noteq> [] \<or> arg = [] then lookup_i2c_bus_by_name h fs arg
      else if i2cbus > 0xFFFFF then Inr (-2) else Inr (int i2cbus))"

section \<open>The array is never overrun\<close>

definition array_ok :: "adap_array \<Rightarrow> bool" where
  "array_ok as = (capacity as = BUNCH * (length (entries as) div BUNCH + 1))"

lemma array_ok_room: "array_ok as \<Longrightarrow> length (entries as) < capacity as"
  unfolding array_ok_def BUNCH_def using dividend_less_times_div [of 8 "length (entries as)"] by simp

lemma bunch_step: "(n + 1) mod BUNCH \<noteq> 0 \<Longrightarrow> (n + 1) div BUNCH = n div BUNCH"
  by (simp add: div_Suc BUNCH_def)

lemma bunch_grow: "(n + 1) mod BUNCH = 0 \<Longrightarrow> n + 1 + BUNCH = BUNCH * ((n + 1) div BUNCH + 1)"
  using mult_div_mod_eq [of BUNCH "n + 1"] by simp

text \<open>Adding never leaves the array, and keeps room for the zero entry at the end.\<close>

lemma add_adapter_ok:
  assumes "array_ok as"
  shows "add_adapter mem a as = Inr None
    \<or> (\<exists>as'. add_adapter mem a as = Inr (Some as') \<and> array_ok as' \<and> entries as' = entries as @ [a])"
proof (cases "(length (entries as) + 1) mod BUNCH = 0")
  case True
  then show ?thesis
    using bunch_grow [OF True] assms
    by (auto simp: add_adapter_def more_adapters_def set_adapter_def array_ok_def Let_def BUNCH_def)
next
  case False
  then show ?thesis
    using bunch_step [OF False] assms array_ok_room [OF assms]
    by (auto simp: add_adapter_def set_adapter_def array_ok_def Let_def)
qed

lemma add_adapter_cases:
  assumes "array_ok as"
  obtains "add_adapter mem a as = Inr None"
  | as' where "add_adapter mem a as = Inr (Some as')" "array_ok as'" "entries as' = entries as @ [a]"
  using add_adapter_ok [OF assms] by blast

definition array_result :: "fault + adap_array option \<Rightarrow> bool" where
  "array_result r = (case r of Inr (Some as) \<Rightarrow> array_ok as | _ \<Rightarrow> True)"

text \<open>What follows an addition: the rest of the loop on an array that is sound.\<close>

lemma array_result_add:
  assumes "array_ok as" and "\<And>as'. array_ok as' \<Longrightarrow> array_result (k as')"
  shows "array_result (rbind (add_adapter mem a as) (\<lambda>r. case r of None \<Rightarrow> Inr None | Some as \<Rightarrow> k as))"
  using add_adapter_ok [OF assms(1), of mem a] assms(2) by (auto simp: array_result_def)

lemma array_result_rbind:
  "(\<And>a. array_result (k a)) \<Longrightarrow> array_result (rbind m k)"
  by (cases m) (simp_all add: array_result_def)

lemma array_result_simps [simp]:
  "array_result (Inl e)" "array_result (Inr None)" "array_result (Inr (Some as)) = array_ok as"
  by (simp_all add: array_result_def)

lemma proc_lines_ok: "array_ok as \<Longrightarrow> array_result (proc_lines fs f as)"
proof (induction f arbitrary: as rule: length_induct)
  case (1 f)
  show ?case
  proof (cases "f = []")
    case True
    then show ?thesis using "1.prems" by (simp add: proc_lines.simps array_result_def)
  next
    case False
    obtain l rest where l: "(l, rest) = fgets 120 f" by (metis surj_pair)
    have IH: "array_result (proc_lines fs rest as')" if "array_ok as'" for as'
      using "1.IH" fgets_rest [OF l False] that by simp
    show ?thesis
      using False by (subst proc_lines.simps)
        (simp add: l [symmetric] array_result_rbind array_result_add [OF "1.prems" IH])
  qed
qed

lemma sysfs_entries_ok: "array_ok as \<Longrightarrow> array_result (sysfs_entries h fs sysfs ds as)"
proof (induction ds arbitrary: as)
  case (Cons d ds)
  show ?case
    by (auto intro!: array_result_rbind Cons.IH array_result_add [OF Cons.prems] split: option.split simp: Cons.prems)
qed simp

lemma empty_array_ok: "array_ok \<lparr>capacity = BUNCH, entries = []\<rparr>"
  by (simp add: array_ok_def)

lemma gather_ok: "array_result (gather_i2c_busses h fs)"
  by (simp add: gather_i2c_busses_def Let_def proc_lines_ok [OF empty_array_ok] sysfs_entries_ok [OF empty_array_ok]
    empty_array_ok split: option.split)

section \<open>The search by name\<close>

definition named :: "u8 list \<Rightarrow> i2c_adap list \<Rightarrow> i2c_adap list" where
  "named n as = filter (\<lambda>a. adap_name a = n) as"

lemma walk_spec:
  assumes "length (entries as) < capacity as" and "\<forall>a \<in> set (entries as). 0 \<le> nr a"
  shows "i \<le> length (entries as) \<Longrightarrow> walk n as i r =
    Inr (case named n (drop i (entries as)) of [] \<Rightarrow> r
      | a # others \<Rightarrow> if 0 \<le> r \<or> others \<noteq> [] then -4 else nr a)"
proof (induction "length (entries as) - i" arbitrary: i r)
  case 0
  then show ?case using assms(1) by (simp add: walk.simps [of n as] named_def)
next
  case (Suc k)
  then have i: "i < length (entries as)" by simp
  have d: "drop i (entries as) = entries as ! i # drop (Suc i) (entries as)"
    using i by (simp add: Cons_nth_drop_Suc)
  have pos: "0 \<le> nr (entries as ! i)" using assms(2) i by simp
  have IH: "walk n as (Suc i) r' = Inr (case named n (drop (Suc i) (entries as)) of [] \<Rightarrow> r'
      | a # others \<Rightarrow> if 0 \<le> r' \<or> others \<noteq> [] then -4 else nr a)" for r'
    using Suc.hyps(1) [of "Suc i"] Suc.hyps(2) i by simp
  show ?case
    using i assms(1) pos unfolding d
    by (subst walk.simps) (auto simp: IH named_def split: list.split)
qed

lemma lookup_named:
  assumes "gather_i2c_busses h fs = Inr (Some as)" and "\<forall>a \<in> set (entries as). 0 \<le> nr a"
  shows "lookup_i2c_bus_by_name h fs n =
    Inr (case named n (entries as) of [] \<Rightarrow> -1 | [a] \<Rightarrow> nr a | _ \<Rightarrow> -4)"
proof -
  have "array_ok as" using gather_ok [of h fs] assms(1) by (simp add: array_result_def)
  from walk_spec [OF array_ok_room [OF this] assms(2), of 0 n "-1"] show ?thesis
    by (simp add: lookup_i2c_bus_by_name_def assms(1) split: list.split)
qed

text \<open>
  A system whose list of busses can be read: no file is malformed or too long, and the
  numbers of the busses are not negative. A lookup then always gives a result.
\<close>

definition busses_ok :: "'d host \<Rightarrow> file_system \<Rightarrow> bool" where
  "busses_ok h fs =
     (case gather_i2c_busses h fs of Inl e \<Rightarrow> False | Inr None \<Rightarrow> True
      | Inr (Some as) \<Rightarrow> (\<forall>a \<in> set (entries as). 0 \<le> nr a \<and> nr a \<le> 2147483647))"

lemma lookup_total:
  assumes "busses_ok h fs"
  obtains n where "lookup_i2c_bus h fs arg = Inr n" and "n < 10 ^ 10"
proof -
  have "\<exists>n. lookup_i2c_bus_by_name h fs arg = Inr n \<and> n < 10 ^ 10"
  proof (cases "gather_i2c_busses h fs")
    case (Inl e)
    with assms show ?thesis by (simp add: busses_ok_def)
  next
    case (Inr r)
    show ?thesis
    proof (cases r)
      case None
      then show ?thesis by (simp add: Inr lookup_i2c_bus_by_name_def)
    next
      case (Some as)
      then have le: "\<forall>a \<in> set (entries as). 0 \<le> nr a \<and> nr a \<le> 2147483647" using assms Inr by (simp add: busses_ok_def)
      then have "\<forall>a \<in> set (named arg (entries as)). nr a < 10 ^ 10" by (auto simp: named_def)
      then show ?thesis using lookup_named [of h fs as arg] Inr Some le by (auto split: list.split)
    qed
  qed
  then have "\<exists>n. lookup_i2c_bus h fs arg = Inr n \<and> n < 10 ^ 10"
    by (auto simp: lookup_i2c_bus_def split_def Let_def)
  then show ?thesis using that by blast
qed

text \<open>
  C22. The list of busses is built without leaving its array, with room for the terminating
  entry, whatever the files of the system hold and whichever allocation fails, unless a line
  without its tabs or a path longer than its buffer makes the gathering fault; and a bus is
  looked up as the command line says: a number is the bus up to the largest minor number; a
  name is the bus of this name when there is just one, and an error when there is none, when
  there are several, or when the list could not be built.
\<close>

theorem lookup_i2c_bus_spec:
  "(case gather_i2c_busses h fs of Inl e \<Rightarrow> True | Inr None \<Rightarrow> True
     | Inr (Some as) \<Rightarrow> length (entries as) < capacity as)
   \<and> (n \<le> ULONG_MAX \<longrightarrow> lookup_i2c_bus h fs (decimal n) = Inr (if n > 0xFFFFF then -2 else int n))
   \<and> (snd (strtoul_end 0 arg) \<noteq> [] \<longrightarrow> gather_i2c_busses h fs = Inr None \<longrightarrow> lookup_i2c_bus h fs arg = Inr (-3))
   \<and> (snd (strtoul_end 0 arg) \<noteq> [] \<longrightarrow> gather_i2c_busses h fs = Inr (Some as) \<longrightarrow>
       (\<forall>a \<in> set (entries as). 0 \<le> nr a) \<longrightarrow>
       lookup_i2c_bus h fs arg =
         Inr (case named arg (entries as) of [] \<Rightarrow> -1 | [a] \<Rightarrow> nr a | _ \<Rightarrow> -4))"
proof (intro conjI impI)
  show "case gather_i2c_busses h fs of Inl e \<Rightarrow> True | Inr None \<Rightarrow> True
     | Inr (Some as) \<Rightarrow> length (entries as) < capacity as"
    using gather_ok [of h fs] by (auto simp: array_result_def array_ok_room split: sum.split option.split)
next
  assume "n \<le> ULONG_MAX"
  then show "lookup_i2c_bus h fs (decimal n) = Inr (if n > 0xFFFFF then -2 else int n)"
    using decimal_head [of n] by (auto simp: lookup_i2c_bus_def strtoul_end_decimal)
next
  assume "snd (strtoul_end 0 arg) \<noteq> []" "gather_i2c_busses h fs = Inr (Some as)" "\<forall>a \<in> set (entries as). 0 \<le> nr a"
  then show "lookup_i2c_bus h fs arg = Inr (case named arg (entries as) of [] \<Rightarrow> -1 | [a] \<Rightarrow> nr a | _ \<Rightarrow> -4)"
    by (simp add: lookup_i2c_bus_def split_def lookup_named)
qed (simp add: lookup_i2c_bus_def split_def lookup_i2c_bus_by_name_def)

text \<open>A system with two adapters of one name in /proc/bus/i2c, and one of another.\<close>

definition proc_line :: "string \<Rightarrow> string \<Rightarrow> u8 list" where
  "proc_line b n = chars b @ [9] @ chars ''i2c'' @ [9] @ chars n @ [9] @ chars ''x'' @ [10]"

definition sample_fs :: file_system where
  "sample_fs = \<lparr>file_content = (\<lambda>n. if n = chars ''/proc/bus/i2c''
       then Some (proc_line ''i2c-0'' ''a'' @ proc_line ''i2c-1'' ''b'' @ proc_line ''i2c-2'' ''a'') else None),
     dir_names = (\<lambda>n. None), calloc_ok = True, alloc_ok = (\<lambda>n. True), uninit_nr = 0, uninit_words = ([], [])\<rparr>"

definition no_host :: "unit host" where
  "no_host = \<lparr>smbus = \<lparr>smbus_ioctl = (\<lambda>r c k b d. (-1, [], d)), uninit_union = []\<rparr>, open_file = (\<lambda>n. -2),
     get_funcs = (\<lambda>n. None), set_slave = (\<lambda>f a d. (0, d)), set_pec = (\<lambda>e d. (0, d))\<rparr>"

lemma sample_gather:
  "gather_i2c_busses no_host sample_fs = Inr (Some \<lparr>capacity = 8, entries =
     [\<lparr>nr = 0, adap_name = [97], adap_funcs = chars ''i2c'', adap_algo = [120]\<rparr>,
      \<lparr>nr = 1, adap_name = [98], adap_funcs = chars ''i2c'', adap_algo = [120]\<rparr>,
      \<lparr>nr = 2, adap_name = [97], adap_funcs = chars ''i2c'', adap_algo = [120]\<rparr>]\<rparr>)"
  by code_simp

lemma gather_sample_rec: "gather_i2c_busses h sample_fs = gather_i2c_busses no_host sample_fs"
proof -
  obtain f where "file_content sample_fs (chars ''/proc/bus/i2c'') = Some f" by (simp add: sample_fs_def)
  then show ?thesis by (simp add: gather_i2c_busses_def)
qed

lemma sample_busses_ok: "busses_ok h sample_fs"
  unfolding busses_ok_def by (subst gather_sample_rec) (simp add: sample_gather)

lemma lookup_i2c_bus_spec_witness:
  "lookup_i2c_bus no_host sample_fs (chars ''b'') = Inr 1 \<and> lookup_i2c_bus no_host sample_fs (chars ''a'') = Inr (-4)
   \<and> lookup_i2c_bus no_host sample_fs (decimal 5) = Inr 5"
proof -
  have ch: "chars ''a'' = [97]" "chars ''b'' = [98]" by (simp_all add: chars_def)
  have tail: "snd (strtoul_end 0 (chars ''a'')) \<noteq> []" "snd (strtoul_end 0 (chars ''b'')) \<noteq> []"
    by (simp_all add: ch strtoul_end_def scan_number_def number_base_def digits_def digit_val_def is_blank_def)
  note spec = lookup_i2c_bus_spec [of no_host sample_fs]
  have "lookup_i2c_bus no_host sample_fs (decimal 5) = Inr 5"
    using spec [of 5 "[]"] by (simp add: ULONG_MAX_def)
  moreover have "lookup_i2c_bus no_host sample_fs (chars ''a'') = Inr (-4)"
    using spec [of 0 "chars ''a''", THEN conjunct2, THEN conjunct2, THEN conjunct2, THEN mp [OF _ tail(1)], THEN mp [OF _ sample_gather]]
    by (simp add: named_def ch)
  moreover have "lookup_i2c_bus no_host sample_fs (chars ''b'') = Inr 1"
    using spec [of 0 "chars ''b''", THEN conjunct2, THEN conjunct2, THEN conjunct2, THEN mp [OF _ tail(2)], THEN mp [OF _ sample_gather]]
    by (simp add: named_def ch)
  ultimately show ?thesis by simp
qed

end
