(* ===== verification/I2cDetect.thy ===== *)
theory I2cDetect
  imports I2cBusses "HOL-Library.Sublist"
begin

text \<open>
  i2cdetect.c: the options, the questions put to the adapter, and the scan of the addresses
  of a bus with its table. Addresses outside the range are not touched; in the default mode
  the addresses of EEPROMs are read, not written to.
\<close>

section \<open>Options\<close>

definition MODE_AUTO :: nat where "MODE_AUTO = 0"
definition MODE_QUICK :: nat where "MODE_QUICK = 1"
definition MODE_READ :: nat where "MODE_READ = 2"
definition MODE_FUNC :: nat where "MODE_FUNC = 3"

record detect_opts =
  mode :: nat
  first :: int
  last_addr :: int
  yes :: bool
  version :: bool
  list_busses :: bool

definition detect_default :: detect_opts where
  "detect_default = \<lparr>mode = MODE_AUTO, first = 0x03, last_addr = 0x77, yes = False, version = False, list_busses = False\<rparr>"

text \<open>The options at the front of the arguments; what is left are the others. \<open>None\<close> is \<open>exit(1)\<close>.\<close>

fun detect_flags :: "u8 list list \<Rightarrow> detect_opts \<Rightarrow> (detect_opts \<times> u8 list list) option" where
  "detect_flags [] os = Some (os, [])"
| "detect_flags (a # args) os =
     (if char_at a 0 \<noteq> 45 then Some (os, a # args)
      else let c = char_at a 1 in
        if c = 86 then detect_flags args (os\<lparr>version := True\<rparr>)
        else if c = 121 then detect_flags args (os\<lparr>yes := True\<rparr>)
        else if c = 108 then detect_flags args (os\<lparr>list_busses := True\<rparr>)
        else if c = 70 then
          if mode os \<noteq> MODE_AUTO \<and> mode os \<noteq> MODE_FUNC then None
          else detect_flags args (os\<lparr>mode := MODE_FUNC\<rparr>)
        else if c = 114 then
          if mode os = MODE_QUICK then None else detect_flags args (os\<lparr>mode := MODE_READ\<rparr>)
        else if c = 113 then
          if mode os = MODE_READ then None else detect_flags args (os\<lparr>mode := MODE_QUICK\<rparr>)
        else if c = 97 then detect_flags args (os\<lparr>first := 0x00, last_addr := 0x7F\<rparr>)
        else None)"

section \<open>The scan\<close>

definition EBUSY :: int where "EBUSY = 16"

definition probe_addr :: "'d host \<Rightarrow> nat \<Rightarrow> int \<Rightarrow> 'd tool \<Rightarrow> int \<times> 'd tool" where
  "probe_addr h m a s =
     (if m = MODE_QUICK then on_dev (i2c_smbus_write_quick (smbus h) I2C_SMBUS_WRITE) s
      else if m = MODE_READ then on_dev (i2c_smbus_read_byte (smbus h)) s
      else if 0x30 \<le> a \<and> a \<le> 0x37 \<or> 0x50 \<le> a \<and> a \<le> 0x5F then on_dev (i2c_smbus_read_byte (smbus h)) s
      else on_dev (i2c_smbus_write_quick (smbus h) I2C_SMBUS_WRITE) s)"

text \<open>One cell of the table. The left result is the return of -1.\<close>

definition scan_cell :: "'d host \<Rightarrow> nat \<Rightarrow> int \<Rightarrow> int \<Rightarrow> int \<Rightarrow> 'd tool \<Rightarrow> 'd tool + 'd tool" where
  "scan_cell h m fst_a lst_a a s =
     (if a < fst_a \<or> a > lst_a then Inr (print (chars ''   '') s)
      else let (r, s) = set_slave_addr h a False s in
        if r < 0 then (if r = -EBUSY then Inr (print (chars ''UU '') s) else Inl s)
        else let (res, s) = probe_addr h m a s in
          Inr (print (if res < 0 then chars ''-- '' else hex 2 (nat a) @ [32]) s))"

fun scan_cells :: "'d host \<Rightarrow> nat \<Rightarrow> int \<Rightarrow> int \<Rightarrow> int list \<Rightarrow> 'd tool \<Rightarrow> 'd tool + 'd tool" where
  "scan_cells h m f l [] s = Inr s"
| "scan_cells h m f l (a # as) s = rbind (scan_cell h m f l a s) (scan_cells h m f l as)"

text \<open>The rows, given by their first addresses.\<close>

fun scan_rows :: "'d host \<Rightarrow> nat \<Rightarrow> int \<Rightarrow> int \<Rightarrow> int list \<Rightarrow> 'd tool \<Rightarrow> 'd tool + 'd tool" where
  "scan_rows h m f l [] s = Inr s"
| "scan_rows h m f l (i # is) s =
     rbind (scan_cells h m f l (map (\<lambda>j. i + j) [0..15]) (print (hex 2 (nat i) @ chars '': '') s)) (\<lambda>s.
       scan_rows h m f l is (print [10] s))"

definition scan_header :: "u8 list" where
  "scan_header = chars ''     0  1  2  3  4  5  6  7  8  9  a  b  c  d  e  f'' @ [10]"

definition scan_i2c_bus :: "'d host \<Rightarrow> nat \<Rightarrow> int \<Rightarrow> int \<Rightarrow> 'd tool \<Rightarrow> int \<times> 'd tool" where
  "scan_i2c_bus h m f l s =
     (case scan_rows h m f l (map (\<lambda>i. 16 * i) [0..7]) (print scan_header s) of
        Inl s \<Rightarrow> (-1, s) | Inr s \<Rightarrow> (0, s))"

section \<open>Functions and busses\<close>

definition all_func :: "(u32 \<times> string) list" where
  "all_func =
     [(I2C_FUNC_I2C, ''I2C''), (I2C_FUNC_SMBUS_QUICK, ''SMBus Quick Command''),
      (I2C_FUNC_SMBUS_WRITE_BYTE, ''SMBus Send Byte''), (I2C_FUNC_SMBUS_READ_BYTE, ''SMBus Receive Byte''),
      (I2C_FUNC_SMBUS_WRITE_BYTE_DATA, ''SMBus Write Byte''), (I2C_FUNC_SMBUS_READ_BYTE_DATA, ''SMBus Read Byte''),
      (I2C_FUNC_SMBUS_WRITE_WORD_DATA, ''SMBus Write Word''), (I2C_FUNC_SMBUS_READ_WORD_DATA, ''SMBus Read Word''),
      (I2C_FUNC_SMBUS_PROC_CALL, ''SMBus Process Call''),
      (I2C_FUNC_SMBUS_WRITE_BLOCK_DATA, ''SMBus Block Write''), (I2C_FUNC_SMBUS_READ_BLOCK_DATA, ''SMBus Block Read''),
      (I2C_FUNC_SMBUS_BLOCK_PROC_CALL, ''SMBus Block Process Call''), (I2C_FUNC_SMBUS_PEC, ''SMBus PEC''),
      (I2C_FUNC_SMBUS_WRITE_I2C_BLOCK, ''I2C Block Write''), (I2C_FUNC_SMBUS_READ_I2C_BLOCK, ''I2C Block Read'')]"

text \<open>\<open>%-ns\<close>: blanks behind the string up to the width.\<close>

definition pad_right :: "nat \<Rightarrow> u8 list \<Rightarrow> u8 list" where
  "pad_right n s = s @ replicate (n - length s) 32"

definition print_functionality :: "u32 \<Rightarrow> u8 list" where
  "print_functionality funcs =
     concat (map (\<lambda>(v, name). pad_right 32 (chars name) @ [32]
       @ (if has funcs v then chars ''yes'' else chars ''no'') @ [10]) all_func)"

definition bus_line :: "i2c_adap \<Rightarrow> u8 list" where
  "bus_line a = chars ''i2c-'' @ decimal_int (nr a) @ [9] @ pad_right 10 (adap_funcs a) @ [9]
     @ pad_right 32 (adap_name a) @ [9] @ adap_algo a @ [10]"

definition print_i2c_busses :: "adap_array option \<Rightarrow> u8 list" where
  "print_i2c_busses as = (case as of None \<Rightarrow> [] | Some as \<Rightarrow> concat (map bus_line (entries as)))"

section \<open>The program\<close>

text \<open>FIRST and LAST: one argument, in the range so far; \<open>None\<close> is \<open>exit(1)\<close>.\<close>

definition parse_bound :: "u8 list \<Rightarrow> int \<Rightarrow> int \<Rightarrow> int option" where
  "parse_bound arg lo hi =
     (let (tmp, rest) = strtol 0 arg in
      if rest \<noteq> [] then None else if tmp < lo \<or> tmp > hi then None else Some tmp)"

text \<open>\<open>fgets\<close> of one character: only y, Y or an empty line go on.\<close>

definition confirm_scan :: "'d tool \<Rightarrow> bool \<times> 'd tool" where
  "confirm_scan s =
     (case stdin s of [] \<Rightarrow> (False, s) | c # inp \<Rightarrow> (c = 10 \<or> c = 121 \<or> c = 89, s\<lparr>stdin := inp\<rparr>))"

text \<open>From the range on: the arguments behind the options are \<open>args\<close>.\<close>

definition detect_range :: "detect_opts \<Rightarrow> u8 list list \<Rightarrow> (int \<times> int) option" where
  "detect_range os args =
     (if length args = 3 \<and> mode os \<noteq> MODE_FUNC then
        case parse_bound (args ! 1) (first os) (last_addr os) of None \<Rightarrow> None
        | Some f \<Rightarrow> (case parse_bound (args ! 2) f (last_addr os) of None \<Rightarrow> None | Some l \<Rightarrow> Some (f, l))
      else if length args \<noteq> 1 then None
      else Some (first os, last_addr os))"

definition detect_run :: "'d host \<Rightarrow> detect_opts \<Rightarrow> int \<Rightarrow> int \<Rightarrow> int \<Rightarrow> 'd tool \<Rightarrow> 'd stop" where
  "detect_run h os i2cbus f l s =
     (case open_i2c_dev h i2cbus 20 of Inl e \<Rightarrow> Crash e
      | Inr (fl, filename) \<Rightarrow>
        if fl < 0 then Exit 1 s
        else case get_funcs h filename of None \<Rightarrow> Exit 1 s
          | Some funcs \<Rightarrow>
            if mode os = MODE_FUNC then
              Exit 0 (print (chars ''Functionalities implemented by '' @ filename @ chars '':'' @ [10]
                @ print_functionality funcs) s)
            else if mode os \<noteq> MODE_READ \<and> \<not> has funcs I2C_FUNC_SMBUS_QUICK then Exit 1 s
            else if mode os \<noteq> MODE_QUICK \<and> \<not> has funcs I2C_FUNC_SMBUS_READ_BYTE then Exit 1 s
            else let (go, s) = (if yes os then (True, s) else confirm_scan s) in
              if \<not> go then Exit 0 s
              else let (res, s) = scan_i2c_bus h (mode os) f l s in Exit (if res \<noteq> 0 then 1 else 0) s)"

definition i2cdetect_main :: "'d host \<Rightarrow> file_system \<Rightarrow> u8 list list \<Rightarrow> 'd tool \<Rightarrow> 'd stop" where
  "i2cdetect_main h fs argv s =
     (case detect_flags (tl argv) detect_default of None \<Rightarrow> Exit 1 s
      | Some (os, args) \<Rightarrow>
        if version os then Exit 0 s
        else if list_busses os then
          (case gather_i2c_busses h fs of Inl e \<Rightarrow> Crash e | Inr as \<Rightarrow> Exit 0 (print (print_i2c_busses as) s))
        else if args = [] then Exit 1 s
        else case lookup_i2c_bus h fs (args ! 0) of Inl e \<Rightarrow> Crash e
          | Inr i2cbus \<Rightarrow>
            if i2cbus < 0 then Exit 1 s
            else case detect_range os args of None \<Rightarrow> Exit 1 s
              | Some (f, l) \<Rightarrow> detect_run h os i2cbus f l s)"

section \<open>What a scan does to the bus\<close>

text \<open>The transaction that probes an address.\<close>

definition eeprom_range :: "int \<Rightarrow> bool" where
  "eeprom_range a = (0x30 \<le> a \<and> a \<le> 0x37 \<or> 0x50 \<le> a \<and> a \<le> 0x5F)"

definition probe_op :: "u8 list \<Rightarrow> nat \<Rightarrow> int \<Rightarrow> transaction" where
  "probe_op u m a =
     (if m = MODE_READ \<or> m \<noteq> MODE_QUICK \<and> eeprom_range a
      then \<lparr>chip = a, rw = 1, command = 0, kind = 1, payload = Some u\<rparr>
      else \<lparr>chip = a, rw = 0, command = 0, kind = 0, payload = None\<rparr>)"

text \<open>A cell of the table: blank outside the range, and an address that answers only if it was probed.\<close>

definition cell_ok :: "int \<Rightarrow> int \<Rightarrow> int list \<Rightarrow> int \<Rightarrow> u8 list \<Rightarrow> bool" where
  "cell_ok f l as a c =
     (if a < f \<or> l < a then c = chars ''   ''
      else c = chars ''UU '' \<or> a \<in> set as \<and> (c = chars ''-- '' \<or> c = hex 2 (nat a) @ [32]))"

text \<open>The addresses \<open>as\<close> probed on the way from \<open>s\<close> to \<open>s'\<close>, when \<open>xs\<close> were visited.\<close>

definition probed :: "u8 list \<Rightarrow> nat \<Rightarrow> int \<Rightarrow> int \<Rightarrow> int list \<Rightarrow> int list \<Rightarrow> recording tool \<Rightarrow> recording tool \<Rightarrow> bool" where
  "probed u m f l xs as s s' =
     (log (dev s') = log (dev s) @ map (probe_op u m) as \<and> subseq as (filter (\<lambda>a. f \<le> a \<and> a \<le> l) xs))"

definition cooperative :: "answers \<Rightarrow> bool" where
  "cooperative an = (\<forall>t fo a. 0 \<le> slave_answer an t fo a)"

lemma probed_trans:
  "probed u m f l xs as s s1 \<Longrightarrow> probed u m f l ys bs s1 s2 \<Longrightarrow> probed u m f l (xs @ ys) (as @ bs) s s2"
  by (auto simp: probed_def intro: list_emb_append_mono)

lemma probe_addr_rec:
  "cur (dev s) = a \<Longrightarrow> probe_addr (rec_host an u opens funcs) m a s
    = ((if rw (probe_op u m a) = 1 then value_of union_byte else fst) (answer an (log (dev s)) (probe_op u m a)),
       s\<lparr>dev := (dev s)\<lparr>log := log (dev s) @ [probe_op u m a]\<rparr>\<rparr>)"
  by (auto simp: probe_addr_def probe_op_def eeprom_range_def on_dev_def Let_def split_def I2C_SMBUS_WRITE_def MODE_QUICK_def MODE_READ_def)

lemma scan_cell_rec:
  assumes "scan_cell (rec_host an u opens funcs) m f l a s = r"
  shows "\<exists>as s'. (r = Inl s' \<and> \<not> cooperative an
      \<or> r = Inr s' \<and> (\<exists>c. stdout s' = stdout s @ c \<and> cell_ok f l as a c)
        \<and> (cooperative an \<longrightarrow> as = filter (\<lambda>a. f \<le> a \<and> a \<le> l) [a]))
    \<and> probed u m f l [a] as s s'"
proof (cases "a < f \<or> l < a")
  case True
  then show ?thesis
    using assms by (intro exI [of _ "[]"]) (auto simp: scan_cell_def probed_def cell_ok_def)
next
  case False
  let ?e = "slave_answer an (log (dev s)) False a"
  show ?thesis
  proof (cases "?e < 0")
    case True
    then have "\<not> cooperative an" by (auto simp: cooperative_def not_le)
    then show ?thesis
      using assms True False
      by (intro exI [of _ "[]"])
        (auto simp: scan_cell_def set_slave_addr_def on_dev_def Let_def probed_def cell_ok_def)
  next
    case ok: False
    let ?s = "s\<lparr>dev := (dev s)\<lparr>cur := a\<rparr>\<rparr>"
    have "probe_addr (rec_host an u opens funcs) m a ?s
      = ((if rw (probe_op u m a) = 1 then value_of union_byte else fst) (answer an (log (dev s)) (probe_op u m a)),
         s\<lparr>dev := (dev s)\<lparr>cur := a, log := log (dev s) @ [probe_op u m a]\<rparr>\<rparr>)"
      by (subst probe_addr_rec) simp_all
    then show ?thesis
      using assms ok False
      by (intro exI [of _ "[a]"])
        (auto simp: scan_cell_def set_slave_addr_def on_dev_def Let_def probed_def cell_ok_def split: if_splits)
  qed
qed

lemma cell_ok_mono: "cell_ok f l as a c \<Longrightarrow> set as \<subseteq> set bs \<Longrightarrow> cell_ok f l bs a c"
  by (auto simp: cell_ok_def)

lemma cells_ok_mono:
  "list_all2 (cell_ok f l as) xs cs \<Longrightarrow> set as \<subseteq> set bs \<Longrightarrow> list_all2 (cell_ok f l bs) xs cs"
  by (erule list_all2_mono) (rule cell_ok_mono)

text \<open>
  What a part of the scan over the addresses \<open>xs\<close> does: it probes the addresses of the range
  in order and writes what \<open>T\<close> allows, or stops early.
\<close>

definition scan_ok :: "answers \<Rightarrow> u8 list \<Rightarrow> nat \<Rightarrow> int \<Rightarrow> int \<Rightarrow> int list \<Rightarrow> (int list \<Rightarrow> u8 list \<Rightarrow> bool)
    \<Rightarrow> recording tool \<Rightarrow> recording tool + recording tool \<Rightarrow> bool" where
  "scan_ok an u m f l xs T s r =
     (\<exists>as s'. (r = Inl s' \<and> \<not> cooperative an
         \<or> r = Inr s' \<and> (\<exists>t. stdout s' = stdout s @ t \<and> T as t)
           \<and> (cooperative an \<longrightarrow> as = filter (\<lambda>a. f \<le> a \<and> a \<le> l) xs))
       \<and> probed u m f l xs as s s')"

lemma subseq_filter_append: "subseq as (filter P xs) \<Longrightarrow> subseq as (filter P (xs @ ys))"
  by simp (metis append_Nil2 list_emb_Nil list_emb_append_mono)

lemma scan_ok_bind:
  assumes g: "scan_ok an u m f l xs T s g"
    and k: "\<And>s1. scan_ok an u m f l ys U s1 (k s1)"
    and V: "\<And>as bs t t'. T as t \<Longrightarrow> U bs t' \<Longrightarrow> V (as @ bs) (t @ t')"
  shows "scan_ok an u m f l (xs @ ys) V s (rbind g k)"
proof (cases g)
  case (Inl s1)
  then show ?thesis using g by (auto simp: scan_ok_def probed_def intro: subseq_filter_append)
next
  case (Inr s1)
  with g obtain as t where a: "stdout s1 = stdout s @ t" "T as t" "probed u m f l xs as s s1"
      "cooperative an \<longrightarrow> as = filter (\<lambda>a. f \<le> a \<and> a \<le> l) xs"
    by (auto simp: scan_ok_def)
  from k [of s1] obtain bs s2 where b: "probed u m f l ys bs s1 s2"
      "k s1 = Inl s2 \<and> \<not> cooperative an \<or> k s1 = Inr s2 \<and> (\<exists>t. stdout s2 = stdout s1 @ t \<and> U bs t)
        \<and> (cooperative an \<longrightarrow> bs = filter (\<lambda>a. f \<le> a \<and> a \<le> l) ys)"
    by (auto simp: scan_ok_def)
  have "probed u m f l (xs @ ys) (as @ bs) s s2" using a(3) b(1) by (rule probed_trans)
  then show ?thesis
    unfolding scan_ok_def using a b(2) Inr V by (intro exI [of _ "as @ bs"] exI [of _ s2]) auto
qed

lemma scan_ok_weaken:
  "scan_ok an u m f l xs T s r \<Longrightarrow> (\<And>as t. T as t \<Longrightarrow> V as t) \<Longrightarrow> scan_ok an u m f l xs V s r"
  unfolding scan_ok_def by blast

lemma scan_ok_print:
  "scan_ok an u m f l xs T (print p s) r \<Longrightarrow> scan_ok an u m f l xs (\<lambda>as t. \<exists>t'. t = p @ t' \<and> T as t') s r"
  by (auto simp: scan_ok_def probed_def)

lemma scan_ok_end: "T [] [] \<Longrightarrow> scan_ok an u m f l [] T s (Inr s)"
  by (auto simp: scan_ok_def probed_def)

lemma scan_cell_ok:
  "scan_ok an u m f l [a] (\<lambda>as c. cell_ok f l as a c) s (scan_cell (rec_host an u opens funcs) m f l a s)"
  unfolding scan_ok_def by (rule scan_cell_rec) (rule refl)

definition cells_ok :: "int \<Rightarrow> int \<Rightarrow> int list \<Rightarrow> int list \<Rightarrow> u8 list \<Rightarrow> bool" where
  "cells_ok f l xs as t = (\<exists>cs. t = concat cs \<and> list_all2 (cell_ok f l as) xs cs)"

lemma scan_cells_ok:
  "scan_ok an u m f l xs (cells_ok f l xs) s (scan_cells (rec_host an u opens funcs) m f l xs s)"
proof (induction xs arbitrary: s)
  case Nil
  show ?case by (simp add: scan_ok_end cells_ok_def)
next
  case (Cons a xs)
  have "scan_ok an u m f l ([a] @ xs) (cells_ok f l (a # xs)) s
    (rbind (scan_cell (rec_host an u opens funcs) m f l a s) (scan_cells (rec_host an u opens funcs) m f l xs))"
  proof (rule scan_ok_bind [OF scan_cell_ok Cons.IH])
    fix as bs t t'
    assume t: "cell_ok f l as a t" and t': "cells_ok f l xs bs t'"
    then obtain cs where "t' = concat cs" "list_all2 (cell_ok f l bs) xs cs" by (auto simp: cells_ok_def)
    then show "cells_ok f l (a # xs) (as @ bs) (t @ t')"
      unfolding cells_ok_def
      by (intro exI [of _ "t # cs"]) (auto intro: cell_ok_mono [OF t] cells_ok_mono)
  qed
  then show ?case by simp
qed

text \<open>The table: rows of the addresses, each with its first one.\<close>

definition row_ok :: "int \<Rightarrow> int \<Rightarrow> int list \<Rightarrow> int \<Rightarrow> u8 list \<Rightarrow> bool" where
  "row_ok f l as i t =
     (\<exists>t'. t = hex 2 (nat i) @ chars '': '' @ t' @ [10] \<and> cells_ok f l (map (\<lambda>j. i + j) [0..15]) as t')"

definition rows_ok :: "int \<Rightarrow> int \<Rightarrow> int list \<Rightarrow> int list \<Rightarrow> u8 list \<Rightarrow> bool" where
  "rows_ok f l is as t = (\<exists>rs. t = concat rs \<and> list_all2 (row_ok f l as) is rs)"

lemma row_ok_mono: "row_ok f l as i t \<Longrightarrow> set as \<subseteq> set bs \<Longrightarrow> row_ok f l bs i t"
  unfolding row_ok_def cells_ok_def using cells_ok_mono by blast

lemma scan_rows_ok:
  "scan_ok an u m f l (concat (map (\<lambda>i. map (\<lambda>j. i + j) [0..15]) is)) (rows_ok f l is) s
     (scan_rows (rec_host an u opens funcs) m f l is s)"
proof (induction "is" arbitrary: s)
  case Nil
  show ?case by (simp add: scan_ok_end rows_ok_def)
next
  case (Cons i "is")
  let ?xs = "map (\<lambda>j. i + j) [0..15]" and ?p = "hex 2 (nat i) @ chars '': ''"
  have "scan_ok an u m f l (?xs @ concat (map (\<lambda>i. map (\<lambda>j. i + j) [0..15]) is)) (rows_ok f l (i # is)) s
    (rbind (scan_cells (rec_host an u opens funcs) m f l ?xs (print ?p s))
      (\<lambda>s. scan_rows (rec_host an u opens funcs) m f l is (print [10] s)))"
  proof (rule scan_ok_bind [OF scan_ok_print [OF scan_cells_ok] scan_ok_print [OF Cons.IH]])
    fix as bs t t'
    assume "\<exists>t'. t = ?p @ t' \<and> cells_ok f l ?xs as t'" and "\<exists>t''. t' = [10] @ t'' \<and> rows_ok f l is bs t''"
    then obtain c rs where t: "t = ?p @ c" "cells_ok f l ?xs as c"
        and t': "t' = [10] @ concat rs" "list_all2 (row_ok f l bs) is rs"
      by (auto simp: rows_ok_def)
    have "row_ok f l (as @ bs) i (t @ [10])"
      by (rule row_ok_mono [of f l as]) (use t in \<open>auto simp: row_ok_def\<close>)
    moreover have "list_all2 (row_ok f l (as @ bs)) is rs"
      using t'(2) by (rule list_all2_mono) (erule row_ok_mono, simp)
    ultimately show "rows_ok f l (i # is) (as @ bs) (t @ t')"
      unfolding rows_ok_def using t' by (intro exI [of _ "(t @ [10]) # rs"]) auto
  qed
  then show ?case by (simp del: upto.simps upto_rec_numeral)
qed

lemma scan_addresses: "concat (map (\<lambda>i. map (\<lambda>j. i + j) [0..15]) (map (\<lambda>i. 16 * i) [0..7])) = [0..127 :: int]"
  by code_simp

text \<open>
  C9. A scan touches the addresses of the range only, each at most once and in increasing
  order, and with nothing but the probe of its mode: unless quick writes were asked for, an
  address where an EEPROM may be is read and never written. A scan that ends well has
  written the table of eight rows, where only an address that was probed can show as
  present, and when no choice of a chip fails it ends well and every address of the range
  was probed.
\<close>

theorem scan_i2c_bus_spec:
  "\<exists>as r s'. scan_i2c_bus (rec_host an u opens funcs) m f l s = (r, s')
     \<and> log (dev s') = log (dev s) @ map (probe_op u m) as
     \<and> subseq as (filter (\<lambda>a. f \<le> a \<and> a \<le> l) [0..127])
     \<and> (m \<noteq> MODE_QUICK \<longrightarrow> (\<forall>t \<in> set (map (probe_op u m) as). eeprom_range (chip t) \<longrightarrow> rw t = 1))
     \<and> (r = 0 \<and> (\<exists>t. stdout s' = stdout s @ scan_header @ t \<and> rows_ok f l (map (\<lambda>i. 16 * i) [0..7]) as t)
        \<or> r = -1 \<and> \<not> cooperative an)
     \<and> (cooperative an \<longrightarrow> as = filter (\<lambda>a. f \<le> a \<and> a \<le> l) [0..127])"
proof -
  let ?rows = "map (\<lambda>i. 16 * i) [0..7]"
  have "scan_ok an u m f l [0..127] (\<lambda>as t. \<exists>t'. t = scan_header @ t' \<and> rows_ok f l ?rows as t') s
    (scan_rows (rec_host an u opens funcs) m f l ?rows (print scan_header s))"
    by (rule scan_ok_print) (use scan_rows_ok [of an u m f l ?rows] scan_addresses in \<open>simp only:\<close>)
  then obtain as s' where "scan_rows (rec_host an u opens funcs) m f l ?rows (print scan_header s) = Inl s' \<and> \<not> cooperative an
      \<or> scan_rows (rec_host an u opens funcs) m f l ?rows (print scan_header s) = Inr s'
        \<and> (\<exists>t. stdout s' = stdout s @ scan_header @ t \<and> rows_ok f l ?rows as t)
        \<and> (cooperative an \<longrightarrow> as = filter (\<lambda>a. f \<le> a \<and> a \<le> l) [0..127])"
    and "probed u m f l [0..127] as s s'"
    unfolding scan_ok_def by blast
  moreover have "m \<noteq> MODE_QUICK \<longrightarrow> (\<forall>t \<in> set (map (probe_op u m) as). eeprom_range (chip t) \<longrightarrow> rw t = 1)"
    by (auto simp: probe_op_def)
  ultimately show ?thesis
    by (intro exI [of _ as] exI [of _ "if scan_rows (rec_host an u opens funcs) m f l ?rows (print scan_header s) = Inl s' then -1 else 0"]
      exI [of _ s'] conjI)
      (simp_all only: scan_i2c_bus_def probed_def, auto)
qed

text \<open>A bus with a chip at 0x50 alone, scanned from 0x4F to 0x51.\<close>

definition one_eeprom :: answers where
  "one_eeprom = \<lparr>answer = (\<lambda>l t. if chip t = 0x50 then (0, [7]) else (-1, [])),
     slave_answer = (\<lambda>l f a. 0), pec_answer = (\<lambda>e. 0)\<rparr>"

lemma scan_i2c_bus_spec_witness:
  "\<exists>s'. scan_i2c_bus (rec_host one_eeprom [] (\<lambda>n. 3) (\<lambda>n. None)) MODE_AUTO 0x4F 0x51 \<lparr>dev = \<lparr>cur = 0, log = []\<rparr>, stdin = [], stdout = []\<rparr> = (0, s')
    \<and> map chip (log (dev s')) = [0x4F, 0x50, 0x51] \<and> map rw (log (dev s')) = [0, 1, 1]"
proof -
  have co: "cooperative one_eeprom" by (simp add: cooperative_def one_eeprom_def)
  have as: "filter (\<lambda>a. 0x4F \<le> a \<and> a \<le> 0x51) [0..127] = [0x4F, 0x50, 0x51 :: int]" by code_simp
  show ?thesis
    using scan_i2c_bus_spec [of one_eeprom "[]" "\<lambda>n. 3" "\<lambda>n. None" MODE_AUTO "0x4F" "0x51"
        "\<lparr>dev = \<lparr>cur = 0, log = []\<rparr>, stdin = [], stdout = []\<rparr>"] co
    by (auto simp only: as refl simp_thms recording.simps tool.simps append_Nil)
      (auto simp: probe_op_def eeprom_range_def MODE_AUTO_def MODE_READ_def MODE_QUICK_def)
qed

section \<open>The printed list reads back\<close>

lemma fgets_line:
  "10 \<notin> set x \<Longrightarrow> length x + 1 < n \<Longrightarrow> fgets n (x @ 10 # f) = (x @ [10], f)"
proof (induction x arbitrary: n)
  case Nil
  then show ?case by (cases n) auto
next
  case (Cons c x)
  then show ?case by (cases n) auto
qed

lemma split_last_tab_none: "9 \<notin> set b \<Longrightarrow> split_last_tab b = None"
  by (induction b) auto

lemma split_last_tab_append: "9 \<notin> set b \<Longrightarrow> split_last_tab (a @ 9 # b) = Some (a, b)"
  by (induction a) (simp_all add: split_last_tab_none)

text \<open>A text that neither ends a field of the list nor is changed by the removal of trailing blanks.\<close>

definition plain :: "u8 list \<Rightarrow> bool" where
  "plain s = (9 \<notin> set s \<and> 10 \<notin> set s \<and> (s \<noteq> [] \<longrightarrow> last s \<noteq> 32))"

lemma dropWhile_rev_append: "(\<forall>c \<in> set t. P c) \<Longrightarrow> dropWhile P (rev (s @ t)) = dropWhile P (rev s)"
  by (simp add: dropWhile_append)

lemma rtrim_plain: "plain s \<Longrightarrow> rtrim s = s"
  unfolding rtrim_def plain_def by (cases s rule: rev_cases) auto

lemma rtrim_padded: "plain s \<Longrightarrow> rtrim (pad_right n s) = s" "plain s \<Longrightarrow> rtrim (s @ [10]) = s"
  by (simp_all add: rtrim_def pad_right_def dropWhile_rev_append del: rev_append)
    (simp_all flip: rtrim_def add: rtrim_plain)

lemma scan_prefix_append: "scan_prefix ps (ps @ s) = Inr s"
  by (induction ps) simp_all

lemma scan_bus_decimal: "n \<le> 2147483647 \<Longrightarrow> scan_bus (chars ''i2c-'' @ decimal n) = Scanned (int n)"
proof -
  assume n: "n \<le> 2147483647"
  obtain k cs where d: "decimal n = of_nat (48 + k) # cs" and k: "k < 10"
    using decimal_head by blast
  have "\<not> is_blank (of_nat (48 + k))" using digit_byte(1) [OF k] .
  then have blank: "dropWhile is_blank (decimal n) = decimal n" unfolding d by (simp del: of_nat_add)
  have "strtol 10 (decimal n) = (int n, [])" using n by (simp add: strtol_def scan_decimal_10)
  moreover have "decimal n \<noteq> []" by (simp add: d)
  ultimately show ?thesis by (simp add: scan_bus_def scan_prefix_append blank Let_def)
qed

lemma decimal_plain: "9 \<notin> set (decimal n)" "10 \<notin> set (decimal n)"
proof -
  have "c \<noteq> 9 \<and> c \<noteq> 10" if "c \<in> set (decimal n)" for c
  proof -
    from that obtain k where "k < 10" "c = of_nat (48 + k)" using decimal_digits by blast
    then have "unat c = 48 + k" using unat_digit by simp
    then show ?thesis by auto
  qed
  then show "9 \<notin> set (decimal n)" "10 \<notin> set (decimal n)" by blast+
qed

definition listable :: "i2c_adap \<Rightarrow> bool" where
  "listable a = (0 \<le> nr a \<and> nr a \<le> 2147483647 \<and> plain (adap_name a) \<and> plain (adap_funcs a) \<and> plain (adap_algo a)
     \<and> length (bus_line a) < 120)"

lemma pad_right_set: "9 \<notin> set s \<Longrightarrow> 9 \<notin> set (pad_right n s)" "10 \<notin> set s \<Longrightarrow> 10 \<notin> set (pad_right n s)"
  by (auto simp: pad_right_def)

definition line_body :: "i2c_adap \<Rightarrow> u8 list" where
  "line_body a = ((chars ''i2c-'' @ decimal (nat (nr a))) @ 9 # pad_right 10 (adap_funcs a)) @ 9 # pad_right 32 (adap_name a)"

lemma bus_line_body: "0 \<le> nr a \<Longrightarrow> bus_line a = (line_body a @ 9 # adap_algo a) @ [10]"
  by (simp add: bus_line_def line_body_def decimal_int_def)

lemma bus_line_field:
  assumes "listable a"
  shows "proc_adapter un (bus_line a) = Inr a" and "10 \<notin> set (line_body a @ 9 # adap_algo a)"
proof -
  have l: "0 \<le> nr a" "nr a \<le> 2147483647" "plain (adap_name a)" "plain (adap_funcs a)" "plain (adap_algo a)"
    using assms by (auto simp: listable_def)
  have b: "bus_line a = line_body a @ 9 # (adap_algo a @ [10])" using l(1) by (simp add: bus_line_body)
  have "9 \<notin> set (adap_algo a @ [10])" using l(5) by (auto simp: plain_def)
  then have 1: "split_last_tab (bus_line a) = Some (line_body a, adap_algo a @ [10])"
    unfolding b by (rule split_last_tab_append)
  have 2: "split_last_tab (line_body a)
      = Some ((chars ''i2c-'' @ decimal (nat (nr a))) @ 9 # pad_right 10 (adap_funcs a), pad_right 32 (adap_name a))"
    unfolding line_body_def by (rule split_last_tab_append) (use l(3) pad_right_set in \<open>auto simp: plain_def\<close>)
  have 3: "split_last_tab ((chars ''i2c-'' @ decimal (nat (nr a))) @ 9 # pad_right 10 (adap_funcs a))
      = Some (chars ''i2c-'' @ decimal (nat (nr a)), pad_right 10 (adap_funcs a))"
    by (rule split_last_tab_append) (use l(4) pad_right_set in \<open>auto simp: plain_def\<close>)
  show "proc_adapter un (bus_line a) = Inr a"
    using l scan_bus_decimal [of "nat (nr a)"] by (simp add: proc_adapter_def 1 2 3 [simplified] rtrim_padded)
  show "10 \<notin> set (line_body a @ 9 # adap_algo a)"
    using l decimal_plain pad_right_set by (auto simp: line_body_def plain_def chars_def)
qed

lemma proc_lines_bus:
  assumes "\<forall>a \<in> set ads. listable a" and "\<And>n. alloc_ok fs n" and "array_ok as"
  shows "\<exists>as'. proc_lines fs (concat (map bus_line ads)) as = Inr (Some as') \<and> entries as' = entries as @ ads"
  using assms(1,3)
proof (induction ads arbitrary: as)
  case Nil
  then show ?case by (simp add: proc_lines.simps)
next
  case (Cons a ads)
  then have a: "listable a" by simp
  then have nr: "0 \<le> nr a" and len: "length (line_body a @ 9 # adap_algo a) + 1 < 120"
    using bus_line_body [of a] by (auto simp: listable_def)
  let ?rest = "concat (map bus_line ads)"
  have f: "fgets 120 (bus_line a @ ?rest) = (bus_line a, ?rest)"
    using fgets_line [OF bus_line_field(2) [OF a] len] by (simp add: bus_line_body [OF nr])
  have "add_adapter (alloc_ok fs) a as \<noteq> Inr None"
    by (simp add: add_adapter_def more_adapters_def set_adapter_def assms(2) Let_def)
  with add_adapter_ok [OF Cons.prems(2), of "alloc_ok fs" a] obtain as1
    where as1: "add_adapter (alloc_ok fs) a as = Inr (Some as1)" "array_ok as1" "entries as1 = entries as @ [a]"
    by blast
  have "bus_line a \<noteq> []" by (simp add: bus_line_body [OF nr])
  then have "proc_lines fs (bus_line a @ ?rest) as = proc_lines fs ?rest as1"
    by (subst proc_lines.simps) (simp add: f bus_line_field(1) [OF a] as1)
  then show ?case using Cons.IH [OF _ as1(2)] Cons.prems(1) as1(3) by simp
qed

text \<open>
  The list of busses that i2cdetect prints is in the format of /proc/bus/i2c: read back
  as that file, it gives the same adapters in the same order with numbers, names, functions
  and algorithms unchanged, when the texts have no tabs, ends of line or trailing blanks, the
  lines fit in the buffer and no allocation fails.
\<close>

theorem bus_list_round_trip:
  assumes "file_content fs (chars ''/proc/bus/i2c'') = Some (print_i2c_busses (Some as))"
    and "\<forall>a \<in> set (entries as). listable a" and "calloc_ok fs" and "\<forall>n. alloc_ok fs n"
  shows "\<exists>as'. gather_i2c_busses h fs = Inr (Some as') \<and> entries as' = entries as
    \<and> print_i2c_busses (Some as') = print_i2c_busses (Some as)"
  using proc_lines_bus [OF assms(2) _ empty_array_ok, of fs] assms(1,3,4)
  by (auto simp: gather_i2c_busses_def print_i2c_busses_def)

definition two_busses :: adap_array where
  "two_busses = \<lparr>capacity = 8, entries =
     [\<lparr>nr = 0, adap_name = chars ''s3c'', adap_funcs = chars ''i2c'', adap_algo = chars ''I2C adapter''\<rparr>,
      \<lparr>nr = 1, adap_name = [], adap_funcs = chars ''isa'', adap_algo = chars ''ISA bus''\<rparr>]\<rparr>"

lemma bus_list_round_trip_witness:
  "\<exists>as'. gather_i2c_busses no_host (sample_fs\<lparr>file_content := \<lambda>n. Some (print_i2c_busses (Some two_busses))\<rparr>)
      = Inr (Some as') \<and> entries as' = entries two_busses"
proof -
  have "\<forall>a \<in> set (entries two_busses). listable a" by code_simp
  then show ?thesis
    using bus_list_round_trip [of "sample_fs\<lparr>file_content := \<lambda>n. Some (print_i2c_busses (Some two_busses))\<rparr>" two_busses no_host]
    by (auto simp: sample_fs_def)
qed

end
