(* ===== verification/I2cGet.thy ===== *)
theory I2cGet
  imports I2cBusses
begin

text \<open>
  i2cget.c: the options and operands, the question to the user, and the one read it makes.
  The only thing it ever writes is the address byte of the mode that sends one first.
\<close>

section \<open>The command line\<close>

record get_opts =
  get_force :: bool
  get_yes :: bool
  get_version :: bool

fun get_flags :: "u8 list list \<Rightarrow> get_opts \<Rightarrow> (get_opts \<times> u8 list list) option" where
  "get_flags [] os = Some (os, [])"
| "get_flags (a # args) os =
     (if char_at a 0 \<noteq> 45 then Some (os, a # args)
      else let c = char_at a 1 in
        if c = 86 then get_flags args (os\<lparr>get_version := True\<rparr>)
        else if c = 102 then get_flags args (os\<lparr>get_force := True\<rparr>)
        else if c = 121 then get_flags args (os\<lparr>get_yes := True\<rparr>)
        else None)"

text \<open>The kind of the read, the data address (-1 without one), and whether PEC is on.\<close>

record get_what =
  get_size :: nat
  daddress :: int
  get_pec :: bool

definition get_address :: "u8 list list \<Rightarrow> get_what option" where
  "get_address args =
     (if length args > 2 then
        let (a, rest) = strtol 0 (args ! 2) in
        if rest \<noteq> [] \<or> a < 0 \<or> a > 0xff then None
        else Some \<lparr>get_size = I2C_SMBUS_BYTE_DATA, daddress = a, get_pec = False\<rparr>
      else Some \<lparr>get_size = I2C_SMBUS_BYTE, daddress = -1, get_pec = False\<rparr>)"

definition get_mode :: "u8 list list \<Rightarrow> get_what \<Rightarrow> get_what option" where
  "get_mode args w =
     (if length args > 3 then
        let c = char_at (args ! 3) 0; w = w\<lparr>get_pec := char_at (args ! 3) 1 = 112\<rparr> in
        if c = 98 then Some (w\<lparr>get_size := I2C_SMBUS_BYTE_DATA\<rparr>)
        else if c = 119 then Some (w\<lparr>get_size := I2C_SMBUS_WORD_DATA\<rparr>)
        else if c = 99 then Some (w\<lparr>get_size := I2C_SMBUS_BYTE\<rparr>)
        else None
      else Some w)"

section \<open>Checks before the read\<close>

definition get_check_funcs :: "u32 option \<Rightarrow> get_what \<Rightarrow> int" where
  "get_check_funcs fs w =
     (case fs of None \<Rightarrow> -1
      | Some funcs \<Rightarrow>
        if get_size w = I2C_SMBUS_BYTE then
          if \<not> has funcs I2C_FUNC_SMBUS_READ_BYTE then -1
          else if daddress w \<ge> 0 \<and> \<not> has funcs I2C_FUNC_SMBUS_WRITE_BYTE then -1
          else 0
        else if get_size w = I2C_SMBUS_BYTE_DATA then
          if \<not> has funcs I2C_FUNC_SMBUS_READ_BYTE_DATA then -1 else 0
        else if get_size w = I2C_SMBUS_WORD_DATA then
          if \<not> has funcs I2C_FUNC_SMBUS_READ_WORD_DATA then -1 else 0
        else 0)"

definition get_confirm :: "int \<Rightarrow> get_what \<Rightarrow> 'd tool \<Rightarrow> bool \<times> 'd tool" where
  "get_confirm address w s =
     (if address \<ge> 0x50 \<and> address \<le> 0x57 \<and> get_pec w then (False, s)
      else let dont = (get_size w = I2C_SMBUS_BYTE \<and> daddress w \<ge> 0 \<and> get_pec w)
        in user_ack (\<not> dont) s)"

section \<open>The read\<close>

definition get_read :: "'d host \<Rightarrow> get_what \<Rightarrow> 'd tool \<Rightarrow> int \<times> 'd tool" where
  "get_read h w s =
     (if get_size w = I2C_SMBUS_BYTE then
        let s = (if daddress w \<ge> 0
          then snd (on_dev (i2c_smbus_write_byte (smbus h) (of_int (daddress w))) s) else s)
        in on_dev (i2c_smbus_read_byte (smbus h)) s
      else if get_size w = I2C_SMBUS_WORD_DATA then
        on_dev (i2c_smbus_read_word_data (smbus h) (of_int (daddress w))) s
      else on_dev (i2c_smbus_read_byte_data (smbus h) (of_int (daddress w))) s)"

definition get_print :: "get_what \<Rightarrow> int \<Rightarrow> u8 list" where
  "get_print w res =
     chars ''0x'' @ hex (if get_size w = I2C_SMBUS_WORD_DATA then 4 else 2) (nat res) @ [10]"

text \<open>The PEC switch of the adapter, when it is asked for.\<close>

definition switch_pec :: "'d host \<Rightarrow> bool \<Rightarrow> bool \<Rightarrow> 'd tool \<Rightarrow> int \<times> 'd tool" where
  "switch_pec h pec on s = (if pec then on_dev (set_pec h on) s else (0, s))"

definition get_run :: "'d host \<Rightarrow> get_opts \<Rightarrow> int \<Rightarrow> int \<Rightarrow> get_what \<Rightarrow> 'd tool \<Rightarrow> 'd stop" where
  "get_run h os i2cbus address w s =
     (case open_i2c_dev h i2cbus 20 of Inl e \<Rightarrow> Crash e
      | Inr (fl, filename) \<Rightarrow>
        if fl < 0 then Exit 1 s
        else if get_check_funcs (get_funcs h filename) w \<noteq> 0 then Exit 1 s
        else let (r, s) = set_slave_addr h address (get_force os) s in
          if r \<noteq> 0 then Exit 1 s
          else let (go, s) = (if get_yes os then (True, s) else get_confirm address w s) in
            if \<not> go then Exit 0 s
            else let (r, s) = switch_pec h (get_pec w) True s in
              if r < 0 then Exit 1 s
              else let (res, s) = get_read h w s in
                if res < 0 then Exit 2 s else Exit 0 (print (get_print w res) s))"

text \<open>The operands behind the bus: the address of the chip, and what to read.\<close>

definition get_operands :: "u8 list list \<Rightarrow> (int \<times> get_what) option" where
  "get_operands args =
     (let address = parse_i2c_address (args ! 1) in
      if address < 0 then None
      else case get_address args of None \<Rightarrow> None
        | Some w \<Rightarrow> map_option (Pair address) (get_mode args w))"

definition i2cget_main :: "'d host \<Rightarrow> file_system \<Rightarrow> u8 list list \<Rightarrow> 'd tool \<Rightarrow> 'd stop" where
  "i2cget_main h fs argv s =
     (case get_flags (tl argv) \<lparr>get_force = False, get_yes = False, get_version = False\<rparr> of
        None \<Rightarrow> Exit 1 s
      | Some (os, args) \<Rightarrow>
        if get_version os then Exit 0 s
        else if length args < 2 then Exit 1 s
        else case lookup_i2c_bus h fs (args ! 0) of Inl e \<Rightarrow> Crash e
          | Inr i2cbus \<Rightarrow>
            if i2cbus < 0 then Exit 1 s
            else case get_operands args of None \<Rightarrow> Exit 1 s
              | Some (address, w) \<Rightarrow> get_run h os i2cbus address w s)"

section \<open>What a run does to the bus\<close>

text \<open>The transactions of a read, and how its value is taken from the last of them.\<close>

definition get_plan :: "u8 list \<Rightarrow> int \<Rightarrow> get_what \<Rightarrow> transaction list" where
  "get_plan u a w =
     (if get_size w = I2C_SMBUS_BYTE then
        (if daddress w \<ge> 0 then [\<lparr>chip = a, rw = 0, command = of_int (daddress w), kind = 1, payload = None\<rparr>] else [])
        @ [\<lparr>chip = a, rw = 1, command = 0, kind = 1, payload = Some u\<rparr>]
      else [\<lparr>chip = a, rw = 1, command = of_int (daddress w),
        kind = (if get_size w = I2C_SMBUS_WORD_DATA then 3 else 2), payload = Some u\<rparr>])"

definition plan_value :: "answers \<Rightarrow> transaction list \<Rightarrow> (u8 list \<Rightarrow> int) \<Rightarrow> transaction list \<Rightarrow> int" where
  "plan_value an l f ts = value_of f (answer an (l @ butlast ts) (last ts))"

lemma get_read_rec:
  "cur (dev s) = a \<Longrightarrow> get_read (rec_host an u opens funcs) w s
    = (plan_value an (log (dev s)) (if get_size w = I2C_SMBUS_WORD_DATA then union_word else union_byte) (get_plan u a w),
       s\<lparr>dev := (dev s)\<lparr>log := log (dev s) @ get_plan u a w\<rparr>\<rparr>)"
  by (simp add: get_read_def get_plan_def plan_value_def on_dev_def Let_def split_def
    I2C_SMBUS_BYTE_def I2C_SMBUS_WORD_DATA_def)

lemma switch_pec_rec [simp]:
  "switch_pec (rec_host an u opens funcs) pec on s = (if pec then pec_answer an on else 0, s)"
  by (simp add: switch_pec_def on_dev_def)

lemma get_confirm_sel [simp]:
  "dev (snd (get_confirm a w s)) = dev s" "stdout (snd (get_confirm a w s)) = stdout s"
  by (simp_all add: get_confirm_def Let_def)

text \<open>
  The consent of the user on the standard input. No is the default where a data address
  would be written with PEC; an EEPROM is never read with PEC.
\<close>

definition get_consent :: "int \<Rightarrow> get_what \<Rightarrow> u8 list \<Rightarrow> bool" where
  "get_consent a w inp =
     (\<not> (0x50 \<le> a \<and> a \<le> 0x57 \<and> get_pec w)
      \<and> says (\<not> (get_size w = I2C_SMBUS_BYTE \<and> 0 \<le> daddress w \<and> get_pec w)) inp)"

lemma get_confirm_consent: "fst (get_confirm a w s) = get_consent a w (stdin s)"
  by (auto simp: get_confirm_def get_consent_def Let_def user_ack_says)

text \<open>An outcome that left the bus alone, and one that made the read.\<close>

definition untouched :: "recording tool \<Rightarrow> recording tool \<Rightarrow> bool" where
  "untouched s s' = (log (dev s') = log (dev s) \<and> stdout s' = stdout s)"

definition get_done :: "answers \<Rightarrow> u8 list \<Rightarrow> get_opts \<Rightarrow> int \<Rightarrow> get_what \<Rightarrow> recording tool \<Rightarrow> int \<Rightarrow> recording tool \<Rightarrow> bool" where
  "get_done an u os a w s c s' =
     ((get_yes os \<or> get_consent a w (stdin s))
      \<and> log (dev s') = log (dev s) @ get_plan u a w
      \<and> (let r = plan_value an (log (dev s))
              (if get_size w = I2C_SMBUS_WORD_DATA then union_word else union_byte) (get_plan u a w)
         in if r < 0 then c = 2 \<and> stdout s' = stdout s else c = 0 \<and> stdout s' = stdout s @ get_print w r))"

definition get_outcome :: "answers \<Rightarrow> u8 list \<Rightarrow> get_opts \<Rightarrow> int \<Rightarrow> get_what \<Rightarrow> recording tool \<Rightarrow> recording stop \<Rightarrow> bool" where
  "get_outcome an u os a w s r =
     (case r of Crash e \<Rightarrow> False
      | Exit c s' \<Rightarrow> untouched s s' \<and> c \<in> {0, 1} \<or> get_done an u os a w s c s')"

lemma get_run_rec:
  assumes "0 \<le> i2cbus" and "i2cbus < 10 ^ 10"
  shows "get_outcome an u os a w s (get_run (rec_host an u opens funcs) os i2cbus a w s)"
proof -
  obtain fl n where o: "open_i2c_dev (rec_host an u opens funcs) i2cbus 20 = Inr (fl, n)"
    using open_i2c_dev_fits [OF assms] by (metis surj_pair)
  let ?s = "s\<lparr>dev := (dev s)\<lparr>cur := a\<rparr>\<rparr>"
  obtain go s1 where g: "(if get_yes os then (True, ?s) else get_confirm a w ?s) = (go, s1)" by (metis surj_pair)
  then have s1: "dev s1 = dev ?s" "stdout s1 = stdout s" and go: "go = (get_yes os \<or> get_consent a w (stdin s))"
    using get_confirm_sel [of a w ?s] get_confirm_consent [of a w ?s] by (auto split: if_splits simp del: get_confirm_sel)
  have "cur (dev s1) = a" by (simp add: s1(1))
  note rd = get_read_rec [OF this, of an u opens funcs w]
  have "untouched s s" "untouched s s1" by (simp_all add: untouched_def s1)
  then show ?thesis
    by (auto simp: get_run_def o g rd Let_def get_outcome_def get_done_def s1 go [symmetric])
qed

lemma get_operands_range:
  "get_operands args = Some (a, w) \<Longrightarrow> 0x03 \<le> a \<and> a \<le> 0x77 \<and> -1 \<le> daddress w \<and> daddress w \<le> 0xff"
  using parse_i2c_address_range [of "args ! 1"]
  by (auto simp: get_operands_def get_address_def get_mode_def Let_def split_def split: if_splits)

lemma get_operands_size:
  "get_operands args = Some (a, w) \<Longrightarrow> get_size w \<in> {I2C_SMBUS_BYTE, I2C_SMBUS_BYTE_DATA, I2C_SMBUS_WORD_DATA}
    \<and> (0 \<le> daddress w \<or> get_size w = I2C_SMBUS_BYTE)"
  by (auto simp: get_operands_def get_address_def get_mode_def Let_def split_def split: if_splits)

text \<open>
  C25. Whatever the command line, the answers of the user and the chips on the bus, a run of
  i2cget on a system whose list of busses can be read does not go wrong, and either leaves the bus
  alone and prints nothing, or makes the one read of the command line, at an address from
  0x03 to 0x77 and with a data address that fits in a byte, preceded by the address byte in
  the mode that sends one and by no other write. It has then printed the value read, or
  failed with code 2 and printed nothing. Without the option -y the line on the standard input
  has consented, explicitly where the read begins with a write under PEC, and PEC never
  reaches the addresses of the memory EEPROMs.
\<close>

theorem i2cget_main_spec:
  assumes "busses_ok (rec_host an u opens funcs) fs"
  shows "\<exists>c s'. i2cget_main (rec_host an u opens funcs) fs argv s = Exit c s' \<and>
     (untouched s s' \<and> c \<in> {0, 1}
      \<or> (\<exists>os args a w.
           get_flags (tl argv) \<lparr>get_force = False, get_yes = False, get_version = False\<rparr> = Some (os, args)
           \<and> get_operands args = Some (a, w)
           \<and> 0x03 \<le> a \<and> a \<le> 0x77 \<and> -1 \<le> daddress w \<and> daddress w \<le> 0xff
           \<and> get_done an u os a w s c s'
           \<and> (get_yes os \<or> \<not> get_pec w \<or> a < 0x50 \<or> 0x57 < a)))"
proof -
  have same: "untouched s s" by (simp add: untouched_def)
  have eeprom: "get_yes os \<or> \<not> get_pec w \<or> a < 0x50 \<or> 0x57 < a" if "get_done an u os a w s c s'" for os a w c s'
    using that by (auto simp: get_done_def get_consent_def)
  have run: "\<exists>c s'. get_run (rec_host an u opens funcs) os n a w s = Exit c s'
      \<and> (untouched s s' \<and> c \<in> {0, 1} \<or> get_done an u os a w s c s')" if "0 \<le> n" "n < 10 ^ 10" for os n a w
    using get_run_rec [OF that, of an u os a w s opens funcs] by (auto simp: get_outcome_def split: stop.splits)
  show ?thesis
  proof (cases "get_flags (tl argv) \<lparr>get_force = False, get_yes = False, get_version = False\<rparr>")
    case None
    then show ?thesis by (simp add: i2cget_main_def same)
  next
    case (Some p)
    obtain os args where p: "p = (os, args)" by (metis surj_pair)
    obtain n where n: "lookup_i2c_bus (rec_host an u opens funcs) fs (args ! 0) = Inr n" "n < 10 ^ 10"
      by (rule lookup_total [OF assms])
    show ?thesis
    proof (cases "get_version os \<or> length args < 2 \<or> n < 0 \<or> get_operands args = None")
      case True
      then show ?thesis by (auto simp: i2cget_main_def Some p n(1) same)
    next
      case False
      then obtain a w where w: "get_operands args = Some (a, w)" by auto
      have "i2cget_main (rec_host an u opens funcs) fs argv s = get_run (rec_host an u opens funcs) os n a w s"
        using False by (simp add: i2cget_main_def Some p n(1) w)
      then show ?thesis
        using run [of n os a w] False n(2) get_operands_range [OF w] eeprom [of os a w] w by (auto simp: Some p)
    qed
  qed
qed

lemma i2cget_main_spec_witness:
  "\<exists>c s'. i2cget_main (rec_host \<lparr>answer = (\<lambda>l t. (0, [7])), slave_answer = (\<lambda>l f a. 0), pec_answer = (\<lambda>e. 0)\<rparr> []
      (\<lambda>n. 3) (\<lambda>n. Some (-1))) sample_fs [[], chars ''-y'', chars ''1'', chars ''0x50'']
      \<lparr>dev = \<lparr>cur = 0, log = []\<rparr>, stdin = [], stdout = []\<rparr> = Exit c s'
    \<and> length (log (dev s')) \<le> 2"
proof -
  let ?h = "rec_host \<lparr>answer = (\<lambda>l t. (0, [7])), slave_answer = (\<lambda>l f a. 0), pec_answer = (\<lambda>e. 0)\<rparr> []
      (\<lambda>n. 3) (\<lambda>n. Some (-1)) :: recording host"
  have "busses_ok ?h sample_fs" by (rule sample_busses_ok)
  from i2cget_main_spec [OF this, of "[[], chars ''-y'', chars ''1'', chars ''0x50'']" "\<lparr>dev = \<lparr>cur = 0, log = []\<rparr>, stdin = [], stdout = []\<rparr>"]
  show ?thesis by (auto simp: untouched_def get_done_def get_plan_def)
qed

end
