(* ===== verification/I2cSet.thy ===== *)
theory I2cSet
  imports I2cGet
begin

text \<open>
  i2cset.c: the options and operands with the list of values of a block, the read of the old
  value under a mask, the one write, and the value read back.
\<close>

section \<open>The command line\<close>

record set_opts =
  set_force :: bool
  set_yes :: bool
  set_version :: bool
  set_readback :: bool
  maskp :: "u8 list option"

fun set_flags :: "u8 list list \<Rightarrow> set_opts \<Rightarrow> (set_opts \<times> u8 list list) option" where
  "set_flags [] os = Some (os, [])"
| "set_flags (a # args) os =
     (if char_at a 0 \<noteq> 45 then Some (os, a # args)
      else let c = char_at a 1 in
        if c = 86 then set_flags args (os\<lparr>set_version := True\<rparr>)
        else if c = 102 then set_flags args (os\<lparr>set_force := True\<rparr>)
        else if c = 121 then set_flags args (os\<lparr>set_yes := True\<rparr>)
        else if c = 109 then
          (case args of [] \<Rightarrow> Some (os, []) | m # args \<Rightarrow> set_flags args (os\<lparr>maskp := Some m\<rparr>))
        else if c = 114 then set_flags args (os\<lparr>set_readback := True\<rparr>)
        else None)"

text \<open>The kind of the write and PEC, from the number of the operands and the mode at their end.\<close>

definition BLOCK_MAX :: nat where "BLOCK_MAX = 32"

definition set_mode_char :: "u8 list \<Rightarrow> nat option" where
  "set_mode_char m =
     (let c = char_at m 0 in
      if length m > 2 \<or> length m = 2 \<and> m ! 1 \<noteq> 112 then None
      else if c = 98 then Some I2C_SMBUS_BYTE_DATA
      else if c = 119 then Some I2C_SMBUS_WORD_DATA
      else if c = 115 then Some I2C_SMBUS_BLOCK_DATA
      else if c = 105 then Some I2C_SMBUS_I2C_BLOCK_DATA
      else None)"

definition block_size :: "nat \<Rightarrow> bool" where
  "block_size sz = (sz = I2C_SMBUS_BLOCK_DATA \<or> sz = I2C_SMBUS_I2C_BLOCK_DATA)"

definition set_mode :: "u8 list option \<Rightarrow> u8 list list \<Rightarrow> (nat \<times> bool) option" where
  "set_mode mk args =
     (if length args = 3 then Some (I2C_SMBUS_BYTE, False)
      else if length args = 4 then
        (if args ! 3 = chars ''c'' \<or> args ! 3 = chars ''cp'' then Some (I2C_SMBUS_BYTE, char_at (args ! 3) 1 = 112)
         else Some (I2C_SMBUS_BYTE_DATA, False))
      else let m = last args; pec = (char_at m 1 = 112) in
        case set_mode_char m of None \<Rightarrow> None
        | Some sz \<Rightarrow>
          if block_size sz then
            if pec \<and> sz = I2C_SMBUS_I2C_BLOCK_DATA then None
            else if mk \<noteq> None then None
            else if length args > BLOCK_MAX + 4 then None
            else Some (sz, pec)
          else if length args \<noteq> 5 then None
          else Some (sz, pec))"

text \<open>
  The values of a block, stored in its array of 32 bytes: the list is the part that is set,
  and a store behind the array is a fault.
\<close>

fun block_values :: "u8 list list \<Rightarrow> u8 list \<Rightarrow> fault + u8 list option" where
  "block_values [] block = Inr (Some block)"
| "block_values (a # args) block =
     (let (v, rest) = strtol 0 a in
      if rest \<noteq> [] \<or> v < 0 then Inr None
      else if v > 0xff then Inr None
      else if length block \<ge> BLOCK_MAX then Inl OutOfBounds
      else block_values args (block @ [of_int v]))"

definition set_values :: "nat \<Rightarrow> u8 list list \<Rightarrow> fault + (int \<times> u8 list) option" where
  "set_values sz args =
     (if sz = I2C_SMBUS_BYTE_DATA \<or> sz = I2C_SMBUS_WORD_DATA then
        let (v, rest) = strtol 0 (args ! 3) in
        if rest \<noteq> [] \<or> v < 0 then Inr None
        else if sz = I2C_SMBUS_BYTE_DATA \<and> v > 0xff \<or> sz = I2C_SMBUS_WORD_DATA \<and> v > 0xffff then Inr None
        else Inr (Some (v, []))
      else if block_size sz then
        rbind (block_values (butlast (drop 3 args)) []) (\<lambda>b. Inr (map_option (Pair (-1)) b))
      else Inr (Some (-1, [])))"

definition set_vmask :: "nat \<Rightarrow> u8 list option \<Rightarrow> int option" where
  "set_vmask sz mk =
     (case mk of None \<Rightarrow> Some 0
      | Some m \<Rightarrow>
        let (v, rest) = strtol 0 m in
        if rest \<noteq> [] \<or> v = 0 then None
        else if (sz = I2C_SMBUS_BYTE \<or> sz = I2C_SMBUS_BYTE_DATA) \<and> v > 0xff \<or> v > 0xffff then None
        else Some v)"

record set_what =
  set_address :: int
  set_size :: nat
  set_daddress :: int
  set_pec_mode :: bool
  set_value :: int
  set_mask :: int
  set_block :: "u8 list"

definition set_operands :: "u8 list option \<Rightarrow> u8 list list \<Rightarrow> fault + set_what option" where
  "set_operands mk args =
     (let address = parse_i2c_address (args ! 1) in
      if address < 0 then Inr None
      else let (a, rest) = strtol 0 (args ! 2) in
        if rest \<noteq> [] \<or> a < 0 \<or> a > 0xff then Inr None
        else case set_mode mk args of None \<Rightarrow> Inr None
          | Some (sz, pec) \<Rightarrow>
            rbind (set_values sz args) (\<lambda>vals.
              case vals of None \<Rightarrow> Inr None
              | Some (v, block) \<Rightarrow>
                Inr (map_option (\<lambda>m. \<lparr>set_address = address, set_size = sz, set_daddress = a, set_pec_mode = pec,
                  set_value = v, set_mask = m, set_block = block\<rparr>) (set_vmask sz mk))))"

section \<open>The write\<close>

definition set_check_funcs :: "u32 option \<Rightarrow> nat \<Rightarrow> int" where
  "set_check_funcs fs sz =
     (case fs of None \<Rightarrow> -1
      | Some funcs \<Rightarrow>
        if sz = I2C_SMBUS_BYTE then if \<not> has funcs I2C_FUNC_SMBUS_WRITE_BYTE then -1 else 0
        else if sz = I2C_SMBUS_BYTE_DATA then if \<not> has funcs I2C_FUNC_SMBUS_WRITE_BYTE_DATA then -1 else 0
        else if sz = I2C_SMBUS_WORD_DATA then if \<not> has funcs I2C_FUNC_SMBUS_WRITE_WORD_DATA then -1 else 0
        else if sz = I2C_SMBUS_BLOCK_DATA then if \<not> has funcs I2C_FUNC_SMBUS_WRITE_BLOCK_DATA then -1 else 0
        else if sz = I2C_SMBUS_I2C_BLOCK_DATA then if \<not> has funcs I2C_FUNC_SMBUS_WRITE_I2C_BLOCK then -1 else 0
        else 0)"

definition set_confirm :: "int \<Rightarrow> 'd tool \<Rightarrow> bool \<times> 'd tool" where
  "set_confirm address s = user_ack (\<not> (address \<ge> 0x50 \<and> address \<le> 0x57)) s"

text \<open>The read of the old value, and of the value written.\<close>

definition set_read :: "'d host \<Rightarrow> set_what \<Rightarrow> 'd tool \<Rightarrow> int \<times> 'd tool" where
  "set_read h w s =
     (if set_size w = I2C_SMBUS_BYTE then on_dev (i2c_smbus_read_byte (smbus h)) s
      else if set_size w = I2C_SMBUS_WORD_DATA then
        on_dev (i2c_smbus_read_word_data (smbus h) (of_int (set_daddress w))) s
      else on_dev (i2c_smbus_read_byte_data (smbus h) (of_int (set_daddress w))) s)"

text \<open>The value under the mask, or the code of an early exit.\<close>

definition set_masked :: "'d host \<Rightarrow> set_opts \<Rightarrow> set_what \<Rightarrow> 'd tool \<Rightarrow> (int + int) \<times> 'd tool" where
  "set_masked h os w s =
     (if set_mask w = 0 then (Inr (set_value w), s)
      else let (oldvalue, s) = set_read h w s in
        if oldvalue < 0 then (Inl 1, s)
        else let v = (set_value w AND set_mask w) OR (oldvalue AND NOT (set_mask w)) in
          if \<not> set_yes os then
            let (ack, s) = user_ack True s in if \<not> ack then (Inl 0, s) else (Inr v, s)
          else (Inr v, s))"

definition on_dev_fault :: "('d \<Rightarrow> fault + int \<times> 'd) \<Rightarrow> 'd tool \<Rightarrow> fault + int \<times> 'd tool" where
  "on_dev_fault f s = rbind (f (dev s)) (\<lambda>(r, d). Inr (r, s\<lparr>dev := d\<rparr>))"

definition set_write :: "'d host \<Rightarrow> set_what \<Rightarrow> int \<Rightarrow> 'd tool \<Rightarrow> fault + int \<times> 'd tool" where
  "set_write h w v s =
     (let a = of_int (set_daddress w); n = of_nat (length (set_block w)) in
      if set_size w = I2C_SMBUS_BYTE then Inr (on_dev (i2c_smbus_write_byte (smbus h) a) s)
      else if set_size w = I2C_SMBUS_WORD_DATA then
        Inr (on_dev (i2c_smbus_write_word_data (smbus h) a (of_int v)) s)
      else if set_size w = I2C_SMBUS_BLOCK_DATA then
        on_dev_fault (i2c_smbus_write_block_data (smbus h) a n (set_block w)) s
      else if set_size w = I2C_SMBUS_I2C_BLOCK_DATA then
        on_dev_fault (i2c_smbus_write_i2c_block_data (smbus h) a n (set_block w)) s
      else Inr (on_dev (i2c_smbus_write_byte_data (smbus h) a (of_int v)) s))"

text \<open>\<open>%0*x\<close> of an \<open>int\<close>, which is taken as unsigned.\<close>

definition hex_value :: "set_what \<Rightarrow> int \<Rightarrow> u8 list" where
  "hex_value w v = chars ''0x'' @ hex (if set_size w = I2C_SMBUS_WORD_DATA then 4 else 2) (nat (v mod 4294967296))"

definition set_report :: "set_what \<Rightarrow> int \<Rightarrow> int \<Rightarrow> u8 list" where
  "set_report w v res =
     (if res < 0 then chars ''Warning - readback failed'' @ [10]
      else if res \<noteq> v then chars ''Warning - data mismatch - wrote '' @ hex_value w v @ chars '', read back ''
        @ hex_value w res @ [10]
      else chars ''Value '' @ hex_value w v @ chars '' written, readback matched'' @ [10])"

definition set_check_readback :: "'d host \<Rightarrow> set_what \<Rightarrow> int \<Rightarrow> 'd tool \<Rightarrow> 'd tool" where
  "set_check_readback h w v s =
     (let (res, s) = set_read h w s; v = (if set_size w = I2C_SMBUS_BYTE then set_daddress w else v)
      in print (set_report w v res) s)"

text \<open>From the value on: PEC, the write, and the value read back.\<close>

definition set_transfer :: "'d host \<Rightarrow> set_opts \<Rightarrow> set_what \<Rightarrow> int \<Rightarrow> 'd tool \<Rightarrow> 'd stop" where
  "set_transfer h os w v s =
     (let (r, s) = switch_pec h (set_pec_mode w) True s in
      if r < 0 then Exit 1 s
      else case set_write h w v s of Inl e \<Rightarrow> Crash e
        | Inr (res, s) \<Rightarrow>
          if res < 0 then Exit 1 s
          else let (r, s) = switch_pec h (set_pec_mode w) False s in
            if r < 0 then Exit 1 s
            else if \<not> set_readback os then Exit 0 s
            else Exit 0 (set_check_readback h w v s))"

definition set_run :: "'d host \<Rightarrow> set_opts \<Rightarrow> int \<Rightarrow> set_what \<Rightarrow> 'd tool \<Rightarrow> 'd stop" where
  "set_run h os i2cbus w s =
     (case open_i2c_dev h i2cbus 20 of Inl e \<Rightarrow> Crash e
      | Inr (fl, filename) \<Rightarrow>
        if fl < 0 then Exit 1 s
        else if set_check_funcs (get_funcs h filename) (set_size w) \<noteq> 0 then Exit 1 s
        else let (r, s) = set_slave_addr h (set_address w) (set_force os) s in
          if r \<noteq> 0 then Exit 1 s
          else let (go, s) = (if set_yes os then (True, s) else set_confirm (set_address w) s) in
            if \<not> go then Exit 0 s
            else let (v, s) = set_masked h os w s in
              case v of Inl code \<Rightarrow> Exit code s | Inr v \<Rightarrow> set_transfer h os w v s)"

definition i2cset_main :: "'d host \<Rightarrow> file_system \<Rightarrow> u8 list list \<Rightarrow> 'd tool \<Rightarrow> 'd stop" where
  "i2cset_main h fs argv s =
     (case set_flags (tl argv)
        \<lparr>set_force = False, set_yes = False, set_version = False, set_readback = False, maskp = None\<rparr> of
        None \<Rightarrow> Exit 1 s
      | Some (os, args) \<Rightarrow>
        if set_version os then Exit 0 s
        else if length args < 3 then Exit 1 s
        else case lookup_i2c_bus h fs (args ! 0) of Inl e \<Rightarrow> Crash e
          | Inr i2cbus \<Rightarrow>
            if i2cbus < 0 then Exit 1 s
            else case set_operands (maskp os) args of Inl e \<Rightarrow> Crash e
              | Inr None \<Rightarrow> Exit 1 s
              | Inr (Some w) \<Rightarrow> set_run h os i2cbus w s)"

section \<open>What a run does to the bus\<close>

definition set_rd :: "u8 list \<Rightarrow> set_what \<Rightarrow> transaction" where
  "set_rd u w =
     (if set_size w = I2C_SMBUS_BYTE then \<lparr>chip = set_address w, rw = 1, command = 0, kind = 1, payload = Some u\<rparr>
      else \<lparr>chip = set_address w, rw = 1, command = of_int (set_daddress w),
        kind = (if set_size w = I2C_SMBUS_WORD_DATA then 3 else 2), payload = Some u\<rparr>)"

definition rd_value :: "answers \<Rightarrow> u8 list \<Rightarrow> set_what \<Rightarrow> transaction list \<Rightarrow> int" where
  "rd_value an u w l =
     value_of (if set_size w = I2C_SMBUS_WORD_DATA then union_word else union_byte) (answer an l (set_rd u w))"

definition set_wr :: "u8 list \<Rightarrow> set_what \<Rightarrow> int \<Rightarrow> transaction" where
  "set_wr u w v =
     (let a = of_int (set_daddress w); n = length (set_block w) in
      if set_size w = I2C_SMBUS_BYTE then \<lparr>chip = set_address w, rw = 0, command = a, kind = 1, payload = None\<rparr>
      else \<lparr>chip = set_address w, rw = 0, command = a,
        kind = (if set_size w = I2C_SMBUS_WORD_DATA then 3 else if set_size w = I2C_SMBUS_BLOCK_DATA then 5
                else if set_size w = I2C_SMBUS_I2C_BLOCK_DATA then 6 else 2),
        payload = Some (if set_size w = I2C_SMBUS_WORD_DATA then set_word (of_int v) u
                        else if block_size (set_size w) then of_nat n # set_block w @ drop (1 + n) u
                        else set_byte (of_int v) u)\<rparr>)"

lemma set_read_rec:
  "cur (dev s) = set_address w \<Longrightarrow> set_read (rec_host an u opens funcs) w s
    = (rd_value an u w (log (dev s)), s\<lparr>dev := (dev s)\<lparr>log := log (dev s) @ [set_rd u w]\<rparr>\<rparr>)"
  by (simp add: set_read_def set_rd_def rd_value_def on_dev_def Let_def split_def
    I2C_SMBUS_BYTE_def I2C_SMBUS_WORD_DATA_def)

lemma set_write_rec:
  assumes "cur (dev s) = set_address w" and "length u = 34" and "length (set_block w) \<le> 32"
  shows "set_write (rec_host an u opens funcs) w v s
    = Inr (fst (answer an (log (dev s)) (set_wr u w v)), s\<lparr>dev := (dev s)\<lparr>log := log (dev s) @ [set_wr u w v]\<rparr>\<rparr>)"
  using assms(1) rec_block_writes [OF assms(2,3)]
  by (simp add: set_write_def set_wr_def on_dev_def on_dev_fault_def Let_def split_def block_size_def
    I2C_SMBUS_BYTE_def I2C_SMBUS_WORD_DATA_def I2C_SMBUS_BLOCK_DATA_def I2C_SMBUS_I2C_BLOCK_DATA_def)

text \<open>The value that is written: the one of the command line, or its bits under the mask.\<close>

definition set_new_value :: "set_what \<Rightarrow> int \<Rightarrow> int" where
  "set_new_value w old =
     (if set_mask w = 0 then set_value w
      else (set_value w AND set_mask w) OR (old AND NOT (set_mask w)))"

definition set_before :: "u8 list \<Rightarrow> set_what \<Rightarrow> transaction list" where
  "set_before u w = (if set_mask w = 0 then [] else [set_rd u w])"

text \<open>An outcome without a write, and one with it, from what the bus answered.\<close>

definition set_idle :: "u8 list \<Rightarrow> set_what \<Rightarrow> recording tool \<Rightarrow> int \<Rightarrow> recording tool \<Rightarrow> bool" where
  "set_idle u w s c s' =
     ((log (dev s') = log (dev s) \<or> log (dev s') = log (dev s) @ set_before u w)
      \<and> stdout s' = stdout s \<and> c \<in> {0, 1})"

definition set_done :: "answers \<Rightarrow> u8 list \<Rightarrow> set_opts \<Rightarrow> set_what \<Rightarrow> recording tool \<Rightarrow> int \<Rightarrow> recording tool \<Rightarrow> bool" where
  "set_done an u os w s c s' =
     (let l = log (dev s); old = rd_value an u w l; v = set_new_value w old;
          written = l @ set_before u w @ [set_wr u w v];
          res = fst (answer an (l @ set_before u w) (set_wr u w v))
      in (set_mask w = 0 \<or> 0 \<le> old)
         \<and> (log (dev s') = written \<and> stdout s' = stdout s
             \<and> (res < 0 \<and> c = 1 \<or> 0 \<le> res \<and> (c = 0 \<and> \<not> set_readback os \<or> c = 1 \<and> set_pec_mode w))
           \<or> set_readback os \<and> log (dev s') = written @ [set_rd u w] \<and> 0 \<le> res \<and> c = 0
             \<and> stdout s' = stdout s @ set_report w (if set_size w = I2C_SMBUS_BYTE then set_daddress w else v)
                 (rd_value an u w written)))"

text \<open>
  The consent: yes to the first question, explicitly at the addresses of memory EEPROMs, and
  under a mask yes to the second one, which shows the value.
\<close>

definition set_consent :: "set_what \<Rightarrow> u8 list \<Rightarrow> bool" where
  "set_consent w inp =
     (says (\<not> (0x50 \<le> set_address w \<and> set_address w \<le> 0x57)) inp
      \<and> (set_mask w \<noteq> 0 \<longrightarrow> says True (next_line inp)))"

definition set_outcome :: "answers \<Rightarrow> u8 list \<Rightarrow> set_opts \<Rightarrow> set_what \<Rightarrow> recording tool \<Rightarrow> recording stop \<Rightarrow> bool" where
  "set_outcome an u os w s r =
     (case r of Crash e \<Rightarrow> False
      | Exit c s' \<Rightarrow> set_idle u w s c s'
          \<or> (set_yes os \<or> set_consent w (stdin s))
            \<and> set_done an u os w s c s')"

text \<open>The steps: the value, then the transfer, from a state where the chip is chosen.\<close>

lemma set_masked_rec:
  assumes "cur (dev s) = set_address w"
  shows "\<exists>v s'. set_masked (rec_host an u opens funcs) os w s = (v, s') \<and> stdout s' = stdout s
    \<and> cur (dev s') = set_address w \<and> log (dev s') = log (dev s) @ set_before u w
    \<and> (case v of Inl c \<Rightarrow> c \<in> {0, 1}
       | Inr v \<Rightarrow> v = set_new_value w (rd_value an u w (log (dev s))) \<and> (set_mask w = 0 \<or> 0 \<le> rd_value an u w (log (dev s)))
           \<and> (set_mask w = 0 \<or> set_yes os \<or> says True (stdin s)))"
proof (cases "set_mask w = 0")
  case True
  then show ?thesis using assms by (simp add: set_masked_def set_before_def set_new_value_def)
next
  case False
  let ?s = "s\<lparr>dev := (dev s)\<lparr>log := log (dev s) @ [set_rd u w]\<rparr>\<rparr>"
  obtain ack s2 where a: "user_ack True ?s = (ack, s2)" by (metis surj_pair)
  then have "dev s2 = dev ?s" "stdout s2 = stdout s" "ack = says True (stdin s)"
    using user_ack_dev [of True ?s] user_ack_says(1) [of True ?s] by simp_all
  then show ?thesis
    using False assms by (auto simp: set_masked_def set_read_rec set_before_def set_new_value_def a Let_def)
qed

lemma set_transfer_rec:
  assumes "cur (dev s) = set_address w" and "length u = 34" and "length (set_block w) \<le> 32"
  shows "\<exists>c s'. set_transfer (rec_host an u opens funcs) os w v s = Exit c s' \<and>
    (let written = log (dev s) @ [set_wr u w v]; res = fst (answer an (log (dev s)) (set_wr u w v)) in
     log (dev s') = log (dev s) \<and> stdout s' = stdout s \<and> c = 1
     \<or> log (dev s') = written \<and> stdout s' = stdout s
         \<and> (res < 0 \<and> c = 1 \<or> 0 \<le> res \<and> (c = 0 \<and> \<not> set_readback os \<or> c = 1 \<and> set_pec_mode w))
     \<or> set_readback os \<and> log (dev s') = written @ [set_rd u w] \<and> 0 \<le> res \<and> c = 0
         \<and> stdout s' = stdout s @ set_report w (if set_size w = I2C_SMBUS_BYTE then set_daddress w else v)
             (rd_value an u w written))"
  using assms(1) set_write_rec [OF assms, of an opens funcs v]
  by (auto simp: set_transfer_def set_check_readback_def set_read_rec Let_def)

lemma set_confirm_sel [simp]:
  "dev (snd (set_confirm a s)) = dev s" "stdout (snd (set_confirm a s)) = stdout s"
  by (simp_all add: set_confirm_def)

lemma set_run_rec:
  assumes "0 \<le> i2cbus" and "i2cbus < 10 ^ 10" and "length u = 34" and "length (set_block w) \<le> 32"
  shows "set_outcome an u os w s (set_run (rec_host an u opens funcs) os i2cbus w s)"
proof -
  let ?h = "rec_host an u opens funcs" and ?s = "s\<lparr>dev := (dev s)\<lparr>cur := set_address w\<rparr>\<rparr>"
  obtain fl n where o: "open_i2c_dev ?h i2cbus 20 = Inr (fl, n)"
    using open_i2c_dev_fits [OF assms(1,2)] by (metis surj_pair)
  obtain go s1 where g: "(if set_yes os then (True, ?s) else set_confirm (set_address w) ?s) = (go, s1)" by (metis surj_pair)
  then have s1: "dev s1 = dev ?s" "stdout s1 = stdout s" "set_yes os \<or> stdin s1 = next_line (stdin s)"
    and go: "go = (set_yes os \<or> says (\<not> (0x50 \<le> set_address w \<and> set_address w \<le> 0x57)) (stdin s))"
    using set_confirm_sel [of "set_address w" ?s] user_ack_says [of "\<not> (0x50 \<le> set_address w \<and> set_address w \<le> 0x57)" ?s]
    unfolding set_confirm_def by (auto split: if_splits simp del: user_ack_dev)
  have l1: "log (dev s1) = log (dev s)" by (simp add: s1)
  obtain v s2 where m: "set_masked ?h os w s1 = (v, s2)" and s2: "stdout s2 = stdout s" "cur (dev s2) = set_address w"
      "log (dev s2) = log (dev s) @ set_before u w"
    and v: "case v of Inl c \<Rightarrow> c \<in> {0, 1} | Inr v \<Rightarrow> v = set_new_value w (rd_value an u w (log (dev s)))
      \<and> (set_mask w = 0 \<or> 0 \<le> rd_value an u w (log (dev s)))
      \<and> (set_mask w = 0 \<or> set_yes os \<or> says True (stdin s1))"
    using set_masked_rec [of s1 w an u opens funcs os] unfolding l1 by (auto simp: s1(1,2))
  have idle: "set_idle u w s c s" "set_idle u w s c s1" "set_idle u w s c s2" if "c \<in> {0, 1}" for c
    using that by (simp_all add: set_idle_def s1 s2)
  show ?thesis
  proof (cases v)
    case (Inl c)
    then show ?thesis using v idle by (auto simp: set_run_def o g m Let_def set_outcome_def)
  next
    case (Inr x)
    obtain c s3 where t: "set_transfer ?h os w x s2 = Exit c s3" and d: "set_idle u w s c s3 \<or> set_done an u os w s c s3"
      using set_transfer_rec [OF s2(2) assms(3,4), of an opens funcs os x] v
      unfolding Inr Let_def set_idle_def set_done_def s2 by auto
    have "go \<Longrightarrow> set_yes os \<or> set_consent w (stdin s)"
      using v s1(3) unfolding go Inr set_consent_def by auto
    with d idle show ?thesis by (auto simp: set_run_def o g m Inr t Let_def set_outcome_def)
  qed
qed

section \<open>The values of the command line\<close>

lemma block_values_ok:
  "length block + length args \<le> 32 \<Longrightarrow>
    \<exists>r. block_values args block = Inr r \<and> (\<forall>b. r = Some b \<longrightarrow> length b = length block + length args)"
proof (induction args arbitrary: block)
  case (Cons a args)
  then show ?case
    using Cons.IH [of "block @ [of_int (fst (strtol 0 a))]"] by (auto simp: split_def Let_def BLOCK_MAX_def)
qed simp

lemma set_mode_args: "set_mode mk args = Some (sz, pec) \<Longrightarrow> block_size sz \<Longrightarrow> length args \<le> 36 \<and> mk = None"
  by (auto simp: set_mode_def Let_def block_size_def BLOCK_MAX_def I2C_SMBUS_BYTE_def I2C_SMBUS_BYTE_DATA_def
    I2C_SMBUS_BLOCK_DATA_def I2C_SMBUS_I2C_BLOCK_DATA_def split: if_splits option.splits)

definition size_max :: "nat \<Rightarrow> int" where
  "size_max sz = (if sz = I2C_SMBUS_WORD_DATA then 0xffff else 0xff)"

definition what_ok :: "set_what \<Rightarrow> bool" where
  "what_ok w =
     (0x03 \<le> set_address w \<and> set_address w \<le> 0x77 \<and> 0 \<le> set_daddress w \<and> set_daddress w \<le> 0xff
      \<and> length (set_block w) \<le> 32 \<and> set_mask w \<le> 0xffff
      \<and> (if set_size w = I2C_SMBUS_BYTE_DATA \<or> set_size w = I2C_SMBUS_WORD_DATA
         then 0 \<le> set_value w \<and> set_value w \<le> size_max (set_size w) else set_value w = -1))"

lemma set_values_ok:
  assumes "block_size sz \<longrightarrow> length args \<le> 36"
  shows "\<exists>r. set_values sz args = Inr r \<and> (\<forall>v b. r = Some (v, b) \<longrightarrow> length b \<le> 32 \<and>
    (if sz = I2C_SMBUS_BYTE_DATA \<or> sz = I2C_SMBUS_WORD_DATA then 0 \<le> v \<and> v \<le> size_max sz else v = -1))"
proof (cases "sz = I2C_SMBUS_BYTE_DATA \<or> sz = I2C_SMBUS_WORD_DATA")
  case True
  then show ?thesis
    by (auto simp: set_values_def Let_def split_def size_max_def I2C_SMBUS_BYTE_DATA_def I2C_SMBUS_WORD_DATA_def)
next
  case False
  have "length (butlast (drop 3 args)) \<le> 32" if "block_size sz" using assms that by simp
  then show ?thesis using False block_values_ok [of "[]" "butlast (drop 3 args)"] by (auto simp: set_values_def)
qed

lemma set_operands_ok:
  "\<exists>r. set_operands mk args = Inr r \<and> (\<forall>w. r = Some w \<longrightarrow> what_ok w)"
proof (cases "set_mode mk args")
  case None
  then show ?thesis by (simp add: set_operands_def Let_def split_def)
next
  case (Some p)
  obtain sz pec where p: "p = (sz, pec)" by (metis surj_pair)
  have "block_size sz \<longrightarrow> length args \<le> 36" using set_mode_args [of mk args sz pec] Some p by auto
  from set_values_ok [OF this] obtain r where r: "set_values sz args = Inr r"
      "\<forall>v b. r = Some (v, b) \<longrightarrow> length b \<le> 32 \<and>
        (if sz = I2C_SMBUS_BYTE_DATA \<or> sz = I2C_SMBUS_WORD_DATA then 0 \<le> v \<and> v \<le> size_max sz else v = -1)" by blast
  have m: "m \<le> 0xffff" if "set_vmask sz mk = Some m" for m
    using that by (auto simp: set_vmask_def split_def Let_def split: option.splits if_splits)
  show ?thesis
    using r parse_i2c_address_range [of "args ! 1"] m
    by (cases r) (auto simp: set_operands_def Let_def split_def Some p what_ok_def)
qed

lemma set_operands_block:
  "set_operands mk args = Inr (Some w) \<Longrightarrow> \<not> (block_size (set_size w) \<and> set_mask w \<noteq> 0)"
  using set_mode_args [of mk args]
  by (auto simp: set_operands_def set_vmask_def Let_def split_def rbind_Inr_conv split: if_splits option.splits)

section \<open>The run\<close>

text \<open>
  C10. Whatever the command line, the answers of the user and the chips, a run of i2cset on a
  system whose list of busses can be read does not go wrong. It makes at most one write, the
  one of the command line, at a valid chip address: without the option -y only with the consent
  of each question on the standard input, after the read of the old value when there is a
  mask and only if this read succeeded, and followed by at most one read, when it was asked
  for. The exit code and what is printed say how the write and
  the read back were answered.
\<close>

theorem i2cset_main_spec:
  assumes "busses_ok (rec_host an u opens funcs) fs" and "length u = 34"
  shows "\<exists>c s'. i2cset_main (rec_host an u opens funcs) fs argv s = Exit c s' \<and>
     (untouched s s' \<and> c \<in> {0, 1}
      \<or> (\<exists>os args w.
           set_flags (tl argv)
             \<lparr>set_force = False, set_yes = False, set_version = False, set_readback = False, maskp = None\<rparr> = Some (os, args)
           \<and> set_operands (maskp os) args = Inr (Some w) \<and> what_ok w
           \<and> set_outcome an u os w s (Exit c s')))"
proof -
  let ?h = "rec_host an u opens funcs"
  let ?os = "\<lparr>set_force = False, set_yes = False, set_version = False, set_readback = False, maskp = None\<rparr>"
  have same: "untouched s s" by (simp add: untouched_def)
  show ?thesis
  proof (cases "set_flags (tl argv) ?os")
    case None
    then show ?thesis by (simp add: i2cset_main_def same)
  next
    case (Some p)
    obtain os args where p: "p = (os, args)" by (metis surj_pair)
    obtain n where n: "lookup_i2c_bus ?h fs (args ! 0) = Inr n" "n < 10 ^ 10"
      by (rule lookup_total [OF assms(1)])
    obtain r where r: "set_operands (maskp os) args = Inr r" and ok: "\<And>w. r = Some w \<Longrightarrow> what_ok w"
      using set_operands_ok by blast
    show ?thesis
    proof (cases "set_version os \<or> length args < 3 \<or> n < 0 \<or> r = None")
      case True
      then show ?thesis by (auto simp: i2cset_main_def Some p n(1) r same)
    next
      case False
      then obtain w where w: "r = Some w" by auto
      have "set_outcome an u os w s (set_run ?h os n w s)"
        by (rule set_run_rec) (use False n(2) assms(2) ok [OF w] in \<open>auto simp: what_ok_def\<close>)
      moreover have "i2cset_main ?h fs argv s = set_run ?h os n w s"
        using False by (simp add: i2cset_main_def Some p n(1) r w)
      ultimately show ?thesis
        using ok [OF w] r by (cases "set_run ?h os n w s") (auto simp: Some p w set_outcome_def)
    qed
  qed
qed

lemma set_before_le: "length (set_before u w) \<le> 1"
  by (simp add: set_before_def)

lemma set_outcome_log: "set_outcome an u os w s (Exit c s') \<Longrightarrow> length (log (dev s')) \<le> length (log (dev s)) + 3"
  using set_before_le [of u w] by (auto simp: set_outcome_def set_idle_def set_done_def Let_def)

lemma i2cset_main_spec_witness:
  "\<exists>c s'. i2cset_main (rec_host \<lparr>answer = (\<lambda>l t. (0, [7])), slave_answer = (\<lambda>l f a. 0), pec_answer = (\<lambda>e. 0)\<rparr>
      (replicate 34 0) (\<lambda>n. 3) (\<lambda>n. Some (-1))) sample_fs
      [[], chars ''-y'', chars ''1'', chars ''0x20'', chars ''0'', chars ''5'']
      \<lparr>dev = \<lparr>cur = 0, log = []\<rparr>, stdin = [], stdout = []\<rparr> = Exit c s'
    \<and> length (log (dev s')) \<le> 3"
proof -
  let ?h = "rec_host \<lparr>answer = (\<lambda>l t. (0, [7])), slave_answer = (\<lambda>l f a. 0), pec_answer = (\<lambda>e. 0)\<rparr> (replicate 34 0)
      (\<lambda>n. 3) (\<lambda>n. Some (-1)) :: recording host"
  have "busses_ok ?h sample_fs" by (rule sample_busses_ok)
  from i2cset_main_spec [OF this, of "[[], chars ''-y'', chars ''1'', chars ''0x20'', chars ''0'', chars ''5'']"
      "\<lparr>dev = \<lparr>cur = 0, log = []\<rparr>, stdin = [], stdout = []\<rparr>"]
  obtain c s' os w where "i2cset_main ?h sample_fs [[], chars ''-y'', chars ''1'', chars ''0x20'', chars ''0'', chars ''5'']
      \<lparr>dev = \<lparr>cur = 0, log = []\<rparr>, stdin = [], stdout = []\<rparr> = Exit c s'"
    and "log (dev s') = [] \<or> length (log (dev s')) \<le> 3"
    using set_outcome_log by (fastforce simp: untouched_def)
  then show ?thesis by auto
qed

section \<open>The mask\<close>

text \<open>
  Under a mask, the value written has the bits of the command line where the mask has a
  one and those of the old value elsewhere, and it stays in the range of the register when
  both are in it, even for a negative mask, which the options do not exclude.
\<close>

theorem set_new_value_bits:
  assumes "set_mask w \<noteq> 0" and "0 \<le> set_value w" "set_value w \<le> size_max (set_size w)"
    and "0 \<le> old" "old \<le> size_max (set_size w)"
  shows "(\<forall>i. bit (set_new_value w old) i = (if bit (set_mask w) i then bit (set_value w) i else bit old i))
    \<and> 0 \<le> set_new_value w old \<and> set_new_value w old \<le> size_max (set_size w)"
proof -
  let ?k = "if set_size w = I2C_SMBUS_WORD_DATA then 16 else 8 :: nat"
  have max: "size_max (set_size w) = 2 ^ ?k - 1" by (simp add: size_max_def)
  then have t: "take_bit ?k (set_value w) = set_value w" "take_bit ?k old = old"
    using assms(2-5) by (simp_all add: take_bit_int_eq_self)
  have low: "i < ?k" if "bit (set_value w) i \<or> bit old i" for i
    using that t by (metis bit_take_bit_iff)
  have bits: "bit (set_new_value w old) i = (if bit (set_mask w) i then bit (set_value w) i else bit old i)" for i
    by (simp add: set_new_value_def assms(1) bit_or_iff bit_and_iff bit_not_iff)
  have "take_bit ?k (set_new_value w old) = set_new_value w old"
    by (rule bit_eqI) (use low in \<open>auto simp: bit_take_bit_iff bits split: if_splits\<close>)
  then have "0 \<le> set_new_value w old" "set_new_value w old < 2 ^ ?k"
    by (metis take_bit_nonnegative, metis take_bit_int_less_exp)
  then show ?thesis
    unfolding max by (simp add: bits)
qed

lemma set_new_value_bits_witness:
  "set_new_value \<lparr>set_address = 0x20, set_size = I2C_SMBUS_BYTE_DATA, set_daddress = 0, set_pec_mode = False,
     set_value = 0x35, set_mask = 0x0F, set_block = []\<rparr> 0xC9 \<le> 0xFF"
  using set_new_value_bits [of "\<lparr>set_address = 0x20, set_size = I2C_SMBUS_BYTE_DATA, set_daddress = 0,
      set_pec_mode = False, set_value = 0x35, set_mask = 0x0F, set_block = []\<rparr>" "0xC9"]
  by (simp add: size_max_def I2C_SMBUS_BYTE_DATA_def I2C_SMBUS_WORD_DATA_def)

end
