(* ===== verification/I2cDump.thy ===== *)
theory I2cDump
  imports I2cGet "HOL-Library.Sublist"
begin

text \<open>
  i2cdump.c: the options, the bank of registers it switches to and back, the block reads
  into the array of 288 bytes, and the two tables. The array of the 256 values, and the array
  of the block reads, are passed on as lists, every access to which is checked; their
  uninitialised contents are parameters.
\<close>

section \<open>The command line\<close>

record dump_opts =
  dump_force :: bool
  dump_yes :: bool
  dump_version :: bool
  rangep :: "u8 list option"

fun dump_flags :: "u8 list list \<Rightarrow> dump_opts \<Rightarrow> (dump_opts \<times> u8 list list) option" where
  "dump_flags [] os = Some (os, [])"
| "dump_flags (a # args) os =
     (if char_at a 0 \<noteq> 45 then Some (os, a # args)
      else let c = char_at a 1 in
        if c = 86 then dump_flags args (os\<lparr>dump_version := True\<rparr>)
        else if c = 102 then dump_flags args (os\<lparr>dump_force := True\<rparr>)
        else if c = 114 then
          (case args of [] \<Rightarrow> Some (os\<lparr>rangep := None\<rparr>, []) | r # args \<Rightarrow> dump_flags args (os\<lparr>rangep := Some r\<rparr>))
        else if c = 121 then dump_flags args (os\<lparr>dump_yes := True\<rparr>)
        else None)"

text \<open>The kind of the reads, whether only even addresses are read, and PEC.\<close>

definition dump_mode :: "u8 list list \<Rightarrow> (nat \<times> bool \<times> bool) option" where
  "dump_mode args =
     (if length args < 3 then Some (I2C_SMBUS_BYTE_DATA, False, False)
      else let c = char_at (args ! 2) 0; pec = (char_at (args ! 2) 1 = 112) in
        if c = 98 then Some (I2C_SMBUS_BYTE_DATA, False, pec)
        else if c = 119 then Some (I2C_SMBUS_WORD_DATA, False, pec)
        else if c = 87 then Some (I2C_SMBUS_WORD_DATA, True, False)
        else if c = 115 then Some (I2C_SMBUS_BLOCK_DATA, False, pec)
        else if c = 99 then Some (I2C_SMBUS_BYTE, False, pec)
        else if args ! 2 = chars ''i'' then Some (I2C_SMBUS_I2C_BLOCK_DATA, False, False)
        else None)"

definition dump_bankreg :: "nat \<Rightarrow> u8 list list \<Rightarrow> int option" where
  "dump_bankreg sz args =
     (if length args > 4 then
        let (bankreg, rest) = strtol 0 (args ! 4) in
        if rest \<noteq> [] \<or> sz = I2C_SMBUS_BLOCK_DATA then None
        else if bankreg < 0 \<or> bankreg > 0xff then None
        else Some bankreg
      else Some 0x4E)"

definition dump_bank :: "nat \<Rightarrow> u8 list list \<Rightarrow> (int \<times> int) option" where
  "dump_bank sz args =
     (if length args > 3 then
        let (bank, rest) = strtol 0 (args ! 3) in
        if rest \<noteq> [] \<or> sz = I2C_SMBUS_I2C_BLOCK_DATA then None
        else if (sz = I2C_SMBUS_BYTE_DATA \<or> sz = I2C_SMBUS_WORD_DATA) \<and> (bank < 0 \<or> bank > 15) then None
        else if sz = I2C_SMBUS_BLOCK_DATA \<and> (bank < 0 \<or> bank > 0xff) then None
        else map_option (Pair bank) (dump_bankreg sz args)
      else Some (0, 0x4E))"

definition dump_range :: "nat \<Rightarrow> bool \<Rightarrow> u8 list option \<Rightarrow> (int \<times> int) option" where
  "dump_range sz ev rg =
     (case rg of None \<Rightarrow> Some (0, 0xff)
      | Some r \<Rightarrow>
        let (first, dash) = strtol 0 r in
        if dash = r \<or> char_at dash 0 \<noteq> 45 \<or> first < 0 \<or> first > 0xff then None
        else let (lst, rest) = strtol 0 (drop 1 dash) in
          if rest = drop 1 dash \<or> rest \<noteq> [] \<or> lst < first \<or> lst > 0xff then None
          else if sz = I2C_SMBUS_BYTE \<or> sz = I2C_SMBUS_BYTE_DATA
              \<or> sz = I2C_SMBUS_WORD_DATA \<and> (\<not> ev \<or> first mod 2 = 0 \<and> lst mod 2 \<noteq> 0)
            then Some (first, lst)
          else None)"

record dump_what =
  dump_address :: int
  dump_size :: nat
  even_only :: bool
  dump_pec :: bool
  bank :: int
  bankreg :: int
  first_reg :: int
  last_reg :: int

definition dump_operands :: "u8 list option \<Rightarrow> u8 list list \<Rightarrow> dump_what option" where
  "dump_operands rg args =
     (if length args < 2 then None
      else let address = parse_i2c_address (args ! 1) in
        if address < 0 then None
        else case dump_mode args of None \<Rightarrow> None
          | Some (sz, ev, pec) \<Rightarrow>
            case dump_bank sz args of None \<Rightarrow> None
            | Some (b, breg) \<Rightarrow>
              case dump_range sz ev rg of None \<Rightarrow> None
              | Some (f, l) \<Rightarrow>
                Some \<lparr>dump_address = address, dump_size = sz, even_only = ev, dump_pec = pec, bank = b,
                  bankreg = breg, first_reg = f, last_reg = l\<rparr>)"

definition dump_check_funcs :: "u32 option \<Rightarrow> nat \<Rightarrow> int" where
  "dump_check_funcs fs sz =
     (case fs of None \<Rightarrow> -1
      | Some funcs \<Rightarrow>
        if sz = I2C_SMBUS_BYTE then
          if \<not> has funcs I2C_FUNC_SMBUS_READ_BYTE then -1
          else if \<not> has funcs I2C_FUNC_SMBUS_WRITE_BYTE then -1 else 0
        else if sz = I2C_SMBUS_BYTE_DATA then if \<not> has funcs I2C_FUNC_SMBUS_READ_BYTE_DATA then -1 else 0
        else if sz = I2C_SMBUS_WORD_DATA then if \<not> has funcs I2C_FUNC_SMBUS_READ_WORD_DATA then -1 else 0
        else if sz = I2C_SMBUS_BLOCK_DATA then if \<not> has funcs I2C_FUNC_SMBUS_READ_BLOCK_DATA then -1 else 0
        else if sz = I2C_SMBUS_I2C_BLOCK_DATA then if \<not> has funcs I2C_FUNC_SMBUS_READ_I2C_BLOCK then -1 else 0
        else 0)"

section \<open>The bank\<close>

definition banked :: "dump_what \<Rightarrow> bool" where
  "banked w = (bank w \<noteq> 0 \<and> dump_size w \<noteq> I2C_SMBUS_BLOCK_DATA)"

text \<open>The old bank, or \<open>None\<close> when the switch failed.\<close>

definition switch_bank :: "'d host \<Rightarrow> dump_what \<Rightarrow> 'd tool \<Rightarrow> int option \<times> 'd tool" where
  "switch_bank h w s =
     (if \<not> banked w then (Some 0, s)
      else let (res, s) = on_dev (i2c_smbus_read_byte_data (smbus h) (of_int (bankreg w))) s in
        if res < 0 then (None, s)
        else let old_bank = res;
                 (res, s) = on_dev (i2c_smbus_write_byte_data (smbus h) (of_int (bankreg w))
                   (of_int (bank w OR (old_bank AND 0xf0)))) s
          in if res < 0 then (None, s) else (Some old_bank, s))"

definition restore_bank :: "'d host \<Rightarrow> dump_what \<Rightarrow> int \<Rightarrow> 'd tool \<Rightarrow> 'd tool" where
  "restore_bank h w old_bank s =
     (if banked w then
        snd (on_dev (i2c_smbus_write_byte_data (smbus h) (of_int (bankreg w)) (of_int old_bank)) s)
      else s)"

section \<open>Block reads\<close>

text \<open>
  The loop of the I2C block reads: each one is put behind the bytes read so far, at
  \<open>cblock + res\<close>. It ends at 256 bytes, or with a read that gave none.
\<close>

function dump_i2c_blocks :: "'d smbus_api \<Rightarrow> nat \<Rightarrow> u8 list \<Rightarrow> 'd \<Rightarrow> fault + int \<times> u8 list \<times> 'd" where
  "dump_i2c_blocks k res cblock d =
     (if res \<ge> 256 then Inr (int res, cblock, d)
      else case i2c_smbus_read_i2c_block_data k (of_nat res) 32 (drop res cblock) d of
          Inl e \<Rightarrow> Inl e
        | Inr (i, vs, d) \<Rightarrow>
            if i \<le> 0 then Inr (i, take res cblock @ vs, d)
            else dump_i2c_blocks k (res + nat i) (take res cblock @ vs) d)"
  by pat_completeness auto
termination by (relation "measure (\<lambda>(k, res, cblock, d). 256 - res)") auto

declare dump_i2c_blocks.simps [simp del]

text \<open>
  The loops that fill \<open>block\<close>: at most 256 of the bytes read, and -1 behind them for the I2C
  block mode.
\<close>

fun copy_cells :: "nat list \<Rightarrow> u8 list \<Rightarrow> int list \<Rightarrow> fault + int list" where
  "copy_cells [] cblock block = Inr block"
| "copy_cells (i # is) cblock block =
     rbind (load_at cblock i) (\<lambda>b. rbind (store_at i (int (unat b)) block) (copy_cells is cblock))"

fun fill_cells :: "nat list \<Rightarrow> int \<Rightarrow> int list \<Rightarrow> fault + int list" where
  "fill_cells [] v block = Inr block"
| "fill_cells (i # is) v block = rbind (store_at i v block) (fill_cells is v)"

definition dump_values :: "nat \<Rightarrow> int \<Rightarrow> u8 list \<Rightarrow> int list \<Rightarrow> fault + int list" where
  "dump_values sz res cblock block =
     (let res = (if res \<ge> 256 then 256 else res) in
      rbind (copy_cells [0..<nat res] cblock block) (\<lambda>block.
        if sz \<noteq> I2C_SMBUS_BLOCK_DATA then fill_cells [nat res..<256] (-1) block else Inr block))"

text \<open>
  What comes before the table: the length of the SMBus block and the values, or \<open>None\<close> for
  the exit with code 1.
\<close>

definition dump_fetch ::
  "'d host \<Rightarrow> dump_what \<Rightarrow> u8 list \<Rightarrow> int list \<Rightarrow> 'd tool \<Rightarrow> fault + (int \<times> int list) option \<times> 'd tool" where
  "dump_fetch h w cblock block s =
     (if dump_size w = I2C_SMBUS_BLOCK_DATA \<or> dump_size w = I2C_SMBUS_I2C_BLOCK_DATA then
        rbind (if dump_size w = I2C_SMBUS_BLOCK_DATA
            then i2c_smbus_read_block_data (smbus h) (of_int (bank w)) cblock (dev s)
            else dump_i2c_blocks (smbus h) 0 cblock (dev s)) (\<lambda>(res, cblock, d).
          let s = s\<lparr>dev := d\<rparr> in
          if res \<le> 0 then Inr (None, s)
          else rbind (dump_values (dump_size w) res cblock block) (\<lambda>block.
            Inr (Some (if dump_size w = I2C_SMBUS_BLOCK_DATA then res else 0, block), s)))
      else if dump_size w = I2C_SMBUS_BYTE then
        let (res, s) = on_dev (i2c_smbus_write_byte (smbus h) (of_int (first_reg w))) s in
        if res \<noteq> 0 then Inr (None, s) else Inr (Some (0, block), s)
      else Inr (Some (0, block), s))"

section \<open>The table of bytes\<close>

definition put2 :: "dump_what \<Rightarrow> string \<Rightarrow> u8 list" where
  "put2 w t = (if dump_size w = I2C_SMBUS_WORD_DATA then chars t @ chars t else chars t)"

text \<open>The read for the cell of register \<open>a\<close>: its result and the new values.\<close>

definition dump_read :: "'d host \<Rightarrow> dump_what \<Rightarrow> nat \<Rightarrow> int list \<Rightarrow> 'd tool \<Rightarrow> fault + int \<times> int list \<times> 'd tool" where
  "dump_read h w a block s =
     (if dump_size w = I2C_SMBUS_BYTE_DATA then
        let (res, s) = on_dev (i2c_smbus_read_byte_data (smbus h) (of_nat a)) s in
        rbind (store_at a res block) (\<lambda>block. Inr (res, block, s))
      else if dump_size w = I2C_SMBUS_WORD_DATA then
        let (res, s) = on_dev (i2c_smbus_read_word_data (smbus h) (of_nat a)) s in
        rbind (store_at a (if res < 0 then res else res mod 256) block) (\<lambda>block.
        rbind (store_at (a + 1) (if res < 0 then res else res div 256) block) (\<lambda>block.
        Inr (res, block, s)))
      else if dump_size w = I2C_SMBUS_BYTE then
        let (res, s) = on_dev (i2c_smbus_read_byte (smbus h)) s in
        rbind (store_at a res block) (\<lambda>block. Inr (res, block, s))
      else rbind (load_at block a) (\<lambda>res. Inr (res, block, s)))"

definition cell_text :: "dump_what \<Rightarrow> int \<Rightarrow> nat \<Rightarrow> int \<Rightarrow> int list \<Rightarrow> fault + u8 list" where
  "cell_text w s_length a res block =
     (if dump_size w = I2C_SMBUS_BLOCK_DATA \<and> int a \<ge> s_length then Inr (chars ''   '')
      else if res < 0 then Inr (put2 w ''XX '')
      else rbind (load_at block a) (\<lambda>v.
        if dump_size w = I2C_SMBUS_WORD_DATA then
          rbind (load_at block (a + 1)) (\<lambda>v'. Inr (hex 2 (nat v) @ [32] @ hex 2 (nat v') @ [32]))
        else Inr (hex 2 (nat v) @ [32])))"

definition dump_cell ::
  "'d host \<Rightarrow> dump_what \<Rightarrow> int \<Rightarrow> nat \<Rightarrow> int list \<times> 'd tool \<Rightarrow> fault + int list \<times> 'd tool" where
  "dump_cell h w s_length a = (\<lambda>(block, s).
     if int a < first_reg w \<or> int a > last_reg w then Inr (block, print (put2 w ''   '') s)
     else rbind (dump_read h w a block s) (\<lambda>(res, block, s).
       rbind (cell_text w s_length a res block) (\<lambda>t. Inr (block, print t s))))"

fun dump_cells ::
  "'d host \<Rightarrow> dump_what \<Rightarrow> int \<Rightarrow> nat list \<Rightarrow> int list \<times> 'd tool \<Rightarrow> fault + int list \<times> 'd tool" where
  "dump_cells h w s_length [] bs = Inr bs"
| "dump_cells h w s_length (a # as) bs = rbind (dump_cell h w s_length a bs) (dump_cells h w s_length as)"

text \<open>The characters at the end of a row.\<close>

definition dump_char :: "int \<Rightarrow> u8" where
  "dump_char res =
     (let c = res mod 256 in
      if res < 0 then 88 else if c = 0 \<or> c = 0xff then 46 else if c < 32 \<or> c \<ge> 127 then 63 else of_int c)"

fun dump_chars :: "dump_what \<Rightarrow> int \<Rightarrow> int list \<Rightarrow> nat list \<Rightarrow> fault + u8 list" where
  "dump_chars w s_length block [] = Inr []"
| "dump_chars w s_length block (a # as) =
     (if dump_size w = I2C_SMBUS_BLOCK_DATA \<and> int a \<ge> s_length then Inr []
      else rbind (if int a < first_reg w \<or> int a > last_reg w then Inr 32
          else rbind (load_at block a) (\<lambda>v. Inr (dump_char v))) (\<lambda>c.
        rbind (dump_chars w s_length block as) (\<lambda>cs. Inr (c # cs))))"

text \<open>The columns of a row: word reads take two at once.\<close>

definition columns :: "dump_what \<Rightarrow> nat list" where
  "columns w = (if dump_size w = I2C_SMBUS_WORD_DATA then [0, 2, 4, 6, 8, 10, 12, 14] else [0..<16])"

fun dump_rows ::
  "'d host \<Rightarrow> dump_what \<Rightarrow> int \<Rightarrow> nat list \<Rightarrow> int list \<times> 'd tool \<Rightarrow> fault + int list \<times> 'd tool" where
  "dump_rows h w s_length [] bs = Inr bs"
| "dump_rows h w s_length (i # is) bs =
     (if dump_size w = I2C_SMBUS_BLOCK_DATA \<and> int i \<ge> s_length then Inr bs
      else if int i div 16 < first_reg w div 16 then dump_rows h w s_length is bs
      else if int i div 16 > last_reg w div 16 then Inr bs
      else rbind (dump_cells h w s_length (map (\<lambda>j. i + j) (columns w)) (fst bs, print (hex 2 i @ chars '': '') (snd bs)))
        (\<lambda>(block, s). rbind (dump_chars w s_length block (map (\<lambda>j. i + j) [0..<16])) (\<lambda>cs.
          dump_rows h w s_length is (block, print (chars ''   '' @ cs @ [10]) s))))"

definition byte_header :: "u8 list" where
  "byte_header = chars ''     0  1  2  3  4  5  6  7  8  9  a  b  c  d  e  f    0123456789abcdef'' @ [10]"

section \<open>The table of words\<close>

definition word_cell :: "'d host \<Rightarrow> dump_what \<Rightarrow> nat \<Rightarrow> 'd tool \<Rightarrow> 'd tool" where
  "word_cell h w a s =
     (if int a < first_reg w \<or> int a > last_reg w then print (chars ''     '') s
      else let (res, s) = on_dev (i2c_smbus_read_word_data (smbus h) (of_nat a)) s in
        print (if res < 0 then chars ''XXXX '' else hex 4 (nat (res mod 65536)) @ [32]) s)"

fun word_cells :: "'d host \<Rightarrow> dump_what \<Rightarrow> nat list \<Rightarrow> 'd tool \<Rightarrow> 'd tool" where
  "word_cells h w [] s = s"
| "word_cells h w (a # as) s = word_cells h w as (word_cell h w a s)"

fun word_rows :: "'d host \<Rightarrow> dump_what \<Rightarrow> nat list \<Rightarrow> 'd tool \<Rightarrow> 'd tool" where
  "word_rows h w [] s = s"
| "word_rows h w (i # is) s =
     (if int i div 8 < first_reg w div 8 then word_rows h w is s
      else if int i div 8 > last_reg w div 8 then s
      else word_rows h w is (print [10] (word_cells h w (map (\<lambda>j. i + j) [0..<8]) (print (hex 2 i @ chars '': '') s))))"

definition word_header :: "u8 list" where
  "word_header = chars ''     0,8  1,9  2,a  3,b  4,c  5,d  6,e  7,f'' @ [10]"

section \<open>The program\<close>

text \<open>The fetch and the table; \<open>None\<close> is the exit with code 1.\<close>

definition dump_table ::
  "'d host \<Rightarrow> dump_what \<Rightarrow> u8 list \<Rightarrow> int list \<Rightarrow> 'd tool \<Rightarrow> fault + bool \<times> 'd tool" where
  "dump_table h w cblock block s =
     (if dump_size w \<noteq> I2C_SMBUS_WORD_DATA \<or> even_only w then
        rbind (dump_fetch h w cblock block s) (\<lambda>(r, s).
          case r of None \<Rightarrow> Inr (False, s)
          | Some (s_length, block) \<Rightarrow>
              rbind (dump_rows h w s_length (map (\<lambda>i. 16 * i) [0..<16]) (block, print byte_header s))
                (\<lambda>(block, s). Inr (True, s)))
      else Inr (True, word_rows h w (map (\<lambda>i. 8 * i) [0..<32]) (print word_header s)))"

definition dump_body :: "'d host \<Rightarrow> dump_what \<Rightarrow> u8 list \<Rightarrow> int list \<Rightarrow> 'd tool \<Rightarrow> 'd stop" where
  "dump_body h w cblock block s =
     (let (old, s) = switch_bank h w s in
      case old of None \<Rightarrow> Exit 1 s
      | Some old_bank \<Rightarrow>
        case dump_table h w cblock block s of Inl e \<Rightarrow> Crash e
        | Inr (ok, s) \<Rightarrow> if \<not> ok then Exit 1 s else Exit 0 (restore_bank h w old_bank s))"

definition dump_run ::
  "'d host \<Rightarrow> dump_opts \<Rightarrow> int \<Rightarrow> dump_what \<Rightarrow> u8 list \<Rightarrow> int list \<Rightarrow> 'd tool \<Rightarrow> 'd stop" where
  "dump_run h os i2cbus w cblock block s =
     (case open_i2c_dev h i2cbus 20 of Inl e \<Rightarrow> Crash e
      | Inr (fl, filename) \<Rightarrow>
        if fl < 0 then Exit 1 s
        else if dump_check_funcs (get_funcs h filename) (dump_size w) \<noteq> 0 then Exit 1 s
        else let (r, s) = set_slave_addr h (dump_address w) (dump_force os) s in
          if r \<noteq> 0 then Exit 1 s
          else let (r, s) = switch_pec h (dump_pec w) True s in
            if r < 0 then Exit 1 s
            else let (go, s) = (if dump_yes os then (True, s) else user_ack True s) in
              if \<not> go then Exit 0 s else dump_body h w cblock block s)"

definition i2cdump_main ::
  "'d host \<Rightarrow> file_system \<Rightarrow> u8 list list \<Rightarrow> u8 list \<Rightarrow> int list \<Rightarrow> 'd tool \<Rightarrow> 'd stop" where
  "i2cdump_main h fs argv cblock block s =
     (case dump_flags (tl argv) \<lparr>dump_force = False, dump_yes = False, dump_version = False, rangep = None\<rparr> of
        None \<Rightarrow> Exit 1 s
      | Some (os, args) \<Rightarrow>
        if dump_version os then Exit 0 s
        else if args = [] then Exit 1 s
        else case lookup_i2c_bus h fs (args ! 0) of Inl e \<Rightarrow> Crash e
          | Inr i2cbus \<Rightarrow>
            if i2cbus < 0 then Exit 1 s
            else case dump_operands (rangep os) args of None \<Rightarrow> Exit 1 s
              | Some w \<Rightarrow> dump_run h os i2cbus w cblock block s)"

section \<open>The blocks stay in their array\<close>

lemma drop_splice: "res \<le> length (cb :: u8 list) \<Longrightarrow> length vs = length (drop res cb) \<Longrightarrow> length (take res cb @ vs) = length cb"
  by simp

lemma read_i2c_block_safe:
  assumes "smbus_kernel k" and "32 \<le> length vs"
  shows "blocks_safe vs (i2c_smbus_read_i2c_block_data k c 32 vs d)"
proof -
  have "length ((uninit_union k)[0 := clamp_length 32]) = 34" using assms(1) by (simp add: smbus_kernel_def)
  from block_result_safe [OF assms(1) this _ assms(2), of _ I2C_SMBUS_READ c d] show ?thesis
    by (simp add: i2c_smbus_read_i2c_block_data_def block_kinds_def Let_def)
qed

lemma dump_i2c_blocks_safe:
  assumes "smbus_kernel k" and "length cb = 288" and "res \<le> 287"
  shows "\<exists>r cb' d'. dump_i2c_blocks k res cb d = Inr (r, cb', d') \<and> length cb' = 288 \<and> -1 \<le> r \<and> r \<le> 287"
  using assms(2,3)
proof (induction "256 - res" arbitrary: res cb d rule: less_induct)
  case less
  show ?case
  proof (cases "256 \<le> res")
    case True
    then show ?thesis using less.prems by (simp add: dump_i2c_blocks.simps [of k res])
  next
    case False
    then have "32 \<le> length (drop res cb)" using less.prems by simp
    from read_i2c_block_safe [OF assms(1) this, of "of_nat res" d] obtain i vs d'
      where b: "i2c_smbus_read_i2c_block_data k (of_nat res) 32 (drop res cb) d = Inr (i, vs, d')"
        "-1 \<le> i" "i \<le> 32" "length vs = length (drop res cb)"
      by (auto simp: blocks_safe_def)
    have l: "length (take res cb @ vs) = 288" using b(4) less.prems by simp
    show ?thesis
    proof (cases "i \<le> 0")
      case True
      then show ?thesis using False b l by (simp add: dump_i2c_blocks.simps [of k res])
    next
      case pos: False
      have "dump_i2c_blocks k res cb d = dump_i2c_blocks k (res + nat i) (take res cb @ vs) d'"
        using False b pos by (subst dump_i2c_blocks.simps) simp
      moreover have "256 - (res + nat i) < 256 - res" "res + nat i \<le> 287" using False b(3) pos by simp_all
      ultimately show ?thesis using less.hyps [of "res + nat i", OF _ l, of d'] by simp
    qed
  qed
qed

section \<open>What a dump does to the bus\<close>

text \<open>
  Reads of the chip alone, and of registers in the range: the relation between two states on
  the way through the table.
\<close>

definition read_ok :: "dump_what \<Rightarrow> transaction \<Rightarrow> bool" where
  "read_ok w t =
     (chip t = dump_address w \<and> rw t = 1
      \<and> (kind t = 2 \<or> kind t = 3 \<longrightarrow> first_reg w \<le> int (unat (command t)) \<and> int (unat (command t)) \<le> last_reg w))"

definition reads :: "dump_what \<Rightarrow> recording tool \<Rightarrow> recording tool \<Rightarrow> bool" where
  "reads w s s' =
     (cur (dev s) = dump_address w \<longrightarrow> cur (dev s') = dump_address w
       \<and> (\<exists>ts. log (dev s') = log (dev s) @ ts \<and> list_all (read_ok w) ts))"

lemma reads_refl: "reads w s s"
  by (simp add: reads_def)

lemma reads_trans: "reads w s s1 \<Longrightarrow> reads w s1 s2 \<Longrightarrow> reads w s s2"
  by (fastforce simp: reads_def)

lemma reads_print: "reads w s s1 \<Longrightarrow> reads w s (print t s1)"
  by (simp add: reads_def)

lemma reads_one: "(cur (dev s) = dump_address w \<Longrightarrow> read_ok w t) \<Longrightarrow> reads w s (s\<lparr>dev := (dev s)\<lparr>log := log (dev s) @ [t]\<rparr>\<rparr>)"
  by (simp add: reads_def)

lemma read_ok_byte: "read_ok w \<lparr>chip = dump_address w, rw = 1, command = c, kind = 1, payload = b\<rparr>"
  by (simp add: read_ok_def)

lemma read_ok_reg:
  assumes "first_reg w \<le> int a" and "int a \<le> last_reg w" and "last_reg w \<le> 0xff"
  shows "read_ok w \<lparr>chip = dump_address w, rw = 1, command = of_nat a, kind = k, payload = b\<rparr>"
proof -
  have "unat (of_nat a :: u8) = a" using assms(2,3) by (simp add: unat_of_nat)
  then show ?thesis using assms by (simp add: read_ok_def)
qed

text \<open>The registers of a row lie in the array, with their neighbours where words are read.\<close>

definition in_block :: "dump_what \<Rightarrow> nat \<Rightarrow> bool" where
  "in_block w a = (a < 256 \<and> (dump_size w = I2C_SMBUS_WORD_DATA \<longrightarrow> a + 1 < 256))"

lemma dump_read_reads:
  assumes "first_reg w \<le> int a" and "int a \<le> last_reg w" and "last_reg w \<le> 0xff" and "in_block w a" and "length block = 256"
  shows "\<exists>res block' s'. dump_read (rec_host an u opens funcs) w a block s = Inr (res, block', s')
    \<and> length block' = 256 \<and> reads w s s'"
  using assms(4,5)
  by (auto simp: dump_read_def on_dev_def Let_def in_block_def reads_refl read_ok_reg [OF assms(1-3)]
    read_ok_byte [unfolded One_nat_def] intro!: reads_one)

lemma cell_text_total: "in_block w a \<Longrightarrow> length block = 256 \<Longrightarrow> \<exists>t. cell_text w n a res block = Inr t"
  by (simp add: cell_text_def in_block_def)

lemma dump_cell_reads:
  assumes "last_reg w \<le> 0xff" and "in_block w a" and "length block = 256"
  shows "\<exists>block' s'. dump_cell (rec_host an u opens funcs) w n a (block, s) = Inr (block', s')
    \<and> length block' = 256 \<and> reads w s s'"
proof (cases "int a < first_reg w \<or> int a > last_reg w")
  case True
  then show ?thesis using assms(3) by (simp add: dump_cell_def reads_print reads_refl)
next
  case False
  then obtain res block' s' where d: "dump_read (rec_host an u opens funcs) w a block s = Inr (res, block', s')"
      "length block' = 256" "reads w s s'"
    using dump_read_reads [OF _ _ assms, of an u opens funcs s] by (auto simp: not_less)
  obtain t where "cell_text w n a res block' = Inr t" using cell_text_total [OF assms(2) d(2)] by blast
  then show ?thesis using False d by (simp add: dump_cell_def reads_print)
qed

lemma dump_cells_reads:
  assumes "last_reg w \<le> 0xff"
  shows "\<forall>a \<in> set as. in_block w a \<Longrightarrow> length block = 256 \<Longrightarrow>
    \<exists>block' s'. dump_cells (rec_host an u opens funcs) w n as (block, s) = Inr (block', s')
      \<and> length block' = 256 \<and> reads w s s'"
proof (induction as arbitrary: block s)
  case (Cons a as)
  obtain b1 s1 where c: "dump_cell (rec_host an u opens funcs) w n a (block, s) = Inr (b1, s1)" "length b1 = 256" "reads w s s1"
    using dump_cell_reads [OF assms _ Cons.prems(2), of a an u opens funcs n s] Cons.prems(1) by auto
  obtain b2 s2 where d: "dump_cells (rec_host an u opens funcs) w n as (b1, s1) = Inr (b2, s2)" "length b2 = 256" "reads w s1 s2"
    using Cons.IH [OF _ c(2), of s1] Cons.prems(1) by auto
  show ?case using c(1) d(1,2) reads_trans [OF c(3) d(3)] by simp
qed (simp add: reads_refl)

lemma dump_chars_total:
  "\<forall>a \<in> set as. a < 256 \<Longrightarrow> length block = 256 \<Longrightarrow> \<exists>cs. dump_chars w n block as = Inr cs"
  by (induction as) auto

lemma row_in_block:
  assumes "i \<le> 240" and "16 dvd i"
  shows "\<forall>a \<in> set (map (\<lambda>j. i + j) (columns w)). in_block w a" "\<forall>a \<in> set (map (\<lambda>j. i + j) [0..<16]). a < 256"
  using assms by (auto simp: columns_def in_block_def)

lemma dump_rows_reads:
  assumes "last_reg w \<le> 0xff"
  shows "\<forall>i \<in> set is. i \<le> 240 \<and> 16 dvd i \<Longrightarrow> length block = 256 \<Longrightarrow>
    \<exists>block' s'. dump_rows (rec_host an u opens funcs) w n is (block, s) = Inr (block', s') \<and> reads w s s'"
proof (induction "is" arbitrary: block s)
  case (Cons i "is")
  let ?h = "rec_host an u opens funcs" and ?s = "print (hex 2 i @ chars '': '') s"
  have i: "i \<le> 240" "16 dvd i" using Cons.prems(1) by simp_all
  obtain b2 s2 where c: "dump_cells ?h w n (map (\<lambda>j. i + j) (columns w)) (block, ?s) = Inr (b2, s2)"
      "length b2 = 256" "reads w ?s s2"
    using dump_cells_reads [OF assms row_in_block(1) [OF i] Cons.prems(2)] by blast
  obtain cs where cs: "dump_chars w n b2 (map (\<lambda>j. i + j) [0..<16]) = Inr cs"
    using dump_chars_total [OF row_in_block(2) [OF i] c(2)] by blast
  let ?s2 = "print (chars ''   '' @ cs @ [10]) s2"
  have r2: "reads w s ?s2" by (rule reads_print [OF reads_trans [OF reads_print [OF reads_refl] c(3)]])
  obtain b3 s3 where d: "dump_rows ?h w n is (b2, ?s2) = Inr (b3, s3)" "reads w ?s2 s3"
    using Cons.IH [OF _ c(2), of ?s2] Cons.prems(1) by auto
  obtain b4 s4 where e: "dump_rows ?h w n is (block, s) = Inr (b4, s4)" "reads w s s4"
    using Cons.IH [OF _ Cons.prems(2), of s] Cons.prems(1) by auto
  have "dump_rows ?h w n (i # is) (block, s) \<in> {Inr (block, s), Inr (b4, s4), Inr (b3, s3)}"
    by (simp add: c(1) cs d(1) e(1))
  then show ?case using e(2) reads_refl [of w s] reads_trans [OF r2 d(2)] by blast
qed (simp add: reads_refl)

lemma word_cell_reads: "last_reg w \<le> 0xff \<Longrightarrow> reads w s (word_cell (rec_host an u opens funcs) w a s)"
  by (auto simp: word_cell_def on_dev_def Let_def read_ok_reg intro!: reads_print reads_refl reads_one)

lemma word_cells_reads: "last_reg w \<le> 0xff \<Longrightarrow> reads w s (word_cells (rec_host an u opens funcs) w as s)"
  by (induction as arbitrary: s) (auto intro: reads_refl reads_trans word_cell_reads)

lemma word_rows_reads: "last_reg w \<le> 0xff \<Longrightarrow> reads w s (word_rows (rec_host an u opens funcs) w is s)"
proof (induction "is" arbitrary: s)
  case (Cons i "is")
  have "reads w s (print [10] (word_cells (rec_host an u opens funcs) w (map (\<lambda>j. i + j) [0..<8]) (print (hex 2 i @ chars '': '') s)))"
    by (blast intro: reads_print reads_trans reads_refl word_cells_reads Cons.prems)
  from reads_trans [OF this] show ?case using Cons by (simp add: reads_refl)
qed (simp add: reads_refl)

section \<open>The fetch\<close>

lemma rec_block_reads:
  assumes "smbus_kernel (rec_smbus an u)" and "32 \<le> length vs"
  shows "\<exists>r vs'. i2c_smbus_read_block_data (rec_smbus an u) c vs d =
      Inr (r, vs', d\<lparr>log := log d @ [\<lparr>chip = cur d, rw = 1, command = c, kind = 5, payload = Some u\<rparr>]\<rparr>)
      \<and> length vs' = length vs"
    and "\<exists>t r vs'. i2c_smbus_read_i2c_block_data (rec_smbus an u) c 32 vs d = Inr (r, vs', d\<lparr>log := log d @ [t]\<rparr>)
      \<and> chip t = cur d \<and> rw t = 1 \<and> kind t = 6"
proof -
  have u: "uninit_union (rec_smbus an u) = u" "length u = 34"
    using assms(1) by (simp_all add: smbus_kernel_def rec_smbus_def)
  have "\<exists>r vs'. block_result (i2c_smbus_access (rec_smbus an u) I2C_SMBUS_READ c sz (Some b) d) vs
      = Inr (r, vs', d\<lparr>log := log d @ [\<lparr>chip = cur d, rw = 1, command = c, kind = sz, payload = Some b\<rparr>]\<rparr>)
      \<and> length vs' = length vs" if "length b = 34" "sz \<in> set block_kinds" for b sz
    using block_result_safe [OF assms(1) that assms(2), of I2C_SMBUS_READ c d]
    by (auto simp: blocks_safe_def block_result_def rec_smbus_def i2c_smbus_access_def I2C_SMBUS_READ_def Let_def
      split_def rbind_Inr_conv split: if_splits)
  note b = this
  show "\<exists>r vs'. i2c_smbus_read_block_data (rec_smbus an u) c vs d =
      Inr (r, vs', d\<lparr>log := log d @ [\<lparr>chip = cur d, rw = 1, command = c, kind = 5, payload = Some u\<rparr>]\<rparr>)
      \<and> length vs' = length vs"
    using b [of u 5] u by (simp add: i2c_smbus_read_block_data_def block_kinds_def I2C_SMBUS_BLOCK_DATA_def)
  show "\<exists>t r vs'. i2c_smbus_read_i2c_block_data (rec_smbus an u) c 32 vs d = Inr (r, vs', d\<lparr>log := log d @ [t]\<rparr>)
      \<and> chip t = cur d \<and> rw t = 1 \<and> kind t = 6"
    using b [of "u[0 := clamp_length 32]" 6] u
    by (fastforce simp: i2c_smbus_read_i2c_block_data_def block_kinds_def I2C_SMBUS_I2C_BLOCK_BROKEN_def Let_def
      clamp_length_def)
qed

lemma dump_i2c_blocks_log:
  assumes "smbus_kernel (rec_smbus an u)" and "length cb = 288" and "res \<le> 287"
    and "dump_i2c_blocks (rec_smbus an u) res cb d = Inr (r, cb', d')"
  shows "cur d' = cur d \<and> (\<exists>ts. log d' = log d @ ts \<and> list_all (\<lambda>t. chip t = cur d \<and> rw t = 1 \<and> kind t = 6) ts)"
  using assms(2-4)
proof (induction "256 - res" arbitrary: res cb d rule: less_induct)
  case less
  let ?k = "rec_smbus an u"
  show ?case
  proof (cases "256 \<le> res")
    case True
    then show ?thesis using less.prems(3) by (simp add: dump_i2c_blocks.simps [of ?k res])
  next
    case False
    then have len: "32 \<le> length (drop res cb)" using less.prems by simp
    obtain t i vs where b: "i2c_smbus_read_i2c_block_data ?k (of_nat res) 32 (drop res cb) d = Inr (i, vs, d\<lparr>log := log d @ [t]\<rparr>)"
      and t: "chip t = cur d" "rw t = 1" "kind t = 6"
      using rec_block_reads(2) [OF assms(1) len, of "of_nat res" d] by blast
    have i: "i \<le> 32" "length vs = length (drop res cb)"
      using read_i2c_block_safe [OF assms(1) len, of "of_nat res" d] b by (auto simp: blocks_safe_def)
    show ?thesis
    proof (cases "i \<le> 0")
      case True
      then show ?thesis using False b t less.prems(3) by (auto simp: dump_i2c_blocks.simps [of ?k res])
    next
      case pos: False
      have l: "length (take res cb @ vs) = 288" using i(2) less.prems by simp
      have r: "256 - (res + nat i) < 256 - res" "res + nat i \<le> 287" using False i(1) pos by simp_all
      have "dump_i2c_blocks ?k (res + nat i) (take res cb @ vs) (d\<lparr>log := log d @ [t]\<rparr>) = Inr (r, cb', d')"
        using less.prems(3) False b pos by (simp add: dump_i2c_blocks.simps [of ?k res])
      from less.hyps [OF r(1) l r(2) this] t show ?thesis by auto
    qed
  qed
qed

text \<open>The only write before the table: the start address of the consecutive reads.\<close>

definition dump_start :: "dump_what \<Rightarrow> transaction list" where
  "dump_start w =
     (if dump_size w = I2C_SMBUS_BYTE
      then [\<lparr>chip = dump_address w, rw = 0, command = of_int (first_reg w), kind = 1, payload = None\<rparr>] else [])"

definition fetched :: "dump_what \<Rightarrow> recording tool \<Rightarrow> recording tool \<Rightarrow> bool" where
  "fetched w s s' =
     (cur (dev s') = dump_address w \<and> stdout s' = stdout s
      \<and> (\<exists>ts. log (dev s') = log (dev s) @ dump_start w @ ts \<and> list_all (read_ok w) ts))"

lemma copy_cells_total:
  "\<forall>i \<in> set is. i < length cb \<and> i < n \<Longrightarrow> length block = n \<Longrightarrow> \<exists>b. copy_cells is cb block = Inr b \<and> length b = n"
proof (induction "is" arbitrary: block)
  case (Cons i "is")
  then show ?case using Cons.IH [of "block[i := int (unat (cb ! i))]"] by simp
qed simp

lemma fill_cells_total:
  "\<forall>i \<in> set is. i < n \<Longrightarrow> length block = n \<Longrightarrow> \<exists>b. fill_cells is v block = Inr b \<and> length b = n"
proof (induction "is" arbitrary: block)
  case (Cons i "is")
  then show ?case using Cons.IH [of "block[i := v]"] by simp
qed simp

lemma dump_values_total:
  assumes "length cb = 288" and "length block = 256"
  shows "\<exists>b. dump_values sz res cb block = Inr b \<and> length b = 256"
proof -
  let ?n = "nat (if res \<ge> 256 then 256 else res)"
  have n: "?n \<le> 256" by (cases "256 \<le> res") (simp_all add: nat_le_iff)
  then obtain b1 where b1: "copy_cells [0..<?n] cb block = Inr b1" "length b1 = 256"
    using copy_cells_total [OF _ assms(2), of "[0..<?n]" cb] assms(1) by auto
  obtain b2 where b2: "fill_cells [?n..<256] (-1) b1 = Inr b2" "length b2 = 256"
    using fill_cells_total [OF _ b1(2), of "[?n..<256]" "-1"] by auto
  show ?thesis unfolding dump_values_def Let_def b1(1) using b1(2) b2 by simp
qed

lemma dump_fetch_rec:
  assumes k: "smbus_kernel (rec_smbus an u)" and cb: "length cb = 288" and bl: "length block = 256"
    and cur: "cur (dev s) = dump_address w"
  shows "\<exists>r s'. dump_fetch (rec_host an u opens funcs) w cb block s = Inr (r, s') \<and> fetched w s s'
    \<and> (\<forall>n b. r = Some (n, b) \<longrightarrow> length b = 256)"
proof -
  have sizes: "I2C_SMBUS_BYTE \<noteq> I2C_SMBUS_BLOCK_DATA" "I2C_SMBUS_BYTE \<noteq> I2C_SMBUS_I2C_BLOCK_DATA"
    "I2C_SMBUS_BLOCK_DATA \<noteq> I2C_SMBUS_I2C_BLOCK_DATA"
    by (simp_all add: I2C_SMBUS_BYTE_def I2C_SMBUS_BLOCK_DATA_def I2C_SMBUS_I2C_BLOCK_DATA_def)
  consider "dump_size w = I2C_SMBUS_BLOCK_DATA" | "dump_size w = I2C_SMBUS_I2C_BLOCK_DATA"
    | "dump_size w \<noteq> I2C_SMBUS_BLOCK_DATA" "dump_size w \<noteq> I2C_SMBUS_I2C_BLOCK_DATA" by blast
  then show ?thesis
  proof cases
    case 1
    from rec_block_reads(1) [OF k, of cb "of_int (bank w)" "dev s"] cb obtain r vs where
      v: "i2c_smbus_read_block_data (rec_smbus an u) (of_int (bank w)) cb (dev s) = Inr (r, vs, (dev s)\<lparr>log := log (dev s)
        @ [\<lparr>chip = cur (dev s), rw = 1, command = of_int (bank w), kind = 5, payload = Some u\<rparr>]\<rparr>)" "length vs = 288" by auto
    obtain b where "dump_values I2C_SMBUS_BLOCK_DATA r vs block = Inr b" "length b = 256"
      using dump_values_total [OF v(2) bl] by blast
    then show ?thesis using sizes cur v(1) by (auto simp: dump_fetch_def 1 Let_def fetched_def dump_start_def read_ok_def)
  next
    case 2
    obtain r cb' d' where c: "dump_i2c_blocks (rec_smbus an u) 0 cb (dev s) = Inr (r, cb', d')" "length cb' = 288"
      using dump_i2c_blocks_safe [OF k cb, of 0 "dev s"] by auto
    from dump_i2c_blocks_log [OF k cb _ c(1)] obtain ts where ts: "cur d' = cur (dev s)" "log d' = log (dev s) @ ts"
        "list_all (\<lambda>t. chip t = cur (dev s) \<and> rw t = 1 \<and> kind t = 6) ts" by auto
    have "list_all (read_ok w) ts" using ts(3) by (rule list.pred_mono_strong) (simp add: read_ok_def cur)
    moreover obtain b where "dump_values I2C_SMBUS_I2C_BLOCK_DATA r cb' block = Inr b" "length b = 256"
      using dump_values_total [OF c(2) bl] by blast
    ultimately show ?thesis using sizes cur ts(1,2) c(1) by (auto simp: dump_fetch_def 2 Let_def fetched_def dump_start_def)
  next
    case 3
    then show ?thesis using sizes cur bl by (auto simp: dump_fetch_def on_dev_def Let_def fetched_def dump_start_def)
  qed
qed

section \<open>The run\<close>

definition tabled :: "dump_what \<Rightarrow> recording tool \<Rightarrow> recording tool \<Rightarrow> bool" where
  "tabled w s s' =
     (cur (dev s') = dump_address w
      \<and> (\<exists>ts. log (dev s') = log (dev s) @ dump_start w @ ts \<and> list_all (read_ok w) ts))"

lemma tabled_reads: "fetched w s s1 \<Longrightarrow> reads w s1 s2 \<Longrightarrow> tabled w s s2"
  by (fastforce simp: fetched_def reads_def tabled_def)

lemma dump_table_rec:
  assumes k: "smbus_kernel (rec_smbus an u)" and cb: "length cb = 288" and bl: "length block = 256" and cur: "cur (dev s) = dump_address w"
    and last: "last_reg w \<le> 0xff"
  shows "\<exists>ok s'. dump_table (rec_host an u opens funcs) w cb block s = Inr (ok, s') \<and> tabled w s s'"
proof (cases "dump_size w \<noteq> I2C_SMBUS_WORD_DATA \<or> even_only w")
  case True
  obtain r s1 where f: "dump_fetch (rec_host an u opens funcs) w cb block s = Inr (r, s1)" "fetched w s s1"
      "\<forall>n b. r = Some (n, b) \<longrightarrow> length b = 256"
    using dump_fetch_rec [OF k cb bl cur] by blast
  have t: "tabled w s s1" using tabled_reads [OF f(2) reads_refl] .
  show ?thesis
  proof (cases r)
    case None
    then show ?thesis using True f t by (intro exI [of _ False]) (simp add: dump_table_def)
  next
    case (Some nb)
    obtain n b where nb: "nb = (n, b)" by (metis surj_pair)
    have "\<forall>i \<in> set (map (\<lambda>i. 16 * i) [0..<16]). i \<le> 240 \<and> 16 dvd (i :: nat)" "length b = 256" using f(3) Some nb by auto
    from dump_rows_reads [OF last this, of an u opens funcs n "print byte_header s1"] obtain b2 s2 where
      d: "dump_rows (rec_host an u opens funcs) w n (map (\<lambda>i. 16 * i) [0..<16]) (b, print byte_header s1) = Inr (b2, s2)"
        "reads w (print byte_header s1) s2" by blast
    have "reads w s1 s2" using reads_trans [OF reads_print [OF reads_refl] d(2)] .
    from tabled_reads [OF f(2) this] show ?thesis using True f Some nb d(1)
      by (intro exI [of _ True]) (simp add: dump_table_def del: upt.simps)
  qed
next
  case False
  have "reads w s (word_rows (rec_host an u opens funcs) w (map (\<lambda>i. 8 * i) [0..<32]) (print word_header s))"
    using reads_trans [OF reads_print [OF reads_refl] word_rows_reads [OF last]] .
  moreover have "fetched w s s"
    using False cur by (simp add: fetched_def dump_start_def I2C_SMBUS_BYTE_def I2C_SMBUS_WORD_DATA_def)
  ultimately show ?thesis using False by (intro exI [of _ True]) (simp add: dump_table_def tabled_reads del: upt.simps)
qed

text \<open>The transactions on the bank register, and all of a run.\<close>

definition bank_rd :: "u8 list \<Rightarrow> dump_what \<Rightarrow> transaction" where
  "bank_rd u w = \<lparr>chip = dump_address w, rw = 1, command = of_int (bankreg w), kind = 2, payload = Some u\<rparr>"

definition bank_wr :: "u8 list \<Rightarrow> dump_what \<Rightarrow> int \<Rightarrow> transaction" where
  "bank_wr u w v = \<lparr>chip = dump_address w, rw = 0, command = of_int (bankreg w), kind = 2, payload = Some (set_byte (of_int v) u)\<rparr>"

definition dump_done :: "answers \<Rightarrow> u8 list \<Rightarrow> dump_what \<Rightarrow> recording tool \<Rightarrow> int \<Rightarrow> recording tool \<Rightarrow> bool" where
  "dump_done an u w s c s' =
     (let l = log (dev s); old = value_of union_byte (answer an l (bank_rd u w));
          switch = (if banked w then [bank_rd u w, bank_wr u w (bank w OR (old AND 0xf0))] else []);
          restore = (if banked w then [bank_wr u w old] else [])
      in banked w \<and> c = 1 \<and> (old < 0 \<and> log (dev s') = l @ [bank_rd u w] \<or> 0 \<le> old \<and> log (dev s') = l @ switch)
         \<or> (\<exists>ts. list_all (read_ok w) ts \<and> (\<not> banked w \<or> 0 \<le> old)
             \<and> (c = 0 \<and> log (dev s') = l @ switch @ dump_start w @ ts @ restore
                \<or> c = 1 \<and> log (dev s') = l @ switch @ dump_start w @ ts)))"

lemma switch_bank_rec:
  assumes cur: "cur (dev s) = dump_address w"
  shows "switch_bank (rec_host an u opens funcs) w s =
    (let old = value_of union_byte (answer an (log (dev s)) (bank_rd u w)) in
     if \<not> banked w then (Some 0, s)
     else if old < 0 then (None, s\<lparr>dev := (dev s)\<lparr>log := log (dev s) @ [bank_rd u w]\<rparr>\<rparr>)
     else let l = log (dev s) @ [bank_rd u w]; wr = bank_wr u w (bank w OR (old AND 0xf0)) in
       (if fst (answer an l wr) < 0 then None else Some old, s\<lparr>dev := (dev s)\<lparr>log := l @ [wr]\<rparr>\<rparr>))"
  by (simp add: switch_bank_def on_dev_def Let_def split_def bank_rd_def bank_wr_def cur numeral_2_eq_2)

lemma restore_bank_rec:
  assumes "cur (dev s) = dump_address w"
  shows "log (dev (restore_bank (rec_host an u opens funcs) w old s))
      = log (dev s) @ (if banked w then [bank_wr u w old] else [])"
  using assms by (simp add: restore_bank_def on_dev_def Let_def bank_wr_def numeral_2_eq_2)

lemma dump_body_rec:
  assumes k: "smbus_kernel (rec_smbus an u)" and cb: "length cb = 288" and bl: "length block = 256" and cur: "cur (dev s) = dump_address w"
    and last: "last_reg w \<le> 0xff"
  shows "\<exists>c s'. dump_body (rec_host an u opens funcs) w cb block s = Exit c s' \<and> dump_done an u w s c s'"
proof -
  let ?h = "rec_host an u opens funcs" and ?old = "value_of union_byte (answer an (log (dev s)) (bank_rd u w))"
  obtain r s1 where sb: "switch_bank ?h w s = (r, s1)" by (metis surj_pair)
  show ?thesis
  proof (cases r)
    case None
    then show ?thesis
      using sb switch_bank_rec [OF cur, of an u opens funcs]
      by (auto simp: dump_body_def dump_done_def Let_def split: if_splits)
  next
    case (Some old)
    have s1: "cur (dev s1) = dump_address w" "\<not> banked w \<or> 0 \<le> ?old \<and> old = ?old"
      "log (dev s1) = log (dev s) @ (if banked w then [bank_rd u w, bank_wr u w (bank w OR (?old AND 0xf0))] else [])"
      using sb Some switch_bank_rec [OF cur, of an u opens funcs] cur by (auto simp: Let_def split: if_splits)
    obtain ok s2 where t: "dump_table ?h w cb block s1 = Inr (ok, s2)" "tabled w s1 s2"
      using dump_table_rec [OF k cb bl s1(1) last] by blast
    then obtain ts where ts: "cur (dev s2) = dump_address w" "log (dev s2) = log (dev s1) @ dump_start w @ ts"
        "list_all (read_ok w) ts"
      by (auto simp: tabled_def)
    have body: "dump_body ?h w cb block s = (if \<not> ok then Exit 1 s2 else Exit 0 (restore_bank ?h w old s2))"
      by (simp add: dump_body_def sb Some t(1))
    show ?thesis
    proof (cases ok)
      case True
      then show ?thesis
        using ts(3) s1(2) by (auto simp: body dump_done_def restore_bank_rec [OF ts(1)] ts(2) s1(3) Let_def)
    next
      case False
      then show ?thesis
        using ts(2,3) s1(2,3) by (auto simp: body dump_done_def Let_def)
    qed
  qed
qed

lemma dump_run_rec:
  assumes "0 \<le> i2cbus" "i2cbus < 10 ^ 10" and k: "smbus_kernel (rec_smbus an u)" and cb: "length cb = 288"
    and bl: "length block = 256" and last: "last_reg w \<le> 0xff"
  shows "\<exists>c s'. dump_run (rec_host an u opens funcs) os i2cbus w cb block s = Exit c s'
    \<and> (log (dev s') = log (dev s) \<and> c \<in> {0, 1}
      \<or> (dump_yes os \<or> says True (stdin s)) \<and> dump_done an u w s c s')"
proof -
  let ?h = "rec_host an u opens funcs" and ?s = "s\<lparr>dev := (dev s)\<lparr>cur := dump_address w\<rparr>\<rparr>"
  obtain fl n where o: "open_i2c_dev ?h i2cbus 20 = Inr (fl, n)"
    using open_i2c_dev_fits [OF assms(1,2)] by (metis surj_pair)
  obtain go s1 where g: "(if dump_yes os then (True, ?s) else user_ack True ?s) = (go, s1)" by (metis surj_pair)
  then have s1: "dev s1 = dev ?s" "go = (dump_yes os \<or> says True (stdin s))"
    using user_ack_dev [of True ?s] user_ack_says(1) [of True ?s] by (auto split: if_splits simp del: user_ack_dev)
  then have l1: "log (dev s1) = log (dev s)" "cur (dev s1) = dump_address w" by simp_all
  obtain c s2 where b: "dump_body ?h w cb block s1 = Exit c s2" and d: "dump_done an u w s1 c s2"
    using dump_body_rec [OF k cb bl l1(2) last] by blast
  have "dump_done an u w s c s2" using d unfolding dump_done_def l1(1) .
  then show ?thesis using s1(2) by (auto simp: dump_run_def o g b Let_def l1(1))
qed

lemma dump_operands_range:
  "dump_operands rg args = Some w \<Longrightarrow> 0x03 \<le> dump_address w \<and> dump_address w \<le> 0x77
    \<and> 0 \<le> first_reg w \<and> first_reg w \<le> last_reg w \<and> last_reg w \<le> 0xff"
  using parse_i2c_address_range [of "args ! 1"]
  by (auto simp: dump_operands_def dump_range_def Let_def split_def split: if_splits option.splits)

text \<open>
  What the program checks of the bank. The manual page i2cdump.8 has an integer between 0 and
  7: for bytes and words the program takes one up to 15, and for consecutive bytes any number
  that \<open>strtol\<close> can give, although it switches to the bank in that mode too.
\<close>

definition bank_checked :: "dump_what \<Rightarrow> bool" where
  "bank_checked w =
     (0 \<le> bankreg w \<and> bankreg w \<le> 0xff
      \<and> (if dump_size w \<in> {I2C_SMBUS_BYTE_DATA, I2C_SMBUS_WORD_DATA} then 0 \<le> bank w \<and> bank w \<le> 15
         else if dump_size w = I2C_SMBUS_BLOCK_DATA then 0 \<le> bank w \<and> bank w \<le> 0xff
         else if dump_size w = I2C_SMBUS_BYTE then - 2147483648 \<le> bank w \<and> bank w \<le> 2147483647
         else dump_size w = I2C_SMBUS_I2C_BLOCK_DATA \<and> bank w = 0))"

lemma dump_bankreg_ok: "dump_bankreg sz args = Some r \<Longrightarrow> 0 \<le> r \<and> r \<le> 0xff"
  by (auto simp: dump_bankreg_def Let_def split_def split: if_splits)

lemma strtol_range: "- 2147483648 \<le> fst (strtol b s) \<and> fst (strtol b s) \<le> 2147483647"
  by (auto simp: strtol_def Let_def split_def)

lemma dump_operands_bank: "dump_operands rg args = Some w \<Longrightarrow> bank_checked w"
  using dump_bankreg_ok strtol_range [of 0 "args ! 3"]
  by (auto simp: dump_operands_def dump_mode_def dump_bank_def bank_checked_def Let_def split_def I2C_SMBUS_BYTE_def
    I2C_SMBUS_BYTE_DATA_def I2C_SMBUS_WORD_DATA_def I2C_SMBUS_BLOCK_DATA_def I2C_SMBUS_I2C_BLOCK_DATA_def
    split: if_splits option.splits)

text \<open>The bank of a command line without bank register, in the modes b and c.\<close>

lemma dump_operands_banks:
  assumes "n \<le> 2147483647"
  shows "map_option bank (dump_operands None [bus, chars ''0x20'', chars ''b'', decimal n]) = (if n \<le> 15 then Some (int n) else None)"
    and "map_option bank (dump_operands None [bus, chars ''0x20'', chars ''c'', decimal n]) = Some (int n)"
proof -
  have a: "parse_i2c_address (chars ''0x20'') = 32" by code_simp
  have m: "dump_mode [bus, chars ''0x20'', chars ''b'', decimal n] = Some (I2C_SMBUS_BYTE_DATA, False, False)"
    "dump_mode [bus, chars ''0x20'', chars ''c'', decimal n] = Some (I2C_SMBUS_BYTE, False, False)"
    by (simp_all add: dump_mode_def char_at_def chars_def)
  show "map_option bank (dump_operands None [bus, chars ''0x20'', chars ''b'', decimal n]) = (if n \<le> 15 then Some (int n) else None)"
    "map_option bank (dump_operands None [bus, chars ''0x20'', chars ''c'', decimal n]) = Some (int n)"
    by (simp_all add: dump_operands_def a m dump_bank_def dump_range_def dump_bankreg_def strtol_decimal [OF assms]
      I2C_SMBUS_BYTE_def I2C_SMBUS_BYTE_DATA_def I2C_SMBUS_WORD_DATA_def I2C_SMBUS_BLOCK_DATA_def
      I2C_SMBUS_I2C_BLOCK_DATA_def)
qed

text \<open>
  C11. Whatever the command line, the answers of the user and the chip, a run of i2cdump
  neither leaves its arrays, of 288 bytes and of 256 values, nor goes wrong otherwise, when the
  kernel hands back blocks of at most 32 bytes. Without the option -y it leaves the bus alone
  unless the line on the standard input consents, and it touches the chip of the command line
  alone. Apart from the bank register and the start address of consecutive reads it only
  reads, and the registers it reads are those of the range. A run that ends well has put the
  old bank back, just as it was read, and it has switched to the bank with the upper four
  bits of the old one.
\<close>

theorem i2cdump_main_spec:
  assumes "busses_ok (rec_host an u opens funcs) fs" and "smbus_kernel (rec_smbus an u)" and "length cb = 288"
    and "length block = 256"
  shows "\<exists>c s'. i2cdump_main (rec_host an u opens funcs) fs argv cb block s = Exit c s' \<and>
     (log (dev s') = log (dev s) \<and> c \<in> {0, 1}
      \<or> (\<exists>os args w.
           dump_flags (tl argv) \<lparr>dump_force = False, dump_yes = False, dump_version = False, rangep = None\<rparr> = Some (os, args)
           \<and> dump_operands (rangep os) args = Some w \<and> 0x03 \<le> dump_address w \<and> dump_address w \<le> 0x77
           \<and> 0 \<le> first_reg w \<and> first_reg w \<le> last_reg w \<and> last_reg w \<le> 0xff
           \<and> (dump_yes os \<or> says True (stdin s)) \<and> dump_done an u w s c s'))"
proof -
  let ?h = "rec_host an u opens funcs"
  show ?thesis
  proof (cases "dump_flags (tl argv) \<lparr>dump_force = False, dump_yes = False, dump_version = False, rangep = None\<rparr>")
    case None
    then show ?thesis by (simp add: i2cdump_main_def)
  next
    case (Some p)
    obtain os args where p: "p = (os, args)" by (metis surj_pair)
    obtain n where n: "lookup_i2c_bus ?h fs (args ! 0) = Inr n" "n < 10 ^ 10"
      by (rule lookup_total [OF assms(1)])
    show ?thesis
    proof (cases "dump_version os \<or> args = [] \<or> n < 0 \<or> dump_operands (rangep os) args = None")
      case True
      then show ?thesis by (auto simp: i2cdump_main_def Some p n(1))
    next
      case False
      then obtain w where w: "dump_operands (rangep os) args = Some w" by auto
      have "i2cdump_main ?h fs argv cb block s = dump_run ?h os n w cb block s"
        using False by (simp add: i2cdump_main_def Some p n(1) w)
      moreover obtain c s' where "dump_run ?h os n w cb block s = Exit c s'"
        and "log (dev s') = log (dev s) \<and> c \<in> {0, 1} \<or> (dump_yes os \<or> says True (stdin s)) \<and> dump_done an u w s c s'"
        using dump_run_rec [OF _ n(2) assms(2-4), of w opens funcs os s] False dump_operands_range [OF w]
        by (auto simp: not_less)
      ultimately show ?thesis using dump_operands_range [OF w] w by (auto simp: Some p)
    qed
  qed
qed

definition quiet_chip :: answers where
  "quiet_chip = \<lparr>answer = (\<lambda>l t. (0, case payload t of Some b \<Rightarrow> b[0 := 7] | None \<Rightarrow> [])),
     slave_answer = (\<lambda>l f a. 0), pec_answer = (\<lambda>e. 0)\<rparr>"

lemma quiet_chip_kernel: "smbus_kernel (rec_smbus quiet_chip (replicate 34 0))"
  by (simp add: smbus_kernel_def rec_smbus_def quiet_chip_def Let_def)

lemma dump_done_code: "dump_done an u w s c s' \<Longrightarrow> c \<in> {0, 1}"
  by (auto simp: dump_done_def Let_def)

lemma i2cdump_main_spec_witness:
  "\<exists>c s'. i2cdump_main (rec_host quiet_chip (replicate 34 0) (\<lambda>n. 3) (\<lambda>n. Some (-1))) sample_fs
      [[], chars ''-y'', chars ''1'', chars ''0x20'', chars ''c''] (replicate 288 0) (replicate 256 0)
      \<lparr>dev = \<lparr>cur = 0, log = []\<rparr>, stdin = [], stdout = []\<rparr> = Exit c s' \<and> c \<in> {0, 1}"
proof -
  let ?h = "rec_host quiet_chip (replicate 34 0) (\<lambda>n. 3) (\<lambda>n. Some (-1)) :: recording host"
  have "busses_ok ?h sample_fs" by (rule sample_busses_ok)
  from i2cdump_main_spec [OF this quiet_chip_kernel length_replicate length_replicate,
      of "[[], chars ''-y'', chars ''1'', chars ''0x20'', chars ''c'']" 0 0
      "\<lparr>dev = \<lparr>cur = 0, log = []\<rparr>, stdin = [], stdout = []\<rparr>"]
  show ?thesis
    by - (elim exE conjE, intro exI conjI, assumption, elim disjE exE conjE, assumption, (erule dump_done_code)+)
qed

section \<open>The table shows the registers\<close>

text \<open>The table of bytes for values of the registers, negative ones for those that cannot be read.\<close>

definition shown_cell :: "dump_what \<Rightarrow> (nat \<Rightarrow> int) \<Rightarrow> nat \<Rightarrow> u8 list" where
  "shown_cell w v a =
     (if int a < first_reg w \<or> last_reg w < int a then chars ''   ''
      else if v a < 0 then chars ''XX '' else hex 2 (nat (v a)) @ [32])"

definition shown_char :: "dump_what \<Rightarrow> (nat \<Rightarrow> int) \<Rightarrow> nat \<Rightarrow> u8" where
  "shown_char w v a = (if int a < first_reg w \<or> last_reg w < int a then 32 else dump_char (v a))"

definition shown_row :: "dump_what \<Rightarrow> (nat \<Rightarrow> int) \<Rightarrow> nat \<Rightarrow> u8 list" where
  "shown_row w v i =
     hex 2 i @ chars '': '' @ concat (map (\<lambda>j. shown_cell w v (i + j)) [0..<16]) @ chars ''   ''
       @ map (\<lambda>j. shown_char w v (i + j)) [0..<16] @ [10]"

definition shown_rows :: "dump_what \<Rightarrow> nat list \<Rightarrow> nat list" where
  "shown_rows w is = filter (\<lambda>i. first_reg w div 16 \<le> int i div 16 \<and> int i div 16 \<le> last_reg w div 16) is"

definition agree :: "dump_what \<Rightarrow> (nat \<Rightarrow> int) \<Rightarrow> nat list \<Rightarrow> int list \<Rightarrow> bool" where
  "agree w v as block =
     (\<forall>a \<in> set as. first_reg w \<le> int a \<and> int a \<le> last_reg w \<longrightarrow> block ! a = v a)"

lemma dump_chars_shown:
  "dump_size w = I2C_SMBUS_BYTE_DATA \<Longrightarrow> agree w v as block \<Longrightarrow> \<forall>a \<in> set as. a < length block \<Longrightarrow>
    dump_chars w n block as = Inr (map (shown_char w v) as)"
  by (induction as) (auto simp: agree_def shown_char_def I2C_SMBUS_BYTE_DATA_def I2C_SMBUS_BLOCK_DATA_def)

text \<open>A chip whose registers do not change: reading one gives its value at any time.\<close>

definition registers :: "answers \<Rightarrow> u8 list \<Rightarrow> dump_what \<Rightarrow> (nat \<Rightarrow> int) \<Rightarrow> bool" where
  "registers an u w v =
     (\<forall>a < 256. \<forall>l. value_of union_byte (answer an l
        \<lparr>chip = dump_address w, rw = 1, command = of_nat a, kind = 2, payload = Some u\<rparr>) = v a)"

lemma dump_cell_shown:
  assumes "dump_size w = I2C_SMBUS_BYTE_DATA" and "registers an u w v" and "a < 256"
    and "cur (dev s) = dump_address w" and "length block = 256"
  shows "\<exists>s'. dump_cell (rec_host an u opens funcs) w n a (block, s)
      = Inr (if first_reg w \<le> int a \<and> int a \<le> last_reg w then block[a := v a] else block, s')
    \<and> cur (dev s') = dump_address w \<and> stdout s' = stdout s @ shown_cell w v a"
  using assms
  by (auto simp: dump_cell_def dump_read_def cell_text_def on_dev_def Let_def shown_cell_def put2_def registers_def numeral_2_eq_2
    I2C_SMBUS_BYTE_DATA_def I2C_SMBUS_WORD_DATA_def I2C_SMBUS_BLOCK_DATA_def)

lemma dump_cells_shown:
  assumes "dump_size w = I2C_SMBUS_BYTE_DATA" and "registers an u w v"
  shows "\<forall>a \<in> set as. a < 256 \<Longrightarrow> distinct as \<Longrightarrow> cur (dev s) = dump_address w \<Longrightarrow> length block = 256 \<Longrightarrow>
    \<exists>block' s'. dump_cells (rec_host an u opens funcs) w n as (block, s) = Inr (block', s')
      \<and> length block' = 256 \<and> (\<forall>b. b \<notin> set as \<longrightarrow> block' ! b = block ! b) \<and> agree w v as block'
      \<and> cur (dev s') = dump_address w \<and> stdout s' = stdout s @ concat (map (shown_cell w v) as)"
proof (induction as arbitrary: s block)
  case Nil
  then show ?case by (simp add: agree_def)
next
  case (Cons a as)
  let ?b = "if first_reg w \<le> int a \<and> int a \<le> last_reg w then block[a := v a] else block"
  have a: "a < 256" using Cons.prems(1) by simp
  obtain s1 where s1: "dump_cell (rec_host an u opens funcs) w n a (block, s) = Inr (?b, s1)"
      "cur (dev s1) = dump_address w" "stdout s1 = stdout s @ shown_cell w v a"
    using dump_cell_shown [OF assms a Cons.prems(3,4)] by blast
  have "length ?b = 256" using Cons.prems(4) by simp
  from Cons.IH [OF _ _ s1(2) this] Cons.prems obtain b2 s2 where
    c: "dump_cells (rec_host an u opens funcs) w n as (?b, s1) = Inr (b2, s2)" and b2: "length b2 = 256"
      "\<forall>b. b \<notin> set as \<longrightarrow> b2 ! b = ?b ! b" "agree w v as b2"
    and s2: "cur (dev s2) = dump_address w" "stdout s2 = stdout s1 @ concat (map (shown_cell w v) as)"
    by auto
  have "b2 ! a = ?b ! a" using b2(2) Cons.prems(2) by simp
  then have "agree w v (a # as) b2" using b2(3) a Cons.prems(4) by (simp add: agree_def)
  moreover have "\<forall>b. b \<notin> set (a # as) \<longrightarrow> b2 ! b = block ! b" using b2(2) by simp
  ultimately show ?case using c s1 s2 b2(1) by simp
qed

lemma dump_row_shown:
  assumes sz: "dump_size w = I2C_SMBUS_BYTE_DATA" and reg: "registers an u w v" and i: "i \<le> 240"
    and cur: "cur (dev s) = dump_address w" and len: "length block = 256"
  shows "\<exists>block' s' cs. dump_cells (rec_host an u opens funcs) w n (map (\<lambda>j. i + j) (columns w)) (block, print (hex 2 i @ chars '': '') s)
      = Inr (block', s') \<and> length block' = 256 \<and> cur (dev s') = dump_address w
    \<and> dump_chars w n block' (map (\<lambda>j. i + j) [0..<16]) = Inr cs
    \<and> stdout s' @ chars ''   '' @ cs @ [10] = stdout s @ shown_row w v i"
proof -
  have col: "columns w = [0..<16]" using sz by (simp add: columns_def I2C_SMBUS_BYTE_DATA_def I2C_SMBUS_WORD_DATA_def)
  let ?as = "map (\<lambda>j. i + j) [0..<16]"
  have as: "\<forall>a \<in> set ?as. a < 256" "distinct ?as" using i by (auto simp: distinct_map)
  have "cur (dev (print (hex 2 i @ chars '': '') s)) = dump_address w" using cur by simp
  from dump_cells_shown [OF sz reg as this len, of opens funcs n] obtain block' s' where
    c: "dump_cells (rec_host an u opens funcs) w n ?as (block, print (hex 2 i @ chars '': '') s) = Inr (block', s')"
      "length block' = 256" "agree w v ?as block'" "cur (dev s') = dump_address w"
    and out: "stdout s' = stdout (print (hex 2 i @ chars '': '') s) @ concat (map (shown_cell w v) ?as)" by blast
  have "concat (map (shown_cell w v) ?as) = concat (map (\<lambda>j. shown_cell w v (i + j)) [0..<16])"
    "map (shown_char w v) ?as = map (\<lambda>j. shown_char w v (i + j)) [0..<16]"
    by (simp_all only: map_map o_def)
  then have "stdout s' @ chars ''   '' @ map (shown_char w v) ?as @ [10] = stdout s @ shown_row w v i"
    unfolding out by (simp only: shown_row_def print_sel append_assoc)
  moreover have "dump_chars w n block' ?as = Inr (map (shown_char w v) ?as)"
    using dump_chars_shown [OF sz c(3)] as(1) c(2) by simp
  ultimately show ?thesis unfolding col using c(1,2,4) by blast
qed

lemma dump_rows_shown:
  assumes sz: "dump_size w = I2C_SMBUS_BYTE_DATA" and reg: "registers an u w v"
  shows "\<forall>i \<in> set is. i \<le> 240 \<Longrightarrow> sorted is \<Longrightarrow> cur (dev s) = dump_address w \<Longrightarrow> length block = 256 \<Longrightarrow>
    \<exists>block' s'. dump_rows (rec_host an u opens funcs) w n is (block, s) = Inr (block', s')
      \<and> stdout s' = stdout s @ concat (map (shown_row w v) (shown_rows w is))"
proof (induction "is" arbitrary: s block)
  case Nil
  then show ?case by (simp add: shown_rows_def)
next
  case (Cons i "is")
  have nb: "dump_size w \<noteq> I2C_SMBUS_BLOCK_DATA" using sz by (simp add: I2C_SMBUS_BYTE_DATA_def I2C_SMBUS_BLOCK_DATA_def)
  consider "int i div 16 < first_reg w div 16" | "first_reg w div 16 \<le> int i div 16" "last_reg w div 16 < int i div 16"
    | "first_reg w div 16 \<le> int i div 16" "int i div 16 \<le> last_reg w div 16" by linarith
  then show ?case
  proof cases
    case 1
    then show ?thesis using Cons nb by (simp add: shown_rows_def)
  next
    case 2
    have "last_reg w div 16 < int j div 16" if "j \<in> set is" for j
    proof -
      have "int i div 16 \<le> int j div 16" using that Cons.prems(2) by (intro zdiv_mono1) auto
      then show ?thesis using 2(2) by simp
    qed
    then have "shown_rows w (i # is) = []" using 2(2) by (force simp: shown_rows_def filter_empty_conv)
    then show ?thesis using 2 nb by simp
  next
    case 3
    have i: "i \<le> 240" using Cons.prems(1) by simp
    from dump_row_shown [OF sz reg i Cons.prems(3,4), of opens funcs n] obtain b s1 cs where
      c: "dump_cells (rec_host an u opens funcs) w n (map (\<lambda>j. i + j) (columns w)) (block, print (hex 2 i @ chars '': '') s) = Inr (b, s1)"
        "length b = 256" "cur (dev s1) = dump_address w" "dump_chars w n b (map (\<lambda>j. i + j) [0..<16]) = Inr cs"
      and out: "stdout s1 @ chars ''   '' @ cs @ [10] = stdout s @ shown_row w v i" by blast
    let ?s = "print (chars ''   '' @ cs @ [10]) s1"
    have "dump_rows (rec_host an u opens funcs) w n (i # is) (block, s) = dump_rows (rec_host an u opens funcs) w n is (b, ?s)"
      using 3 nb by (simp only: dump_rows.simps fst_conv snd_conv prod.case c(1,4) rbind.simps) simp
    moreover obtain b2 s2 where "dump_rows (rec_host an u opens funcs) w n is (b, ?s) = Inr (b2, s2)"
        "stdout s2 = stdout ?s @ concat (map (shown_row w v) (shown_rows w is))"
      using Cons.IH [of ?s b] Cons.prems c(2,3) by auto
    moreover have "stdout ?s = stdout s @ shown_row w v i" using out by (simp only: print_sel append_assoc)
    moreover have "shown_rows w (i # is) = i # shown_rows w is" using 3 by (simp add: shown_rows_def)
    ultimately show ?thesis by (simp only: append_assoc concat.simps list.map) blast
  qed
qed

text \<open>
  The table of a dump of bytes is the one of the registers of the chip: for each register
  of the range its value in the hexadecimal part and its character at the end of the row, XX
  and X for one that cannot be read, blanks outside the range, and only the rows that hold a
  register of the range.
\<close>

theorem dump_shows_registers:
  assumes "dump_size w = I2C_SMBUS_BYTE_DATA" and "registers an u w v"
    and "cur (dev s) = dump_address w" and "length block = 256"
  shows "\<exists>s'. dump_table (rec_host an u opens funcs) w cb block s = Inr (True, s')
    \<and> stdout s' = stdout s @ byte_header
        @ concat (map (shown_row w v) (shown_rows w (map (\<lambda>i. 16 * i) [0..<16])))"
proof -
  have sz: "dump_size w \<noteq> I2C_SMBUS_WORD_DATA" "dump_size w \<noteq> I2C_SMBUS_BLOCK_DATA"
    "dump_size w \<noteq> I2C_SMBUS_I2C_BLOCK_DATA" "dump_size w \<noteq> I2C_SMBUS_BYTE"
    using assms(1) by (simp_all add: I2C_SMBUS_BYTE_DATA_def I2C_SMBUS_WORD_DATA_def I2C_SMBUS_BLOCK_DATA_def
      I2C_SMBUS_I2C_BLOCK_DATA_def I2C_SMBUS_BYTE_def)
  let ?is = "map (\<lambda>i. 16 * i) [0..<16] :: nat list"
  have "\<forall>i \<in> set ?is. i \<le> 240" "sorted ?is" by (auto simp: sorted_map)
  moreover have "cur (dev (print byte_header s)) = dump_address w" using assms(3) by simp
  ultimately obtain b s' where d: "dump_rows (rec_host an u opens funcs) w 0 ?is (block, print byte_header s) = Inr (b, s')"
      "stdout s' = stdout (print byte_header s) @ concat (map (shown_row w v) (shown_rows w ?is))"
    using dump_rows_shown [OF assms(1,2), of ?is _ block] assms(4) by blast
  have "dump_table (rec_host an u opens funcs) w cb block s = Inr (True, s')"
    using sz d(1) by (simp add: dump_table_def dump_fetch_def del: upt.simps)
  with d(2) show ?thesis by simp
qed

definition sample_dump :: dump_what where
  "sample_dump = \<lparr>dump_address = 0x20, dump_size = I2C_SMBUS_BYTE_DATA, even_only = False, dump_pec = False,
     bank = 0, bankreg = 0x4E, first_reg = 0x10, last_reg = 0x11\<rparr>"

lemma dump_shows_registers_witness:
  "\<exists>s'. dump_table (rec_host quiet_chip (replicate 34 0) (\<lambda>n. 3) (\<lambda>n. None)) sample_dump [] (replicate 256 0)
      \<lparr>dev = \<lparr>cur = 0x20, log = []\<rparr>, stdin = [], stdout = []\<rparr> = Inr (True, s')
    \<and> stdout s' = byte_header @ shown_row sample_dump (\<lambda>a. 7) 0x10"
proof -
  have "registers quiet_chip (replicate 34 0) sample_dump (\<lambda>a. 7)"
    by (simp add: registers_def quiet_chip_def value_of_def union_byte_def)
  moreover have "shown_rows sample_dump (map (\<lambda>i. 16 * i) [0..<16]) = [0x10]" by code_simp
  ultimately show ?thesis
    using dump_shows_registers [of sample_dump quiet_chip "replicate 34 0" "\<lambda>a. 7"
        "\<lparr>dev = \<lparr>cur = 0x20, log = []\<rparr>, stdin = [], stdout = []\<rparr>" "replicate 256 0" "\<lambda>n. 3" "\<lambda>n. None" "[]"]
    by (simp add: sample_dump_def del: upt.simps)
qed

end
