(* ===== verification/Eeprog.thy ===== *)
theory Eeprog
  imports I2cTool
begin

text \<open>
  The EEPROM programmer eeprog: 24cXX.c, which makes the transfers of an EEPROM with one or
  two address bytes out of SMBus calls, and eeprog.c with its options, the dump to the
  standard output and the copy of the standard input into the EEPROM.
\<close>

section \<open>24cXX.c\<close>

definition EEPROM_TYPE_UNKNOWN :: int where "EEPROM_TYPE_UNKNOWN = 0"
definition EEPROM_TYPE_8BIT_ADDR :: int where "EEPROM_TYPE_8BIT_ADDR = 1"
definition EEPROM_TYPE_16BIT_ADDR :: int where "EEPROM_TYPE_16BIT_ADDR = 2"

record eeprom =
  e_dev :: "u8 list option"
  e_addr :: int
  e_fd :: int
  e_type :: int

text \<open>
  The calls go to the descriptor of the structure: the bus, or descriptor 0 after an open
  that failed, where the standard input refuses them.
\<close>

definition stdin_api :: "'d smbus_api" where
  "stdin_api = \<lparr>smbus_ioctl = (\<lambda>r c k b d. (-1, [], d)), uninit_union = []\<rparr>"

definition bus_of :: "'d host \<Rightarrow> eeprom \<Rightarrow> 'd smbus_api" where
  "bus_of h e = (if e_fd e = 0 then stdin_api else smbus h)"

definition i2c_write_1b :: "'d host \<Rightarrow> eeprom \<Rightarrow> u8 \<Rightarrow> 'd tool \<Rightarrow> int \<times> 'd tool" where
  "i2c_write_1b h e buf s = on_dev (i2c_smbus_write_byte (bus_of h e) buf) s"

definition i2c_write_2b :: "'d host \<Rightarrow> eeprom \<Rightarrow> u8 list \<Rightarrow> 'd tool \<Rightarrow> int \<times> 'd tool" where
  "i2c_write_2b h e buf s = on_dev (i2c_smbus_write_byte_data (bus_of h e) (buf ! 0) (buf ! 1)) s"

definition i2c_write_3b :: "'d host \<Rightarrow> eeprom \<Rightarrow> u8 list \<Rightarrow> 'd tool \<Rightarrow> int \<times> 'd tool" where
  "i2c_write_3b h e buf s =
     on_dev (i2c_smbus_write_word_data (bus_of h e) (buf ! 0) (of_nat (unat (buf ! 2) * 256 + unat (buf ! 1)))) s"

text \<open>
  The opening: the return value, or \<open>None\<close> for the exit when the adapter lacks a function.
  The result of the first \<open>ioctl\<close> is compared before it is stored, so that its failure
  returns 1.
\<close>

definition eeprom_funcs :: "u32 list" where
  "eeprom_funcs = [I2C_FUNC_SMBUS_READ_BYTE, I2C_FUNC_SMBUS_WRITE_BYTE, I2C_FUNC_SMBUS_READ_BYTE_DATA,
     I2C_FUNC_SMBUS_WRITE_BYTE_DATA, I2C_FUNC_SMBUS_READ_WORD_DATA, I2C_FUNC_SMBUS_WRITE_WORD_DATA]"

definition eeprom_open ::
  "'d host \<Rightarrow> u8 list \<Rightarrow> int \<Rightarrow> int \<Rightarrow> eeprom \<Rightarrow> 'd tool \<Rightarrow> int option \<times> eeprom \<times> 'd tool" where
  "eeprom_open h dev_fqn addr typ e s =
     (let e = e\<lparr>e_fd := 0, e_addr := 0, e_dev := None\<rparr>;
          fd = open_file h dev_fqn
      in if fd \<le> 0 then (Some (-1), e, s)
         else case get_funcs h dev_fqn of None \<Rightarrow> (Some 1, e, s)
           | Some funcs \<Rightarrow>
             if \<not> list_all (has funcs) eeprom_funcs then (None, e, s)
             else let (r, s) = on_dev (set_slave h False addr) s in
               if r < 0 then (Some r, e, s)
               else (Some 0, e\<lparr>e_fd := fd, e_addr := addr, e_dev := Some dev_fqn, e_type := typ\<rparr>, s))"

definition eeprom_close :: "eeprom \<Rightarrow> eeprom" where
  "eeprom_close e = e\<lparr>e_fd := -1, e_dev := None, e_type := EEPROM_TYPE_UNKNOWN\<rparr>"

definition eeprom_read_current_byte :: "'d host \<Rightarrow> eeprom \<Rightarrow> 'd tool \<Rightarrow> int \<times> 'd tool" where
  "eeprom_read_current_byte h e s = on_dev (i2c_smbus_read_byte (bus_of h e)) s"

definition addr_bytes :: "u16 \<Rightarrow> u8 list" where
  "addr_bytes a = [of_nat (unat a div 256), of_nat (unat a mod 256)]"

definition eeprom_read_byte :: "'d host \<Rightarrow> eeprom \<Rightarrow> u16 \<Rightarrow> 'd tool \<Rightarrow> int \<times> 'd tool" where
  "eeprom_read_byte h e mem_addr s =
     (if e_type e = EEPROM_TYPE_8BIT_ADDR then
        let (r, s) = i2c_write_1b h e (addr_bytes mem_addr ! 1) s in
        if r < 0 then (r, s) else on_dev (i2c_smbus_read_byte (bus_of h e)) s
      else if e_type e = EEPROM_TYPE_16BIT_ADDR then
        let (r, s) = i2c_write_2b h e (addr_bytes mem_addr) s in
        if r < 0 then (r, s) else on_dev (i2c_smbus_read_byte (bus_of h e)) s
      else (-1, s))"

definition eeprom_write_byte :: "'d host \<Rightarrow> eeprom \<Rightarrow> u16 \<Rightarrow> u8 \<Rightarrow> 'd tool \<Rightarrow> int \<times> 'd tool" where
  "eeprom_write_byte h e mem_addr data s =
     (if e_type e = EEPROM_TYPE_8BIT_ADDR then i2c_write_2b h e [addr_bytes mem_addr ! 1, data] s
      else if e_type e = EEPROM_TYPE_16BIT_ADDR then i2c_write_3b h e (addr_bytes mem_addr @ [data]) s
      else (-1, s))"

section \<open>eeprog.c\<close>

text \<open>\<open>int\<close> values are kept as 32-bit words. A size without a colon stays as it was.\<close>

definition parse_arg :: "u8 list \<Rightarrow> u32 \<Rightarrow> u32 \<times> u32" where
  "parse_arg arg sz =
     (let (a, rest) = strtoul_end 0 arg
      in (of_nat a, if char_at rest 0 = 58 then of_nat (strtoul 0 (drop 1 rest)) else sz))"

definition confirm_action :: "'d tool \<Rightarrow> 'd tool" where
  "confirm_action s = s\<lparr>stdin := drop 1 (stdin s)\<rparr>"

lemma unat_pred: "x \<noteq> 0 \<Longrightarrow> unat (x - 1) < unat (x :: u32)"
  by (simp add: unat_minus_one unat_gt_0)

lemma unat_pred2: "x \<noteq> 1 \<Longrightarrow> unat (x - 2) < unat (x - 1 :: u32)"
  using unat_pred [of "x - 1"] by simp

text \<open>
  The loop of the dump: \<open>size\<close> is decremented, wrapping around, until it is zero. The left
  result is the exit of \<open>die_if\<close>.
\<close>

definition hex_sep :: "u32 \<Rightarrow> u32 \<Rightarrow> u8 list" where
  "hex_sep i addr =
     (if i mod 16 = 0 then [10, 32] @ hex 4 (unat addr) @ chars ''|  ''
      else if i mod 8 = 0 then chars ''  '' else [])"

function read_more :: "'d host \<Rightarrow> eeprom \<Rightarrow> bool \<Rightarrow> u32 \<Rightarrow> u32 \<Rightarrow> u32 \<Rightarrow> 'd tool \<Rightarrow> 'd tool + 'd tool" where
  "read_more h e hexa i addr sz s =
     (if sz - 1 = 0 then Inr s
      else let (ch, s) = eeprom_read_current_byte h e s in
        if ch < 0 then Inl s
        else if hexa then
          read_more h e hexa (i + 1) (addr + 1) (sz - 1)
            (print (hex_sep i (addr + 1) @ hex 2 (nat ch) @ [32]) s)
        else read_more h e hexa i addr (sz - 1) (print [of_int ch] s))"
  by pat_completeness auto

termination
  by (relation "measure (\<lambda>(h, e, x, i, a, sz, s). unat (sz - 1))") (auto simp: unat_pred2)

declare read_more.simps [simp del]

definition read_from_eeprom :: "'d host \<Rightarrow> eeprom \<Rightarrow> u32 \<Rightarrow> u32 \<Rightarrow> bool \<Rightarrow> 'd tool \<Rightarrow> 'd tool + 'd tool" where
  "read_from_eeprom h e addr sz hexa s =
     (let (ch, s) = eeprom_read_byte h e (ucast addr) s in
      if ch < 0 then Inl s
      else rbind (read_more h e hexa 1 addr sz
          (print (if hexa then [10, 32] @ hex 4 (unat addr) @ chars ''|  '' @ hex 2 (nat ch) @ [32] else [of_int ch]) s))
        (\<lambda>s. Inr (if hexa then print [10, 10] s else s)))"

text \<open>The loop over the standard input.\<close>

fun write_all :: "'d host \<Rightarrow> eeprom \<Rightarrow> u32 \<Rightarrow> u8 list \<Rightarrow> 'd tool \<Rightarrow> 'd tool + 'd tool" where
  "write_all h e addr [] s = Inr s"
| "write_all h e addr (c # inp) s =
     (let (r, s) = eeprom_write_byte h e (ucast addr) c (s\<lparr>stdin := inp\<rparr>) in
      if r \<noteq> 0 then Inl s else write_all h e (addr + 1) inp s)"

definition write_to_eeprom :: "'d host \<Rightarrow> eeprom \<Rightarrow> u32 \<Rightarrow> 'd tool \<Rightarrow> 'd tool + 'd tool" where
  "write_to_eeprom h e addr s = write_all h e addr (stdin s) s"

section \<open>The command line\<close>

text \<open>
  \<open>getopt\<close> of the C library: an option string is a function from the letters to whether they
  take an argument. The options in order, with their arguments, and the other arguments; an
  unknown letter or a missing argument gives a question mark.
\<close>

fun cluster :: "(u8 \<Rightarrow> bool option) \<Rightarrow> u8 list \<Rightarrow> (u8 \<times> u8 list) list \<times> u8 option" where
  "cluster f [] = ([], None)"
| "cluster f (c # cs) =
     (case f c of
        Some True \<Rightarrow> if cs \<noteq> [] then ([(c, cs)], None) else ([], Some c)
      | Some False \<Rightarrow> (let (os, n) = cluster f cs in ((c, []) # os, n))
      | None \<Rightarrow> (let (os, n) = cluster f cs in ((63, []) # os, n)))"

fun getopt :: "(u8 \<Rightarrow> bool option) \<Rightarrow> u8 list list \<Rightarrow> (u8 \<times> u8 list) list \<times> u8 list list" where
  "getopt f [] = ([], [])"
| "getopt f (a # args) =
     (if a = chars ''--'' then ([], args)
      else if char_at a 0 = 45 \<and> 1 < length a then
        let (os, n) = cluster f (drop 1 a) in
        case n of
          None \<Rightarrow> (let (os', rest) = getopt f args in (os @ os', rest))
        | Some c \<Rightarrow>
            (case args of [] \<Rightarrow> (os @ [(63, [])], [])
             | v # args \<Rightarrow> (let (os', rest) = getopt f args in (os @ (c, v) # os', rest)))
      else let (os', rest) = getopt f args in (os', a # rest))"

text \<open>The letters of \<open>1:8fr:qhw:xd\<close>.\<close>

definition eeprog_letters :: "u8 \<Rightarrow> bool option" where
  "eeprog_letters c =
     (if c \<in> {49, 114, 119} then Some True
      else if c \<in> {56, 102, 113, 104, 120, 100} then Some False else None)"

record prog_opts =
  prog_op :: u8
  prog_arg :: "u8 list"
  want_hex :: bool
  dummy :: bool
  prog_force :: bool
  eeprom_type :: int

text \<open>The switch of the options; \<open>None\<close> is an exit with code 1.\<close>

fun prog_options :: "(u8 \<times> u8 list) list \<Rightarrow> prog_opts \<Rightarrow> prog_opts option" where
  "prog_options [] os = Some os"
| "prog_options ((c, v) # opts) os =
     (if c = 49 then
        if char_at v 0 \<noteq> 54 \<or> length v \<noteq> 1 then None
        else if eeprom_type os \<noteq> 0 then None
        else prog_options opts (os\<lparr>eeprom_type := EEPROM_TYPE_16BIT_ADDR\<rparr>)
      else if c = 120 then prog_options opts (os\<lparr>want_hex := True\<rparr>)
      else if c = 100 then prog_options opts (os\<lparr>dummy := True\<rparr>)
      else if c = 56 then
        if eeprom_type os \<noteq> 0 then None
        else prog_options opts (os\<lparr>eeprom_type := EEPROM_TYPE_8BIT_ADDR\<rparr>)
      else if c = 102 then prog_options opts (os\<lparr>prog_force := True\<rparr>)
      else if c = 113 then prog_options opts os
      else if c = 104 then None
      else if prog_op os \<noteq> 0 then None
      else prog_options opts (os\<lparr>prog_arg := v, prog_op := c\<rparr>))"

text \<open>The device and the address: from the arguments, or from the environment.\<close>

record environment =
  env_dev :: "u8 list option"
  env_addr :: "u8 list option"
  file_exists :: "u8 list \<Rightarrow> bool"

definition prog_device :: "environment \<Rightarrow> u8 list list \<Rightarrow> (u8 list \<times> u8 list) option" where
  "prog_device env args =
     (case (case args of [] \<Rightarrow> (env_dev env, env_addr env)
            | [a] \<Rightarrow> if file_exists env a then (Some a, env_addr env) else (env_dev env, Some a)
            | [a, b] \<Rightarrow> (Some a, Some b)
            | _ \<Rightarrow> (None, None)) of
        (Some d, Some a) \<Rightarrow> Some (d, a) | _ \<Rightarrow> None)"

definition to_int :: "nat \<Rightarrow> int" where
  "to_int n = sint (of_nat n :: u32)"

text \<open>The action, on an EEPROM that was opened.\<close>

definition prog_action :: "'d host \<Rightarrow> prog_opts \<Rightarrow> eeprom \<Rightarrow> 'd tool \<Rightarrow> 'd stop" where
  "prog_action h os e s =
     (let s = (if prog_force os then s else confirm_action s);
          (memaddr, sz) = parse_arg (prog_arg os) 1;
          r = (if prog_op os = 114 then read_from_eeprom h e memaddr sz (want_hex os) s
               else write_to_eeprom h e memaddr s)
      in case r of Inl s \<Rightarrow> Exit 1 s | Inr s \<Rightarrow> Exit 0 s)"

definition eeprog_main :: "'d host \<Rightarrow> environment \<Rightarrow> eeprom \<Rightarrow> u8 list list \<Rightarrow> 'd tool \<Rightarrow> 'd stop" where
  "eeprog_main h env e argv s =
     (let (opts, args) = getopt eeprog_letters (tl argv) in
      case prog_options opts \<lparr>prog_op = 0, prog_arg = [], want_hex = False, dummy = False,
          prog_force = False, eeprom_type = 0\<rparr> of
        None \<Rightarrow> Exit 1 s
      | Some os \<Rightarrow>
        let typ = (if eeprom_type os = 0 then EEPROM_TYPE_8BIT_ADDR else eeprom_type os) in
        if prog_op os = 0 then Exit 1 s
        else case prog_device env args of None \<Rightarrow> Exit 1 s
          | Some (device, i2c_addr_s) \<Rightarrow>
            if dummy os then Exit 0 s
            else let (r, e, s) = eeprom_open h device (to_int (strtoul 0 i2c_addr_s)) typ e s in
              case r of None \<Rightarrow> Exit 1 s
              | Some r \<Rightarrow>
                if r < 0 then Exit 1 s
                else if prog_op os \<noteq> 114 \<and> prog_op os \<noteq> 119 then Exit 1 s
                else prog_action h os e s)"

section \<open>The EEPROM\<close>

text \<open>
  The specification of the chip behind the bus: a memory of \<open>n\<close> bytes and an address pointer.
  A write of bytes sets the pointer from the first one or two and stores the others; a read
  gives the byte at the pointer. The pointer goes on with each byte, modulo \<open>n\<close>.
\<close>

record chip24 =
  chip_mem :: "nat \<Rightarrow> u8"
  chip_ptr :: nat

fun store :: "nat \<Rightarrow> nat \<Rightarrow> u8 list \<Rightarrow> (nat \<Rightarrow> u8) \<Rightarrow> (nat \<Rightarrow> u8)" where
  "store n a [] m = m"
| "store n a (c # cs) m = store n ((a + 1) mod n) cs (m(a := c))"

definition chip_write :: "bool \<Rightarrow> nat \<Rightarrow> u8 list \<Rightarrow> chip24 \<Rightarrow> chip24" where
  "chip_write wide n bytes d =
     (let k = (if wide then 2 else 1) in
      if length bytes < k then d
      else let a = (if wide then 256 * unat (bytes ! 0) + unat (bytes ! 1) else unat (bytes ! 0)) mod n; data = drop k bytes
        in d\<lparr>chip_mem := store n a data (chip_mem d), chip_ptr := (a + length data) mod n\<rparr>)"

definition chip_api :: "bool \<Rightarrow> nat \<Rightarrow> u8 list \<Rightarrow> chip24 smbus_api" where
  "chip_api wide n u = \<lparr>smbus_ioctl = (\<lambda>r c k b d.
       if r = 1 \<and> k = 1 then (0, [chip_mem d (chip_ptr d)], d\<lparr>chip_ptr := (chip_ptr d + 1) mod n\<rparr>)
       else if r = 0 \<and> k \<le> 3 then
         (0, [], chip_write wide n (c # take (k - 1) (case b of Some v \<Rightarrow> v | None \<Rightarrow> [])) d)
       else (-1, [], d)), uninit_union = u\<rparr>"

definition eeprom_ok :: "'d host \<Rightarrow> eeprom \<Rightarrow> bool \<Rightarrow> bool" where
  "eeprom_ok h e wide =
     (e_fd e \<noteq> 0 \<and> e_type e = (if wide then EEPROM_TYPE_16BIT_ADDR else EEPROM_TYPE_8BIT_ADDR))"

definition chip_host :: "chip24 host \<Rightarrow> bool \<Rightarrow> nat \<Rightarrow> bool" where
  "chip_host h wide n =
     (0 < n \<and> n \<le> (if wide then 65536 else 256)
      \<and> (\<exists>u. length u = 34 \<and> smbus h = chip_api wide n u))"

lemma addr_bytes_value:
  assumes "a < 65536"
  shows "256 * unat (addr_bytes (of_nat a) ! 0) + unat (addr_bytes (of_nat a) ! 1) = a"
    and "a < 256 \<Longrightarrow> unat (addr_bytes (of_nat a) ! 1) = a"
proof -
  have a: "unat (of_nat a :: u16) = a" using assms by (simp add: unat_of_nat)
  have "a div 256 < 256" using assms by simp
  then show "256 * unat (addr_bytes (of_nat a) ! 0) + unat (addr_bytes (of_nat a) ! 1) = a"
    by (simp add: addr_bytes_def a unat_of_nat)
  show "a < 256 \<Longrightarrow> unat (addr_bytes (of_nat a) ! 1) = a" by (simp add: addr_bytes_def a unat_of_nat)
qed

lemma two_bytes: "x # y # zs = u \<Longrightarrow> take 2 (set_word (of_nat (unat b * 256 + unat a)) u) = [a, b]"
proof -
  assume u: "x # y # zs = u"
  have "unat a < 256" "unat b < 256" using unsigned_less [of a] unsigned_less [of b] by simp_all
  then have "unat b * 256 + unat a < 65536" by linarith
  then have "unat (of_nat (unat b * 256 + unat a) :: u16) = unat b * 256 + unat a"
    by (simp add: unat_of_nat del: of_nat_add of_nat_mult)
  then show ?thesis
    using \<open>unat a < 256\<close> by (simp add: set_word_def u [symmetric] numeral_2_eq_2 del: of_nat_add of_nat_mult)
qed

lemma length_set_word: "length (set_word v u) = length u"
  by (simp add: set_word_def)

text \<open>One byte written, and one byte read.\<close>

lemma eeprom_write_byte_chip:
  assumes h: "chip_host h wide n" and e: "eeprom_ok h e wide" and a: "a < n"
  shows "eeprom_write_byte h e (of_nat a) c s =
    (0, s\<lparr>dev := (dev s)\<lparr>chip_mem := (chip_mem (dev s))(a := c), chip_ptr := (a + 1) mod n\<rparr>\<rparr>)"
proof -
  obtain u where u: "length u = 34" "smbus h = chip_api wide n u" using h by (auto simp: chip_host_def)
  have n: "n \<le> (if wide then 65536 else 256)" using h by (simp add: chip_host_def)
  obtain x us where x: "u = x # us" using u(1) by (cases u) auto
  obtain y zs where "us = y # zs" using u(1) x by (cases us) auto
  with x have xy: "x # y # zs = u" by simp
  have bus: "bus_of h e = chip_api wide n u" using e u(2) by (simp add: bus_of_def eeprom_ok_def)
  have av: "256 * unat (addr_bytes (of_nat a) ! 0) + unat (addr_bytes (of_nat a) ! 1) = a"
    "\<not> wide \<Longrightarrow> unat (addr_bytes (of_nat a) ! 1) = a"
    using addr_bytes_value [of a] a n by (auto split: if_splits)
  obtain hi lo where ab: "addr_bytes (of_nat a) = [hi, lo]" by (simp add: addr_bytes_def)
  show ?thesis
  proof (cases wide)
    case True
    then show ?thesis
      using e av(1) a two_bytes [OF xy, of c lo] u(1)
      by (simp add: eeprom_write_byte_def eeprom_ok_def EEPROM_TYPE_8BIT_ADDR_def EEPROM_TYPE_16BIT_ADDR_def ab
        i2c_write_3b_def on_dev_def i2c_smbus_write_word_data_def i2c_smbus_access_def bus chip_api_def
        I2C_SMBUS_WRITE_def I2C_SMBUS_WORD_DATA_def chip_write_def Let_def length_set_word
        del: of_nat_add of_nat_mult)
  next
    case False
    then show ?thesis
      using e av(2) a xy [symmetric]
      by (simp add: eeprom_write_byte_def eeprom_ok_def EEPROM_TYPE_8BIT_ADDR_def EEPROM_TYPE_16BIT_ADDR_def ab
        i2c_write_2b_def on_dev_def i2c_smbus_write_byte_data_def i2c_smbus_access_def bus chip_api_def
        I2C_SMBUS_WRITE_def I2C_SMBUS_BYTE_DATA_def chip_write_def set_byte_def Let_def)
  qed
qed

lemma eeprom_read_current_chip:
  assumes h: "chip_host h wide n" and e: "eeprom_ok h e wide"
  shows "eeprom_read_current_byte h e s =
    (int (unat (chip_mem (dev s) (chip_ptr (dev s)))), s\<lparr>dev := (dev s)\<lparr>chip_ptr := (chip_ptr (dev s) + 1) mod n\<rparr>\<rparr>)"
proof -
  obtain u where u: "smbus h = chip_api wide n u" using h by (auto simp: chip_host_def)
  have bus: "bus_of h e = chip_api wide n u" using e u by (simp add: bus_of_def eeprom_ok_def)
  show ?thesis
    by (simp add: eeprom_read_current_byte_def on_dev_def i2c_smbus_read_byte_def i2c_smbus_access_def bus chip_api_def
      I2C_SMBUS_READ_def I2C_SMBUS_BYTE_def union_byte_def Let_def)
qed

lemma eeprom_read_byte_chip:
  assumes h: "chip_host h wide n" and e: "eeprom_ok h e wide" and a: "a < n"
  shows "eeprom_read_byte h e (of_nat a) s =
    (int (unat (chip_mem (dev s) a)), s\<lparr>dev := (dev s)\<lparr>chip_ptr := (a + 1) mod n\<rparr>\<rparr>)"
proof -
  obtain u where u: "length u = 34" "smbus h = chip_api wide n u" using h by (auto simp: chip_host_def)
  have n: "n \<le> (if wide then 65536 else 256)" using h by (simp add: chip_host_def)
  obtain x zs where xy: "u = x # zs" using u(1) by (cases u) auto
  have bus: "bus_of h e = chip_api wide n u" using e u(2) by (simp add: bus_of_def eeprom_ok_def)
  have av: "256 * unat (addr_bytes (of_nat a) ! 0) + unat (addr_bytes (of_nat a) ! 1) = a"
    "\<not> wide \<Longrightarrow> unat (addr_bytes (of_nat a) ! 1) = a"
    using addr_bytes_value [of a] a n by (auto split: if_splits)
  note rd = eeprom_read_current_chip [OF h e, unfolded eeprom_read_current_byte_def]
  show ?thesis
  proof (cases wide)
    case True
    then have "i2c_write_2b h e (addr_bytes (of_nat a)) s = (0, s\<lparr>dev := (dev s)\<lparr>chip_ptr := a\<rparr>\<rparr>)"
      using av(1) a by (simp add: i2c_write_2b_def on_dev_def i2c_smbus_write_byte_data_def i2c_smbus_access_def bus
        chip_api_def I2C_SMBUS_WRITE_def I2C_SMBUS_BYTE_DATA_def chip_write_def set_byte_def xy Let_def)
    then show ?thesis
      using e True a by (simp add: eeprom_read_byte_def eeprom_ok_def EEPROM_TYPE_8BIT_ADDR_def EEPROM_TYPE_16BIT_ADDR_def rd)
  next
    case False
    then have "i2c_write_1b h e (addr_bytes (of_nat a) ! 1) s = (0, s\<lparr>dev := (dev s)\<lparr>chip_ptr := a\<rparr>\<rparr>)"
      using av(2) a by (simp add: i2c_write_1b_def on_dev_def i2c_smbus_write_byte_def i2c_smbus_access_def bus
        chip_api_def I2C_SMBUS_WRITE_def I2C_SMBUS_BYTE_def chip_write_def Let_def)
    then show ?thesis
      using e False a by (simp add: eeprom_read_byte_def eeprom_ok_def EEPROM_TYPE_8BIT_ADDR_def EEPROM_TYPE_16BIT_ADDR_def rd)
  qed
qed

section \<open>The loops over the EEPROM\<close>

definition stored :: "nat \<Rightarrow> u8 list \<Rightarrow> (nat \<Rightarrow> u8) \<Rightarrow> nat \<Rightarrow> u8" where
  "stored a cs m b = (if a \<le> b \<and> b < a + length cs then cs ! (b - a) else m b)"

lemma stored_Cons: "stored (a + 1) cs (m(a := c)) = stored a (c # cs) m"
  by (rule ext) (auto simp: stored_def nth_Cons' not_less_eq_eq)

lemma store_stored: "a + length cs \<le> n \<Longrightarrow> store n a cs m = stored a cs m"
proof (induction cs arbitrary: a m)
  case Nil
  then show ?case by (auto simp: stored_def fun_eq_iff)
next
  case (Cons c cs)
  show ?case
  proof (cases cs)
    case Nil
    then show ?thesis by (auto simp: stored_def fun_eq_iff)
  next
    case (Cons c' cs')
    then have "(a + 1) mod n = a + 1" using Cons.prems by simp
    then have "store n a (c # cs) m = stored (a + 1) cs (m(a := c))" using Cons.IH [of "a + 1"] Cons.prems by simp
    then show ?thesis by (simp only: stored_Cons)
  qed
qed

lemma stored_append: "stored (a + length xs) ys (stored a xs m) = stored a (xs @ ys) m"
  by (rule ext) (auto simp: stored_def nth_append)

lemma ucast_of_nat: "(ucast (of_nat a :: u32) :: u16) = of_nat a"
  by (simp add: unsigned_of_nat word_of_nat_eq_iff)

lemma write_all_chip:
  assumes h: "chip_host h wide n" and e: "eeprom_ok h e wide"
  shows "a + length cs \<le> n \<Longrightarrow> \<exists>s'. write_all h e (of_nat a) cs s = Inr s'
    \<and> chip_mem (dev s') = stored a cs (chip_mem (dev s)) \<and> stdout s' = stdout s"
proof (induction cs arbitrary: a s)
  case Nil
  then show ?case by (auto simp: stored_def fun_eq_iff)
next
  case (Cons c cs)
  let ?s = "s\<lparr>stdin := cs, dev := (dev s)\<lparr>chip_mem := (chip_mem (dev s))(a := c), chip_ptr := (a + 1) mod n\<rparr>\<rparr>"
  have a: "a < n" "a + 1 + length cs \<le> n" using Cons.prems by simp_all
  have "eeprom_write_byte h e (ucast (of_nat a :: u32)) c (s\<lparr>stdin := cs\<rparr>) = (0, ?s)"
    unfolding ucast_of_nat using eeprom_write_byte_chip [OF h e a(1), of c "s\<lparr>stdin := cs\<rparr>"] by simp
  then have "write_all h e (of_nat a) (c # cs) s = write_all h e (of_nat (a + 1)) cs ?s" by (simp add: add.commute)
  moreover have "chip_mem (dev ?s) = (chip_mem (dev s))(a := c)" "stdout ?s = stdout s" by simp_all
  ultimately show ?case using Cons.IH [OF a(2), of ?s] by (simp only: stored_Cons)
qed

text \<open>The dump without hexadecimal numbers, from any state of the pointer.\<close>

definition following :: "nat \<Rightarrow> (nat \<Rightarrow> u8) \<Rightarrow> nat \<Rightarrow> nat \<Rightarrow> u8 list" where
  "following n m p k = map (\<lambda>j. m ((p + j) mod n)) [0..<k]"

lemma following_Suc: "following n m p (Suc k) = m (p mod n) # following n m (Suc p) k"
  by (simp add: following_def upt_conv_Cons map_Suc_upt [symmetric] del: upt.simps)

lemma following_mod: "following n m (p mod n) k = following n m p k"
  by (simp add: following_def mod_simps)

lemma read_more_chip:
  assumes h: "chip_host h wide n" and e: "eeprom_ok h e wide"
  shows "chip_ptr (dev s) < n \<Longrightarrow> \<exists>s'. read_more h e False i addr sz s = Inr s' \<and> chip_mem (dev s') = chip_mem (dev s)
    \<and> stdout s' = stdout s @ following n (chip_mem (dev s)) (chip_ptr (dev s)) (unat (sz - 1))"
proof (induction "unat (sz - 1)" arbitrary: sz s)
  case 0
  then have "sz - 1 = 0" by (simp add: unat_eq_0)
  then have "sz = 1" by simp
  then show ?case by (subst read_more.simps) (simp add: following_def)
next
  case (Suc k)
  let ?c = "chip_mem (dev s) (chip_ptr (dev s))"
  let ?s = "print [?c] (s\<lparr>dev := (dev s)\<lparr>chip_ptr := (chip_ptr (dev s) + 1) mod n\<rparr>\<rparr>)"
  have ne: "sz - 1 \<noteq> 0" using Suc.hyps(2) by auto
  then have k: "k = unat (sz - 1 - 1)" using Suc.hyps(2) unat_minus_one [OF ne] by simp
  have step: "read_more h e False i addr sz s = read_more h e False i addr (sz - 1) ?s"
    using ne by (subst read_more.simps) (simp add: eeprom_read_current_chip [OF h e])
  have lt: "chip_ptr (dev ?s) < n" using h by (simp add: chip_host_def)
  have "following n (chip_mem (dev s)) (chip_ptr (dev s)) (unat (sz - 1))
      = ?c # following n (chip_mem (dev s)) ((chip_ptr (dev s) + 1) mod n) k"
    using Suc.prems by (simp only: Suc.hyps(2) [symmetric] following_Suc following_mod) simp
  then show ?case unfolding step using Suc.hyps(1) [OF k lt] k by auto
qed

text \<open>
  C16. What eeprog writes it reads back: the bytes of the standard input end up in the EEPROM
  from the address on and nothing else is changed, for one and for two address bytes, as
  long as they fit in the chip, and a dump of as many bytes from the same address prints just
  them and leaves the memory as it is.
\<close>

theorem eeprog_round_trip:
  assumes "chip_host h wide n" and "eeprom_ok h e wide" and "stdin s \<noteq> []" and "a + length (stdin s) \<le> n"
  shows "\<exists>s1 s2. write_to_eeprom h e (of_nat a) s = Inr s1
    \<and> (\<forall>b. chip_mem (dev s1) b
        = (if a \<le> b \<and> b < a + length (stdin s) then stdin s ! (b - a) else chip_mem (dev s) b))
    \<and> read_from_eeprom h e (of_nat a) (of_nat (length (stdin s))) False s1 = Inr s2
    \<and> stdout s2 = stdout s @ stdin s \<and> chip_mem (dev s2) = chip_mem (dev s1)"
proof -
  obtain s1 where w: "write_to_eeprom h e (of_nat a) s = Inr s1" "chip_mem (dev s1) = stored a (stdin s) (chip_mem (dev s))"
      "stdout s1 = stdout s"
    using write_all_chip [OF assms(1,2,4), of s] by (auto simp: write_to_eeprom_def)
  have a: "a < n" using assms(3,4) by (cases "stdin s") auto
  have n: "n \<le> 65536" using assms(1) by (auto simp: chip_host_def split: if_splits)
  define k where "k = length (stdin s) - 1"
  have k: "length (stdin s) = Suc k" using assms(3) by (cases "stdin s") (auto simp: k_def)
  have u: "unat (of_nat (length (stdin s)) - 1 :: u32) = k"
    using assms(4) n by (simp add: k unat_of_nat)
  let ?s = "print [chip_mem (dev s1) a] (s1\<lparr>dev := (dev s1)\<lparr>chip_ptr := (a + 1) mod n\<rparr>\<rparr>)"
  have rd: "eeprom_read_byte h e (ucast (of_nat a :: u32)) s1
      = (int (unat (chip_mem (dev s1) a)), s1\<lparr>dev := (dev s1)\<lparr>chip_ptr := (a + 1) mod n\<rparr>\<rparr>)"
    unfolding ucast_of_nat by (rule eeprom_read_byte_chip [OF assms(1,2) a])
  have "chip_ptr (dev ?s) < n" using a by simp
  from read_more_chip [OF assms(1,2) this, of 1 "of_nat a" "of_nat (length (stdin s))"] obtain s2 where
    r: "read_more h e False 1 (of_nat a) (of_nat (length (stdin s))) ?s = Inr s2" "chip_mem (dev s2) = chip_mem (dev s1)"
    and out: "stdout s2 = stdout ?s @ following n (chip_mem (dev s1)) ((a + 1) mod n) k"
    unfolding u by auto
  have "stdout s2 = stdout s1 @ following n (chip_mem (dev s1)) a (Suc k)"
    using out a by (simp add: following_Suc following_mod)
  moreover have "following n (chip_mem (dev s1)) a (Suc k) = stdin s"
    by (rule nth_equalityI) (use assms(4) k in \<open>auto simp: following_def w(2) stored_def simp del: upt.simps\<close>)
  ultimately have "read_from_eeprom h e (of_nat a) (of_nat (length (stdin s))) False s1 = Inr s2 \<and> stdout s2 = stdout s @ stdin s"
    by (simp add: read_from_eeprom_def rd r(1) [simplified] w(3))
  then show ?thesis using w r(2) by (auto simp: stored_def)
qed

definition small_eeprom :: "chip24 host" where
  "small_eeprom = \<lparr>smbus = chip_api False 256 (replicate 34 0), open_file = (\<lambda>n. 3), get_funcs = (\<lambda>n. Some (-1)),
     set_slave = (\<lambda>f a d. (0, d)), set_pec = (\<lambda>e d. (0, d))\<rparr>"

definition small_handle :: "int \<Rightarrow> eeprom" where
  "small_handle t = \<lparr>e_dev = None, e_addr = 0x50, e_fd = 3, e_type = t\<rparr>"

lemma small_eeprom_ok: "chip_host small_eeprom False 256" "eeprom_ok h (small_handle EEPROM_TYPE_8BIT_ADDR) False"
  by (auto simp: chip_host_def small_eeprom_def eeprom_ok_def small_handle_def intro: exI [of _ "replicate 34 0"])

definition small_state :: "u8 list \<Rightarrow> chip24 tool" where
  "small_state inp = \<lparr>dev = \<lparr>chip_mem = (\<lambda>b. 0xFF), chip_ptr = 9\<rparr>, stdin = inp, stdout = []\<rparr>"

lemma eeprog_round_trip_witness:
  "\<exists>s1 s2. write_to_eeprom small_eeprom (small_handle EEPROM_TYPE_8BIT_ADDR) 16 (small_state [1, 2, 3]) = Inr s1
    \<and> read_from_eeprom small_eeprom (small_handle EEPROM_TYPE_8BIT_ADDR) 16 3 False s1 = Inr s2 \<and> stdout s2 = [1, 2, 3]"
  using eeprog_round_trip [OF small_eeprom_ok(1) small_eeprom_ok(2), of "small_state [1, 2, 3]" 16]
  by (auto simp: small_state_def)

text \<open>
  A dump ends, and it prints as many bytes as were asked for, except for the size zero,
  which is decremented before it is tested: the dump of no bytes prints 2^32 of them.
\<close>

theorem read_from_eeprom_count:
  assumes "chip_host h wide n" and "eeprom_ok h e wide" and "a < n"
  shows "\<exists>s'. read_from_eeprom h e (of_nat a) sz False s = Inr s'
    \<and> length (stdout s') = length (stdout s) + (if sz = 0 then 4294967296 else unat sz)"
proof -
  let ?s = "print [chip_mem (dev s) a] (s\<lparr>dev := (dev s)\<lparr>chip_ptr := (a + 1) mod n\<rparr>\<rparr>)"
  have rd: "eeprom_read_byte h e (ucast (of_nat a :: u32)) s
      = (int (unat (chip_mem (dev s) a)), s\<lparr>dev := (dev s)\<lparr>chip_ptr := (a + 1) mod n\<rparr>\<rparr>)"
    unfolding ucast_of_nat by (rule eeprom_read_byte_chip [OF assms])
  have "chip_ptr (dev ?s) < n" using assms(3) by simp
  from read_more_chip [OF assms(1,2) this, of 1 "of_nat a" sz] obtain s2 where
    r: "read_more h e False 1 (of_nat a) sz ?s = Inr s2"
      "stdout s2 = stdout ?s @ following n (chip_mem (dev ?s)) (chip_ptr (dev ?s)) (unat (sz - 1))" by auto
  have "length (stdout s2) = length (stdout s) + 1 + unat (sz - 1)" using r(2) by (simp add: following_def)
  moreover have "1 + unat (sz - 1) = (if sz = 0 then 4294967296 else unat sz)"
    by (simp add: unat_minus_one unat_gt_0 Suc_le_eq unsigned_minus_1_eq_mask mask_eq_exp_minus_1)
  ultimately show ?thesis by (auto simp: read_from_eeprom_def rd r(1) [simplified])
qed

lemma read_from_eeprom_count_witness:
  "\<exists>s'. read_from_eeprom small_eeprom (small_handle EEPROM_TYPE_8BIT_ADDR) 16 0 False (small_state []) = Inr s'
    \<and> length (stdout s') = 4294967296"
  using read_from_eeprom_count [OF small_eeprom_ok(1) small_eeprom_ok(2), of 16 0 "small_state []"]
  by (simp add: small_state_def)

text \<open>
  Reading a byte in the mode of the chip leaves its memory as it was. In 16-bit mode, a
  read of a chip with one address byte writes to it: the low byte of the address is stored
  where the high byte says.
\<close>

theorem eeprom_read_byte_mode:
  assumes "chip_host h wide n" and "e_fd e \<noteq> 0" and "a < n"
  shows "(eeprom_ok h e wide \<longrightarrow> (\<exists>s'. eeprom_read_byte h e (of_nat a) s = (int (unat (chip_mem (dev s) a)), s')
      \<and> chip_mem (dev s') = chip_mem (dev s)))
    \<and> (\<not> wide \<and> e_type e = EEPROM_TYPE_16BIT_ADDR \<longrightarrow>
        (\<exists>r s'. eeprom_read_byte h e (of_nat b) s = (r, s')
          \<and> chip_mem (dev s') = (chip_mem (dev s))(unat (addr_bytes (of_nat b) ! 0) mod n := addr_bytes (of_nat b) ! 1)))"
proof (intro conjI impI)
  assume "eeprom_ok h e wide"
  then show "\<exists>s'. eeprom_read_byte h e (of_nat a) s = (int (unat (chip_mem (dev s) a)), s')
      \<and> chip_mem (dev s') = chip_mem (dev s)"
    by (simp add: eeprom_read_byte_chip [OF assms(1) _ assms(3)])
next
  assume m: "\<not> wide \<and> e_type e = EEPROM_TYPE_16BIT_ADDR"
  obtain u where u: "length u = 34" "smbus h = chip_api wide n u" using assms(1) by (auto simp: chip_host_def)
  obtain x zs where xy: "u = x # zs" using u(1) by (cases u) auto
  have bus: "bus_of h e = chip_api wide n u" using assms(2) u(2) by (simp add: bus_of_def)
  obtain hi lo where ab: "addr_bytes (of_nat b) = [hi, lo]" by (simp add: addr_bytes_def)
  let ?s = "s\<lparr>dev := (dev s)\<lparr>chip_mem := (chip_mem (dev s))(unat hi mod n := lo), chip_ptr := (unat hi mod n + 1) mod n\<rparr>\<rparr>"
  have "i2c_write_2b h e [hi, lo] s = (0, ?s)"
    using m by (simp add: i2c_write_2b_def on_dev_def i2c_smbus_write_byte_data_def i2c_smbus_access_def bus chip_api_def
      I2C_SMBUS_WRITE_def I2C_SMBUS_BYTE_DATA_def chip_write_def set_byte_def xy Let_def)
  moreover obtain r s2 where "on_dev (i2c_smbus_read_byte (bus_of h e)) ?s = (r, s2)" "chip_mem (dev s2) = chip_mem (dev ?s)"
    by (simp add: on_dev_def i2c_smbus_read_byte_def i2c_smbus_access_def bus chip_api_def I2C_SMBUS_READ_def
      I2C_SMBUS_BYTE_def Let_def)
  ultimately show "\<exists>r s'. eeprom_read_byte h e (of_nat b) s = (r, s')
      \<and> chip_mem (dev s') = (chip_mem (dev s))(unat (addr_bytes (of_nat b) ! 0) mod n := addr_bytes (of_nat b) ! 1)"
    using m by (simp add: eeprom_read_byte_def EEPROM_TYPE_8BIT_ADDR_def EEPROM_TYPE_16BIT_ADDR_def ab)
qed

lemma eeprom_read_byte_mode_witness:
  "\<exists>r s'. eeprom_read_byte small_eeprom (small_handle EEPROM_TYPE_16BIT_ADDR) (of_nat 0x123) (small_state []) = (r, s')
    \<and> chip_mem (dev s') 1 = 0x23"
  using eeprom_read_byte_mode [OF small_eeprom_ok(1), of "small_handle EEPROM_TYPE_16BIT_ADDR" 0 "small_state []" "0x123"]
  by (auto simp: small_handle_def addr_bytes_def)

end
