(* ===== verification/EepromPages.thy ===== *)
theory EepromPages
  imports I2cBusses Eeprog
begin

text \<open>
  The program eeprom of eeprom.c: it copies the pages of an EEPROM to or from a file with the
  message transfers of the I2C bus, a page of 256 bytes in chunks of eight. A page has an
  address on the bus of its own.
\<close>

section \<open>Transfers\<close>

text \<open>
  The host: the transfer of one message (address, whether it reads, and its bytes; the
  result, the bytes and the bus), the opening of the bus and of the data file, with its
  contents when it is read, and the results of its reads and writes.
\<close>

record 'd page_host =
  rdwr :: "u16 \<Rightarrow> bool \<Rightarrow> u8 list \<Rightarrow> 'd \<Rightarrow> int \<times> u8 list \<times> 'd"
  open_bus :: "u8 list \<Rightarrow> int"
  open_input :: "u8 list \<Rightarrow> u8 list option"
  open_output :: "u8 list \<Rightarrow> bool"
  input_fails :: "nat \<Rightarrow> bool"
  output_count :: "nat \<Rightarrow> nat"

definition BYTES_PER_PAGE :: nat where "BYTES_PER_PAGE = 256"
definition MAX_BYTES :: nat where "MAX_BYTES = 8"

text \<open>The copy behind the offset byte; both arrays are checked.\<close>

fun copy_buf :: "nat \<Rightarrow> nat \<Rightarrow> u8 list \<Rightarrow> u8 list \<Rightarrow> fault + u8 list" where
  "copy_buf 0 i buf b = Inr b"
| "copy_buf (Suc n) i buf b =
     (if 1 + i < length b \<and> i < length buf then copy_buf n (i + 1) buf (b[1 + i := buf ! i]) else Inl OutOfBounds)"

text \<open>\<open>eeprom_write\<close>: the array starts with what was on the stack, \<open>u\<close>.\<close>

definition rdwr_eeprom_write ::
  "'d page_host \<Rightarrow> u8 list \<Rightarrow> u32 \<Rightarrow> u32 \<Rightarrow> u8 list \<Rightarrow> u8 \<Rightarrow> 'd \<Rightarrow> fault + int \<times> 'd" where
  "rdwr_eeprom_write h u addr offset buf len d =
     (if unat len > MAX_BYTES then Inr (-1, d)
      else if ucast len + offset > 256 then Inr (-1, d)
      else rbind (copy_buf (unat len) 0 buf (u[0 := ucast offset])) (\<lambda>b.
        let (i, b', d) = rdwr h (ucast addr) False (take (1 + unat len) b) d in
        Inr (if i < 0 then -1 else 0, d)))"

text \<open>\<open>eeprom_read\<close>: the kernel stores the bytes at the start of the buffer.\<close>

definition rdwr_eeprom_read ::
  "'d page_host \<Rightarrow> u8 list \<Rightarrow> u32 \<Rightarrow> u32 \<Rightarrow> u8 list \<Rightarrow> u8 \<Rightarrow> 'd \<Rightarrow> fault + int \<times> u8 list \<times> 'd" where
  "rdwr_eeprom_read h u addr offset buf len d =
     (if unat len > MAX_BYTES then Inr (-1, buf, d)
      else rbind (rdwr_eeprom_write h u addr offset [] 0 d) (\<lambda>(r, d).
        if r < 0 then Inr (-1, buf, d)
        else if unat len > length buf then Inl OutOfBounds
        else let (i, b', d) = rdwr h (ucast addr) True (take (unat len) buf) d;
                 buf = take (unat len) b' @ drop (unat len) buf
          in Inr (if i < 0 then -1 else 0, buf, d)))"

section \<open>Pages\<close>

text \<open>The chunks of a page, given by their numbers; the result says whether all went well.\<close>

fun write_chunks :: "'d page_host \<Rightarrow> u8 list \<Rightarrow> u32 \<Rightarrow> u8 list \<Rightarrow> nat list \<Rightarrow> 'd \<Rightarrow> fault + bool \<times> 'd" where
  "write_chunks h u addr buf [] d = Inr (True, d)"
| "write_chunks h u addr buf (j # js) d =
     rbind (rdwr_eeprom_write h u addr (of_nat (j * MAX_BYTES)) (drop (j * MAX_BYTES) buf) (of_nat MAX_BYTES) d)
       (\<lambda>(r, d). if r < 0 then Inr (False, d) else write_chunks h u addr buf js d)"

fun read_chunks :: "'d page_host \<Rightarrow> u8 list \<Rightarrow> u32 \<Rightarrow> u8 list \<Rightarrow> nat list \<Rightarrow> 'd \<Rightarrow> fault + bool \<times> u8 list \<times> 'd" where
  "read_chunks h u addr buf [] d = Inr (True, buf, d)"
| "read_chunks h u addr buf (j # js) d =
     rbind (rdwr_eeprom_read h u addr (of_nat (j * MAX_BYTES)) (drop (j * MAX_BYTES) buf) (of_nat MAX_BYTES) d)
       (\<lambda>(r, b, d).
         let buf = take (j * MAX_BYTES) buf @ b in
         if r < 0 then Inr (False, buf, d) else read_chunks h u addr buf js d)"

definition chunks :: "nat list" where
  "chunks = [0..<BYTES_PER_PAGE div MAX_BYTES]"

text \<open>The page to write: from the file, padded with zeros, or all zeros without a file.\<close>

definition input_page :: "u8 list option \<Rightarrow> u8 list" where
  "input_page inp =
     (case inp of None \<Rightarrow> replicate BYTES_PER_PAGE 0
      | Some f \<Rightarrow> take BYTES_PER_PAGE f @ replicate (BYTES_PER_PAGE - length f) 0)"

text \<open>The loops over the pages in the two modes: the exit code, and the file written so far.\<close>

fun write_pages :: "'d page_host \<Rightarrow> u8 list \<Rightarrow> u32 \<Rightarrow> u8 list option \<Rightarrow> nat list \<Rightarrow> 'd \<Rightarrow> fault + int \<times> 'd" where
  "write_pages h u addr inp [] d = Inr (0, d)"
| "write_pages h u addr inp (i # is) d =
     (if inp \<noteq> None \<and> input_fails h i then Inr (1, d)
      else rbind (write_chunks h u (addr + of_nat i) (input_page inp) chunks d) (\<lambda>(ok, d).
        if \<not> ok then Inr (1, d)
        else write_pages h u addr (map_option (drop BYTES_PER_PAGE) inp) is d))"

fun read_pages ::
  "'d page_host \<Rightarrow> u8 list \<Rightarrow> u32 \<Rightarrow> u8 list \<Rightarrow> bool \<Rightarrow> u8 list \<Rightarrow> nat list \<Rightarrow> 'd \<Rightarrow> fault + int \<times> u8 list \<times> 'd" where
  "read_pages h u addr buf out written [] d = Inr (0, written, d)"
| "read_pages h u addr buf out written (i # is) d =
     rbind (read_chunks h u (addr + of_nat i) buf chunks d) (\<lambda>(ok, buf, d).
       if \<not> ok then Inr (1, written, d)
       else if out then
         let j = min (output_count h i) BYTES_PER_PAGE; written = written @ take j buf in
         if j \<noteq> BYTES_PER_PAGE then Inr (1, written, d) else read_pages h u addr buf out written is d
       else read_pages h u addr buf out written is d)"

section \<open>The program\<close>

record page_opts =
  page_dev :: "u8 list"
  page_addr :: u32
  page_count :: int
  page_write :: bool
  page_force :: bool
  page_file :: "u8 list option"

definition page_letters :: "u8 \<Rightarrow> bool option" where
  "page_letters c =
     (if c \<in> {100, 97, 112, 102} then Some True
      else if c \<in> {119, 121, 104} then Some False else None)"

text \<open>\<open>sscanf\<close> with \<open>0x%x\<close>, and with \<open>%d\<close>.\<close>

definition scan_hex :: "u8 list \<Rightarrow> u32 option" where
  "scan_hex s =
     (case scan_prefix (chars ''0x'') s of Inl e \<Rightarrow> None
      | Inr s \<Rightarrow>
        let t = dropWhile is_blank s;
            neg = (char_at t 0 = 45);
            t = (if char_at t 0 = 45 \<or> char_at t 0 = 43 then drop 1 t else t);
            t = (if length t \<ge> 3 \<and> t ! 0 = 48 \<and> (t ! 1 = 120 \<or> t ! 1 = 88) \<and> digit_val (t ! 2) < 16 then drop 2 t else t);
            ds = digits 16 t;
            v = of_nat (min (number 16 ds) ULONG_MAX)
        in if ds = [] then None else Some (if neg then - v else v))"

definition scan_int :: "u8 list \<Rightarrow> int option" where
  "scan_int s = (let (v, rest) = strtol 10 s in if rest = s then None else Some v)"

fun page_options :: "(u8 \<times> u8 list) list \<Rightarrow> page_opts \<Rightarrow> page_opts option" where
  "page_options [] os = Some os"
| "page_options ((c, v) # opts) os =
     (if c = 104 then None
      else if c = 100 then page_options opts (os\<lparr>page_dev := v\<rparr>)
      else if c = 97 then
        (case scan_hex v of None \<Rightarrow> None | Some a \<Rightarrow> page_options opts (os\<lparr>page_addr := a\<rparr>))
      else if c = 112 then
        (case scan_int v of None \<Rightarrow> None | Some n \<Rightarrow> page_options opts (os\<lparr>page_count := n\<rparr>))
      else if c = 119 then page_options opts (os\<lparr>page_write := True\<rparr>)
      else if c = 102 then page_options opts (os\<lparr>page_file := Some v\<rparr>)
      else if c = 121 then page_options opts (os\<lparr>page_force := True\<rparr>)
      else page_options opts os)"

definition page_default :: page_opts where
  "page_default = \<lparr>page_dev = chars ''/dev/i2c-0'', page_addr = 0x50, page_count = 8, page_write = False,
     page_force = False, page_file = None\<rparr>"

text \<open>The answer to the warning: three characters, which have to be yes.\<close>

definition confirm_write :: "u8 list \<Rightarrow> bool \<times> u8 list" where
  "confirm_write inp = (let (l, rest) = fgets 4 inp in (inp \<noteq> [] \<and> l = chars ''yes'', rest))"

definition copy_pages ::
  "'d page_host \<Rightarrow> u8 list \<Rightarrow> u8 list \<Rightarrow> page_opts \<Rightarrow> u8 list option \<Rightarrow> 'd \<Rightarrow> fault + int \<times> u8 list \<times> 'd" where
  "copy_pages h u buf os inp d =
     (let is = [0..<nat (page_count os)] in
      if page_write os then rbind (write_pages h u (page_addr os) inp is d) (\<lambda>(c, d). Inr (c, [], d))
      else read_pages h u (page_addr os) buf (page_file os \<noteq> None) [] is d)"

text \<open>The exit code, the file that was written, and the bus.\<close>

definition eeprom_main ::
  "'d page_host \<Rightarrow> u8 list \<Rightarrow> u8 list \<Rightarrow> u8 list list \<Rightarrow> u8 list \<Rightarrow> 'd \<Rightarrow> fault + int \<times> u8 list \<times> 'd" where
  "eeprom_main h u buf argv inp d =
     (case page_options (fst (getopt page_letters (tl argv))) page_default of
        None \<Rightarrow> Inr (1, [], d)
      | Some os \<Rightarrow>
        let data = (if page_write os then Option.bind (page_file os) (open_input h) else None);
            opened = (case page_file os of None \<Rightarrow> True
              | Some fn \<Rightarrow> if page_write os then data \<noteq> None else open_output h fn)
        in if \<not> opened then Inr (1, [], d)
           else if open_bus h (page_dev os) < 0 then Inr (1, [], d)
           else if page_write os \<and> \<not> page_force os \<and> \<not> fst (confirm_write inp) then Inr (1, [], d)
           else copy_pages h u buf os data d)"

section \<open>A bus of EEPROM pages\<close>

text \<open>The specification: at each address a chip of 256 bytes, as in \<open>Eeprog\<close>.\<close>

definition page_rdwr :: "u16 \<Rightarrow> bool \<Rightarrow> u8 list \<Rightarrow> (u16 \<Rightarrow> chip24) \<Rightarrow> int \<times> u8 list \<times> (u16 \<Rightarrow> chip24)" where
  "page_rdwr a rd bytes d =
     (if rd then (1, following 256 (chip_mem (d a)) (chip_ptr (d a)) (length bytes),
        d(a := (d a)\<lparr>chip_ptr := (chip_ptr (d a) + length bytes) mod 256\<rparr>))
      else (1, bytes, d(a := chip_write False 256 bytes (d a))))"

lemma copy_buf_ok:
  "1 + i + n \<le> length b \<Longrightarrow> i + n \<le> length buf \<Longrightarrow> copy_buf n i buf b = Inr (put (1 + i) (take n (drop i buf)) b)"
proof (induction n arbitrary: i b)
  case (Suc n)
  have "take (Suc n) (drop i buf) = buf ! i # take n (drop (i + 1) buf)"
    using Suc.prems by (simp add: Cons_nth_drop_Suc [of i buf, symmetric])
  moreover have "put (Suc i + 1) xs (b[1 + i := x]) = put (1 + i) (x # xs) b" for x and xs :: "u8 list"
    using Suc.prems by (simp add: put_def upd_conv_take_nth_drop add.commute)
  ultimately show ?case using Suc by simp
qed (simp add: put_def)

section \<open>A chunk\<close>

lemma write_chunk_ok:
  assumes u: "length u = 9" and n: "n \<le> 8" "off + n \<le> 256" "n \<le> length buf"
  shows "rdwr_eeprom_write h u a (of_nat off) buf (of_nat n) d =
    (let (i, b', d) = rdwr h (ucast a) False (of_nat off # take n buf) d in Inr (if i < 0 then -1 else 0, d))"
proof -
  have len: "unat (of_nat n :: u8) = n" using n(1) by (simp add: unat_of_nat)
  have "(ucast (of_nat n :: u8) :: u32) = of_nat n" using len by (metis of_nat_unat)
  then have "ucast (of_nat n :: u8) + of_nat off = (of_nat (n + off) :: u32)" by simp
  moreover have "unat (of_nat (n + off) :: u32) = n + off" using n by (simp add: unat_of_nat del: of_nat_add)
  ultimately have le: "\<not> ucast (of_nat n :: u8) + of_nat off > (256 :: u32)"
    using n(2) by (simp add: word_less_nat_alt del: of_nat_add)
  have off: "(ucast (of_nat off :: u32) :: u8) = of_nat off" by (simp add: unsigned_of_nat word_of_nat_eq_iff)
  obtain x us where x: "u = x # us" using u by (cases u) auto
  have "copy_buf n 0 buf (u[0 := of_nat off]) = Inr (put 1 (take n buf) (of_nat off # us))"
    using copy_buf_ok [of 0 n "of_nat off # us" buf] u x n by simp
  moreover have "take (1 + n) (put 1 (take n buf) (of_nat off # us)) = of_nat off # take n buf"
    using u x n by (simp add: put_def)
  ultimately show ?thesis
    using n(1) by (simp add: rdwr_eeprom_write_def len le off MAX_BYTES_def Let_def split_def)
qed

lemma write_chunk_chip:
  assumes r: "rdwr h = page_rdwr" and u: "length u = 9" and n: "n \<le> 8" "off + n \<le> 256" "off < 256" "n \<le> length buf"
  shows "rdwr_eeprom_write h u a (of_nat off) buf (of_nat n) d =
    Inr (0, d(ucast a := (d (ucast a))\<lparr>chip_mem := stored off (take n buf) (chip_mem (d (ucast a))),
      chip_ptr := (off + n) mod 256\<rparr>))"
proof -
  have "unat (of_nat off :: u8) = off" using n(3) by (simp add: unat_of_nat)
  then have "chip_write False 256 (of_nat off # take n buf) c =
      c\<lparr>chip_mem := stored off (take n buf) (chip_mem c), chip_ptr := (off + n) mod 256\<rparr>" for c
    using n by (simp add: chip_write_def store_stored Let_def min_def)
  then show ?thesis by (subst write_chunk_ok [OF u n(1,2,4)]) (simp add: r page_rdwr_def)
qed

lemma read_chunk_chip:
  assumes r: "rdwr h = page_rdwr" and u: "length u = 9" and off: "off + 8 \<le> 256" and len: "8 \<le> length buf"
  shows "\<exists>d'. rdwr_eeprom_read h u a (of_nat off) buf 8 d =
      Inr (0, map (chip_mem (d (ucast a))) [off..<off + 8] @ drop 8 buf, d')
    \<and> (\<forall>b. chip_mem (d' b) = chip_mem (d b))"
proof -
  let ?c = "d (ucast a)"
  have st: "stored off [] m = m" for m by (auto simp: stored_def fun_eq_iff)
  have w: "rdwr_eeprom_write h u a (of_nat off) [] 0 d = Inr (0, d(ucast a := ?c\<lparr>chip_ptr := off\<rparr>))"
    using write_chunk_chip [OF r u, of 0 off "[]" a d] off by (simp add: st)
  have f: "following 256 (chip_mem ?c) off 8 = map (chip_mem ?c) [off..<off + 8]"
    by (rule nth_equalityI) (use off in \<open>auto simp: following_def simp del: upt.simps\<close>)
  show ?thesis
    using len by (simp add: rdwr_eeprom_read_def w MAX_BYTES_def r page_rdwr_def f Let_def min_def del: upt.simps)
qed

section \<open>A page\<close>

lemma write_chunks_chip:
  assumes r: "rdwr h = page_rdwr" and u: "length u = 9" and buf: "length buf = 256"
  shows "k \<le> 32 \<Longrightarrow> \<exists>d'. write_chunks h u a buf [k..<32] d = Inr (True, d')
    \<and> chip_mem (d' (ucast a)) = stored (8 * k) (drop (8 * k) buf) (chip_mem (d (ucast a)))
    \<and> (\<forall>b. b \<noteq> ucast a \<longrightarrow> d' b = d b)"
proof (induction "32 - k" arbitrary: k d)
  case 0
  then show ?case using buf by (auto simp: stored_def fun_eq_iff)
next
  case (Suc m)
  then have k: "k < 32" and m: "m = 32 - Suc k" "Suc k \<le> 32" by linarith+
  let ?c = "d (ucast a)"
  let ?d = "d(ucast a := ?c\<lparr>chip_mem := stored (8 * k) (take 8 (drop (8 * k) buf)) (chip_mem ?c), chip_ptr := (8 * k + 8) mod 256\<rparr>)"
  have w: "rdwr_eeprom_write h u a (of_nat (k * 8)) (drop (k * 8) buf) (of_nat 8) d = Inr (0, ?d)"
    using write_chunk_chip [OF r u, of 8 "k * 8" "drop (k * 8) buf" a d] k buf by (simp add: mult.commute)
  obtain d' where d': "write_chunks h u a buf [Suc k..<32] ?d = Inr (True, d')"
      "chip_mem (d' (ucast a)) = stored (8 * Suc k) (drop (8 * Suc k) buf) (chip_mem (?d (ucast a)))"
      "\<forall>b. b \<noteq> ucast a \<longrightarrow> d' b = ?d b"
    using Suc.hyps(1) [OF m(1,2), of ?d] by blast
  have "stored (8 * Suc k) (drop (8 * Suc k) buf) (stored (8 * k) (take 8 (drop (8 * k) buf)) f)
      = stored (8 * k) (drop (8 * k) buf) f" for f
    using stored_append [of "8 * k" "take 8 (drop (8 * k) buf)" "drop (8 * Suc k) buf" f] k buf
    by (simp add: drop_drop [symmetric] add.commute del: drop_drop)
  with d'(2) have "chip_mem (d' (ucast a)) = stored (8 * k) (drop (8 * k) buf) (chip_mem ?c)" by simp
  then show ?case
    using k d' w by (simp add: upt_conv_Cons MAX_BYTES_def del: upt.simps of_nat_mult)
qed

lemma read_chunks_chip:
  assumes r: "rdwr h = page_rdwr" and u: "length u = 9"
  shows "k \<le> 32 \<Longrightarrow> length buf = 256 \<Longrightarrow> \<exists>d'. read_chunks h u a buf [k..<32] d
      = Inr (True, take (8 * k) buf @ map (chip_mem (d (ucast a))) [8 * k..<256], d')
    \<and> (\<forall>b. chip_mem (d' b) = chip_mem (d b))"
proof (induction "32 - k" arbitrary: k buf d)
  case 0
  then show ?case by auto
next
  case (Suc m)
  then have k: "k < 32" and m: "m = 32 - Suc k" "Suc k \<le> 32" by linarith+
  let ?m = "chip_mem (d (ucast a))"
  let ?buf = "take (8 * k) buf @ map ?m [8 * k..<8 * k + 8] @ drop 8 (drop (8 * k) buf)"
  have b: "8 * k + 8 \<le> 256" "8 \<le> length (drop (8 * k) buf)" using k Suc.prems(2) by simp_all
  from read_chunk_chip [OF r u b, of a d] obtain d1 where
    c: "rdwr_eeprom_read h u a (of_nat (8 * k)) (drop (8 * k) buf) 8 d
        = Inr (0, map ?m [8 * k..<8 * k + 8] @ drop 8 (drop (8 * k) buf), d1)" "\<forall>b. chip_mem (d1 b) = chip_mem (d b)"
    by blast
  have len: "length ?buf = 256" using k Suc.prems(2) by simp
  obtain d2 where d2: "read_chunks h u a ?buf [Suc k..<32] d1
      = Inr (True, take (8 * Suc k) ?buf @ map (chip_mem (d1 (ucast a))) [8 * Suc k..<256], d2)"
      "\<forall>b. chip_mem (d2 b) = chip_mem (d1 b)"
    using Suc.hyps(1) [OF m(1,2) len, of d1] by blast
  have "[8 * k..<256] = [8 * k..<8 * k + 8] @ [8 * Suc k..<256]"
    using k upt_add_eq_append [of "8 * k" "8 * k + 8" "256 - (8 * k + 8)"] by (simp add: add.commute)
  then have "take (8 * Suc k) ?buf @ map (chip_mem (d1 (ucast a))) [8 * Suc k..<256] = take (8 * k) buf @ map ?m [8 * k..<256]"
    using k Suc.prems(2) c(2) by simp
  moreover have "read_chunks h u a buf [k..<32] d = read_chunks h u a ?buf [Suc k..<32] d1"
    using k c(1) by (simp add: upt_conv_Cons MAX_BYTES_def mult.commute [of k] del: upt.simps of_nat_mult drop_drop)
  ultimately show ?case using d2 c(2) by simp
qed

section \<open>All pages\<close>

definition page_at :: "u32 \<Rightarrow> nat \<Rightarrow> u16" where
  "page_at a i = ucast (a + of_nat i)"

lemma page_at_distinct:
  assumes "unat a + n \<le> 65536" and "i < n" "j < n" and "page_at a i = page_at a j"
  shows "i = j"
proof -
  have p: "unat (page_at a i) = unat a + i" if "i < n" for i
  proof -
    define x where "x = unat a"
    have "a = of_nat x" by (simp add: x_def)
    then have "a + of_nat i = of_nat (x + i)" by (simp only: of_nat_add)
    then have "page_at a i = of_nat (x + i)" by (simp only: page_at_def ucast_of_nat)
    moreover have "x + i < 65536" using assms(1) that by (simp add: x_def)
    ultimately have "unat (page_at a i) = x + i" by (simp only: unat_of_nat) simp
    then show ?thesis by (simp only: x_def)
  qed
  have "unat a + i = unat a + j" using p [OF assms(2)] p [OF assms(3)] by (simp only: assms(4))
  then show ?thesis by (rule add_left_imp_eq)
qed

lemma input_page_length: "length (input_page inp) = 256"
  by (auto simp: input_page_def BYTES_PER_PAGE_def min_def split: option.split)

lemma chunks_all: "chunks = [0..<32]"
  by (simp add: chunks_def BYTES_PER_PAGE_def MAX_BYTES_def del: upt.simps)

definition page_of :: "u8 list option \<Rightarrow> nat \<Rightarrow> u8 list" where
  "page_of inp i = input_page (map_option (drop (256 * i)) inp)"

lemma stored_page: "length buf = 256 \<Longrightarrow> map (stored 0 buf m) [0..<256] = buf"
  by (rule nth_equalityI) (simp_all add: stored_def del: upt.simps)

lemma write_pages_chip:
  assumes r: "rdwr h = page_rdwr" and u: "length u = 9" and ok: "\<And>i. \<not> input_fails h i" and n: "unat a + n \<le> 65536"
  shows "k \<le> n \<Longrightarrow> \<exists>d'. write_pages h u a (map_option (drop (256 * k)) inp) [k..<n] d = Inr (0, d')
    \<and> (\<forall>i. k \<le> i \<and> i < n \<longrightarrow> map (chip_mem (d' (page_at a i))) [0..<256] = page_of inp i)
    \<and> (\<forall>b. b \<notin> page_at a ` {k..<n} \<longrightarrow> d' b = d b)"
proof (induction "n - k" arbitrary: k d)
  case 0
  then show ?case by auto
next
  case (Suc m)
  then have k: "k < n" and m: "m = n - Suc k" "Suc k \<le> n" by linarith+
  from write_chunks_chip [OF r u input_page_length [of "map_option (drop (256 * k)) inp"], of 0 "a + of_nat k" d] obtain d1 where
    d1: "write_chunks h u (a + of_nat k) (page_of inp k) chunks d = Inr (True, d1)"
      "chip_mem (d1 (page_at a k)) = stored 0 (page_of inp k) (chip_mem (d (page_at a k)))"
      "\<forall>b. b \<noteq> page_at a k \<longrightarrow> d1 b = d b"
    by (auto simp: chunks_all page_of_def page_at_def simp del: upt.simps)
  obtain d2 where d2: "write_pages h u a (map_option (drop (256 * Suc k)) inp) [Suc k..<n] d1 = Inr (0, d2)"
      "\<forall>i. Suc k \<le> i \<and> i < n \<longrightarrow> map (chip_mem (d2 (page_at a i))) [0..<256] = page_of inp i"
      "\<forall>b. b \<notin> page_at a ` {Suc k..<n} \<longrightarrow> d2 b = d1 b"
    using Suc.hyps(1) [OF m, of d1] by blast
  have other: "page_at a k \<notin> page_at a ` {Suc k..<n}" using page_at_distinct [OF n k] by auto
  then have "map (chip_mem (d2 (page_at a k))) [0..<256] = page_of inp k"
    using d2(3) d1(2) stored_page [of "page_of inp k"] input_page_length by (simp add: page_of_def del: upt.simps)
  then have "\<forall>i. k \<le> i \<and> i < n \<longrightarrow> map (chip_mem (d2 (page_at a i))) [0..<256] = page_of inp i"
    using d2(2) by (metis le_neq_implies_less Suc_leI)
  moreover have "\<forall>b. b \<notin> page_at a ` {k..<n} \<longrightarrow> d2 b = d b" using d2(3) d1(3) k by force
  moreover have "write_pages h u a (map_option (drop (256 * k)) inp) [k..<n] d
      = write_pages h u a (map_option (drop (256 * Suc k)) inp) [Suc k..<n] d1"
    using k d1(1) by (simp add: upt_conv_Cons ok page_of_def option.map_comp o_def BYTES_PER_PAGE_def add.commute del: upt.simps)
  ultimately show ?case using d2(1) by auto
qed

lemma read_pages_chip:
  assumes r: "rdwr h = page_rdwr" and u: "length u = 9" and ok: "\<And>i. 256 \<le> output_count h i"
  shows "k \<le> n \<Longrightarrow> length buf = 256 \<Longrightarrow> \<exists>d'. read_pages h u a buf True written [k..<n] d
    = Inr (0, written @ concat (map (\<lambda>i. map (chip_mem (d (page_at a i))) [0..<256]) [k..<n]), d')
    \<and> (\<forall>b. chip_mem (d' b) = chip_mem (d b))"
proof (induction "n - k" arbitrary: k d written buf)
  case 0
  then show ?case by auto
next
  case (Suc m)
  then have k: "k < n" and m: "m = n - Suc k" "Suc k \<le> n" by linarith+
  let ?p = "map (chip_mem (d (page_at a k))) [0..<256]"
  from read_chunks_chip [OF r u, of 0 buf "a + of_nat k" d] Suc.prems(2) obtain d1 where
    d1: "read_chunks h u (a + of_nat k) buf chunks d = Inr (True, ?p, d1)" "\<forall>b. chip_mem (d1 b) = chip_mem (d b)"
    by (auto simp: chunks_all page_at_def simp del: upt.simps)
  have len: "length ?p = 256" by simp
  obtain d2 where d2: "read_pages h u a ?p True (written @ ?p) [Suc k..<n] d1
      = Inr (0, (written @ ?p) @ concat (map (\<lambda>i. map (chip_mem (d1 (page_at a i))) [0..<256]) [Suc k..<n]), d2)"
      "\<forall>b. chip_mem (d2 b) = chip_mem (d1 b)"
    using Suc.hyps(1) [OF m len, of "written @ ?p" d1] by blast
  have "read_pages h u a buf True written [k..<n] d = read_pages h u a ?p True (written @ ?p) [Suc k..<n] d1"
    using k d1(1) ok [of k] by (simp add: upt_conv_Cons [OF k] BYTES_PER_PAGE_def min_absorb2 Let_def del: upt.simps)
  then show ?case using d2 d1(2) by (simp add: upt_conv_Cons [OF k] del: upt.simps)
qed

lemma pages_of_file:
  "concat (map (page_of (Some f)) [0..<n]) = take (256 * n) f @ replicate (256 * n - length f) 0"
proof (induction n)
  case (Suc n)
  have "take (256 * Suc n) f = take (256 * n) f @ take 256 (drop (256 * n) f)"
    by (metis add.commute mult_Suc_right take_add)
  moreover have "replicate (256 * Suc n - length f) 0 = replicate (256 * n - length f) 0 @ replicate (256 - (length f - 256 * n)) (0 :: u8)"
    by (simp flip: replicate_add)
  ultimately show ?case
    using Suc by (cases "length f \<le> 256 * n") (simp_all add: page_of_def input_page_def BYTES_PER_PAGE_def)
qed simp

text \<open>
  C17. A file written to the pages of an EEPROM is read back as it was, padded with zeros up
  to the size of the pages or cut to it: no access leaves the arrays, no transfer crosses the
  end of a page, and every chunk goes to its place.
\<close>

theorem eeprom_copy_round_trip:
  assumes "rdwr h = page_rdwr" and "length u = 9" and "length buf = 256"
    and "\<forall>i. \<not> input_fails h i \<and> 256 \<le> output_count h i"
    and "unat (page_addr os) + nat (page_count os) \<le> 65536"
  shows "\<exists>d1 d2. copy_pages h u buf (os\<lparr>page_write := True\<rparr>) (Some f) d = Inr (0, [], d1)
    \<and> copy_pages h u buf (os\<lparr>page_write := False, page_file := Some fn\<rparr>) None d1
        = Inr (0, take (256 * nat (page_count os)) f @ replicate (256 * nat (page_count os) - length f) 0, d2)"
proof -
  let ?n = "nat (page_count os)"
  obtain d1 where w: "write_pages h u (page_addr os) (Some f) [0..<?n] d = Inr (0, d1)"
    and c: "\<forall>i < ?n. map (chip_mem (d1 (page_at (page_addr os) i))) [0..<256] = page_of (Some f) i"
    using write_pages_chip [OF assms(1,2) _ assms(5), of 0 "Some f" d] assms(4) by auto
  obtain d2 where r: "read_pages h u (page_addr os) buf True [] [0..<?n] d1
      = Inr (0, concat (map (\<lambda>i. map (chip_mem (d1 (page_at (page_addr os) i))) [0..<256]) [0..<?n]), d2)"
    using read_pages_chip [OF assms(1,2) _ _ assms(3), of 0 ?n "page_addr os" "[]" d1] assms(4) by auto
  have "map (\<lambda>i. map (chip_mem (d1 (page_at (page_addr os) i))) [0..<256]) [0..<?n] = map (page_of (Some f)) [0..<?n]"
    by (rule map_cong [OF refl]) (use c in simp)
  with r have "read_pages h u (page_addr os) buf True [] [0..<?n] d1
      = Inr (0, take (256 * ?n) f @ replicate (256 * ?n - length f) 0, d2)" by (simp only: pages_of_file)
  then show ?thesis using w by (simp add: copy_pages_def del: upt.simps)
qed

definition page_sample :: "(u16 \<Rightarrow> chip24) page_host" where
  "page_sample = \<lparr>rdwr = page_rdwr, open_bus = (\<lambda>n. 3), open_input = (\<lambda>n. Some [1, 2]), open_output = (\<lambda>n. True),
     input_fails = (\<lambda>i. False), output_count = (\<lambda>i. 256)\<rparr>"

lemma eeprom_copy_round_trip_witness:
  "\<exists>d1 d2. copy_pages page_sample (replicate 9 0) (replicate 256 7) (page_default\<lparr>page_write := True, page_count := 1\<rparr>) (Some [1, 2])
      (\<lambda>a. \<lparr>chip_mem = (\<lambda>b. 0xFF), chip_ptr = 0\<rparr>) = Inr (0, [], d1)
    \<and> copy_pages page_sample (replicate 9 0) (replicate 256 7) (page_default\<lparr>page_write := False, page_file := Some [], page_count := 1\<rparr>)
        None d1 = Inr (0, [1, 2] @ replicate 254 0, d2)"
  using eeprom_copy_round_trip [of page_sample "replicate 9 0" "replicate 256 7" "page_default\<lparr>page_count := 1\<rparr>" "[1, 2]"
      "\<lambda>a. \<lparr>chip_mem = (\<lambda>b. 0xFF), chip_ptr = 0\<rparr>" "[]"]
  by (simp add: page_sample_def page_default_def)

end
