(* ===== verification/Eepromer.thy ===== *)
theory Eepromer
  imports Eeprog
begin

text \<open>
  The older EEPROM programmer eepromer.c: blocks of 64 bytes with combined messages, the
  header at the start of the memory with the time and the length of the contents, and the
  four actions.
\<close>

section \<open>Messages\<close>

text \<open>
  The host: the combined transfer of the \<open>I2C_RDWR\<close> ioctl, which gives its result, the
  messages with what was read, and the bus; the result of opening a device; whether the
  functions can be asked for and the address be set; the clock, and the printed local time.
\<close>

record i2c_msg =
  msg_addr :: u16
  msg_flags :: u16
  msg_buf :: "u8 list"

record 'd rdwr_host =
  xfer :: "i2c_msg list \<Rightarrow> 'd \<Rightarrow> int \<times> i2c_msg list \<times> 'd"
  open_device :: "u8 list \<Rightarrow> int"
  init_ok :: "int \<Rightarrow> bool"
  clock :: u32
  local_time :: "u32 \<Rightarrow> u8 list"

definition MAX_BLK_SIZE :: nat where "MAX_BLK_SIZE = 64"
definition EEPROM_SIZE :: nat where "EEPROM_SIZE = 32768"
definition I2C_M_RD :: u16 where "I2C_M_RD = 0x0001"
definition I2C_M_NOSTART :: u16 where "I2C_M_NOSTART = 0x4000"

record mini_inode =
  timestamp :: u32
  data_len :: u32
  inode_data :: "u8 list"

definition HEAD_SIZE :: nat where "HEAD_SIZE = 64"

text \<open>The structure in memory, little endian, and back.\<close>

definition le4 :: "u32 \<Rightarrow> u8 list" where
  "le4 v = [of_nat (unat v mod 256), of_nat (unat v div 256 mod 256), of_nat (unat v div 65536 mod 256),
     of_nat (unat v div 16777216 mod 256)]"

definition of_le4 :: "u8 list \<Rightarrow> u32" where
  "of_le4 b = of_nat (unat (b ! 0) + 256 * unat (b ! 1) + 65536 * unat (b ! 2) + 16777216 * unat (b ! 3))"

definition inode_bytes :: "mini_inode \<Rightarrow> u8 list" where
  "inode_bytes m = le4 (timestamp m) @ le4 (data_len m) @ inode_data m"

definition bytes_inode :: "u8 list \<Rightarrow> mini_inode" where
  "bytes_inode b = \<lparr>timestamp = of_le4 (take 4 b), data_len = of_le4 (take 4 (drop 4 b)), inode_data = drop 8 b\<rparr>"

text \<open>\<open>made_address\<close> fills the two address bytes.\<close>

definition made_address :: "nat \<Rightarrow> u8 list" where
  "made_address addr = [of_nat (addr div 256 mod 256) AND 0x7F, of_nat (addr mod 256)]"

definition address_msg :: "int \<Rightarrow> nat \<Rightarrow> i2c_msg" where
  "address_msg dev_addr eeprom_addr =
     \<lparr>msg_addr = of_int dev_addr, msg_flags = 0, msg_buf = made_address eeprom_addr\<rparr>"

definition block_write :: "'d rdwr_host \<Rightarrow> int \<Rightarrow> nat \<Rightarrow> u8 list \<Rightarrow> nat \<Rightarrow> 'd tool \<Rightarrow> int \<times> 'd tool" where
  "block_write h dev_addr eeprom_addr buf lenght s =
     (let (r, ms, d) = xfer h [address_msg dev_addr eeprom_addr,
            \<lparr>msg_addr = of_int dev_addr, msg_flags = I2C_M_NOSTART, msg_buf = take lenght buf\<rparr>] (dev s)
      in (if r < 0 then 1 else 0, s\<lparr>dev := d\<rparr>))"

text \<open>The result of \<open>block_read\<close> is the one of the ioctl.\<close>

definition block_read :: "'d rdwr_host \<Rightarrow> int \<Rightarrow> nat \<Rightarrow> u8 list \<Rightarrow> 'd tool \<Rightarrow> int \<times> u8 list \<times> 'd tool" where
  "block_read h dev_addr eeprom_addr buf s =
     (let (ln, ms, d) = xfer h [address_msg dev_addr eeprom_addr,
            \<lparr>msg_addr = of_int dev_addr, msg_flags = I2C_M_RD, msg_buf = buf\<rparr>] (dev s)
      in (ln, msg_buf (ms ! 1), s\<lparr>dev := d\<rparr>))"

definition inode_write :: "'d rdwr_host \<Rightarrow> int \<Rightarrow> nat \<Rightarrow> mini_inode \<Rightarrow> 'd tool \<Rightarrow> int \<times> mini_inode \<times> 'd tool" where
  "inode_write h dev_addr lenght m s =
     (let m = m\<lparr>timestamp := clock h, data_len := of_nat lenght\<rparr>;
          (r, ms, d) = xfer h [address_msg dev_addr 0,
            \<lparr>msg_addr = of_int dev_addr, msg_flags = I2C_M_NOSTART, msg_buf = inode_bytes m\<rparr>] (dev s)
      in (if r < 0 then 1 else 0, m, s\<lparr>dev := d\<rparr>))"

definition inode_read :: "'d rdwr_host \<Rightarrow> int \<Rightarrow> mini_inode \<Rightarrow> 'd tool \<Rightarrow> int \<times> mini_inode \<times> 'd tool" where
  "inode_read h dev_addr m s =
     (let (ln, ms, d) = xfer h [address_msg dev_addr 0,
            \<lparr>msg_addr = of_int dev_addr, msg_flags = I2C_M_RD, msg_buf = inode_bytes m\<rparr>] (dev s)
      in (ln, bytes_inode (msg_buf (ms ! 1)), s\<lparr>dev := d\<rparr>))"

section \<open>Contents\<close>

text \<open>
  The loop over the standard input: \<open>i\<close> bytes of the block are filled, \<open>addr_cnt\<close> is where it
  goes. A full block is written, and at the end of the input what is there, then the header.
  The left result is the return of 1.
\<close>

definition zero_block :: "u8 list" where
  "zero_block = replicate MAX_BLK_SIZE 0"

fun write_content ::
  "'d rdwr_host \<Rightarrow> int \<Rightarrow> nat \<Rightarrow> u8 list \<Rightarrow> nat \<Rightarrow> u8 list \<Rightarrow> mini_inode \<Rightarrow> 'd tool \<Rightarrow> fault + int \<times> mini_inode \<times> 'd tool"
where
  "write_content h addr i buf addr_cnt [] m s =
     (let (r, s) = block_write h addr addr_cnt buf i s in
      if r \<noteq> 0 then Inr (1, m, s)
      else let (r, m, s) = inode_write h addr (addr_cnt + i - HEAD_SIZE) m s in
        if r \<noteq> 0 then Inr (1, m, s) else Inr (0, m, s))"
| "write_content h addr i buf addr_cnt (pom # inp) m s =
     (if i \<ge> length buf then Inl OutOfBounds
      else let buf = buf[i := pom]; s = s\<lparr>stdin := inp\<rparr> in
        if i = MAX_BLK_SIZE - 1 then
          let (r, s) = block_write h addr addr_cnt buf (i + 1) s in
          if r \<noteq> 0 then Inr (1, m, s)
          else write_content h addr 0 zero_block (addr_cnt + i + 1) inp m s
        else write_content h addr (i + 1) buf addr_cnt inp m s)"

definition content_write :: "'d rdwr_host \<Rightarrow> int \<Rightarrow> mini_inode \<Rightarrow> 'd tool \<Rightarrow> fault + int \<times> mini_inode \<times> 'd tool" where
  "content_write h addr m s = write_content h addr 0 zero_block HEAD_SIZE (stdin s) m s"

text \<open>
  The loop of the dump, from address \<open>i\<close> to the one behind the contents. That one is a
  \<open>size_t\<close>, so the signed length is extended to it and a length below -64 is a huge one:
  the loop then goes on until the signed \<open>i\<close> overflows, unless a transfer fails. It is the same
  with a \<open>size_t\<close> of 32 bits, where the sum is still more than any \<open>i\<close>. The block is the one of
  the call before, or what was on the stack.
\<close>

definition content_end :: "u32 \<Rightarrow> nat" where
  "content_end n = unat (of_nat HEAD_SIZE + (scast n :: 64 word))"

abbreviation INT_MAX :: nat where
  "INT_MAX \<equiv> 2147483647"

function read_content :: "'d rdwr_host \<Rightarrow> int \<Rightarrow> nat \<Rightarrow> nat \<Rightarrow> u8 list \<Rightarrow> 'd tool \<Rightarrow> fault + int \<times> 'd tool" where
  "read_content h addr i lim buf s =
     (if i > lim then Inr (0, s)
      else let (r, buf, s) = block_read h addr i buf s in
        if r \<noteq> 0 then Inr (1, s)
        else let k = (if lim - i < MAX_BLK_SIZE then lim - i else MAX_BLK_SIZE); s = print (take k buf) s in
          if i + MAX_BLK_SIZE > INT_MAX then Inl SignedOverflow
          else read_content h addr (i + MAX_BLK_SIZE) lim buf s)"
  by pat_completeness auto
termination
  by (relation "measure (\<lambda>(h, addr, i, lim, buf, s). Suc INT_MAX - i)") (auto simp: MAX_BLK_SIZE_def)

declare read_content.simps [simp del]

definition content_read :: "'d rdwr_host \<Rightarrow> int \<Rightarrow> u8 list \<Rightarrow> mini_inode \<Rightarrow> 'd tool \<Rightarrow> fault + int \<times> mini_inode \<times> 'd tool" where
  "content_read h addr buf m s =
     (let (r, m, s) = inode_read h addr m s in
      case read_content h addr HEAD_SIZE (content_end (data_len m)) buf s of
        Inl e \<Rightarrow> Inl e
      | Inr (r, s) \<Rightarrow> Inr (r, m, s))"

text \<open>The loop of \<open>erase\<close> over the numbers of the blocks.\<close>

fun erase_blocks :: "'d rdwr_host \<Rightarrow> int \<Rightarrow> nat list \<Rightarrow> 'd tool \<Rightarrow> 'd tool" where
  "erase_blocks h addr [] s = s"
| "erase_blocks h addr (j # js) s =
     (let (r, s) = block_write h addr (j * MAX_BLK_SIZE) zero_block MAX_BLK_SIZE s in
      if r \<noteq> 0 then s else erase_blocks h addr js s)"

definition erase :: "'d rdwr_host \<Rightarrow> int \<Rightarrow> nat \<Rightarrow> 'd tool \<Rightarrow> 'd tool" where
  "erase h addr eeprom_size s =
     erase_blocks h addr [0..<(eeprom_size + MAX_BLK_SIZE - 1) div MAX_BLK_SIZE] s"

definition pheader :: "'d rdwr_host \<Rightarrow> int \<Rightarrow> mini_inode \<Rightarrow> 'd tool \<Rightarrow> 'd tool" where
  "pheader h addr m s =
     (let (r, m, s) = inode_read h addr m s
      in print (chars ''LEN='' @ decimal_int (sint (data_len m)) @ chars '',TIME='' @ local_time h (timestamp m) @ [10]) s)"

section \<open>The program\<close>

text \<open>The first loop: the action, or force; the other result is an exit code.\<close>

datatype action = READ | WRITE | ERASE | PHEADER

definition first_option :: "u8 list list \<Rightarrow> int + action option \<times> bool" where
  "first_option args =
     (case args of [] \<Rightarrow> Inr (None, False)
      | a # rest \<Rightarrow>
        if a = chars ''-r'' then Inr (Some READ, False)
        else if a = chars ''-e'' then Inr (Some ERASE, False)
        else if a = chars ''-w'' then Inr (Some WRITE, False)
        else if a = chars ''-p'' then Inr (Some PHEADER, False)
        else if a = chars ''-force'' then Inr (None, True)
        else if a = chars ''-v'' then Inl 0
        else Inl 1)"

text \<open>The device behind -f, copied to an array of 45 bytes that was not initialised.\<close>

fun device_option :: "u8 list list \<Rightarrow> u8 list \<Rightarrow> fault + u8 list" where
  "device_option [] device = Inr device"
| "device_option (a # args) device =
     (if a = chars ''-f'' then
        (case args of [] \<Rightarrow> Inl (BadAccess NULL)
         | v # _ \<Rightarrow> if length v + 1 > 45 then Inl OutOfBounds else Inr v)
      else device_option args device)"

text \<open>\<open>strtol\<close> with base 16: the prefix is optional.\<close>

definition strtol_hex :: "u8 list \<Rightarrow> int" where
  "strtol_hex s =
     (let t = dropWhile is_blank s;
          neg = (char_at t 0 = 45);
          t = (if char_at t 0 = 45 \<or> char_at t 0 = 43 then drop 1 t else t);
          t = (if length t \<ge> 3 \<and> t ! 0 = 48 \<and> (t ! 1 = 120 \<or> t ! 1 = 88) \<and> digit_val (t ! 2) < 16 then drop 2 t else t);
          v = int (number 16 (digits 16 t));
          r = (if neg then - v else v)
      in if r > 2147483647 then 2147483647 else if r < - 2147483648 then - 2147483648 else r)"

definition eepromer_init :: "'d rdwr_host \<Rightarrow> u8 list \<Rightarrow> int \<Rightarrow> int" where
  "eepromer_init h device addr =
     (let fl = open_device h device in
      if fl < 0 then 0 else if \<not> init_ok h addr then 0 else fl)"

text \<open>The action is not initialised when the first option is -force; \<open>u\<close> is what it then is.\<close>

definition eepromer_action ::
  "'d rdwr_host \<Rightarrow> action option \<Rightarrow> int \<Rightarrow> u8 list \<Rightarrow> mini_inode \<Rightarrow> 'd tool \<Rightarrow> 'd stop" where
  "eepromer_action h act addr buf m s =
     (case act of
        Some READ \<Rightarrow>
          (case content_read h addr buf m s of Inl e \<Rightarrow> Crash e | Inr (r, m, s) \<Rightarrow> Exit 0 s)
      | Some WRITE \<Rightarrow>
          (case content_write h addr m s of Inl e \<Rightarrow> Crash e | Inr (r, m, s) \<Rightarrow> Exit 0 s)
      | Some ERASE \<Rightarrow> Exit 0 (erase h addr EEPROM_SIZE s)
      | Some PHEADER \<Rightarrow> Exit 0 (pheader h addr m s)
      | None \<Rightarrow> Exit 1 s)"

definition eepromer_main ::
  "'d rdwr_host \<Rightarrow> action option \<Rightarrow> u8 list \<Rightarrow> u8 list \<Rightarrow> mini_inode \<Rightarrow> u8 list list \<Rightarrow> 'd tool \<Rightarrow> 'd stop" where
  "eepromer_main h u device buf m argv s =
     (case first_option (tl argv) of Inl c \<Rightarrow> Exit c s
      | Inr (act, force) \<Rightarrow>
        let act = (if act = None then u else act);
            s = (if force then s else confirm_action s)
        in if length argv < 5 then Exit 1 s
           else case device_option (tl argv) device of Inl e \<Rightarrow> Crash e
             | Inr device \<Rightarrow>
               if device = [] then Exit 1 s
               else let addr = strtol_hex (argv ! 4) in
                 if addr = 0 then Exit 1 s
                 else if eepromer_init h device addr = 0 then Exit 1 s
                 else eepromer_action h act addr buf m s)"

section \<open>The chip\<close>

text \<open>
  The specification: one chip with two address bytes, 32 KB, at the address \<open>a\<close>. A write of
  both messages is one write of their bytes; \<open>res\<close> is the result of a transfer that succeeds:
  the kernel gives the number of the messages.
\<close>

definition chip_xfer :: "u16 \<Rightarrow> int \<Rightarrow> i2c_msg list \<Rightarrow> chip24 \<Rightarrow> int \<times> i2c_msg list \<times> chip24" where
  "chip_xfer a res ms d =
     (let m0 = ms ! 0; m1 = ms ! 1 in
      if msg_addr m0 \<noteq> a \<or> msg_addr m1 \<noteq> a then (-1, ms, d)
      else if msg_flags m1 = I2C_M_RD then
        let d = chip_write True 32768 (msg_buf m0) d in
        (res, [m0, m1\<lparr>msg_buf := following 32768 (chip_mem d) (chip_ptr d) (length (msg_buf m1))\<rparr>],
         d\<lparr>chip_ptr := (chip_ptr d + length (msg_buf m1)) mod 32768\<rparr>)
      else (res, ms, chip_write True 32768 (msg_buf m0 @ msg_buf m1) d))"

lemma unat_and_7f: "unat (x AND 0x7F :: u8) = unat x mod 128"
proof -
  have "x AND 0x7F = take_bit 7 x" by (simp add: take_bit_eq_mask mask_eq_exp_minus_1)
  then show ?thesis by (simp only: unsigned_take_bit_eq) (simp add: take_bit_eq_mod)
qed

lemma made_address_value:
  "(256 * unat (made_address a ! 0) + unat (made_address a ! 1)) mod 32768 = a mod 32768"
proof -
  have hi: "unat (made_address a ! 0) = a div 256 mod 128"
    by (simp add: made_address_def unat_and_7f unat_of_nat mod_mod_cancel)
  have lo: "unat (made_address a ! 1) = a mod 256" by (simp add: made_address_def unat_of_nat)
  have "a mod (256 * 128) = 256 * (a div 256 mod 128) + a mod 256" by (rule mod_mult2_eq)
  then show ?thesis unfolding hi lo by simp
qed

lemma chip_write_address:
  assumes "a + length bs \<le> 32768"
  shows "chip_write True 32768 (made_address a @ bs) d
    = d\<lparr>chip_mem := stored a bs (chip_mem d), chip_ptr := (a + length bs) mod 32768\<rparr>"
proof -
  obtain hi lo where m: "made_address a = [hi, lo]" by (simp add: made_address_def)
  have v: "(256 * unat hi + unat lo) mod 32768 = a mod 32768" using made_address_value [of a] by (simp add: m)
  have "store 32768 (a mod 32768) bs (chip_mem d) = stored a bs (chip_mem d)"
  proof (cases "a < 32768")
    case True
    then show ?thesis using assms by (simp add: store_stored)
  next
    case False
    then have "bs = []" using assms by (cases bs) auto
    then show ?thesis by (auto simp: stored_def fun_eq_iff)
  qed
  then show ?thesis by (simp add: chip_write_def m v Let_def mod_simps)
qed

lemma stored_nil: "stored a [] m = m"
  by (auto simp: stored_def fun_eq_iff)

lemma block_write_chip:
  assumes "xfer h = chip_xfer (of_int addr) res" and "0 \<le> res" and "a + n \<le> 32768" and "n \<le> length buf"
  shows "block_write h addr a buf n s = (0, s\<lparr>dev := (dev s)\<lparr>chip_mem := stored a (take n buf) (chip_mem (dev s)),
    chip_ptr := (a + n) mod 32768\<rparr>\<rparr>)"
  using assms chip_write_address [of a "take n buf" "dev s"]
  by (simp add: block_write_def chip_xfer_def address_msg_def Let_def min_absorb2 I2C_M_NOSTART_def I2C_M_RD_def)

lemma length_le4 [simp]: "length (le4 v) = 4"
  by (simp add: le4_def)

lemma of_le4_le4: "of_le4 (le4 v) = v"
proof -
  have "unat v < 4294967296" using unsigned_less [of v] by simp
  then have "unat v div 16777216 < 256" by (simp add: less_mult_imp_div_less)
  then have "unat v div 16777216 mod 256 = unat v div 16777216" by simp
  moreover have "unat v mod 256 + 256 * (unat v div 256 mod 256) + 65536 * (unat v div 65536 mod 256)
      + 16777216 * (unat v div 16777216) = unat v"
    using mod_mult2_eq [of "unat v" 256 256] mod_mult2_eq [of "unat v" 65536 256] div_mult_mod_eq [of "unat v" 16777216]
    by (simp add: div_mult2_eq [symmetric])
  ultimately have "unat v mod 256 + 256 * (unat v div 256 mod 256) + 65536 * (unat v div 65536 mod 256)
      + 16777216 * (unat v div 16777216 mod 256) = unat v" by simp
  moreover have "of_le4 (le4 v) = of_nat (unat v mod 256 + 256 * (unat v div 256 mod 256)
      + 65536 * (unat v div 65536 mod 256) + 16777216 * (unat v div 16777216 mod 256))"
    unfolding of_le4_def le4_def by (simp add: unat_of_nat del: of_nat_add of_nat_mult)
  ultimately have "of_le4 (le4 v) = of_nat (unat v)" by (simp only:)
  then show ?thesis by simp
qed

lemma bytes_inode_inverse: "bytes_inode (inode_bytes m) = m"
  by (simp add: bytes_inode_def inode_bytes_def of_le4_le4)

section \<open>What is written and read\<close>

text \<open>The contents go behind the header, from what is pending in the block on.\<close>

lemma write_content_chip:
  assumes h: "xfer h = chip_xfer (of_int addr) res" and res: "0 \<le> res" and m: "length (inode_data m) = 56"
  shows "length buf = 64 \<Longrightarrow> i < 64 \<Longrightarrow> 64 \<le> a \<Longrightarrow> a + i + length inp \<le> 32768 \<Longrightarrow>
    \<exists>s'. write_content h addr i buf a inp m s
        = Inr (0, m\<lparr>timestamp := clock h, data_len := of_nat (a + i + length inp - 64)\<rparr>, s')
      \<and> chip_mem (dev s') = stored 0 (inode_bytes (m\<lparr>timestamp := clock h, data_len := of_nat (a + i + length inp - 64)\<rparr>))
          (stored a (take i buf @ inp) (chip_mem (dev s)))
      \<and> stdout s' = stdout s"
proof (induction inp arbitrary: i buf a s)
  case Nil
  let ?m = "m\<lparr>timestamp := clock h, data_len := of_nat (a + i - 64)\<rparr>"
  have len: "length (inode_bytes ?m) = 64" using m by (simp add: inode_bytes_def)
  have w: "block_write h addr a buf i s = (0, s\<lparr>dev := (dev s)\<lparr>chip_mem := stored a (take i buf) (chip_mem (dev s)),
      chip_ptr := (a + i) mod 32768\<rparr>\<rparr>)"
    using Nil.prems by (intro block_write_chip [OF h res]) simp_all
  show ?case
    using chip_write_address [of 0 "inode_bytes ?m"] len h res
    by (simp add: w inode_write_def address_msg_def chip_xfer_def Let_def HEAD_SIZE_def I2C_M_NOSTART_def I2C_M_RD_def)
next
  case (Cons c inp)
  let ?buf = "buf[i := c]"
  have take: "take (Suc i) ?buf = take i buf @ [c]" using Cons.prems by (simp add: take_Suc_conv_app_nth)
  show ?case
  proof (cases "i = 63")
    case True
    have full: "take 64 ?buf = take i buf @ [c]" using take True by simp
    let ?s = "s\<lparr>stdin := inp, dev := (dev s)\<lparr>chip_mem := stored a (take 64 ?buf) (chip_mem (dev s)), chip_ptr := (a + 64) mod 32768\<rparr>\<rparr>"
    have w: "block_write h addr a ?buf 64 (s\<lparr>stdin := inp\<rparr>) = (0, ?s)"
      using block_write_chip [OF h res, of a 64 ?buf "s\<lparr>stdin := inp\<rparr>"] Cons.prems True by simp
    have "write_content h addr i buf a (c # inp) m s = write_content h addr 0 zero_block (a + 64) inp m ?s"
      using w True Cons.prems by (simp add: MAX_BLK_SIZE_def add.commute [of 64 a])
    moreover have "stored (a + 64) inp (stored a (take 64 ?buf) f) = stored a (take i buf @ c # inp) f" for f
      using stored_append [of a "take 64 ?buf" inp f] Cons.prems True unfolding full by simp
    moreover have "a + 64 + length inp = a + i + length (c # inp)" using True by simp
    ultimately show ?thesis
      using Cons.IH [of zero_block 0 "a + 64" ?s] Cons.prems True by (simp add: zero_block_def MAX_BLK_SIZE_def)
  next
    case False
    then have i: "Suc i < 64" using Cons.prems(2) by simp
    have "write_content h addr i buf a (c # inp) m s = write_content h addr (Suc i) ?buf a inp m (s\<lparr>stdin := inp\<rparr>)"
      using False Cons.prems by (simp add: MAX_BLK_SIZE_def)
    then show ?thesis
      using Cons.IH [of ?buf "Suc i" a "s\<lparr>stdin := inp\<rparr>"] Cons.prems i by (simp add: take)
  qed
qed

lemma block_read_chip:
  assumes "xfer h = chip_xfer (of_int addr) res" and "a \<le> 32768"
  shows "\<exists>s'. block_read h addr a buf s = (res, following 32768 (chip_mem (dev s)) a (length buf), s')
    \<and> chip_mem (dev s') = chip_mem (dev s) \<and> stdout s' = stdout s"
proof -
  have "chip_write True 32768 (made_address a) (dev s) = (dev s)\<lparr>chip_ptr := a mod 32768\<rparr>"
    using chip_write_address [of a "[]" "dev s"] assms(2) by (simp add: stored_nil)
  then show ?thesis
    using assms(1) by (simp add: block_read_def chip_xfer_def address_msg_def Let_def following_mod)
qed

lemma inode_read_chip:
  assumes "xfer h = chip_xfer (of_int addr) res" and "length (inode_data m) = 56"
  shows "\<exists>s'. inode_read h addr m s = (res, bytes_inode (map (chip_mem (dev s)) [0..<64]), s')
    \<and> chip_mem (dev s') = chip_mem (dev s) \<and> stdout s' = stdout s"
proof -
  have "chip_write True 32768 (made_address 0) (dev s) = (dev s)\<lparr>chip_ptr := 0\<rparr>"
    using chip_write_address [of 0 "[]" "dev s"] by (simp add: stored_nil)
  moreover have "following 32768 f 0 64 = map f [0..<64]" for f
    by (rule nth_equalityI) (simp_all add: following_def del: upt.simps)
  moreover have "length (inode_bytes m) = 64" using assms(2) by (simp add: inode_bytes_def)
  ultimately show ?thesis
    using assms(1) by (simp add: inode_read_def chip_xfer_def address_msg_def Let_def del: upt.simps)
qed

lemma read_content_chip:
  assumes h: "xfer h = chip_xfer (of_int addr) 0"
  shows "n + 64 \<le> 32768 \<Longrightarrow> length buf = 64 \<Longrightarrow> \<exists>s'. read_content h addr i (64 + n) buf s = Inr (0, s')
    \<and> stdout s' = stdout s @ map (chip_mem (dev s)) [i..<64 + n]"
proof (induction "65 + n - i" arbitrary: i buf s rule: less_induct)
  case less
  show ?case
  proof (cases "64 + n < i")
    case True
    then show ?thesis by (subst read_content.simps) simp
  next
    case False
    then have "i \<le> 32768" using less.prems(1) by simp
    from block_read_chip [OF h this, of buf s] obtain s1 where
      b: "block_read h addr i buf s = (0, following 32768 (chip_mem (dev s)) i 64, s1)"
        "chip_mem (dev s1) = chip_mem (dev s)" "stdout s1 = stdout s" using less.prems(2) by auto
    let ?b = "following 32768 (chip_mem (dev s)) i 64" and ?k = "if n < i then 64 + n - i else 64"
    have part: "take ?k ?b = map (chip_mem (dev s)) [i..<i + ?k]"
      by (rule nth_equalityI) (use less.prems(1) False in \<open>auto simp: following_def simp del: upt.simps split: if_splits\<close>)
    have step: "read_content h addr i (64 + n) buf s = read_content h addr (i + 64) (64 + n) ?b (print (take ?k ?b) s1)"
      using False by (subst read_content.simps) (use less.prems(1) in \<open>auto simp: b MAX_BLK_SIZE_def Let_def\<close>)
    have len: "length ?b = 64" by (simp add: following_def)
    have "65 + n - (i + 64) < 65 + n - i" using False by linarith
    from less.hyps [OF this less.prems(1) len, of "print (take ?k ?b) s1"] obtain s2 where
      r: "read_content h addr (i + 64) (64 + n) ?b (print (take ?k ?b) s1) = Inr (0, s2)"
        "stdout s2 = stdout (print (take ?k ?b) s1) @ map (chip_mem (dev s)) [i + 64..<64 + n]" using b(2) by auto
    have "[i..<i + ?k] @ [i + 64..<64 + n] = [i..<64 + n]"
    proof (cases "i \<le> n")
      case True
      then have "[i..<64 + n] = [i..<i + 64] @ [i + 64..<64 + n]"
        using upt_add_eq_append [of i "i + 64" "n - i"] by (simp add: add.commute)
      then show ?thesis using True by simp
    qed (use False in simp)
    then have "stdout s2 = stdout s @ map (chip_mem (dev s)) [i..<64 + n]"
      using r(2) b(3) part by (simp flip: map_append)
    then show ?thesis using r(1) step by simp
  qed
qed

lemma read_content_fails:
  assumes "xfer h = chip_xfer (of_int addr) res" and "res \<noteq> 0" and "64 \<le> n"
  shows "\<exists>s'. read_content h addr 64 n buf s = Inr (1, s') \<and> stdout s' = stdout s"
proof -
  obtain s1 where "block_read h addr 64 buf s = (res, following 32768 (chip_mem (dev s)) 64 (length buf), s1)" "stdout s1 = stdout s"
    using block_read_chip [OF assms(1), of 64 buf s] by auto
  then show ?thesis using assms(2,3) by (subst read_content.simps) simp
qed

lemma content_end_of_nat [simp]:
  assumes "n \<le> 32704" shows "content_end (of_nat n) = 64 + n"
proof -
  have "sint (of_nat n :: u32) = int n" using assms by (simp add: signed_of_nat signed_take_bit_int_eq_self)
  then have "scast (of_nat n :: u32) = (of_nat n :: 64 word)" by (simp add: scast_eq)
  then have "content_end (of_nat n) = unat (of_nat (64 + n) :: 64 word)"
    by (simp add: content_end_def HEAD_SIZE_def)
  also have "\<dots> = 64 + n" using assms by (subst unat_of_nat) simp
  finally show ?thesis .
qed

text \<open>
  C18. The contents written are the bytes of the standard input behind the header of 64 bytes,
  which holds the time and their number, and nothing else of the chip is changed. Reading
  them back prints just these bytes if the transfer gives 0. But the kernel gives the number
  of the messages, which the reading takes for an error: with it, nothing is ever printed.
\<close>

theorem eepromer_contents:
  assumes "xfer h = chip_xfer (of_int addr) res" and "0 \<le> res" and "length (inode_data m) = 56"
    and "64 + length (stdin s) \<le> 32768" and "length buf = 64"
  shows "\<exists>m1 s1. content_write h addr m s = Inr (0, m1, s1)
    \<and> data_len m1 = of_nat (length (stdin s)) \<and> timestamp m1 = clock h
    \<and> map (chip_mem (dev s1)) [0..<64 + length (stdin s)] = inode_bytes m1 @ stdin s
    \<and> (\<forall>b \<ge> 64 + length (stdin s). chip_mem (dev s1) b = chip_mem (dev s) b)
    \<and> (\<exists>r s2. content_read h addr buf m s1 = Inr (r, m1, s2)
        \<and> (if res = 0 then r = 0 \<and> stdout s2 = stdout s @ stdin s else r = 1 \<and> stdout s2 = stdout s))"
proof -
  let ?n = "length (stdin s)"
  let ?m = "m\<lparr>timestamp := clock h, data_len := of_nat ?n\<rparr>"
  have len: "length (inode_bytes ?m) = 64" using assms(3) by (simp add: inode_bytes_def)
  obtain s1 where w: "content_write h addr m s = Inr (0, ?m, s1)" "stdout s1 = stdout s"
      "chip_mem (dev s1) = stored 0 (inode_bytes ?m) (stored 64 (stdin s) (chip_mem (dev s)))"
    using write_content_chip [OF assms(1-3), of zero_block 0 64 "stdin s" s] assms(4)
    by (auto simp: content_write_def zero_block_def MAX_BLK_SIZE_def HEAD_SIZE_def)
  have mem: "chip_mem (dev s1) b = (if b < 64 then inode_bytes ?m ! b else if b < 64 + ?n then stdin s ! (b - 64) else chip_mem (dev s) b)"
    for b using w(3) len by (auto simp: stored_def)
  have head: "map (chip_mem (dev s1)) [0..<64] = inode_bytes ?m"
    by (rule nth_equalityI) (simp_all add: mem len del: upt.simps)
  have body: "map (chip_mem (dev s1)) [64..<64 + ?n] = stdin s"
    by (rule nth_equalityI) (simp_all add: mem del: upt.simps)
  have all: "map (chip_mem (dev s1)) [0..<64 + ?n] = inode_bytes ?m @ stdin s"
    using upt_add_eq_append [of 0 64 ?n] head body by (simp del: upt.simps)
  have len': "?n \<le> 32704" using assms(4) by simp
  obtain s2 where i: "inode_read h addr m s1 = (res, ?m, s2)" "chip_mem (dev s2) = chip_mem (dev s1)" "stdout s2 = stdout s1"
    using inode_read_chip [OF assms(1,3), of s1] unfolding head bytes_inode_inverse by auto
  have read: "\<exists>r s3. content_read h addr buf m s1 = Inr (r, ?m, s3)
      \<and> (if res = 0 then r = 0 \<and> stdout s3 = stdout s @ stdin s else r = 1 \<and> stdout s3 = stdout s)"
  proof (cases "res = 0")
    case True
    have h0: "xfer h = chip_xfer (of_int addr) 0" using assms(1) True by simp
    have "?n + 64 \<le> 32768" using assms(4) by simp
    from read_content_chip [OF h0 this assms(5), of 64 s2] obtain s3 where
      "read_content h addr 64 (64 + ?n) buf s2 = Inr (0, s3)" "stdout s3 = stdout s2 @ stdin s" using i(2) body by auto
    then show ?thesis using i w(2) True by (simp add: content_read_def HEAD_SIZE_def content_end_of_nat [OF len'])
  next
    case False
    then obtain s3 where "read_content h addr 64 (64 + ?n) buf s2 = Inr (1, s3)" "stdout s3 = stdout s2"
      using read_content_fails [OF assms(1), of "64 + ?n" buf s2] by auto
    then show ?thesis using i w(2) False by (simp add: content_read_def HEAD_SIZE_def content_end_of_nat [OF len'])
  qed
  show ?thesis using w(1) all mem read by auto
qed

definition eepromer_sample :: "int \<Rightarrow> chip24 rdwr_host" where
  "eepromer_sample res = \<lparr>xfer = chip_xfer 0x51 res, open_device = (\<lambda>n. 3), init_ok = (\<lambda>a. True), clock = 7,
     local_time = (\<lambda>t. [])\<rparr>"

lemma eepromer_contents_witness:
  "\<exists>m1 s1 r s2. content_write (eepromer_sample 2) 0x51 \<lparr>timestamp = 0, data_len = 0, inode_data = replicate 56 0\<rparr>
      (small_state [1, 2]) = Inr (0, m1, s1)
    \<and> content_read (eepromer_sample 2) 0x51 (replicate 64 0) \<lparr>timestamp = 0, data_len = 0, inode_data = replicate 56 0\<rparr> s1 = Inr (r, m1, s2)
    \<and> r = 1 \<and> stdout s2 = []"
  using eepromer_contents [of "eepromer_sample 2" "0x51" 2 "\<lparr>timestamp = 0, data_len = 0, inode_data = replicate 56 0\<rparr>"
      "small_state [1, 2]" "replicate 64 0"]
  by (auto simp: eepromer_sample_def small_state_def)

end
