(* ===== verification/PySmbus.thy ===== *)
theory PySmbus
  imports I2cTool
begin

text \<open>
  The Python binding smbusmodule.c: the SMBus object with the address and the flag it
  remembers for its descriptor, and every method over the calls of i2c-dev.h. What the
  Python library makes of the arguments of a call is the argument of the method: nothing
  when it has refused them. The device files, their descriptors and the memory of the
  interpreter are parameters. Objects are values, so that the counting of references has
  no place; the tables of the module that name the methods are the datatype of the calls.
\<close>

section \<open>Objects, results, the host\<close>

record SMBus =
  fd :: int
  addr :: int
  pec :: int

datatype py_exc = ArgError | IOError | OverflowError | TypeError | MemoryError

datatype 'a py_out = Ret 'a | Raise py_exc | Broken fault

datatype py_val = PyNone | PyLong int | PyLongs "int list" | PyBool bool

text \<open>A Python object, as far as the converter of lists tells them apart.\<close>

datatype py_obj = PyInt int | PyList "py_obj list" | PyOther

text \<open>
  The host: opening a device file (a descriptor or -1), closing a descriptor, the two
  \<open>ioctl\<close>s of a descriptor that choose the chip and switch the error checking (0 or -1),
  the SMBus calls of a descriptor, and whether an object of a size can be allocated.
\<close>

record 'w py_host =
  py_open :: "u8 list \<Rightarrow> 'w \<Rightarrow> int \<times> 'w"
  py_close :: "int \<Rightarrow> 'w \<Rightarrow> int \<times> 'w"
  py_slave :: "int \<Rightarrow> int \<Rightarrow> 'w \<Rightarrow> int \<times> 'w"
  py_pec :: "int \<Rightarrow> int \<Rightarrow> 'w \<Rightarrow> int \<times> 'w"
  py_bus :: "int \<Rightarrow> 'w smbus_api"
  py_alloc :: "nat \<Rightarrow> bool"

type_synonym 'w py_method = "SMBus \<Rightarrow> 'w \<Rightarrow> py_val py_out \<times> SMBus \<times> 'w"

section \<open>Creating, opening, closing\<close>

definition SMBus_new :: "'w py_host \<Rightarrow> SMBus option" where
  "SMBus_new h = (if \<not> py_alloc h 0 then None else Some \<lparr>fd = -1, addr = -1, pec = 0\<rparr>)"

definition SMBus_close :: "'w py_host \<Rightarrow> 'w py_method" where
  "SMBus_close h self w =
     (let (r, w) = (if fd self \<noteq> -1 then py_close h (fd self) w else (0, w)) in
      if fd self \<noteq> -1 \<and> r = -1 then (Raise IOError, self, w)
      else (Ret PyNone, self\<lparr>fd := -1, addr := -1, pec := 0\<rparr>, w))"

text \<open>The destructor drops the result of the close, and the object.\<close>

definition SMBus_dealloc :: "'w py_host \<Rightarrow> SMBus \<Rightarrow> 'w \<Rightarrow> 'w" where
  "SMBus_dealloc h self w = (let (res, self, w) = SMBus_close h self w in w)"

definition MAXPATH :: nat where "MAXPATH = 16"

definition SMBus_open :: "'w py_host \<Rightarrow> int option \<Rightarrow> 'w py_method" where
  "SMBus_open h args self w =
     (case args of None \<Rightarrow> (Raise ArgError, self, w)
      | Some bus \<Rightarrow>
          let path = chars ''/dev/i2c-'' @ decimal_int bus in
          if length path \<ge> MAXPATH then (Raise OverflowError, self, w)
          else let (r, w) = py_open h path w; self = self\<lparr>fd := r\<rparr> in
            if r = -1 then (Raise IOError, self, w) else (Ret PyNone, self, w))"

text \<open>The initialiser: the bus is -1 when it is not given.\<close>

definition SMBus_init :: "'w py_host \<Rightarrow> int option option \<Rightarrow> SMBus \<Rightarrow> 'w \<Rightarrow> unit py_out \<times> SMBus \<times> 'w" where
  "SMBus_init h args self w =
     (case args of None \<Rightarrow> (Raise ArgError, self, w)
      | Some given \<Rightarrow>
          let bus = (case given of None \<Rightarrow> -1 | Some b \<Rightarrow> b) in
          if bus \<ge> 0 then
            let (res, self, w) = SMBus_open h (Some bus) self w in
            (case res of Ret v \<Rightarrow> Ret () | Raise e \<Rightarrow> Raise e | Broken f \<Rightarrow> Broken f, self, w)
          else (Ret (), self, w))"

section \<open>The chip\<close>

definition SMBus_set_addr :: "'w py_host \<Rightarrow> int \<Rightarrow> SMBus \<Rightarrow> 'w \<Rightarrow> int \<times> SMBus \<times> 'w" where
  "SMBus_set_addr h a self w =
     (if addr self \<noteq> a then
        let (ret, w) = py_slave h (fd self) a w in (ret, self\<lparr>addr := a\<rparr>, w)
      else (0, self, w))"

text \<open>The macro \<open>SMBus_SET_ADDR\<close>, with the rest of the method.\<close>

definition SMBus_SET_ADDR :: "'w py_host \<Rightarrow> int \<Rightarrow> 'w py_method \<Rightarrow> 'w py_method" where
  "SMBus_SET_ADDR h a rest self w =
     (let (r, self, w) = SMBus_set_addr h a self w in
      if r \<noteq> 0 then (Raise IOError, self, w) else rest self w)"

text \<open>The end of the methods: the value of a transaction, or an error for -1.\<close>

definition unless_failed :: "(int \<Rightarrow> bool) \<Rightarrow> (int \<Rightarrow> py_val) \<Rightarrow> SMBus \<Rightarrow> int \<times> 'w \<Rightarrow> py_val py_out \<times> SMBus \<times> 'w" where
  "unless_failed failed val self res =
     (let (r, w) = res in if failed r then (Raise IOError, self, w) else (Ret (val r), self, w))"

section \<open>Bytes and words\<close>

definition SMBus_write_quick :: "'w py_host \<Rightarrow> int option \<Rightarrow> 'w py_method" where
  "SMBus_write_quick h args self w =
     (case args of None \<Rightarrow> (Raise ArgError, self, w)
      | Some a \<Rightarrow> SMBus_SET_ADDR h a (\<lambda>self w.
          unless_failed (\<lambda>r. r \<noteq> 0) (\<lambda>r. PyNone) self (i2c_smbus_write_quick (py_bus h (fd self)) I2C_SMBUS_WRITE w)) self w)"

definition SMBus_read_byte :: "'w py_host \<Rightarrow> int option \<Rightarrow> 'w py_method" where
  "SMBus_read_byte h args self w =
     (case args of None \<Rightarrow> (Raise ArgError, self, w)
      | Some a \<Rightarrow> SMBus_SET_ADDR h a (\<lambda>self w.
          unless_failed (\<lambda>r. r = -1) PyLong self (i2c_smbus_read_byte (py_bus h (fd self)) w)) self w)"

definition SMBus_write_byte :: "'w py_host \<Rightarrow> (int \<times> int) option \<Rightarrow> 'w py_method" where
  "SMBus_write_byte h args self w =
     (case args of None \<Rightarrow> (Raise ArgError, self, w)
      | Some (a, val) \<Rightarrow> SMBus_SET_ADDR h a (\<lambda>self w.
          unless_failed (\<lambda>r. r = -1) (\<lambda>r. PyNone) self (i2c_smbus_write_byte (py_bus h (fd self)) (of_int val) w)) self w)"

definition SMBus_read_byte_data :: "'w py_host \<Rightarrow> (int \<times> int) option \<Rightarrow> 'w py_method" where
  "SMBus_read_byte_data h args self w =
     (case args of None \<Rightarrow> (Raise ArgError, self, w)
      | Some (a, cmd) \<Rightarrow> SMBus_SET_ADDR h a (\<lambda>self w.
          unless_failed (\<lambda>r. r = -1) PyLong self (i2c_smbus_read_byte_data (py_bus h (fd self)) (of_int cmd) w)) self w)"

definition SMBus_write_byte_data :: "'w py_host \<Rightarrow> (int \<times> int \<times> int) option \<Rightarrow> 'w py_method" where
  "SMBus_write_byte_data h args self w =
     (case args of None \<Rightarrow> (Raise ArgError, self, w)
      | Some (a, cmd, val) \<Rightarrow> SMBus_SET_ADDR h a (\<lambda>self w.
          unless_failed (\<lambda>r. r = -1) (\<lambda>r. PyNone) self
            (i2c_smbus_write_byte_data (py_bus h (fd self)) (of_int cmd) (of_int val) w)) self w)"

definition SMBus_read_word_data :: "'w py_host \<Rightarrow> (int \<times> int) option \<Rightarrow> 'w py_method" where
  "SMBus_read_word_data h args self w =
     (case args of None \<Rightarrow> (Raise ArgError, self, w)
      | Some (a, cmd) \<Rightarrow> SMBus_SET_ADDR h a (\<lambda>self w.
          unless_failed (\<lambda>r. r = -1) PyLong self (i2c_smbus_read_word_data (py_bus h (fd self)) (of_int cmd) w)) self w)"

definition SMBus_write_word_data :: "'w py_host \<Rightarrow> (int \<times> int \<times> int) option \<Rightarrow> 'w py_method" where
  "SMBus_write_word_data h args self w =
     (case args of None \<Rightarrow> (Raise ArgError, self, w)
      | Some (a, cmd, val) \<Rightarrow> SMBus_SET_ADDR h a (\<lambda>self w.
          unless_failed (\<lambda>r. r = -1) (\<lambda>r. PyNone) self
            (i2c_smbus_write_word_data (py_bus h (fd self)) (of_int cmd) (of_int val) w)) self w)"

text \<open>The word the chip answers with is dropped.\<close>

definition SMBus_process_call :: "'w py_host \<Rightarrow> (int \<times> int \<times> int) option \<Rightarrow> 'w py_method" where
  "SMBus_process_call h args self w =
     (case args of None \<Rightarrow> (Raise ArgError, self, w)
      | Some (a, cmd, val) \<Rightarrow> SMBus_SET_ADDR h a (\<lambda>self w.
          unless_failed (\<lambda>r. r = -1) (\<lambda>r. PyNone) self
            (i2c_smbus_process_call (py_bus h (fd self)) (of_int cmd) (of_int val) w)) self w)"

section \<open>Blocks\<close>

text \<open>The loop of \<open>SMBus_buf_to_list\<close>: how many are left, and the index in the union.\<close>

fun buf_items :: "nat \<Rightarrow> nat \<Rightarrow> u8 list \<Rightarrow> fault + int list" where
  "buf_items 0 i data = Inr []"
| "buf_items (Suc n) i data =
     (if i < length data then rbind (buf_items n (i + 1) data) (\<lambda>vs. Inr (int (unat (data ! i)) # vs)) else Inl OutOfBounds)"

definition SMBus_buf_to_list :: "'w py_host \<Rightarrow> nat \<Rightarrow> u8 list \<Rightarrow> nat \<Rightarrow> py_val py_out" where
  "SMBus_buf_to_list h start data len =
     (if \<not> py_alloc h len then Raise MemoryError
      else case buf_items len start data of Inl f \<Rightarrow> Broken f | Inr vs \<Rightarrow> Ret (PyLongs vs))"

text \<open>The loop of \<open>SMBus_list_to_data\<close> and the converter itself.\<close>

fun list_items :: "nat \<Rightarrow> py_obj list \<Rightarrow> u8 list \<Rightarrow> u8 list py_out" where
  "list_items ii [] data = Ret data"
| "list_items ii (val # vals) data =
     (case val of PyInt x \<Rightarrow>
        if ii + 1 < length data then list_items (ii + 1) vals (data[ii + 1 := of_int x]) else Broken OutOfBounds
      | _ \<Rightarrow> Raise TypeError)"

definition SMBus_list_to_data :: "py_obj \<Rightarrow> u8 list \<Rightarrow> u8 list py_out" where
  "SMBus_list_to_data l data =
     (case l of PyList vals \<Rightarrow>
        let len = length vals in
        if len > 32 then Raise OverflowError else list_items 0 vals (data[0 := of_nat len])
      | _ \<Rightarrow> Raise TypeError)"

text \<open>A call of the access function and what follows it.\<close>

definition access_block ::
  "'w py_host \<Rightarrow> u8 \<Rightarrow> u8 \<Rightarrow> nat \<Rightarrow> u8 list \<Rightarrow> (u8 list \<Rightarrow> py_val py_out) \<Rightarrow> 'w py_method" where
  "access_block h dir cmd sz data after self w =
     (let (r, data, w) = i2c_smbus_access (py_bus h (fd self)) dir cmd sz (Some data) w in
      if r \<noteq> 0 then (Raise IOError, self, w) else (after data, self, w))"

definition block_list :: "'w py_host \<Rightarrow> u8 list \<Rightarrow> py_val py_out" where
  "block_list h data = SMBus_buf_to_list h 1 data (unat (data ! 0))"

definition SMBus_read_block_data :: "'w py_host \<Rightarrow> (int \<times> int) option \<Rightarrow> 'w py_method" where
  "SMBus_read_block_data h args self w =
     (case args of None \<Rightarrow> (Raise ArgError, self, w)
      | Some (a, cmd) \<Rightarrow> SMBus_SET_ADDR h a (\<lambda>self w.
          access_block h I2C_SMBUS_READ (of_int cmd) I2C_SMBUS_BLOCK_DATA (uninit_union (py_bus h (fd self)))
            (block_list h) self w) self w)"

text \<open>The methods that write a block convert the list while the arguments are parsed.\<close>

definition with_list :: "'w py_host \<Rightarrow> (int \<times> int \<times> py_obj) option \<Rightarrow> (int \<Rightarrow> u8 \<Rightarrow> u8 list \<Rightarrow> 'w py_method) \<Rightarrow> 'w py_method" where
  "with_list h args rest self w =
     (case args of None \<Rightarrow> (Raise ArgError, self, w)
      | Some (a, cmd, l) \<Rightarrow>
          (case SMBus_list_to_data l (uninit_union (py_bus h (fd self))) of
             Raise e \<Rightarrow> (Raise e, self, w) | Broken f \<Rightarrow> (Broken f, self, w)
           | Ret data \<Rightarrow> rest a (of_int cmd) data self w))"

definition SMBus_write_block_data :: "'w py_host \<Rightarrow> (int \<times> int \<times> py_obj) option \<Rightarrow> 'w py_method" where
  "SMBus_write_block_data h args =
     with_list h args (\<lambda>a cmd data. SMBus_SET_ADDR h a
       (access_block h I2C_SMBUS_WRITE cmd I2C_SMBUS_BLOCK_DATA data (\<lambda>data. Ret PyNone)))"

definition SMBus_block_process_call :: "'w py_host \<Rightarrow> (int \<times> int \<times> py_obj) option \<Rightarrow> 'w py_method" where
  "SMBus_block_process_call h args =
     with_list h args (\<lambda>a cmd data. SMBus_SET_ADDR h a
       (access_block h I2C_SMBUS_WRITE cmd I2C_SMBUS_BLOCK_PROC_CALL data (block_list h)))"

definition SMBus_read_i2c_block_data :: "'w py_host \<Rightarrow> (int \<times> int \<times> int option) option \<Rightarrow> 'w py_method" where
  "SMBus_read_i2c_block_data h args self w =
     (case args of None \<Rightarrow> (Raise ArgError, self, w)
      | Some (a, cmd, given) \<Rightarrow> let len = (case given of None \<Rightarrow> 32 | Some n \<Rightarrow> n) in
          SMBus_SET_ADDR h a (\<lambda>self w.
            access_block h I2C_SMBUS_READ (of_int cmd)
              (if len = 32 then I2C_SMBUS_I2C_BLOCK_BROKEN else I2C_SMBUS_I2C_BLOCK_DATA)
              ((uninit_union (py_bus h (fd self)))[0 := of_int len]) (block_list h) self w) self w)"

definition SMBus_write_i2c_block_data :: "'w py_host \<Rightarrow> (int \<times> int \<times> py_obj) option \<Rightarrow> 'w py_method" where
  "SMBus_write_i2c_block_data h args =
     with_list h args (\<lambda>a cmd data. SMBus_SET_ADDR h a
       (access_block h I2C_SMBUS_WRITE cmd I2C_SMBUS_I2C_BLOCK_BROKEN data (\<lambda>data. Ret PyNone)))"

section \<open>The error checking\<close>

definition SMBus_get_pec :: "SMBus \<Rightarrow> py_val" where
  "SMBus_get_pec self = PyBool (pec self \<noteq> 0)"

text \<open>
  The value that is assigned, as its truth (1, 0, or -1 when it has none); nothing when
  the attribute is deleted. \<open>PyObject_IsTrue\<close> must not be given the null pointer, and it
  is called before the test.
\<close>

definition SMBus_set_pec :: "'w py_host \<Rightarrow> int option \<Rightarrow> 'w py_method" where
  "SMBus_set_pec h val self w =
     (case val of None \<Rightarrow> (Broken (BadAccess NULL), self, w)
      | Some p \<Rightarrow>
          if p = -1 then (Raise TypeError, self, w)
          else if pec self \<noteq> p then
            let (r, w) = py_pec h (fd self) p w in
            if r \<noteq> 0 then (Raise IOError, self, w) else (Ret PyNone, self\<lparr>pec := p\<rparr>, w)
          else (Ret PyNone, self, w))"

section \<open>The methods of the type\<close>

datatype py_call =
    Open "int option" | Close | WriteQuick "int option" | ReadByte "int option"
  | WriteByte "(int \<times> int) option" | ReadByteData "(int \<times> int) option" | WriteByteData "(int \<times> int \<times> int) option"
  | ReadWordData "(int \<times> int) option" | WriteWordData "(int \<times> int \<times> int) option"
  | ProcessCall "(int \<times> int \<times> int) option" | ReadBlockData "(int \<times> int) option"
  | WriteBlockData "(int \<times> int \<times> py_obj) option" | BlockProcessCall "(int \<times> int \<times> py_obj) option"
  | ReadI2cBlockData "(int \<times> int \<times> int option) option" | WriteI2cBlockData "(int \<times> int \<times> py_obj) option"
  | GetPec | SetPec "int option"

fun SMBus_methods :: "'w py_host \<Rightarrow> py_call \<Rightarrow> 'w py_method" where
  "SMBus_methods h (Open args) = SMBus_open h args"
| "SMBus_methods h Close = SMBus_close h"
| "SMBus_methods h (WriteQuick args) = SMBus_write_quick h args"
| "SMBus_methods h (ReadByte args) = SMBus_read_byte h args"
| "SMBus_methods h (WriteByte args) = SMBus_write_byte h args"
| "SMBus_methods h (ReadByteData args) = SMBus_read_byte_data h args"
| "SMBus_methods h (WriteByteData args) = SMBus_write_byte_data h args"
| "SMBus_methods h (ReadWordData args) = SMBus_read_word_data h args"
| "SMBus_methods h (WriteWordData args) = SMBus_write_word_data h args"
| "SMBus_methods h (ProcessCall args) = SMBus_process_call h args"
| "SMBus_methods h (ReadBlockData args) = SMBus_read_block_data h args"
| "SMBus_methods h (WriteBlockData args) = SMBus_write_block_data h args"
| "SMBus_methods h (BlockProcessCall args) = SMBus_block_process_call h args"
| "SMBus_methods h (ReadI2cBlockData args) = SMBus_read_i2c_block_data h args"
| "SMBus_methods h (WriteI2cBlockData args) = SMBus_write_i2c_block_data h args"
| "SMBus_methods h GetPec = (\<lambda>self w. (Ret (SMBus_get_pec self), self, w))"
| "SMBus_methods h (SetPec val) = SMBus_set_pec h val"

section \<open>One transaction for each method\<close>

text \<open>
  The reference: the transaction a call stands for (the chip, the direction, the command,
  the kind, the union) and the value it makes of the answer. A call whose arguments are
  refused, or whose list is, stands for none.
\<close>

fun int_values :: "py_obj list \<Rightarrow> int list option" where
  "int_values [] = Some []"
| "int_values (PyInt x # vs) = map_option (\<lambda>xs. x # xs) (int_values vs)"
| "int_values (v # vs) = None"

definition block_of :: "u8 list \<Rightarrow> py_obj \<Rightarrow> u8 list option" where
  "block_of u l =
     (case l of PyList vs \<Rightarrow>
        if length vs > 32 then None
        else map_option (\<lambda>xs. of_nat (length xs) # map of_int xs @ drop (1 + length xs) u) (int_values vs)
      | _ \<Rightarrow> None)"

type_synonym access = "int \<times> u8 \<times> u8 \<times> nat \<times> u8 list option"

definition block_access :: "u8 list \<Rightarrow> nat \<Rightarrow> (int \<times> int \<times> py_obj) option \<Rightarrow> access option" where
  "block_access u k args =
     (case args of None \<Rightarrow> None
      | Some (a, cmd, l) \<Rightarrow> map_option (\<lambda>b. (a, I2C_SMBUS_WRITE, of_int cmd, k, Some b)) (block_of u l))"

definition data_access :: "u8 \<Rightarrow> nat \<Rightarrow> u8 list option \<Rightarrow> int \<times> int \<Rightarrow> access" where
  "data_access dir k b args = (case args of (a, cmd) \<Rightarrow> (a, dir, of_int cmd, k, b))"

definition value_access :: "(int \<Rightarrow> u8 list) \<Rightarrow> nat \<Rightarrow> int \<times> int \<times> int \<Rightarrow> access" where
  "value_access f k args = (case args of (a, cmd, v) \<Rightarrow> (a, I2C_SMBUS_WRITE, of_int cmd, k, Some (f v)))"

fun py_access :: "u8 list \<Rightarrow> py_call \<Rightarrow> access option" where
  "py_access u (WriteQuick args) = map_option (\<lambda>a. (a, I2C_SMBUS_WRITE, 0, I2C_SMBUS_QUICK, None)) args"
| "py_access u (ReadByte args) = map_option (\<lambda>a. (a, I2C_SMBUS_READ, 0, I2C_SMBUS_BYTE, Some u)) args"
| "py_access u (WriteByte args) = map_option (data_access I2C_SMBUS_WRITE I2C_SMBUS_BYTE None) args"
| "py_access u (ReadByteData args) = map_option (data_access I2C_SMBUS_READ I2C_SMBUS_BYTE_DATA (Some u)) args"
| "py_access u (WriteByteData args) = map_option (value_access (\<lambda>v. set_byte (of_int v) u) I2C_SMBUS_BYTE_DATA) args"
| "py_access u (ReadWordData args) = map_option (data_access I2C_SMBUS_READ I2C_SMBUS_WORD_DATA (Some u)) args"
| "py_access u (WriteWordData args) = map_option (value_access (\<lambda>v. set_word (of_int v) u) I2C_SMBUS_WORD_DATA) args"
| "py_access u (ProcessCall args) = map_option (value_access (\<lambda>v. set_word (of_int v) u) I2C_SMBUS_PROC_CALL) args"
| "py_access u (ReadBlockData args) = map_option (data_access I2C_SMBUS_READ I2C_SMBUS_BLOCK_DATA (Some u)) args"
| "py_access u (WriteBlockData args) = block_access u I2C_SMBUS_BLOCK_DATA args"
| "py_access u (BlockProcessCall args) = block_access u I2C_SMBUS_BLOCK_PROC_CALL args"
| "py_access u (ReadI2cBlockData args) =
     map_option (\<lambda>(a, cmd, given). let len = (case given of None \<Rightarrow> 32 | Some n \<Rightarrow> n) in
       (a, I2C_SMBUS_READ, of_int cmd, if len = 32 then I2C_SMBUS_I2C_BLOCK_BROKEN else I2C_SMBUS_I2C_BLOCK_DATA,
        Some (u[0 := of_int len]))) args"
| "py_access u (WriteI2cBlockData args) = block_access u I2C_SMBUS_I2C_BLOCK_BROKEN args"
| "py_access u m = None"

definition listed :: "'w py_host \<Rightarrow> u8 list \<Rightarrow> py_val py_out" where
  "listed h b =
     (if \<not> py_alloc h (unat (b ! 0)) then Raise MemoryError
      else Ret (PyLongs (map (\<lambda>x. int (unat x)) (take (unat (b ! 0)) (drop 1 b)))))"

fun py_answer :: "'w py_host \<Rightarrow> py_call \<Rightarrow> u8 list \<Rightarrow> py_val py_out" where
  "py_answer h (ReadByte args) b = Ret (PyLong (union_byte b))"
| "py_answer h (ReadByteData args) b = Ret (PyLong (union_byte b))"
| "py_answer h (ReadWordData args) b = Ret (PyLong (union_word b))"
| "py_answer h (ReadBlockData args) b = listed h b"
| "py_answer h (BlockProcessCall args) b = listed h b"
| "py_answer h (ReadI2cBlockData args) b = listed h b"
| "py_answer h m b = Ret PyNone"

definition transact :: "'w py_host \<Rightarrow> py_call \<Rightarrow> access \<Rightarrow> 'w py_method" where
  "transact h m acc self w =
     (let (a, dir, cmd, k, b) = acc; (r, b', w) = smbus_ioctl (py_bus h (fd self)) dir cmd k b w in
      if r \<noteq> 0 then (Raise IOError, self, w) else (py_answer h m b', self, w))"

text \<open>
  What the host promises: an \<open>ioctl\<close> answers 0 or -1, the unions have their size, blocks
  at most 32 bytes.
\<close>

definition py_ioctls :: "'w py_host \<Rightarrow> bool" where
  "py_ioctls h = (\<forall>f. smbus_kernel (py_bus h f)
     \<and> (\<forall>dir cmd k b w. fst (smbus_ioctl (py_bus h f) dir cmd k b w) \<in> {0, -1}))"

lemma py_ioctlsD:
  assumes "py_ioctls h"
  shows "smbus_kernel (py_bus h f)"
    and "smbus_ioctl (py_bus h f) dir cmd k b w = (r, b', w') \<Longrightarrow> r = 0 \<or> r = -1"
proof -
  show "smbus_kernel (py_bus h f)" using assms by (simp add: py_ioctls_def)
  have "fst (smbus_ioctl (py_bus h f) dir cmd k b w) \<in> {0, -1}" using assms by (simp add: py_ioctls_def)
  then show "smbus_ioctl (py_bus h f) dir cmd k b w = (r, b', w') \<Longrightarrow> r = 0 \<or> r = -1" by simp
qed

section \<open>Lists and unions\<close>

lemma buf_items_ok: "i + n \<le> length data \<Longrightarrow> buf_items n i data = Inr (map (\<lambda>x. int (unat x)) (take n (drop i data)))"
proof (induction n arbitrary: i)
  case (Suc n)
  then show ?case by (simp add: Cons_nth_drop_Suc [of i data, symmetric])
qed simp

lemma block_list_listed: "length b = 34 \<Longrightarrow> unat (b ! 0) \<le> 32 \<Longrightarrow> block_list h b = listed h b"
  by (simp add: block_list_def SMBus_buf_to_list_def listed_def buf_items_ok)

lemma length_int_values: "int_values vs = Some xs \<Longrightarrow> length xs = length vs"
  by (induction vs arbitrary: xs rule: int_values.induct) auto

lemma list_items_ok:
  "ii + 1 + length vs \<le> length data \<Longrightarrow>
    list_items ii vs data = (case int_values vs of None \<Rightarrow> Raise TypeError | Some xs \<Rightarrow> Ret (put (ii + 1) (map of_int xs) data))"
proof (induction vs arbitrary: ii data rule: int_values.induct)
  case (2 x vs)
  have "put (Suc (Suc ii)) ys (data[Suc ii := of_int x]) = put (Suc ii) (of_int x # ys) data" for ys
    using 2(2) by (simp add: put_def upd_conv_take_nth_drop add.commute)
  then show ?case using 2 by (simp split: option.split)
qed (simp_all add: put_def)

lemma SMBus_list_to_data_spec:
  assumes "length u = 34"
  shows "case block_of u l of Some b \<Rightarrow> SMBus_list_to_data l u = Ret b | None \<Rightarrow> \<exists>e. SMBus_list_to_data l u = Raise e"
proof (cases l)
  case (PyList vs)
  have "take (Suc 0) (u[0 := x]) = [x]" for x using assms by (cases u) simp_all
  then have "put 1 (map of_int xs) (u[0 := x]) = x # map of_int xs @ drop (1 + length xs) u" for xs :: "int list" and x
    by (simp add: put_def)
  then show ?thesis using assms
    by (auto simp: PyList SMBus_list_to_data_def block_of_def list_items_ok length_int_values Let_def split: option.split)
qed (simp_all add: SMBus_list_to_data_def block_of_def)

lemma length_block_of: "length u = 34 \<Longrightarrow> block_of u l = Some b \<Longrightarrow> length b = 34"
  by (auto simp: block_of_def dest: length_int_values split: py_obj.splits if_splits)

lemma int_values_PyInt: "int_values (map PyInt xs) = Some xs"
  by (induction xs) simp_all

text \<open>A list that is converted comes back as the bytes of its numbers.\<close>

lemma list_round_trip:
  assumes "length u = 34" and "block_of u (PyList (map PyInt xs)) = Some b" and "py_alloc h (length xs)"
  shows "block_list h b = Ret (PyLongs (map (\<lambda>x. x mod 256) xs))"
proof -
  have n: "length xs \<le> 32" and b: "b = of_nat (length xs) # map of_int xs @ drop (1 + length xs) u"
    using assms(2) by (auto simp: block_of_def int_values_PyInt split: if_splits)
  have l: "unat (b ! 0) = length xs" using n by (simp add: b unat_of_nat)
  have "length b = 34" using assms(1) n by (simp add: b)
  then have "block_list h b = listed h b" using n by (simp add: block_list_listed l)
  moreover have "int (unat (of_int x :: u8)) = x mod 256" for x
    by (simp add: uint_word_of_int flip: uint_nat)
  ultimately show ?thesis using assms(3) l by (simp add: listed_def) (simp add: b)
qed

section \<open>Each method is its transaction\<close>

lemma set_addr_fd: "SMBus_set_addr h a self w = (r, self', w') \<Longrightarrow> fd self' = fd self \<and> pec self' = pec self \<and> addr self' = a"
  by (auto simp: SMBus_set_addr_def Let_def split: if_splits prod.splits)

lemma SET_ADDR_cong:
  assumes "\<And>self' w'. fd self' = fd self \<Longrightarrow> rest self' w' = rest' self' w'"
  shows "SMBus_SET_ADDR h a rest self w = SMBus_SET_ADDR h a rest' self w"
  using assms set_addr_fd by (fastforce simp: SMBus_SET_ADDR_def Let_def split: prod.split)

lemmas smbus_calls =
  i2c_smbus_write_quick_def i2c_smbus_read_byte_def i2c_smbus_write_byte_def i2c_smbus_read_byte_data_def
  i2c_smbus_write_byte_data_def i2c_smbus_read_word_data_def i2c_smbus_write_word_data_def i2c_smbus_process_call_def
  i2c_smbus_access_def

lemma union_nonneg: "union_byte b \<noteq> -1" "union_word b \<noteq> -1"
proof -
  have "0 \<le> union_byte b" "0 \<le> union_word b" by (simp_all add: union_byte_def union_word_def)
  then show "union_byte b \<noteq> -1" "union_word b \<noteq> -1" by linarith+
qed

lemma py_answer_blocks [simp]:
  "py_answer h (ReadBlockData x) = listed h" "py_answer h (BlockProcessCall y) = listed h"
  "py_answer h (ReadI2cBlockData z) = listed h"
  "py_answer h (WriteBlockData y) = (\<lambda>b. Ret PyNone)" "py_answer h (WriteI2cBlockData y) = (\<lambda>b. Ret PyNone)"
  by (simp_all add: fun_eq_iff)

lemma access_block_transact:
  assumes "py_ioctls h" and "length b = 34" and "k \<in> set block_kinds" and "after = block_list h \<and> py_answer h m = listed h
    \<or> after = (\<lambda>b. Ret PyNone) \<and> py_answer h m = (\<lambda>b. Ret PyNone)"
  shows "access_block h dir cmd k b after self w = transact h m (a, dir, cmd, k, Some b) self w"
proof -
  obtain r b' w' where i: "smbus_ioctl (py_bus h (fd self)) dir cmd k (Some b) w = (r, b', w')" by (metis prod_cases3)
  have l: "length b' = 34" "r = 0 \<Longrightarrow> unat (b' ! 0) \<le> 32"
    using smbus_kernelD [OF py_ioctlsD(1) [OF assms(1)] i assms(2)] assms(3) by blast+
  then have "r = 0 \<Longrightarrow> block_list h b' = listed h b'" by (simp add: block_list_listed)
  then show ?thesis using assms(4)
    by (auto simp: access_block_def transact_def i2c_smbus_access_def i)
qed

lemma block_method_transact:
  assumes "py_ioctls h" and "block_access (uninit_union (py_bus h (fd self))) k args = Some (a, acc)" and "k \<in> set block_kinds"
    and "after = block_list h \<and> py_answer h m = listed h \<or> after = (\<lambda>b. Ret PyNone) \<and> py_answer h m = (\<lambda>b. Ret PyNone)"
  shows "with_list h args (\<lambda>a cmd data. SMBus_SET_ADDR h a (access_block h I2C_SMBUS_WRITE cmd k data after)) self w
    = SMBus_SET_ADDR h a (transact h m (a, acc)) self w"
proof -
  let ?u = "uninit_union (py_bus h (fd self))"
  have u: "length ?u = 34" using py_ioctlsD(1) [OF assms(1), of "fd self"] by (simp add: smbus_kernel_def)
  obtain cmd l b where args: "args = Some (a, cmd, l)" and b: "block_of ?u l = Some b"
    and acc: "acc = (I2C_SMBUS_WRITE, of_int cmd, k, Some b)"
    using assms(2) by (auto simp: block_access_def split: option.splits)
  have "SMBus_list_to_data l ?u = Ret b" using SMBus_list_to_data_spec [OF u, of l] b by simp
  moreover have "access_block h I2C_SMBUS_WRITE (of_int cmd) k b after = transact h m (a, acc)"
    using access_block_transact [OF assms(1) length_block_of [OF u b] assms(3,4)] by (intro ext) (simp add: acc)
  ultimately show ?thesis by (simp add: with_list_def args)
qed

lemma methods_transact:
  assumes "py_ioctls h" and "py_access (uninit_union (py_bus h (fd self))) m = Some (a, acc)"
  shows "SMBus_methods h m self w = SMBus_SET_ADDR h a (transact h m (a, acc)) self w"
proof -
  let ?u = "uninit_union (py_bus h (fd self))"
  have u: "length ?u = 34" using py_ioctlsD(1) [OF assms(1), of "fd self"] by (simp add: smbus_kernel_def)
  have val: "unless_failed (\<lambda>r. r = -1) (\<lambda>r. PyNone) self' (r, w') = (if r \<noteq> 0 then (Raise IOError, self', w') else (Ret PyNone, self', w'))"
    if "smbus_ioctl (py_bus h f) dir cmd k b w0 = (r, b', w')" for self' r w' f dir cmd k b w0 b'
    using py_ioctlsD(2) [OF assms(1) that] by (auto simp: unless_failed_def)
  have k: "I2C_SMBUS_BLOCK_DATA \<in> set block_kinds" "I2C_SMBUS_I2C_BLOCK_BROKEN \<in> set block_kinds"
    "I2C_SMBUS_I2C_BLOCK_DATA \<in> set block_kinds" "I2C_SMBUS_BLOCK_PROC_CALL \<in> set block_kinds"
    by (simp_all add: block_kinds_def)
  note simps = unless_failed_def smbus_calls transact_def union_nonneg
  show ?thesis
  proof (cases m)
    case (WriteQuick args)
    then show ?thesis using assms(2)
      by (auto simp: SMBus_write_quick_def simps Let_def split: prod.split intro!: SET_ADDR_cong)
  next
    case (ReadByte args)
    then show ?thesis using assms(2)
      by (auto simp: SMBus_read_byte_def simps Let_def split: prod.split intro!: SET_ADDR_cong)
  next
    case (WriteByte args)
    then show ?thesis using assms(2)
      by (auto simp: SMBus_write_byte_def data_access_def smbus_calls transact_def val Let_def split: prod.split intro!: SET_ADDR_cong)
  next
    case (ReadByteData args)
    then show ?thesis using assms(2)
      by (auto simp: SMBus_read_byte_data_def data_access_def simps Let_def split: prod.split intro!: SET_ADDR_cong)
  next
    case (WriteByteData args)
    then show ?thesis using assms(2)
      by (auto simp: SMBus_write_byte_data_def value_access_def smbus_calls transact_def val Let_def split: prod.split intro!: SET_ADDR_cong)
  next
    case (ReadWordData args)
    then show ?thesis using assms(2)
      by (auto simp: SMBus_read_word_data_def data_access_def simps Let_def split: prod.split intro!: SET_ADDR_cong)
  next
    case (WriteWordData args)
    then show ?thesis using assms(2)
      by (auto simp: SMBus_write_word_data_def value_access_def smbus_calls transact_def val Let_def split: prod.split intro!: SET_ADDR_cong)
  next
    case (ProcessCall args)
    then show ?thesis using assms(2)
      by (auto simp: SMBus_process_call_def value_access_def simps Let_def split: prod.split intro!: SET_ADDR_cong)
  next
    case (ReadBlockData args)
    then show ?thesis using assms(2) u k
      by (auto simp: SMBus_read_block_data_def data_access_def intro!: SET_ADDR_cong access_block_transact assms(1))
  next
    case (ReadI2cBlockData args)
    then show ?thesis using assms(2) u k
      by (auto simp: SMBus_read_i2c_block_data_def Let_def intro!: SET_ADDR_cong access_block_transact assms(1))
  next
    case (WriteBlockData args)
    then show ?thesis using assms block_method_transact [OF assms(1) _ k(1)]
      by (simp add: SMBus_write_block_data_def fun_eq_iff)
  next
    case (BlockProcessCall args)
    then show ?thesis using assms block_method_transact [OF assms(1) _ k(4)]
      by (simp add: SMBus_block_process_call_def fun_eq_iff)
  next
    case (WriteI2cBlockData args)
    then show ?thesis using assms block_method_transact [OF assms(1) _ k(2)]
      by (simp add: SMBus_write_i2c_block_data_def fun_eq_iff)
  qed (use assms(2) in simp_all)
qed

text \<open>A call that stands for no transaction on a chip is refused, or is one of the others.\<close>

definition is_transfer :: "py_call \<Rightarrow> bool" where
  "is_transfer m = (case m of Open x \<Rightarrow> False | Close \<Rightarrow> False | GetPec \<Rightarrow> False | SetPec x \<Rightarrow> False | _ \<Rightarrow> True)"

lemma methods_refused:
  assumes "py_ioctls h" and "is_transfer m" and "py_access (uninit_union (py_bus h (fd self))) m = None"
  shows "\<exists>e. SMBus_methods h m self w = (Raise e, self, w)"
proof -
  have u: "length (uninit_union (py_bus h (fd self))) = 34"
    using py_ioctlsD(1) [OF assms(1), of "fd self"] by (simp add: smbus_kernel_def)
  have b: "\<exists>e. with_list h args rest self w = (Raise e, self, w)"
    if "block_access (uninit_union (py_bus h (fd self))) k args = None" for k args and rest :: "int \<Rightarrow> u8 \<Rightarrow> u8 list \<Rightarrow> 'a py_method"
  proof (cases args)
    case (Some t)
    obtain a cmd l where t: "t = (a, cmd, l)" by (metis prod_cases3)
    have "block_of (uninit_union (py_bus h (fd self))) l = None"
      using that by (simp add: block_access_def Some t)
    then obtain e where "SMBus_list_to_data l (uninit_union (py_bus h (fd self))) = Raise e"
      using SMBus_list_to_data_spec [OF u, of l] by auto
    then show ?thesis by (simp add: with_list_def Some t)
  qed (simp add: with_list_def)
  show ?thesis
  proof (cases m)
    case (WriteBlockData args)
    then show ?thesis using assms(3) b by (simp add: SMBus_write_block_data_def)
  next
    case (BlockProcessCall args)
    then show ?thesis using assms(3) b by (simp add: SMBus_block_process_call_def)
  next
    case (WriteI2cBlockData args)
    then show ?thesis using assms(3) b by (simp add: SMBus_write_i2c_block_data_def)
  qed (use assms(2,3) in \<open>simp_all add: is_transfer_def SMBus_write_quick_def SMBus_read_byte_def SMBus_write_byte_def
      SMBus_read_byte_data_def SMBus_write_byte_data_def SMBus_read_word_data_def SMBus_write_word_data_def
      SMBus_process_call_def SMBus_read_block_data_def SMBus_read_i2c_block_data_def\<close>)
qed

section \<open>The chip of a descriptor\<close>

text \<open>
  What the kernel keeps for a descriptor: the chip that was chosen (\<open>sl\<close>) and whether the
  error checking is on (\<open>pe\<close>). A new descriptor has none; an \<open>ioctl\<close> that fails changes
  nothing, one on no descriptor fails; a transaction changes neither.
\<close>

definition keeps :: "('w \<Rightarrow> int \<Rightarrow> int option) \<Rightarrow> ('w \<Rightarrow> int \<Rightarrow> bool) \<Rightarrow> 'w \<Rightarrow> 'w \<Rightarrow> bool" where
  "keeps sl pe w w' = (sl w' = sl w \<and> pe w' = pe w)"

definition py_kernel :: "'w py_host \<Rightarrow> ('w \<Rightarrow> int \<Rightarrow> int option) \<Rightarrow> ('w \<Rightarrow> int \<Rightarrow> bool) \<Rightarrow> bool" where
  "py_kernel h sl pe =
     (py_ioctls h
      \<and> (\<forall>p w. let (r, w') = py_open h p w in
           if r = -1 then keeps sl pe w w' else sl w' r = None \<and> \<not> pe w' r)
      \<and> (\<forall>f a w. let (r, w') = py_slave h f a w in
           (f = -1 \<longrightarrow> r \<noteq> 0) \<and> (if r = 0 then sl w' = (sl w)(f := Some a) \<and> pe w' = pe w else keeps sl pe w w'))
      \<and> (\<forall>f p w. let (r, w') = py_pec h f p w in
           (f = -1 \<longrightarrow> r \<noteq> 0) \<and> (if r = 0 then sl w' = sl w \<and> pe w' = (pe w)(f := p \<noteq> 0) else keeps sl pe w w'))
      \<and> (\<forall>f dir cmd k b w. keeps sl pe w (snd (snd (smbus_ioctl (py_bus h f) dir cmd k b w)))))"

lemma py_kernelD:
  assumes "py_kernel h sl pe"
  shows "py_ioctls h"
    and "py_open h p w = (r, w') \<Longrightarrow> r \<noteq> -1 \<Longrightarrow> sl w' r = None \<and> \<not> pe w' r"
    and "py_slave h f a w = (r, w') \<Longrightarrow> r = 0 \<Longrightarrow> f \<noteq> -1 \<and> sl w' = (sl w)(f := Some a) \<and> pe w' = pe w"
    and "py_slave h f a w = (r, w') \<Longrightarrow> r \<noteq> 0 \<Longrightarrow> keeps sl pe w w'"
    and "py_pec h f q w = (r, w') \<Longrightarrow> r = 0 \<Longrightarrow> f \<noteq> -1 \<and> sl w' = sl w \<and> pe w' = (pe w)(f := q \<noteq> 0)"
    and "py_pec h f q w = (r, w') \<Longrightarrow> r \<noteq> 0 \<Longrightarrow> keeps sl pe w w'"
    and "smbus_ioctl (py_bus h f) dir cmd k b w = (r, b', w') \<Longrightarrow> keeps sl pe w w'"
proof -
  note k = assms [unfolded py_kernel_def]
  show "py_ioctls h" using k by blast
  show "py_open h p w = (r, w') \<Longrightarrow> r \<noteq> -1 \<Longrightarrow> sl w' r = None \<and> \<not> pe w' r"
    using k [THEN conjunct2, THEN conjunct1, rule_format, of p w] by simp
  show "py_slave h f a w = (r, w') \<Longrightarrow> r = 0 \<Longrightarrow> f \<noteq> -1 \<and> sl w' = (sl w)(f := Some a) \<and> pe w' = pe w"
    and "py_slave h f a w = (r, w') \<Longrightarrow> r \<noteq> 0 \<Longrightarrow> keeps sl pe w w'"
    using k [THEN conjunct2, THEN conjunct2, THEN conjunct1, rule_format, of f a w] by auto
  show "py_pec h f q w = (r, w') \<Longrightarrow> r = 0 \<Longrightarrow> f \<noteq> -1 \<and> sl w' = sl w \<and> pe w' = (pe w)(f := q \<noteq> 0)"
    and "py_pec h f q w = (r, w') \<Longrightarrow> r \<noteq> 0 \<Longrightarrow> keeps sl pe w w'"
    using k [THEN conjunct2, THEN conjunct2, THEN conjunct2, THEN conjunct1, rule_format, of f q w] by auto
  show "smbus_ioctl (py_bus h f) dir cmd k b w = (r, b', w') \<Longrightarrow> keeps sl pe w w'"
    using k [THEN conjunct2, THEN conjunct2, THEN conjunct2, THEN conjunct2, rule_format, of w f dir cmd k b] by simp
qed

text \<open>What an object remembers is what the kernel has.\<close>

definition remembered :: "('w \<Rightarrow> int \<Rightarrow> int option) \<Rightarrow> ('w \<Rightarrow> int \<Rightarrow> bool) \<Rightarrow> SMBus \<times> 'w \<Rightarrow> bool" where
  "remembered sl pe s =
     (let (self, w) = s in
      (fd self = -1 \<longrightarrow> addr self = -1 \<and> pec self = 0)
      \<and> (addr self \<noteq> -1 \<longrightarrow> sl w (fd self) = Some (addr self))
      \<and> (fd self \<noteq> -1 \<longrightarrow> pe w (fd self) = (pec self \<noteq> 0)))"

text \<open>
  A proper call: the object is not open when it is opened, the system call of a close and
  the choice of the chip succeed. Everything else may fail.
\<close>

definition proper_call :: "'w py_host \<Rightarrow> py_call \<Rightarrow> SMBus \<Rightarrow> 'w \<Rightarrow> bool" where
  "proper_call h m self w =
     (case m of Open x \<Rightarrow> fd self = -1
      | Close \<Rightarrow> fd self = -1 \<or> fst (py_close h (fd self) w) \<noteq> -1
      | _ \<Rightarrow> (case py_access (uninit_union (py_bus h (fd self))) m of None \<Rightarrow> True
               | Some (a, acc) \<Rightarrow> fst (SMBus_set_addr h a self w) = 0))"

definition py_start :: "'w py_host \<Rightarrow> SMBus \<times> 'w \<Rightarrow> bool" where
  "py_start h s = (\<exists>s0 w0 given res. SMBus_new h = Some s0 \<and> SMBus_init h (Some given) s0 w0 = (res, s))"

inductive py_step :: "'w py_host \<Rightarrow> SMBus \<times> 'w \<Rightarrow> SMBus \<times> 'w \<Rightarrow> bool" for h where
  py_step: "proper_call h m self w \<Longrightarrow> SMBus_methods h m self w = (res, s) \<Longrightarrow> py_step h (self, w) s"

inductive_cases py_stepE: "py_step h (self, w) s"

lemma open_remembered:
  assumes "py_kernel h sl pe" and "SMBus_open h args self w = (res, s)" and "fd self = -1" and "remembered sl pe (self, w)"
  shows "remembered sl pe s"
proof -
  have z: "addr self = -1" "pec self = 0" using assms(3,4) by (simp_all add: remembered_def)
  show ?thesis using assms(2,4) z py_kernelD(2) [OF assms(1)]
    by (auto simp: SMBus_open_def Let_def remembered_def split: option.splits if_splits prod.splits)
qed

lemma set_addr_remembered:
  assumes "py_kernel h sl pe" and "remembered sl pe (self, w)" and "SMBus_set_addr h a self w = (0, self', w')"
  shows "remembered sl pe (self', w')" and "a \<noteq> -1 \<Longrightarrow> fd self \<noteq> -1 \<and> sl w' (fd self) = Some a"
proof -
  note s = py_kernelD(3) [OF assms(1)]
  show "remembered sl pe (self', w')"
    using assms(2,3) s by (auto simp: SMBus_set_addr_def remembered_def Let_def split: if_splits prod.splits)
  show "a \<noteq> -1 \<Longrightarrow> fd self \<noteq> -1 \<and> sl w' (fd self) = Some a"
    using assms(2,3) s by (auto simp: SMBus_set_addr_def remembered_def Let_def split: if_splits prod.splits)
qed

lemma transact_remembered:
  assumes "py_kernel h sl pe" and "remembered sl pe (self, w)" and "transact h m acc self w = (res, s)"
  shows "remembered sl pe s"
  using assms(2,3) py_kernelD(7) [OF assms(1)]
  by (auto simp: transact_def remembered_def keeps_def Let_def split: prod.splits if_splits)

lemma transfer_remembered:
  assumes "py_kernel h sl pe" and "remembered sl pe (self, w)" and "is_transfer m"
    and "proper_call h m self w" and "SMBus_methods h m self w = (res, s)"
  shows "remembered sl pe s"
proof (cases "py_access (uninit_union (py_bus h (fd self))) m")
  case None
  then show ?thesis using methods_refused [OF py_kernelD(1) [OF assms(1)] assms(3) None, of w] assms(2,5) by auto
next
  case (Some t)
  obtain a acc where t: "t = (a, acc)" by (cases t)
  obtain r self' w' where s: "SMBus_set_addr h a self w = (r, self', w')" by (metis prod_cases3)
  have r: "r = 0" using assms(3,4) s Some t
    by (auto simp: proper_call_def is_transfer_def split: py_call.splits option.splits)
  have "transact h m (a, acc) self' w' = (res, s)"
    using methods_transact [OF py_kernelD(1) [OF assms(1)] Some [unfolded t], of w] assms(5) s r
    by (simp add: SMBus_SET_ADDR_def)
  then show ?thesis
    using transact_remembered [OF assms(1) set_addr_remembered(1) [OF assms(1,2) s [unfolded r]]] by blast
qed

lemma close_remembered:
  assumes "remembered sl pe (self, w)" and "proper_call h Close self w" and "SMBus_close h self w = (res, s)"
  shows "remembered sl pe s"
  using assms by (auto simp: SMBus_close_def proper_call_def remembered_def Let_def split: if_splits prod.splits)

lemma set_pec_remembered:
  assumes "py_kernel h sl pe" and "remembered sl pe (self, w)" and "SMBus_set_pec h v self w = (res, s)"
  shows "remembered sl pe s"
proof -
  note p = py_kernelD(5) [OF assms(1)] py_kernelD(6) [OF assms(1)]
  show ?thesis using assms(2,3) p
    by (auto simp: SMBus_set_pec_def remembered_def keeps_def Let_def split: option.splits if_splits prod.splits)
qed

lemma step_remembered:
  assumes "py_kernel h sl pe" and "remembered sl pe s" and "py_step h s t"
  shows "remembered sl pe t"
proof -
  obtain self w where s: "s = (self, w)" by (cases s)
  obtain m res where m: "proper_call h m self w" "SMBus_methods h m self w = (res, t)"
    using assms(3) unfolding s by (rule py_stepE) blast
  note inv = assms(2) [unfolded s]
  show ?thesis
  proof (cases "is_transfer m")
    case True
    then show ?thesis by (rule transfer_remembered [OF assms(1) inv _ m])
  next
    case False
    then consider x where "m = Open x" | "m = Close" | "m = GetPec" | v where "m = SetPec v"
      by (cases m) (auto simp: is_transfer_def)
    then show ?thesis
    proof cases
      case 1
      then show ?thesis using m open_remembered [OF assms(1) _ _ inv] by (auto simp: proper_call_def)
    next
      case 2
      then show ?thesis using m close_remembered [OF inv] by simp
    next
      case 3
      then show ?thesis using m inv by auto
    next
      case 4
      then show ?thesis using m set_pec_remembered [OF assms(1) inv] by simp
    qed
  qed
qed

lemma start_remembered:
  assumes "py_kernel h sl pe" and "py_start h s"
  shows "remembered sl pe s"
proof -
  obtain s0 w0 given res where n: "SMBus_new h = Some s0" and i: "SMBus_init h (Some given) s0 w0 = (res, s)"
    using assms(2) by (auto simp: py_start_def)
  have s0: "fd s0 = -1" "remembered sl pe (s0, w0)"
    using n by (auto simp: SMBus_new_def remembered_def split: if_splits)
  show ?thesis
  proof (cases "(case given of None \<Rightarrow> -1 | Some b \<Rightarrow> b) \<ge> 0")
    case True
    obtain r s1 w1 where o: "SMBus_open h (Some (case given of None \<Rightarrow> -1 | Some b \<Rightarrow> b)) s0 w0 = (r, s1, w1)"
      by (metis prod_cases3)
    then have "s = (s1, w1)" using i True by (simp add: SMBus_init_def Let_def)
    then show ?thesis using open_remembered [OF assms(1) o s0] by simp
  next
    case False
    then show ?thesis using i s0(2) by (auto simp: SMBus_init_def Let_def)
  qed
qed

text \<open>The invariant of a kernel that keeps its promises; a kernel that does not promises nothing.\<close>

definition py_inv :: "'w py_host \<Rightarrow> ('w \<Rightarrow> int \<Rightarrow> int option) \<Rightarrow> ('w \<Rightarrow> int \<Rightarrow> bool) \<Rightarrow> SMBus \<times> 'w \<Rightarrow> bool" where
  "py_inv h sl pe s = (py_kernel h sl pe \<longrightarrow> remembered sl pe s)"

interpretation py_sys: inv_system "py_start h" "py_step h" "py_inv h sl pe"
  by unfold_locales (auto simp: py_inv_def intro: start_remembered step_remembered)

section \<open>Properties\<close>

text \<open>
  C13. An object that was only used in proper calls (whatever else failed) reaches the chip
  the caller names: when its choice succeeds, the method is the one transaction it stands
  for, made on a descriptor for which the kernel has that chip chosen and the error
  checking the object shows.
\<close>

theorem py_reaches_named_chip:
  assumes "py_kernel h sl pe" and "reach (py_start h) (py_step h) (self, w)"
    and "py_access (uninit_union (py_bus h (fd self))) m = Some (a, acc)" and "a \<noteq> -1"
    and "SMBus_set_addr h a self w = (0, self', w')"
  shows "SMBus_methods h m self w = transact h m (a, acc) self' w'
    \<and> sl w' (fd self') = Some a \<and> SMBus_get_pec self' = PyBool (pe w' (fd self'))"
proof -
  have inv: "remembered sl pe (self, w)"
    using py_sys.reach_inv [OF assms(2), of sl pe] assms(1) by (simp add: py_inv_def)
  have f: "fd self' = fd self" using set_addr_fd [OF assms(5)] by simp
  note a = set_addr_remembered [OF assms(1) inv assms(5)]
  have "SMBus_methods h m self w = transact h m (a, acc) self' w'"
    using methods_transact [OF py_kernelD(1) [OF assms(1)] assms(3), of w] assms(5) by (simp add: SMBus_SET_ADDR_def)
  moreover have "pe w' (fd self') = (pec self' \<noteq> 0)"
    using a(1) a(2) [OF assms(4)] f by (simp add: remembered_def)
  ultimately show ?thesis using a(2) [OF assms(4)] f by (simp add: SMBus_get_pec_def)
qed

text \<open>
  The choice of a chip that fails is remembered as if it had succeeded: the call is an
  \<open>IOError\<close>, but made once more it goes through, to the chip that was chosen before.
\<close>

theorem py_failed_choice_hits_old_chip:
  assumes "py_kernel h sl pe" and "sl w (fd self) = Some old" and "addr self \<noteq> a"
    and "py_access (uninit_union (py_bus h (fd self))) m = Some (a, acc)"
    and "py_slave h (fd self) a w = (-1, w1)"
  shows "SMBus_methods h m self w = (Raise IOError, self\<lparr>addr := a\<rparr>, w1)
    \<and> SMBus_methods h m (self\<lparr>addr := a\<rparr>) w1 = transact h m (a, acc) (self\<lparr>addr := a\<rparr>) w1
    \<and> sl w1 (fd self) = Some old"
proof -
  have "keeps sl pe w w1" using py_kernelD(4) [OF assms(1,5)] by simp
  moreover have "py_access (uninit_union (py_bus h (fd (self\<lparr>addr := a\<rparr>)))) m = Some (a, acc)" using assms(4) by simp
  ultimately show ?thesis
    using methods_transact [OF py_kernelD(1) [OF assms(1)], of _ m a acc] assms(2-5)
    by (simp add: SMBus_SET_ADDR_def SMBus_set_addr_def keeps_def)
qed

text \<open>
  The numbers of a list, at most 32, that are written to a chip as an I2C block are
  read back, each as its low byte, in order.
\<close>

theorem py_block_round_trip:
  assumes "py_ioctls h" and "chip_writes (py_bus h (fd self)) mem" and "chip_reads (py_bus h (fd self)) mem"
    and "length xs \<le> 32" and "py_alloc h (length xs)" and "SMBus_set_addr h a self w = (0, self1, w1)"
  shows "\<exists>w2 w3. SMBus_write_i2c_block_data h (Some (a, c, PyList (map PyInt xs))) self w = (Ret PyNone, self1, w2)
    \<and> SMBus_read_i2c_block_data h (Some (a, c, Some (int (length xs)))) self1 w2
      = (Ret (PyLongs (map (\<lambda>x. x mod 256) xs)), self1, w3)"
proof -
  let ?k = "py_bus h (fd self)" and ?n = "length xs"
  let ?u = "uninit_union ?k" and ?l = "PyList (map PyInt xs)"
  let ?b = "of_nat ?n # map of_int xs @ drop (1 + ?n) ?u" and ?a = "?u[0 := of_nat ?n]"
  let ?sz = "if int ?n = 32 then I2C_SMBUS_I2C_BLOCK_BROKEN else I2C_SMBUS_I2C_BLOCK_DATA"
  have u: "length ?u = 34" using py_ioctlsD(1) [OF assms(1), of "fd self"] by (simp add: smbus_kernel_def)
  have n: "unat (of_nat ?n :: u8) = ?n" using assms(4) by (simp add: unat_of_nat)
  have f: "fd self1 = fd self" "addr self1 = a" using set_addr_fd [OF assms(6)] by simp_all
  have bl: "block_of ?u ?l = Some ?b" using assms(4) by (simp add: block_of_def int_values_PyInt)
  have acc: "py_access ?u (WriteI2cBlockData (Some (a, c, ?l))) = Some (a, I2C_SMBUS_WRITE, of_int c, I2C_SMBUS_I2C_BLOCK_BROKEN, Some ?b)"
    by (simp add: block_access_def bl)
  obtain r b1 w2 where w: "smbus_ioctl ?k I2C_SMBUS_WRITE (of_int c) I2C_SMBUS_I2C_BLOCK_BROKEN (Some ?b) w1 = (r, b1, w2)"
    by (metis prod_cases3)
  have lb: "length ?b = 34" "unat (?b ! 0) \<le> 32" using u assms(4) by (simp_all add: n)
  have r: "r = 0" "map (\<lambda>i. mem w2 (unat (of_int c :: u8) + i)) [0..<?n] = map of_int xs"
    using chip_writesD [OF assms(2) w lb] by (simp_all add: n)
  have wr: "SMBus_write_i2c_block_data h (Some (a, c, ?l)) self w = (Ret PyNone, self1, w2)"
    using methods_transact [OF assms(1) acc, of w] w r(1)
    by (simp add: SMBus_SET_ADDR_def assms(6) transact_def f)
  have acc2: "py_access (uninit_union (py_bus h (fd self1))) (ReadI2cBlockData (Some (a, c, Some (int ?n))))
      = Some (a, I2C_SMBUS_READ, of_int c, ?sz, Some ?a)"
    by (simp add: f Let_def)
  obtain r2 b2 w3 where i: "smbus_ioctl ?k I2C_SMBUS_READ (of_int c) ?sz (Some ?a) w2 = (r2, b2, w3)"
    by (metis prod_cases3)
  have la: "length ?a = 34" "?a ! 0 = of_nat ?n" using u by simp_all
  have r2: "r2 = 0" "b2 ! 0 = of_nat ?n" "take ?n (drop 1 b2) = map of_int xs"
    using chip_readsD [OF assms(3) i _ la(1)] la(2) assms(4) r(2) by (simp_all add: n)
  have x: "uint (of_int x :: u8) = x mod 256" for x
    by (simp add: uint_word_of_int)
  have "SMBus_read_i2c_block_data h (Some (a, c, Some (int ?n))) self1 w2
      = (Ret (PyLongs (map (\<lambda>x. x mod 256) xs)), self1, w3)"
    using methods_transact [OF assms(1) acc2, of w2] i r2 assms(5)
    by (simp add: SMBus_SET_ADDR_def SMBus_set_addr_def f transact_def listed_def n x)
  then show ?thesis using wr by blast
qed

text \<open>
  An object that is opened while it is open drops its descriptor without closing it, and
  keeps the address it remembers: the first call with that address finds no chip chosen.
\<close>

lemma reopen_forgets:
  assumes "py_kernel h sl pe" and "py_open h (chars ''/dev/i2c-'' @ decimal_int bus) w = (f, w1)" and "f \<noteq> -1"
    and "length (chars ''/dev/i2c-'' @ decimal_int bus) < MAXPATH"
  shows "SMBus_open h (Some bus) self w = (Ret PyNone, self\<lparr>fd := f\<rparr>, w1)"
    and "SMBus_set_addr h (addr self) (self\<lparr>fd := f\<rparr>) w1 = (0, self\<lparr>fd := f\<rparr>, w1)" and "sl w1 f = None"
  using assms(2-4) py_kernelD(2) [OF assms(1,2)]
  by (simp_all add: SMBus_open_def SMBus_set_addr_def Let_def)

section \<open>A host\<close>

text \<open>
  One device file with a chip of cells behind it; the descriptor is 3, a chip number must
  have seven bits.
\<close>

record py_world =
  slaves :: "int \<Rightarrow> int option"
  pecs :: "int \<Rightarrow> bool"
  cells :: "nat \<Rightarrow> u8"

definition one_chip :: "py_world py_host" where
  "one_chip = \<lparr>py_open = (\<lambda>p w. (3, w\<lparr>slaves := (slaves w)(3 := None), pecs := (pecs w)(3 := False)\<rparr>)),
     py_close = (\<lambda>f w. (0, w)),
     py_slave = (\<lambda>f a w. if f = -1 \<or> a < 0 \<or> a > 127 then (-1, w) else (0, w\<lparr>slaves := (slaves w)(f := Some a)\<rparr>)),
     py_pec = (\<lambda>f p w. if f = -1 then (-1, w) else (0, w\<lparr>pecs := (pecs w)(f := p \<noteq> 0)\<rparr>)),
     py_bus = (\<lambda>f. \<lparr>smbus_ioctl = (\<lambda>dir c k b w. let (r, b', m) = chip_ioctl dir c k b (cells w) in (r, b', w\<lparr>cells := m\<rparr>)),
       uninit_union = replicate 34 0\<rparr>),
     py_alloc = (\<lambda>n. True)\<rparr>"

definition idle_world :: py_world where
  "idle_world = \<lparr>slaves = (\<lambda>f. None), pecs = (\<lambda>f. False), cells = (\<lambda>i. 0)\<rparr>"

lemma one_chip_ioctls: "py_ioctls one_chip"
proof -
  have k: "smbus_kernel (py_bus one_chip f)" for f
    by (auto simp: smbus_kernel_def one_chip_def chip_ioctl_def Let_def nth_append split: option.splits)
  have "fst (smbus_ioctl (py_bus one_chip f) dir cmd k b w) \<in> {0, -1}" for f dir cmd k b w
    by (simp add: one_chip_def chip_ioctl_def Let_def split: option.split)
  then show ?thesis using k by (simp add: py_ioctls_def)
qed

lemma one_chip_kernel: "py_kernel one_chip slaves pecs"
proof -
  have "keeps slaves pecs w (snd (snd (smbus_ioctl (py_bus one_chip f) dir cmd k b w)))" for f dir cmd k b w
    by (simp add: one_chip_def keeps_def split_def Let_def)
  then show ?thesis unfolding py_kernel_def using one_chip_ioctls
    by (simp add: one_chip_def keeps_def)
qed

lemma one_chip_cells: "chip_writes (py_bus one_chip f) cells" "chip_reads (py_bus one_chip f) cells"
  by (auto simp: chip_writes_def chip_reads_def one_chip_def chip_ioctl_def Let_def I2C_SMBUS_READ_def I2C_SMBUS_WRITE_def
    nth_append min_def intro!: nth_equalityI)

definition opened :: "SMBus \<times> py_world" where
  "opened = (\<lparr>fd = 3, addr = -1, pec = 0\<rparr>, idle_world)"

lemma opened_start: "py_start one_chip opened"
proof -
  have "SMBus_new one_chip = Some \<lparr>fd = -1, addr = -1, pec = 0\<rparr>" by (simp add: SMBus_new_def one_chip_def)
  moreover have "length (chars ''/dev/i2c-'' @ decimal_int 1) = 10"
    by (simp add: decimal_int_def decimal.simps [of "Suc 0"] chars_def)
  then have "SMBus_init one_chip (Some (Some 1)) \<lparr>fd = -1, addr = -1, pec = 0\<rparr> idle_world = (Ret (), opened)"
    by (simp add: SMBus_init_def SMBus_open_def MAXPATH_def one_chip_def opened_def idle_world_def Let_def fun_upd_idem)
  ultimately show ?thesis unfolding py_start_def by blast
qed

theorem py_reaches_named_chip_witness:
  "\<exists>self' w'. SMBus_methods one_chip (WriteByteData (Some (80, 16, 7))) (fst opened) (snd opened)
      = transact one_chip (WriteByteData (Some (80, 16, 7))) (80, 0, 16, 2, Some (7 # replicate 33 0)) self' w'
    \<and> slaves w' (fd self') = Some 80 \<and> SMBus_get_pec self' = PyBool (pecs w' (fd self'))"
proof -
  have o: "reach (py_start one_chip) (py_step one_chip) (fst opened, snd opened)"
    using reach_start [of "py_start one_chip" opened] opened_start by simp
  have u: "uninit_union (py_bus one_chip f) = replicate 34 0" for f by (simp add: one_chip_def)
  have acc: "py_access (uninit_union (py_bus one_chip (fd (fst opened)))) (WriteByteData (Some (80, 16, 7)))
      = Some (80, 0, 16, 2, Some (7 # replicate 33 0))"
    by (simp add: u value_access_def set_byte_def I2C_SMBUS_WRITE_def I2C_SMBUS_BYTE_DATA_def numeral_eq_Suc)
  obtain w1 where s: "SMBus_set_addr one_chip 80 (fst opened) (snd opened) = (0, (fst opened)\<lparr>addr := 80\<rparr>, w1)"
    by (simp add: SMBus_set_addr_def opened_def one_chip_def)
  show ?thesis by (intro exI, rule py_reaches_named_chip [OF one_chip_kernel o acc _ s]) simp
qed

theorem py_failed_choice_hits_old_chip_witness:
  "SMBus_methods one_chip (ReadByte (Some 200)) \<lparr>fd = 3, addr = 80, pec = 0\<rparr> (idle_world\<lparr>slaves := [3 \<mapsto> 80]\<rparr>)
    = (Raise IOError, \<lparr>fd = 3, addr = 200, pec = 0\<rparr>, idle_world\<lparr>slaves := [3 \<mapsto> 80]\<rparr>)"
  using py_failed_choice_hits_old_chip [OF one_chip_kernel, of "idle_world\<lparr>slaves := [3 \<mapsto> 80]\<rparr>" "\<lparr>fd = 3, addr = 80, pec = 0\<rparr>"
    80 200 "ReadByte (Some 200)"]
  by (simp add: one_chip_def)

theorem py_block_round_trip_witness:
  "\<exists>w2 w3. SMBus_write_i2c_block_data one_chip (Some (80, 16, PyList (map PyInt [1, 300, -1]))) \<lparr>fd = 3, addr = 80, pec = 0\<rparr> idle_world
      = (Ret PyNone, \<lparr>fd = 3, addr = 80, pec = 0\<rparr>, w2)
    \<and> SMBus_read_i2c_block_data one_chip (Some (80, 16, Some (int (length [1, 300, -1 :: int])))) \<lparr>fd = 3, addr = 80, pec = 0\<rparr> w2
      = (Ret (PyLongs [1, 44, 255]), \<lparr>fd = 3, addr = 80, pec = 0\<rparr>, w3)"
  using py_block_round_trip [OF one_chip_ioctls one_chip_cells, of "[1, 300, -1]" 80
    "\<lparr>fd = 3, addr = 80, pec = 0\<rparr>" idle_world "\<lparr>fd = 3, addr = 80, pec = 0\<rparr>" idle_world 16]
  by (simp add: SMBus_set_addr_def one_chip_def)

end
