(* ===== verification/KernelObjects.thy ===== *)
theory KernelObjects
  imports Prelude
begin

text \<open>
  What a module takes from the kernel when it is loaded and gives back when it is unloaded:
  registrations, device nodes, mappings, memory, interrupts. The kernel decides which calls
  succeed. A pointer of the module that is null, or an error number, is followed at the
  price of a fault; calls that are documented to accept it are harmless. The contract of a
  well-behaved module is the locale \<open>kernel_module\<close>.
\<close>

section \<open>Objects\<close>

datatype kobj =
    CharDev string | ClassDir string | DevNode int
  | BusDriver string | Adapter nat | Client nat
  | Clk string | ClkEnabled string | Alloc string | Mapping nat | DmaArea string
  | FbInfo | FbRegistered | InputDevice string | InputRegistered string | IrqLine string | ArmedTimer string
  | NetDevice | NetRegistered | Partitions string | Hcd | HcdAdded

text \<open>
  The kernel: which objects it would give, and the number \<open>register_chrdev\<close> answers for a
  name when it is asked for any (negative for an error).
\<close>

record kernel =
  can :: "kobj \<Rightarrow> bool"
  new_major :: "string \<Rightarrow> int"

definition acquire :: "kernel \<Rightarrow> kobj \<Rightarrow> kobj list \<Rightarrow> bool \<times> kobj list" where
  "acquire k x s = (if can k x then (True, x # s) else (False, s))"

text \<open>A pointer that is followed: null when the object was not given.\<close>

definition follow :: "bool \<Rightarrow> 'a \<Rightarrow> fault + 'a" where
  "follow valid r = (if valid then Inr r else Inl (BadAccess NULL))"

definition release :: "kobj \<Rightarrow> kobj list \<Rightarrow> kobj list" where
  "release x s = remove1 x s"

section \<open>Character devices\<close>

definition register_chrdev :: "kernel \<Rightarrow> string \<Rightarrow> kobj list \<Rightarrow> int \<times> kobj list" where
  "register_chrdev k nm s = (let m = new_major k nm in (m, if m < 0 then s else CharDev nm # s))"

definition unregister_chrdev :: "int \<Rightarrow> string \<Rightarrow> kobj list \<Rightarrow> kobj list" where
  "unregister_chrdev m nm s = (if m < 0 then s else release (CharDev nm) s)"

definition class_create :: "kernel \<Rightarrow> string \<Rightarrow> kobj list \<Rightarrow> bool \<times> kobj list" where
  "class_create k nm s = acquire k (ClassDir nm) s"

text \<open>A class that is an error pointer gets no node; it cannot be searched for one.\<close>

definition device_create :: "kernel \<Rightarrow> bool \<Rightarrow> int \<Rightarrow> kobj list \<Rightarrow> kobj list" where
  "device_create k cls devt s = (if cls then snd (acquire k (DevNode devt) s) else s)"

definition device_destroy :: "bool \<Rightarrow> int \<Rightarrow> kobj list \<Rightarrow> fault + kobj list" where
  "device_destroy cls devt s = follow cls (release (DevNode devt) s)"

definition class_destroy :: "bool \<Rightarrow> string \<Rightarrow> kobj list \<Rightarrow> kobj list" where
  "class_destroy cls nm s = (if cls then release (ClassDir nm) s else s)"

text \<open>The globals of a module with a character device.\<close>

record chr_globals =
  major :: int
  my_class :: bool

section \<open>Loading again and again\<close>

text \<open>
  A module is loaded under a sequence of kernels; each time that succeeds, it is unloaded.
  Loading gives the result, the globals and the objects in use.
\<close>

fun reload ::
  "('k \<Rightarrow> 's \<Rightarrow> fault + int \<times> 'g \<times> 's) \<Rightarrow> ('g \<Rightarrow> 's \<Rightarrow> fault + 's) \<Rightarrow> 'k list \<Rightarrow> 's \<Rightarrow> fault + 's" where
  "reload load unload [] s = Inr s"
| "reload load unload (k # ks) s =
     rbind (load k s) (\<lambda>(e, g, t).
       if e \<noteq> 0 then reload load unload ks t
       else rbind (unload g t) (reload load unload ks))"

text \<open>
  The contract: under a kernel that is fine, loading does not fault, a load that fails
  leaves nothing behind, and unloading gives everything back.
\<close>

locale kernel_module =
  fixes load :: "'k \<Rightarrow> 's \<Rightarrow> fault + int \<times> 'g \<times> 's"
    and unload :: "'g \<Rightarrow> 's \<Rightarrow> fault + 's"
    and fine :: "'k \<Rightarrow> 's \<Rightarrow> bool"
  assumes load_returns: "fine k s \<Longrightarrow> \<exists>e g t. load k s = Inr (e, g, t)"
    and load_failed: "fine k s \<Longrightarrow> load k s = Inr (e, g, t) \<Longrightarrow> e \<noteq> 0 \<Longrightarrow> t = s"
    and unload_restores: "fine k s \<Longrightarrow> load k s = Inr (0, g, t) \<Longrightarrow> unload g t = Inr s"
begin

lemma one_round:
  assumes "fine k s"
  shows "reload load unload (k # ks) s = reload load unload ks s"
proof -
  obtain e g t where l: "load k s = Inr (e, g, t)" using load_returns [OF assms] by blast
  show ?thesis
  proof (cases "e = 0")
    case True
    then show ?thesis using unload_restores [OF assms l [unfolded True]] l by simp
  next
    case False
    then show ?thesis using load_failed [OF assms l False] l by simp
  qed
qed

lemma reload_restores: "\<forall>k \<in> set ks. fine k s \<Longrightarrow> reload load unload ks s = Inr s"
proof (induction ks)
  case (Cons k ks)
  then show ?case using one_round [of k s ks] by simp
qed simp

end

section \<open>A character device with its class and node\<close>

text \<open>
  What most of the modules do, as facts about the calls: the three are taken in order, and
  given back in the opposite order, when the class could be made and the node is new.
\<close>

lemma chr_unload:
  assumes "DevNode m \<notin> set s" and "s1 = (if m < 0 then s else CharDev nm # s)"
  shows "unregister_chrdev m nm (class_destroy True cl (release (DevNode m)
     (device_create k True m (ClassDir cl # s1)))) = s"
  using assms by (auto simp: unregister_chrdev_def class_destroy_def release_def device_create_def acquire_def remove1_idem)

lemma register_chrdev_cases:
  "register_chrdev k nm s = (new_major k nm, if new_major k nm < 0 then s else CharDev nm # s)"
  by (simp add: register_chrdev_def Let_def)

lemma class_create_ok: "can k (ClassDir nm) \<Longrightarrow> class_create k nm s = (True, ClassDir nm # s)"
  by (simp add: class_create_def acquire_def)

definition node_free :: "string \<Rightarrow> string \<Rightarrow> kernel \<Rightarrow> kobj list \<Rightarrow> bool" where
  "node_free nm cl k s = (can k (ClassDir cl) \<and> DevNode (new_major k nm) \<notin> set s)"

text \<open>A kernel whose class tree takes every class, and whose new numbers have no node yet.\<close>

definition takes_devices :: "kobj list \<Rightarrow> kernel \<Rightarrow> bool" where
  "takes_devices s k = ((\<forall>cl. can k (ClassDir cl)) \<and> (\<forall>nm. DevNode (new_major k nm) \<notin> set s))"

lemma takes_devices_node: "takes_devices s k \<Longrightarrow> node_free nm cl k s"
  by (simp add: takes_devices_def node_free_def)

end
