(* ===== verification/CharModules.thy ===== *)
theory CharModules
  imports KernelObjects HwControl Am2305 Ds18b20
begin

text \<open>
  Loading and unloading the character devices hw_control.c, am2305.c and ds18b20.c: the
  number of the device is checked, the class and the node are not. What loading answers is
  in the theories of the drivers.
\<close>

section \<open>hw_control\<close>

definition hw_control_load :: "kernel \<Rightarrow> kobj list \<Rightarrow> fault + int \<times> chr_globals \<times> kobj list" where
  "hw_control_load k s =
     (let (m, s) = register_chrdev k ''junzi_hwcontrol'' s in
      if m < 0 then Inr (hw_control_init m, \<lparr>major = m, my_class = False\<rparr>, s)
      else let (c, s) = class_create k ''junzic_hwcontrol'' s; s = device_create k c m s
        in Inr (hw_control_init m, \<lparr>major = m, my_class = c\<rparr>, s))"

definition hw_control_exit :: "chr_globals \<Rightarrow> kobj list \<Rightarrow> fault + kobj list" where
  "hw_control_exit g s =
     rbind (device_destroy (my_class g) (major g) s) (\<lambda>s.
       let s = class_destroy (my_class g) ''junzic_hwcontrol'' s
       in Inr (unregister_chrdev (major g) ''junzi_hwcontrol'' s))"

section \<open>am2305\<close>

definition am2305_load :: "kernel \<Rightarrow> kobj list \<Rightarrow> fault + int \<times> chr_globals \<times> kobj list" where
  "am2305_load k s =
     (let (m, s) = register_chrdev k ''junzi_am2305'' s in
      if m < 0 then Inr (am2305_init m, \<lparr>major = m, my_class = False\<rparr>, s)
      else let (c, s) = class_create k ''junzic_am2305'' s; s = device_create k c m s
        in Inr (am2305_init m, \<lparr>major = m, my_class = c\<rparr>, s))"

definition am2305_exit :: "chr_globals \<Rightarrow> kobj list \<Rightarrow> fault + kobj list" where
  "am2305_exit g s =
     rbind (device_destroy (my_class g) (major g) s) (\<lambda>s.
       let s = class_destroy (my_class g) ''junzic_am2305'' s
       in Inr (unregister_chrdev (major g) ''junzi_am2305'' s))"

section \<open>ds18b20\<close>

text \<open>The sensor is looked for first: \<open>level\<close> is what the pin shows then.\<close>

definition ds18b20_load :: "bool \<times> kernel \<Rightarrow> kobj list \<Rightarrow> fault + int \<times> chr_globals \<times> kobj list" where
  "ds18b20_load lk s =
     (let (level, k) = lk in
      if snd (ds18b20_find_success level) = 0
      then Inr (ds18b20_init level 0, \<lparr>major = 0, my_class = False\<rparr>, s)
      else let (m, s) = register_chrdev k ''junzi_ds18b20'' s in
        if m < 0 then Inr (ds18b20_init level m, \<lparr>major = m, my_class = False\<rparr>, s)
        else let (c, s) = class_create k ''junzic_ds18b20'' s; s = device_create k c m s
          in Inr (ds18b20_init level m, \<lparr>major = m, my_class = c\<rparr>, s))"

definition ds18b20_exit :: "chr_globals \<Rightarrow> kobj list \<Rightarrow> fault + kobj list" where
  "ds18b20_exit g s =
     rbind (device_destroy (my_class g) (major g) s) (\<lambda>s.
       let s = class_destroy (my_class g) ''junzic_ds18b20'' s
       in Inr (unregister_chrdev (major g) ''junzi_ds18b20'' s))"

section \<open>They give back what they take\<close>

lemmas chr_calls = register_chrdev_cases class_create_ok device_destroy_def follow_def node_free_def

interpretation hw_module: kernel_module hw_control_load hw_control_exit "node_free ''junzi_hwcontrol'' ''junzic_hwcontrol''"
proof unfold_locales
  fix k s e g t
  assume f: "node_free ''junzi_hwcontrol'' ''junzic_hwcontrol'' k s"
  show "\<exists>e g t. hw_control_load k s = Inr (e, g, t)" by (simp add: hw_control_load_def split_def Let_def)
  show "hw_control_load k s = Inr (e, g, t) \<Longrightarrow> e \<noteq> 0 \<Longrightarrow> t = s"
    by (auto simp: hw_control_load_def hw_control_init_def chr_calls split_def Let_def split: if_splits)
  show "hw_control_load k s = Inr (0, g, t) \<Longrightarrow> hw_control_exit g t = Inr s"
    using f chr_unload [of "new_major k ''junzi_hwcontrol''" s]
    by (auto simp: hw_control_load_def hw_control_init_def hw_control_exit_def chr_calls split_def Let_def split: if_splits)
qed

interpretation am_module: kernel_module am2305_load am2305_exit "node_free ''junzi_am2305'' ''junzic_am2305''"
proof unfold_locales
  fix k s e g t
  assume f: "node_free ''junzi_am2305'' ''junzic_am2305'' k s"
  show "\<exists>e g t. am2305_load k s = Inr (e, g, t)" by (simp add: am2305_load_def split_def Let_def)
  show "am2305_load k s = Inr (e, g, t) \<Longrightarrow> e \<noteq> 0 \<Longrightarrow> t = s"
    by (auto simp: am2305_load_def am2305_init_def chr_calls split_def Let_def split: if_splits)
  show "am2305_load k s = Inr (0, g, t) \<Longrightarrow> am2305_exit g t = Inr s"
    using f chr_unload [of "new_major k ''junzi_am2305''" s]
    by (auto simp: am2305_load_def am2305_init_def am2305_exit_def chr_calls split_def Let_def split: if_splits)
qed

interpretation ds_module: kernel_module ds18b20_load ds18b20_exit "\<lambda>lk. node_free ''junzi_ds18b20'' ''junzic_ds18b20'' (snd lk)"
proof unfold_locales
  fix lk :: "bool \<times> kernel" and s e g t
  assume f: "node_free ''junzi_ds18b20'' ''junzic_ds18b20'' (snd lk) s"
  show "\<exists>e g t. ds18b20_load lk s = Inr (e, g, t)" by (simp add: ds18b20_load_def split_def Let_def)
  show "ds18b20_load lk s = Inr (e, g, t) \<Longrightarrow> e \<noteq> 0 \<Longrightarrow> t = s"
    by (auto simp: ds18b20_load_def ds18b20_init_def chr_calls split_def Let_def split: if_splits)
  show "ds18b20_load lk s = Inr (0, g, t) \<Longrightarrow> ds18b20_exit g t = Inr s"
    using f chr_unload [of "new_major (snd lk) ''junzi_ds18b20''" s]
    by (auto simp: ds18b20_load_def ds18b20_init_def ds18b20_exit_def chr_calls split_def Let_def split: if_splits)
qed

end
