(* ===== verification/I2cModules.thy ===== *)
theory I2cModules
  imports KernelObjects I2cDrivers
begin

text \<open>
  Loading and unloading the I2C modules: the drivers i2c_driver.c, ov9650_drv.c and
  bh1750_drv.c with their probing and removal by the I2C core, and the modules i2c_dev.c,
  bh1750_dev.c and ov9650_dev.c that announce a chip. Whether a chip is announced is an
  argument; what the core does is part of the definitions of its calls.
\<close>

section \<open>The I2C core\<close>

text \<open>The globals of a driver module, with what the core knows of it.\<close>

record bus_globals = chr_globals +
  added :: bool
  bound :: bool

definition no_globals :: bus_globals where
  "no_globals = \<lparr>major = 0, my_class = False, added = False, bound = False\<rparr>"

text \<open>A driver that is added probes the chip that is there; a probe that fails leaves it unbound.\<close>

definition i2c_add_driver ::
  "(kernel \<Rightarrow> kobj list \<Rightarrow> int \<times> chr_globals \<times> kobj list) \<Rightarrow> string \<Rightarrow> bool \<Rightarrow> kernel \<Rightarrow> kobj list
     \<Rightarrow> int \<times> bus_globals \<times> kobj list" where
  "i2c_add_driver probe nm present k s =
     (let (ok, s) = acquire k (BusDriver nm) s in
      if \<not> ok then (-16, no_globals, s)
      else if \<not> present then (0, no_globals\<lparr>added := True\<rparr>, s)
      else let (r, g, s) = probe k s
        in (0, \<lparr>major = major g, my_class = my_class g, added = True, bound = (r = 0)\<rparr>, s))"

text \<open>A driver that is deleted is removed from its chip; one that was not added only warns.\<close>

definition i2c_del_driver ::
  "(bus_globals \<Rightarrow> kobj list \<Rightarrow> fault + kobj list) \<Rightarrow> string \<Rightarrow> bus_globals \<Rightarrow> kobj list \<Rightarrow> fault + kobj list" where
  "i2c_del_driver remove nm g s =
     rbind (if bound g then remove g s else Inr s) (\<lambda>s. Inr (if added g then release (BusDriver nm) s else s))"

section \<open>i2c_driver.c\<close>

definition my_i2c_probe :: "kernel \<Rightarrow> kobj list \<Rightarrow> int \<times> chr_globals \<times> kobj list" where
  "my_i2c_probe k s =
     (let (m, s) = register_chrdev k ''junzi_dev'' s;
          (c, s) = class_create k ''junzi_class'' s;
          s = device_create k c m s
      in (0, \<lparr>major = m, my_class = c\<rparr>, s))"

definition my_i2c_remove :: "bus_globals \<Rightarrow> kobj list \<Rightarrow> fault + kobj list" where
  "my_i2c_remove g s =
     rbind (device_destroy (my_class g) (major g) s) (\<lambda>s.
       let s = class_destroy (my_class g) ''junzi_class'' s
       in Inr (unregister_chrdev (major g) ''junzi_dev'' s))"

definition my_i2cdrv_init :: "bool \<times> kernel \<Rightarrow> kobj list \<Rightarrow> fault + int \<times> bus_globals \<times> kobj list" where
  "my_i2cdrv_init pk s =
     (let (r, g, s) = i2c_add_driver my_i2c_probe ''junzi_i2cdrv'' (fst pk) (snd pk) s in Inr (0, g, s))"

definition my_i2cdrv_exit :: "bus_globals \<Rightarrow> kobj list \<Rightarrow> fault + kobj list" where
  "my_i2cdrv_exit g s = i2c_del_driver my_i2c_remove ''junzi_i2cdrv'' g s"

section \<open>ov9650_drv.c\<close>

text \<open>The probe reads the number of the product first; \<open>c\<close> and \<open>d\<close> are the chip it reads from.\<close>

definition ov9650_attach :: "'d i2c_client \<Rightarrow> 'd \<Rightarrow> kernel \<Rightarrow> kobj list \<Rightarrow> int \<times> chr_globals \<times> kobj list" where
  "ov9650_attach c d k s =
     (let (r, v, d) = ov9650_probe c d in
      if r \<noteq> 0 then (r, \<lparr>major = 0, my_class = False\<rparr>, s)
      else let (m, s) = register_chrdev k ''junzi_dev'' s;
               (cl, s) = class_create k ''junzi_class'' s;
               s = device_create k cl m s
        in (0, \<lparr>major = m, my_class = cl\<rparr>, s))"

definition ov9650_remove :: "bus_globals \<Rightarrow> kobj list \<Rightarrow> fault + kobj list" where
  "ov9650_remove g s =
     rbind (device_destroy (my_class g) (major g) s) (\<lambda>s.
       let s = class_destroy (my_class g) ''junzi_class'' s
       in Inr (unregister_chrdev (major g) ''junzi_dev'' s))"

definition ov9650_read :: int where "ov9650_read = 0"
definition ov9650_write :: int where "ov9650_write = 0"

definition ov9650_drv_init :: "'d i2c_client \<Rightarrow> 'd \<Rightarrow> bool \<times> kernel \<Rightarrow> kobj list \<Rightarrow> fault + int \<times> bus_globals \<times> kobj list" where
  "ov9650_drv_init c d pk s =
     (let (r, g, s) = i2c_add_driver (ov9650_attach c d) ''junzi_ov9650_drv'' (fst pk) (snd pk) s in Inr (0, g, s))"

definition ov9650_drv_exit :: "bus_globals \<Rightarrow> kobj list \<Rightarrow> fault + kobj list" where
  "ov9650_drv_exit g s = i2c_del_driver ov9650_remove ''junzi_ov9650_drv'' g s"

section \<open>bh1750_drv.c\<close>

definition BH1750_major :: int where "BH1750_major = 105"

text \<open>A fixed number is answered with 0, or with an error when it is in use.\<close>

definition register_fixed :: "kernel \<Rightarrow> string \<Rightarrow> kobj list \<Rightarrow> int \<times> kobj list" where
  "register_fixed k nm s =
     (if CharDev nm \<in> set s \<or> \<not> can k (CharDev nm) then (-16, s) else (0, CharDev nm # s))"

text \<open>The node has the minor number 1; none of the results is looked at.\<close>

definition BH1750_probe :: "kernel \<Rightarrow> kobj list \<Rightarrow> int \<times> chr_globals \<times> kobj list" where
  "BH1750_probe k s =
     (let (r, s) = register_fixed k ''bh1750'' s;
          (c, s) = class_create k ''bh1750s'' s;
          s = device_create k c BH1750_major s
      in (0, \<lparr>major = BH1750_major, my_class = c\<rparr>, s))"

definition BH1750_open :: int where "BH1750_open = 0"

definition BH1750_drv_init :: "bool \<times> kernel \<Rightarrow> kobj list \<Rightarrow> fault + int \<times> bus_globals \<times> kobj list" where
  "BH1750_drv_init pk s =
     (let (res, g, s) = i2c_add_driver BH1750_probe ''bh1750'' (fst pk) (snd pk) s in Inr (res, g, s))"

text \<open>The driver has no function for the removal.\<close>

definition BH1750_drv_exit :: "bus_globals \<Rightarrow> kobj list \<Rightarrow> fault + kobj list" where
  "BH1750_drv_exit g s = i2c_del_driver (\<lambda>g s. Inr s) ''bh1750'' g s"

section \<open>Announcing a chip\<close>

text \<open>
  \<open>i2c_new_probed_device\<close> follows the adapter; it answers with no chip when the address is
  in use or nothing is there. \<open>i2c_release_client\<close> drops a reference: the chip stays
  announced.
\<close>

definition i2c_new_probed_device :: "kernel \<Rightarrow> bool \<Rightarrow> nat \<Rightarrow> kobj list \<Rightarrow> fault + bool \<times> kobj list" where
  "i2c_new_probed_device k adapter a s =
     follow adapter (if Client a \<in> set s then (False, s) else acquire k (Client a) s)"

definition i2c_release_client :: "nat \<Rightarrow> kobj list \<Rightarrow> kobj list" where
  "i2c_release_client a s = s"

definition my_i2cdev_init :: "kernel \<Rightarrow> kobj list \<Rightarrow> fault + int \<times> bool \<times> kobj list" where
  "my_i2cdev_init k s =
     (let (my_adapter, s) = acquire k (Adapter 0) s in
      rbind (i2c_new_probed_device k my_adapter 0x50 s) (\<lambda>(my_client, s).
        if \<not> my_client then Inr (-19, False, release (Adapter 0) s)
        else Inr (0, True, release (Adapter 0) s)))"

definition my_i2cdev_exit :: "bool \<Rightarrow> kobj list \<Rightarrow> fault + kobj list" where
  "my_i2cdev_exit my_client s = Inr (i2c_release_client 0x50 s)"

definition bh1750_dev_init :: "kernel \<Rightarrow> kobj list \<Rightarrow> fault + int \<times> bool \<times> kobj list" where
  "bh1750_dev_init k s =
     (let (my_adapter, s) = acquire k (Adapter 0) s in
      rbind (i2c_new_probed_device k my_adapter 0x23 s) (\<lambda>(my_client, s).
        if \<not> my_client then Inr (-19, False, release (Adapter 0) s)
        else Inr (0, True, release (Adapter 0) s)))"

definition bh1750_dev_exit :: "bool \<Rightarrow> kobj list \<Rightarrow> fault + kobj list" where
  "bh1750_dev_exit my_client s = Inr (i2c_release_client 0x23 s)"

definition ov9650_device_init :: "kernel \<Rightarrow> kobj list \<Rightarrow> fault + int \<times> bool \<times> kobj list" where
  "ov9650_device_init k s =
     (let (adapter, s) = acquire k (Adapter 0) s in
      rbind (i2c_new_probed_device k adapter 0x30 s) (\<lambda>(ov9650_client, s).
        if \<not> ov9650_client then Inr (-19, False, release (Adapter 0) s)
        else Inr (0, True, release (Adapter 0) s)))"

definition ov9650_device_exit :: "bool \<Rightarrow> kobj list \<Rightarrow> fault + kobj list" where
  "ov9650_device_exit ov9650_client s = Inr (i2c_release_client 0x30 s)"

section \<open>The drivers that give everything back\<close>

definition bus_fine :: "bool \<times> kernel \<Rightarrow> kobj list \<Rightarrow> bool" where
  "bus_fine pk s = node_free ''junzi_dev'' ''junzi_class'' (snd pk) s"

lemmas bus_calls = i2c_add_driver_def i2c_del_driver_def acquire_def register_chrdev_cases class_create_ok
  device_destroy_def follow_def no_globals_def

lemma bus_unload:
  assumes "node_free nm cl k s" and "b \<noteq> DevNode (new_major k nm)"
  shows "unregister_chrdev (new_major k nm) nm (class_destroy True cl (release (DevNode (new_major k nm))
     (device_create k True (new_major k nm) (ClassDir cl # (if new_major k nm < 0 then b # s else CharDev nm # b # s))))) = b # s"
  using assms chr_unload [of "new_major k nm" "b # s"] by (simp add: node_free_def)

interpretation i2c_module: kernel_module my_i2cdrv_init my_i2cdrv_exit bus_fine
proof unfold_locales
  fix pk s e g t
  assume f: "bus_fine pk s"
  show "\<exists>e g t. my_i2cdrv_init pk s = Inr (e, g, t)" by (simp add: my_i2cdrv_init_def split_def Let_def)
  show "my_i2cdrv_init pk s = Inr (e, g, t) \<Longrightarrow> e \<noteq> 0 \<Longrightarrow> t = s"
    by (auto simp: my_i2cdrv_init_def split_def Let_def)
  show "my_i2cdrv_init pk s = Inr (0, g, t) \<Longrightarrow> my_i2cdrv_exit g t = Inr s"
    using f bus_unload [of "''junzi_dev''" "''junzi_class''" "snd pk" s "BusDriver ''junzi_i2cdrv''"]
    by (auto simp: bus_fine_def node_free_def my_i2cdrv_init_def my_i2cdrv_exit_def my_i2c_probe_def my_i2c_remove_def bus_calls
      release_def split_def Let_def split: if_splits)
qed

interpretation ov_module: kernel_module "ov9650_drv_init c d" ov9650_drv_exit bus_fine for c d
proof unfold_locales
  fix pk s e g t
  assume f: "bus_fine pk s"
  show "\<exists>e g t. ov9650_drv_init c d pk s = Inr (e, g, t)" by (simp add: ov9650_drv_init_def split_def Let_def)
  show "ov9650_drv_init c d pk s = Inr (e, g, t) \<Longrightarrow> e \<noteq> 0 \<Longrightarrow> t = s"
    by (auto simp: ov9650_drv_init_def split_def Let_def)
  show "ov9650_drv_init c d pk s = Inr (0, g, t) \<Longrightarrow> ov9650_drv_exit g t = Inr s"
    using f bus_unload [of "''junzi_dev''" "''junzi_class''" "snd pk" s "BusDriver ''junzi_ov9650_drv''"]
    by (auto simp: bus_fine_def node_free_def ov9650_drv_init_def ov9650_drv_exit_def ov9650_attach_def ov9650_remove_def bus_calls
      release_def split_def Let_def split: if_splits)
qed

section \<open>The modules that do not\<close>

lemma release_Adapter: "release (Adapter n) (Client a # Adapter n # s) = Client a # s" "release (Adapter n) (Adapter n # s) = s"
  by (simp_all add: release_def)

text \<open>
  Unloading a module that announces a chip leaves the chip announced, so that the module
  can be loaded once only: every later load finds the address in use and fails.
\<close>

definition loads_once ::
  "(kernel \<Rightarrow> kobj list \<Rightarrow> fault + int \<times> bool \<times> kobj list) \<Rightarrow> (bool \<Rightarrow> kobj list \<Rightarrow> fault + kobj list) \<Rightarrow> nat \<Rightarrow> bool" where
  "loads_once load unload a =
     (\<forall>k s ks. can k (Adapter 0) \<and> can k (Client a) \<and> Client a \<notin> set s \<longrightarrow>
        load k s = Inr (0, True, Client a # s) \<and> unload True (Client a # s) = Inr (Client a # s)
        \<and> (\<forall>k'. can k' (Adapter 0) \<longrightarrow> load k' (Client a # s) = Inr (-19, False, Client a # s))
        \<and> ((\<forall>k' \<in> set ks. can k' (Adapter 0)) \<longrightarrow> reload load unload (k # ks) s = Inr (Client a # s)))"

lemma reload_refused:
  assumes "\<forall>k \<in> set ks. load k s = Inr (e, g, s)" and "e \<noteq> 0"
  shows "reload load unload ks s = Inr s"
  using assms(1) by (induction ks) (simp_all add: assms(2))

lemma loads_onceI:
  assumes "\<And>k s. can k (Adapter 0) \<Longrightarrow> can k (Client a) \<Longrightarrow> Client a \<notin> set s \<Longrightarrow> load k s = Inr (0, True, Client a # s)"
    and "\<And>k s. can k (Adapter 0) \<Longrightarrow> load k (Client a # s) = Inr (-19, False, Client a # s)"
    and "\<And>s. unload True s = Inr s"
  shows "loads_once load unload a"
proof -
  have "reload load unload (k # ks) s = Inr (Client a # s)"
    if "can k (Adapter 0)" "can k (Client a)" "Client a \<notin> set s" "\<forall>k' \<in> set ks. can k' (Adapter 0)" for k s ks
    using that assms(1,3) reload_refused [of ks load "Client a # s" "-19" False unload] assms(2) by simp
  then show ?thesis unfolding loads_once_def using assms by blast
qed

lemmas announcing = i2c_new_probed_device_def follow_def acquire_def release_Adapter i2c_release_client_def

text \<open>
  The three modules that announce a chip can be loaded once: unloading leaves the chip
  announced, and every later load is refused with \<open>ENODEV\<close>. Without an adapter they fault.
\<close>

theorem announced_chip_stays:
  "loads_once my_i2cdev_init my_i2cdev_exit 0x50 \<and> loads_once bh1750_dev_init bh1750_dev_exit 0x23
    \<and> loads_once ov9650_device_init ov9650_device_exit 0x30
    \<and> (can k (Adapter 0) \<or> my_i2cdev_init k s = Inl (BadAccess NULL) \<and> bh1750_dev_init k s = Inl (BadAccess NULL)
        \<and> ov9650_device_init k s = Inl (BadAccess NULL))"
proof (intro conjI)
  show "loads_once my_i2cdev_init my_i2cdev_exit 0x50"
    by (rule loads_onceI) (simp_all add: my_i2cdev_init_def my_i2cdev_exit_def announcing)
  show "loads_once bh1750_dev_init bh1750_dev_exit 0x23"
    by (rule loads_onceI) (simp_all add: bh1750_dev_init_def bh1750_dev_exit_def announcing)
  show "loads_once ov9650_device_init ov9650_device_exit 0x30"
    by (rule loads_onceI) (simp_all add: ov9650_device_init_def ov9650_device_exit_def announcing)
  show "can k (Adapter 0) \<or> my_i2cdev_init k s = Inl (BadAccess NULL) \<and> bh1750_dev_init k s = Inl (BadAccess NULL)
        \<and> ov9650_device_init k s = Inl (BadAccess NULL)"
    by (auto simp: my_i2cdev_init_def bh1750_dev_init_def ov9650_device_init_def announcing)
qed

text \<open>
  The driver of the light sensor leaves its number, its class and its node behind when it
  is unloaded from a chip; the number is refused from then on, which the probe ignores.
\<close>

lemma bh1750_leaves_device:
  assumes "\<forall>x. can k x" and "CharDev ''bh1750'' \<notin> set s" and "BusDriver ''bh1750'' \<notin> set s"
  shows "reload BH1750_drv_init BH1750_drv_exit [(True, k)] s
      = Inr (DevNode 105 # ClassDir ''bh1750s'' # CharDev ''bh1750'' # s)"
    and "CharDev ''bh1750'' \<in> set t \<Longrightarrow> fst (BH1750_probe k t) = 0 \<and> fst (register_fixed k ''bh1750'' t) = -16"
  using assms by (simp_all add: BH1750_drv_init_def BH1750_drv_exit_def BH1750_probe_def BH1750_major_def register_fixed_def
    class_create_def device_create_def bus_calls release_def Let_def)

end
