(* ===== verification/DriverModules.thy ===== *)
theory DriverModules
  imports KernelObjects Lcd Flash InputDev VirNet "HOL-Library.Multiset"
begin

text \<open>
  Loading and unloading lcd.c, nandflash.c, my_ts.c, key_input.c, vir_net.c and usb_simp.c:
  pins and registers, and what stays in the kernel. None of these modules looks at the
  result of a call, so that a pointer the kernel did not give is followed.
\<close>

section \<open>lcd.c\<close>

record lcd =
  lheld :: "kobj list"
  ctl :: mylcd_regs
  gpccon :: u32
  gpdcon :: u32
  gpgup :: u32
  gpgcon :: u32

text \<open>
  The mappings are made first, then used. The expression for the pull-up of pin 4 reads
  \<open>~(1<<4)|(1<<4)\<close>. The frame buffer's address is \<open>start\<close>, or 0 when there is no memory.
\<close>

definition mylcd_init :: "kernel \<Rightarrow> u32 \<Rightarrow> lcd \<Rightarrow> fault + int \<times> lcd" where
  "mylcd_init k start s =
     (let (fb, h) = acquire k FbInfo (lheld s) in
      rbind (follow fb h) (\<lambda>h.
      let (c, h) = acquire k (Mapping 0x56000020) h; (d, h) = acquire k (Mapping 0x56000030) h;
          (u, h) = acquire k (Mapping 0x56000068) h; (g, h) = acquire k (Mapping 0x56000060) h; s = s\<lparr>lheld := h\<rparr> in
      rbind (follow c (s\<lparr>gpccon := 0xaaaaaaaa\<rparr>)) (\<lambda>s.
      rbind (follow d (s\<lparr>gpdcon := 0xaaaaaaaa\<rparr>)) (\<lambda>s.
      rbind (follow u (s\<lparr>gpgup := gpgup s AND (NOT (push_bit 4 1) OR push_bit 4 1)\<rparr>)) (\<lambda>s.
      rbind (follow g (s\<lparr>gpgcon := gpgcon s OR push_bit 8 3\<rparr>)) (\<lambda>s.
      let (r, h) = acquire k (Mapping 0x4D000000) (lheld s); (b, h) = acquire k (DmaArea ''lcd'') h;
          info = mylcd_info (if b then start else 0) in
      rbind (follow r (s\<lparr>lheld := h, ctl := mylcd_init_regs info (ctl s)\<rparr>)) (\<lambda>s.
      let (f, h) = acquire k FbRegistered (lheld s) in Inr (0, s\<lparr>lheld := h\<rparr>))))))))"

text \<open>
  The memory is to be freed by its address and its bus address; the address of the field
  that holds the bus address, and an allocation flag, name no memory that could be freed.
\<close>

definition dma_free_writecombine :: "bool \<Rightarrow> kobj list \<Rightarrow> kobj list" where
  "dma_free_writecombine own_address h = (if own_address then release (DmaArea ''lcd'') h else h)"

definition mylcd_exit :: "lcd \<Rightarrow> lcd" where
  "mylcd_exit s =
     (let h = release FbRegistered (lheld s);
          s = s\<lparr>ctl := mylcd_exit_regs (ctl s)\<rparr>;
          h = dma_free_writecombine False h;
          h = release (Mapping 0x4D000000) h; h = release (Mapping 0x56000020) h;
          h = release (Mapping 0x56000030) h; h = release (Mapping 0x56000068) h;
          h = release (Mapping 0x56000060) h
      in s\<lparr>lheld := release FbInfo h\<rparr>)"

section \<open>nandflash.c\<close>

record nand_dev =
  nheld :: "kobj list"
  nregs :: nand_regs

definition my_nand_init :: "kernel \<Rightarrow> nand_dev \<Rightarrow> fault + int \<times> nand_dev" where
  "my_nand_init k s =
     (let (c, h) = acquire k (Clk ''nand'') (nheld s);
          h = (if c then snd (acquire k (ClkEnabled ''nand'') h) else h);
          (chip, h) = acquire k (Alloc ''nand_chip'') h;
          (mtd, h) = acquire k (Alloc ''mtd_info'') h;
          (r, h) = acquire k (Mapping 0x4E000000) h in
      rbind (follow chip (s\<lparr>nheld := h\<rparr>)) (\<lambda>s.
      rbind (follow mtd s) (\<lambda>s.
      rbind (follow r (s\<lparr>nregs := my_nand_setup (nregs s)\<rparr>)) (\<lambda>s.
      Inr (0, s\<lparr>nheld := snd (acquire k (Partitions ''nand'') (nheld s))\<rparr>)))))"

definition my_nand_exit :: "nand_dev \<Rightarrow> nand_dev" where
  "my_nand_exit s =
     (let h = release (Partitions ''nand'') (nheld s);
          h = release (Mapping 0x4E000000) h; h = release (Alloc ''nand_chip'') h
      in s\<lparr>nheld := release (Alloc ''mtd_info'') h\<rparr>)"

section \<open>Input devices\<close>

text \<open>
  Unregistering gives up the last reference and frees the device; what is freed or was
  never registered must not be handed over (the address in the fault stands for any).
\<close>

definition input_unregister_device :: "string \<Rightarrow> kobj list \<Rightarrow> fault + kobj list" where
  "input_unregister_device n h =
     (if InputRegistered n \<in> set h then Inr (release (InputDevice n) (release (InputRegistered n) h)) else Inl (BadAccess NULL))"

definition input_free_device :: "string \<Rightarrow> kobj list \<Rightarrow> fault + kobj list" where
  "input_free_device n h = (if InputDevice n \<in> set h then Inr (release (InputDevice n) h) else Inl (BadAccess NULL))"

definition myts_load :: "kernel \<Rightarrow> kobj list \<Rightarrow> fault + int \<times> ts \<times> kobj list" where
  "myts_load k h =
     (let (i, h) = acquire k (InputDevice ''my_ts'') h in
      rbind (follow i h) (\<lambda>h.
      let h = snd (acquire k (InputRegistered ''my_ts'') h);
          (c, h) = acquire k (Clk ''adc'') h;
          h = (if c then snd (acquire k (ClkEnabled ''adc'') h) else h);
          (r, h) = acquire k (Mapping 0x58000000) h in
      rbind (follow r h) (\<lambda>h.
      let h = snd (acquire k (IrqLine ''ts_pen'') h); h = snd (acquire k (IrqLine ''adc'') h);
          h = ArmedTimer ''my_ts'' # h
      in Inr (0, myts_init, h))))"

definition myts_exit :: "kobj list \<Rightarrow> fault + kobj list" where
  "myts_exit h =
     (let h = release (ArmedTimer ''my_ts'') h; h = release (IrqLine ''ts_pen'') h; h = release (IrqLine ''adc'') h;
          h = release (Mapping 0x58000000) h; h = release (ClkEnabled ''adc'') h; h = release (Clk ''adc'') h in
      rbind (input_unregister_device ''my_ts'' h) (input_free_device ''my_ts''))"

text \<open>The names of \<open>key_infos\<close>, which name the interrupts; the loop over them.\<close>

definition key_names :: "string list" where
  "key_names = [''keyl'', ''keys'', ''keyenter'', ''keyleftsh'']"

fun request_keys :: "kernel \<Rightarrow> string list \<Rightarrow> kobj list \<Rightarrow> kobj list" where
  "request_keys k [] h = h"
| "request_keys k (n # ns) h = request_keys k ns (snd (acquire k (IrqLine n) h))"

fun free_keys :: "string list \<Rightarrow> kobj list \<Rightarrow> kobj list" where
  "free_keys [] h = h"
| "free_keys (n # ns) h = free_keys ns (release (IrqLine n) h)"

definition key_input_load :: "kernel \<Rightarrow> kobj list \<Rightarrow> fault + int \<times> keys \<times> kobj list" where
  "key_input_load k h =
     (let h = request_keys k key_names h; (i, h) = acquire k (InputDevice ''my_key'') h in
      rbind (follow i h) (\<lambda>h.
      let h = snd (acquire k (InputRegistered ''my_key'') h)
      in Inr (0, key_input_init, ArmedTimer ''my_key'' # h)))"

definition key_input_exit :: "kobj list \<Rightarrow> fault + kobj list" where
  "key_input_exit h =
     (let h = release (ArmedTimer ''my_key'') h in
      rbind (input_unregister_device ''my_key'' h) (\<lambda>h.
      rbind (input_free_device ''my_key'' h) (\<lambda>h. Inr (free_keys key_names h))))"

section \<open>vir_net.c\<close>

text \<open>\<open>ops\<close>: whether a device comes with a table of operations; the driver writes into it.\<close>

definition my_virt_load :: "bool \<Rightarrow> kernel \<Rightarrow> kobj list \<Rightarrow> fault + int \<times> vnet \<times> kobj list" where
  "my_virt_load ops k h =
     (let (v, h) = acquire k NetDevice h in
      rbind (follow v h) (\<lambda>h.
      rbind (follow ops h) (\<lambda>h. Inr (0, my_virt_init, snd (acquire k NetRegistered h)))))"

text \<open>A device that was never registered is not unregistered.\<close>

definition my_virt_exit :: "vnet \<Rightarrow> kobj list \<Rightarrow> fault + kobj list" where
  "my_virt_exit v h = Inr (release NetDevice (release NetRegistered h))"

section \<open>usb_simp.c\<close>

datatype simp_msg = FoundMouse | MouseGone

definition simp_usb_probe :: "simp_msg list \<times> int" where "simp_usb_probe = ([FoundMouse], 0)"
definition simp_usb_disconnect :: "simp_msg list" where "simp_usb_disconnect = [MouseGone]"

text \<open>The result of the registration is dropped; a driver that is not registered is not removed.\<close>

definition simp_usb_init :: "kernel \<Rightarrow> kobj list \<Rightarrow> fault + int \<times> bool \<times> kobj list" where
  "simp_usb_init k h = (let (r, h) = acquire k (BusDriver ''junzi_usb'') h in Inr (0, r, h))"

definition simp_usb_exit :: "bool \<Rightarrow> kobj list \<Rightarrow> fault + kobj list" where
  "simp_usb_exit registered h = Inr (if registered then release (BusDriver ''junzi_usb'') h else h)"

section \<open>The modules that give everything back\<close>

interpretation simp_module: kernel_module simp_usb_init simp_usb_exit "\<lambda>k h. True"
  by unfold_locales (auto simp: simp_usb_init_def simp_usb_exit_def acquire_def release_def Let_def split: if_splits)

definition virt_fine :: "bool \<times> kernel \<Rightarrow> kobj list \<Rightarrow> bool" where
  "virt_fine ok h = (fst ok \<and> can (snd ok) NetDevice \<and> NetRegistered \<notin> set h)"

interpretation virt_module: kernel_module "\<lambda>(ops, k). my_virt_load ops k" my_virt_exit virt_fine
  by unfold_locales
    (auto simp: virt_fine_def my_virt_load_def my_virt_exit_def acquire_def follow_def release_def remove1_idem Let_def split: if_splits)

section \<open>The modules that do not\<close>

text \<open>Loading and unloading of the two flash and screen drivers in the form of the contract.\<close>

definition lcd_load :: "u32 \<Rightarrow> kernel \<Rightarrow> lcd \<Rightarrow> fault + int \<times> unit \<times> lcd" where
  "lcd_load start k s = rbind (mylcd_init k start s) (\<lambda>(e, t). Inr (e, (), t))"

definition nand_load :: "kernel \<Rightarrow> nand_dev \<Rightarrow> fault + int \<times> unit \<times> nand_dev" where
  "nand_load k s = rbind (my_nand_init k s) (\<lambda>(e, t). Inr (e, (), t))"

definition gives_all :: "kernel \<Rightarrow> bool" where
  "gives_all k = (\<forall>x. can k x)"

lemma acquire_all: "gives_all k \<Longrightarrow> acquire k x s = (True, x # s)"
  by (simp add: acquire_def gives_all_def)

lemma lcd_round:
  assumes "gives_all k"
  obtains t where "mylcd_init k start s = Inr (0, t)" and "lheld (mylcd_exit t) = DmaArea ''lcd'' # lheld s"
    and "gpgup t = gpgup s" and "gpgcon t = gpgcon s OR 0x300" and "gpccon t = 0xaaaaaaaa" and "gpdcon t = 0xaaaaaaaa"
    and "ctl t = mylcd_init_regs (mylcd_info start) (ctl s)"
proof -
  note calls = mylcd_init_def acquire_all follow_def Let_def
  obtain t where i: "mylcd_init k start s = Inr (0, t)" using assms by (simp add: calls)
  have h: "lheld t = [FbRegistered, DmaArea ''lcd'', Mapping 0x4D000000, Mapping 0x56000060, Mapping 0x56000068,
      Mapping 0x56000030, Mapping 0x56000020, FbInfo] @ lheld s"
    using i assms by (auto simp: calls)
  have g: "gpgup t = gpgup s" "gpgcon t = gpgcon s OR 0x300" "gpccon t = 0xaaaaaaaa" "gpdcon t = 0xaaaaaaaa"
      "ctl t = mylcd_init_regs (mylcd_info start) (ctl s)"
    using i assms by (auto simp: calls)
  have "lheld (mylcd_exit t) = DmaArea ''lcd'' # lheld s"
    by (simp add: mylcd_exit_def h release_def dma_free_writecombine_def Let_def)
  then show thesis using that i g by blast
qed

lemma nand_round:
  assumes "gives_all k"
  obtains t where "my_nand_init k s = Inr (0, t)"
    and "nheld (my_nand_exit t) = [ClkEnabled ''nand'', Clk ''nand''] @ nheld s" and "nregs t = my_nand_setup (nregs s)"
proof -
  note calls = my_nand_init_def acquire_all follow_def Let_def
  obtain t where i: "my_nand_init k s = Inr (0, t)" using assms by (simp add: calls)
  have g: "nregs t = my_nand_setup (nregs s)" using i assms by (auto simp: calls)
  have h: "nheld t = [Partitions ''nand'', Mapping 0x4E000000, Alloc ''mtd_info'', Alloc ''nand_chip'', ClkEnabled ''nand'', Clk ''nand''] @ nheld s"
    using i assms by (auto simp: calls)
  have "nheld (my_nand_exit t) = [ClkEnabled ''nand'', Clk ''nand''] @ nheld s"
    by (simp add: my_nand_exit_def h release_def Let_def)
  then show thesis using that i g by blast
qed

lemma lcd_leak:
  assumes "\<forall>k \<in> set ks. gives_all k"
  shows "\<exists>t. reload (lcd_load start) (\<lambda>g t. Inr (mylcd_exit t)) ks s = Inr t
    \<and> lheld t = replicate (length ks) (DmaArea ''lcd'') @ lheld s \<and> gpgup t = gpgup s"
  using assms
proof (induction ks arbitrary: s)
  case (Cons k ks)
  obtain t where "mylcd_init k start s = Inr (0, t)" "lheld (mylcd_exit t) = DmaArea ''lcd'' # lheld s" "gpgup t = gpgup s"
    using Cons.prems by (meson lcd_round list.set_intros(1))
  moreover have "gpgup (mylcd_exit t) = gpgup t" by (simp add: mylcd_exit_def Let_def)
  ultimately show ?case using Cons.IH [of "mylcd_exit t"] Cons.prems
    by (auto simp: lcd_load_def replicate_app_Cons_same)
qed simp

lemma nand_leak:
  assumes "\<forall>k \<in> set ks. gives_all k"
  shows "\<exists>t. reload nand_load (\<lambda>g t. Inr (my_nand_exit t)) ks s = Inr t
    \<and> nheld t = concat (replicate (length ks) [ClkEnabled ''nand'', Clk ''nand'']) @ nheld s"
  using assms
proof (induction ks arbitrary: s)
  case (Cons k ks)
  obtain t where t: "my_nand_init k s = Inr (0, t)" "nheld (my_nand_exit t) = [ClkEnabled ''nand'', Clk ''nand''] @ nheld s"
    using Cons.prems by (meson nand_round list.set_intros(1))
  have "concat (replicate n [a, b]) @ [a, b] = a # b # concat (replicate n [a, b])" for n and a b :: kobj
    by (induction n) simp_all
  then show ?case using Cons.IH [of "my_nand_exit t"] Cons.prems t by (auto simp: nand_load_def)
qed simp

text \<open>How often an object is held, through the calls.\<close>

lemma held_release: "count (mset (release y h)) x = count (mset h) x - (if x = y then 1 else 0)"
  by (simp add: release_def)

lemma held_acquire: "count (mset (snd (acquire k y h))) x = count (mset h) x + (if x = y \<and> can k y then 1 else 0)"
  by (simp add: acquire_def)

lemma held_keys:
  "count (mset (request_keys k ns h)) (InputDevice n) = count (mset h) (InputDevice n)"
  by (induction ns arbitrary: h) (simp_all add: held_acquire)

lemma input_unload_faults:
  assumes "count (mset h) (InputDevice n) \<le> 1"
  shows "\<exists>f. rbind (input_unregister_device n h) (\<lambda>h. rbind (input_free_device n h) rest) = Inl f"
proof -
  have "count (mset (release (InputDevice n) (release (InputRegistered n) h))) (InputDevice n) = 0"
    using assms by (simp add: held_release)
  then have "InputDevice n \<notin> set (release (InputDevice n) (release (InputRegistered n) h))"
    by (simp add: count_eq_zero_iff)
  then show ?thesis by (auto simp: input_unregister_device_def input_free_device_def)
qed

lemma rbind_Inr: "rbind m Inr = m"
  by (cases m) simp_all

lemma myts_unload_faults:
  assumes "InputDevice ''my_ts'' \<notin> set h" and "myts_load k h = Inr (e, g, t)"
  shows "\<exists>f. myts_exit t = Inl f"
proof -
  have z: "count (mset h) (InputDevice ''my_ts'') = 0" using assms(1) by (simp add: count_eq_zero_iff)
  have "count (mset t) (InputDevice ''my_ts'') \<le> 1"
    using assms(2) by (auto simp: myts_load_def follow_def split_def held_acquire Let_def z split: if_splits)
  then show ?thesis unfolding myts_exit_def Let_def
    by (intro input_unload_faults [where rest = Inr, unfolded rbind_Inr]) (simp add: held_release)
qed

lemma keys_unload_faults:
  assumes "InputDevice ''my_key'' \<notin> set h" and "key_input_load k h = Inr (e, g, t)"
  shows "\<exists>f. key_input_exit t = Inl f"
proof -
  have z: "count (mset h) (InputDevice ''my_key'') = 0" using assms(1) by (simp add: count_eq_zero_iff)
  have "count (mset t) (InputDevice ''my_key'') \<le> 1"
    using assms(2) by (auto simp: key_input_load_def follow_def split_def held_acquire held_keys Let_def z split: if_splits)
  then show ?thesis unfolding key_input_exit_def Let_def
    by (intro input_unload_faults) (simp add: held_release)
qed


definition generous :: kernel where
  "generous = \<lparr>can = (\<lambda>x. True), new_major = (\<lambda>n. 254)\<rparr>"


end
