(* ===== verification/Ehci.thy ===== *)
theory Ehci
  imports KernelObjects
begin

text \<open>
  The host controller driver ehci-npcm7xx.c: the reset of the controller and its
  transceiver through two register maps, the probe with its error paths, and the removal.
  What the kernel answers is a record; the two register maps are functions from offsets.
\<close>

section \<open>Register maps\<close>

definition USB2PHYCTL_OFFSET :: nat where "USB2PHYCTL_OFFSET = 0x144"
definition IPSRST2_OFFSET :: nat where "IPSRST2_OFFSET = 0x24"
definition IPSRST3_OFFSET :: nat where "IPSRST3_OFFSET = 0x34"

type_synonym regmap = "nat \<Rightarrow> u32"

definition regmap_update_bits :: "nat \<Rightarrow> u32 \<Rightarrow> u32 \<Rightarrow> regmap \<Rightarrow> regmap" where
  "regmap_update_bits reg msk val m = m(reg := (m reg AND NOT msk) OR (val AND msk))"

record ehci_state =
  gcr :: regmap
  rst :: regmap
  eheld :: "kobj list"
  wakeup :: bool

text \<open>
  The kernel: the results of the lookups of the maps (0 or an error number), whether USB is
  disabled, the interrupt or an error, the result of setting the mask, whether a controller
  can be made, the results of mapping its registers and of adding it, and the results of
  registering the driver and of suspending.
\<close>

record ehci_kernel =
  gcr_lookup :: int
  rst_lookup :: int
  usb_disabled :: bool
  platform_irq :: int
  dma_mask :: int
  create_hcd :: bool
  ioremap_result :: int
  add_hcd :: int
  register_driver :: int
  suspend_result :: "bool \<Rightarrow> int"

section \<open>Probing and removing\<close>

definition phy_init :: "ehci_state \<Rightarrow> ehci_state" where
  "phy_init s =
     (let s = s\<lparr>rst := regmap_update_bits IPSRST2_OFFSET (push_bit 26 1) (push_bit 26 1) (rst s)\<rparr>;
          s = s\<lparr>rst := regmap_update_bits IPSRST3_OFFSET (push_bit 25 1) (push_bit 25 1) (rst s)\<rparr>;
          s = s\<lparr>gcr := regmap_update_bits USB2PHYCTL_OFFSET (push_bit 28 1) 0 (gcr s)\<rparr>;
          s = s\<lparr>rst := regmap_update_bits IPSRST3_OFFSET (push_bit 25 1) 0 (rst s)\<rparr>;
          s = s\<lparr>gcr := regmap_update_bits USB2PHYCTL_OFFSET (push_bit 28 1) (push_bit 28 1) (gcr s)\<rparr>
      in s\<lparr>rst := regmap_update_bits IPSRST2_OFFSET (push_bit 26 1) 0 (rst s)\<rparr>)"

text \<open>
  The controller that was made is the driver data of the device. The mapping belongs to the
  device, which gives it up by itself when the probe fails or the device is removed.
\<close>

definition npcm7xx_ehci_hcd_drv_probe :: "ehci_kernel \<Rightarrow> ehci_state \<Rightarrow> int \<times> ehci_state" where
  "npcm7xx_ehci_hcd_drv_probe k s =
     (if gcr_lookup k < 0 then (gcr_lookup k, s)
      else if rst_lookup k < 0 then (rst_lookup k, s)
      else let s = phy_init s in
        if usb_disabled k then (-19, s)
        else if platform_irq k < 0 then (platform_irq k, s)
        else if dma_mask k \<noteq> 0 then (dma_mask k, s)
        else if \<not> create_hcd k then (-12, s)
        else let s = s\<lparr>eheld := Hcd # eheld s\<rparr> in
          if ioremap_result k < 0 then (ioremap_result k, s\<lparr>eheld := release Hcd (eheld s)\<rparr>)
          else let retval = add_hcd k in
            if retval \<noteq> 0 then (retval, s\<lparr>eheld := release Hcd (eheld s)\<rparr>)
            else (retval, s\<lparr>eheld := HcdAdded # eheld s, wakeup := True\<rparr>))"

definition npcm7xx_ehci_hcd_drv_remove :: "ehci_state \<Rightarrow> int \<times> ehci_state" where
  "npcm7xx_ehci_hcd_drv_remove s =
     (let s = s\<lparr>eheld := release HcdAdded (eheld s)\<rparr>
      in (0, s\<lparr>eheld := release Hcd (eheld s)\<rparr>))"

definition ehci_npcm7xx_drv_suspend :: "ehci_kernel \<Rightarrow> ehci_state \<Rightarrow> int" where
  "ehci_npcm7xx_drv_suspend k s = suspend_result k (wakeup s)"

text \<open>The result of waking up the controller is dropped.\<close>

definition ehci_npcm7xx_drv_resume :: "bool \<Rightarrow> int" where
  "ehci_npcm7xx_drv_resume resumed = 0"

section \<open>The module\<close>

definition ehci_npcm7xx_init :: "ehci_kernel \<Rightarrow> kobj list \<Rightarrow> int \<times> kobj list" where
  "ehci_npcm7xx_init k h =
     (if usb_disabled k then (-19, h)
      else (register_driver k, if register_driver k = 0 then BusDriver ''npcm7xx-ehci'' # h else h))"

definition ehci_npcm7xx_cleanup :: "kobj list \<Rightarrow> kobj list" where
  "ehci_npcm7xx_cleanup h = release (BusDriver ''npcm7xx-ehci'') h"

text \<open>
  The two in the form of the contract. An error number is negative; a lookup, the interrupt
  and the mapping answer with at least 0 when they succeed.
\<close>

definition ehci_load :: "ehci_kernel \<Rightarrow> kobj list \<Rightarrow> fault + int \<times> unit \<times> kobj list" where
  "ehci_load k h = (let (r, h) = ehci_npcm7xx_init k h in Inr (r, (), h))"

interpretation ehci_module: kernel_module ehci_load "\<lambda>g h. Inr (ehci_npcm7xx_cleanup h)" "\<lambda>k h. True"
  by unfold_locales
    (auto simp: ehci_load_def ehci_npcm7xx_init_def ehci_npcm7xx_cleanup_def release_def Let_def split: if_splits)

text \<open>A device that is bound and unbound; what is looked at is what it holds.\<close>

definition ehci_bind :: "ehci_state \<Rightarrow> ehci_kernel \<Rightarrow> kobj list \<Rightarrow> fault + int \<times> ehci_state \<times> kobj list" where
  "ehci_bind s k h =
     (let (r, t) = npcm7xx_ehci_hcd_drv_probe k (s\<lparr>eheld := h\<rparr>) in Inr (r, t, eheld t))"

definition ehci_unbind :: "ehci_state \<Rightarrow> kobj list \<Rightarrow> fault + kobj list" where
  "ehci_unbind t h = Inr (eheld (snd (npcm7xx_ehci_hcd_drv_remove (t\<lparr>eheld := h\<rparr>))))"

lemma phy_init_held [simp]: "eheld (phy_init s) = eheld s" "wakeup (phy_init s) = wakeup s"
  by (simp_all add: phy_init_def Let_def)

interpretation ehci_device: kernel_module "ehci_bind s" ehci_unbind "\<lambda>k h. True" for s
  by unfold_locales
    (auto simp: ehci_bind_def ehci_unbind_def npcm7xx_ehci_hcd_drv_probe_def npcm7xx_ehci_hcd_drv_remove_def
      release_def Let_def split: if_splits)

section \<open>Properties\<close>

lemma update_bit:
  "bit (regmap_update_bits reg (push_bit n 1) v m r) i
    = (if r = reg \<and> i = n \<and> n < 32 then bit v n else bit (m r) i)"
  using bit_imp_le_length [of "m r" i] bit_imp_le_length [of v i]
  by (auto simp: regmap_update_bits_def bit_simps)

lemma bit_pushed: "bit (push_bit n 1 :: u32) n = (n < 32)"
  by (simp add: bit_simps)

lemma phy_init_maps:
  "rst (phy_init s) = regmap_update_bits IPSRST2_OFFSET (push_bit 26 1) 0 (regmap_update_bits IPSRST3_OFFSET (push_bit 25 1) 0
     (regmap_update_bits IPSRST3_OFFSET (push_bit 25 1) (push_bit 25 1)
       (regmap_update_bits IPSRST2_OFFSET (push_bit 26 1) (push_bit 26 1) (rst s))))"
  "gcr (phy_init s) = regmap_update_bits USB2PHYCTL_OFFSET (push_bit 28 1) (push_bit 28 1)
     (regmap_update_bits USB2PHYCTL_OFFSET (push_bit 28 1) 0 (gcr s))"
  unfolding phy_init_def Let_def by simp_all

lemma phy_init_bits:
  "bit (rst (phy_init s) r) i
     = (bit (rst s r) i \<and> (r, i) \<noteq> (IPSRST2_OFFSET, 26) \<and> (r, i) \<noteq> (IPSRST3_OFFSET, 25))"
  "bit (gcr (phy_init s) r) i = (bit (gcr s r) i \<or> (r, i) = (USB2PHYCTL_OFFSET, 28))"
  unfolding phy_init_maps update_bit bit_pushed bit_0_eq IPSRST2_OFFSET_def IPSRST3_OFFSET_def by auto

text \<open>
  What each step of the probe answers, in the order of the steps: 0 or its error number.
\<close>

definition step_results :: "ehci_kernel \<Rightarrow> int list" where
  "step_results k =
     [min 0 (gcr_lookup k), min 0 (rst_lookup k), if usb_disabled k then -19 else 0, min 0 (platform_irq k), dma_mask k,
      if create_hcd k then 0 else -12, min 0 (ioremap_result k), add_hcd k]"

lemma probe_result:
  "fst (npcm7xx_ehci_hcd_drv_probe k s) = (case dropWhile (\<lambda>e. e = 0) (step_results k) of [] \<Rightarrow> 0 | e # es \<Rightarrow> e)"
  by (simp add: npcm7xx_ehci_hcd_drv_probe_def step_results_def Let_def min_def)

text \<open>
  C27. A probe that fails, at whatever step, holds nothing and answers with the error of
  the first step that failed, unchanged; one that succeeds holds the controller, and its
  removal gives it back. Past the lookups, the two resets are released and the transceiver is
  enabled, and no other bit of the registers has changed, even when USB is disabled.
\<close>

theorem ehci_probe_spec:
  assumes "npcm7xx_ehci_hcd_drv_probe k s = (r, t)"
  shows "(if r \<noteq> 0 then eheld t = eheld s \<and> wakeup t = wakeup s
      else eheld t = HcdAdded # Hcd # eheld s \<and> wakeup t \<and> eheld (snd (npcm7xx_ehci_hcd_drv_remove t)) = eheld s)
    \<and> (r = 0 \<longleftrightarrow> 0 \<le> gcr_lookup k \<and> 0 \<le> rst_lookup k \<and> \<not> usb_disabled k \<and> 0 \<le> platform_irq k \<and> dma_mask k = 0
        \<and> create_hcd k \<and> 0 \<le> ioremap_result k \<and> add_hcd k = 0)
    \<and> r = (case dropWhile (\<lambda>e. e = 0) (step_results k) of [] \<Rightarrow> 0 | e # es \<Rightarrow> e)
    \<and> (if gcr_lookup k < 0 \<or> rst_lookup k < 0 then rst t = rst s \<and> gcr t = gcr s
       else (\<forall>a i. bit (rst t a) i = (bit (rst s a) i \<and> (a, i) \<noteq> (0x24, 26) \<and> (a, i) \<noteq> (0x34, 25)))
         \<and> (\<forall>a i. bit (gcr t a) i = (bit (gcr s a) i \<or> (a, i) = (0x144, 28))))"
proof -
  have "(if gcr_lookup k < 0 \<or> rst_lookup k < 0 then rst t = rst s \<and> gcr t = gcr s
       else rst t = rst (phy_init s) \<and> gcr t = gcr (phy_init s))"
    using assms by (auto simp: npcm7xx_ehci_hcd_drv_probe_def Let_def split: if_splits)
  then have "if gcr_lookup k < 0 \<or> rst_lookup k < 0 then rst t = rst s \<and> gcr t = gcr s
       else (\<forall>a i. bit (rst t a) i = (bit (rst s a) i \<and> (a, i) \<noteq> (0x24, 26) \<and> (a, i) \<noteq> (0x34, 25)))
         \<and> (\<forall>a i. bit (gcr t a) i = (bit (gcr s a) i \<or> (a, i) = (0x144, 28)))"
    using phy_init_bits [of s] by (auto simp: IPSRST2_OFFSET_def IPSRST3_OFFSET_def USB2PHYCTL_OFFSET_def split: if_splits)
  moreover have "(if r \<noteq> 0 then eheld t = eheld s \<and> wakeup t = wakeup s
      else eheld t = HcdAdded # Hcd # eheld s \<and> wakeup t \<and> eheld (snd (npcm7xx_ehci_hcd_drv_remove t)) = eheld s)
    \<and> (r = 0 \<longleftrightarrow> 0 \<le> gcr_lookup k \<and> 0 \<le> rst_lookup k \<and> \<not> usb_disabled k \<and> 0 \<le> platform_irq k \<and> dma_mask k = 0
        \<and> create_hcd k \<and> 0 \<le> ioremap_result k \<and> add_hcd k = 0)"
    using assms by (auto simp: npcm7xx_ehci_hcd_drv_probe_def npcm7xx_ehci_hcd_drv_remove_def release_def Let_def split: if_splits)
  moreover have "r = (case dropWhile (\<lambda>e. e = 0) (step_results k) of [] \<Rightarrow> 0 | e # es \<Rightarrow> e)"
    using probe_result [of k s] assms by simp
  ultimately show ?thesis by blast
qed

definition good_board :: ehci_kernel where
  "good_board = \<lparr>gcr_lookup = 0, rst_lookup = 0, usb_disabled = False, platform_irq = 61, dma_mask = 0, create_hcd = True,
     ioremap_result = 0, add_hcd = 0, register_driver = 0, suspend_result = (\<lambda>w. 0)\<rparr>"

definition after_boot :: ehci_state where
  "after_boot = \<lparr>gcr = (\<lambda>r. 0), rst = (\<lambda>r. 0xffffffff), eheld = [], wakeup = False\<rparr>"

theorem ehci_probe_spec_witness:
  "\<exists>t. npcm7xx_ehci_hcd_drv_probe good_board after_boot = (0, t) \<and> eheld t = [HcdAdded, Hcd]
    \<and> bit (gcr t 0x144) 28 \<and> \<not> bit (rst t 0x24) 26 \<and> bit (rst t 0x24) 3"
proof -
  obtain t where p: "npcm7xx_ehci_hcd_drv_probe good_board after_boot = (0, t)"
    by (simp add: npcm7xx_ehci_hcd_drv_probe_def good_board_def Let_def)
  have "bit (0xffffffff :: u32) 3" by simp
  then show ?thesis using p ehci_probe_spec [OF p] by (auto simp: good_board_def after_boot_def)
qed

end
