(* ===== verification/NetifPrint.thy ===== *)
theory NetifPrint
  imports NetifList Tools
begin

text \<open>
  The printing of the interface table: netif_list_print of netif_list.c with the two
  printing macros of tools.h. What is printed is the list of the messages that are handed
  to the log.
\<close>

section \<open>Numbers and addresses\<close>

definition hex_char :: "nat \<Rightarrow> u8" where
  "hex_char n = (if n < 10 then of_nat (48 + n) else of_nat (87 + n))"

text \<open>\<open>%02x\<close> of a byte and \<open>%d\<close> of a 32-bit value.\<close>

definition byte_hex :: "u8 \<Rightarrow> u8 list" where
  "byte_hex b = [hex_char (unat b div 16), hex_char (unat b mod 16)]"

definition int_decimal :: "u32 \<Rightarrow> u8 list" where
  "int_decimal n = (if sint n < 0 then 45 # decimal (nat (- sint n)) else decimal (unat n))"

definition colon :: u8 where "colon = 58"

fun joined :: "(u8 \<Rightarrow> u8 list) \<Rightarrow> u8 list \<Rightarrow> u8 list" where
  "joined f [] = []"
| "joined f [b] = f b"
| "joined f (b # bs) = f b @ colon # joined f bs"

text \<open>Both macros print the first six or four bytes of an array.\<close>

definition hwaddr_print :: "u8 list \<Rightarrow> u8 list \<Rightarrow> fault + u8 list" where
  "hwaddr_print lead a = (if length a < 6 then Inl OutOfBounds else Inr (lead @ colon # joined byte_hex (take 6 a)))"

definition ipaddr_print :: "u8 list \<Rightarrow> u8 list \<Rightarrow> fault + u8 list" where
  "ipaddr_print lead a =
     (if length a < 4 then Inl OutOfBounds else Inr (lead @ colon # joined (\<lambda>b. decimal (unat b)) (take 4 a)))"

section \<open>The table\<close>

definition mtu_word :: "u8 list \<Rightarrow> fault + u32" where
  "mtu_word m = rbind (rd32 m 0) (\<lambda>n. Inr (of_nat n))"

text \<open>The body of the loop: the lines of a node.\<close>

definition print_node :: "netif_attr \<Rightarrow> fault + u8 list list" where
  "print_node a =
     rbind (mtu_word (mtu a)) (\<lambda>m.
     rbind (hwaddr_print (chars ''hwaddr'') (hwaddr a)) (\<lambda>hw.
     rbind (ipaddr_print (chars ''ipaddr'') (ipaddr a)) (\<lambda>ip.
     Inr [chars ''############ ifname:'' @ attr_name a @ [10],
          chars ''status:'' @ (if up a then chars ''up'' else chars ''down'') @ [10],
          chars ''port link:'' @ (if port_link a then chars ''up'' else chars ''down'') @ [10],
          chars ''mtu:'' @ int_decimal m @ [10], hw, ip])))"

text \<open>The loop over the nodes; a corrupt list need not lead back to the head.\<close>

partial_function (option) print_nodes :: "net_state \<Rightarrow> addr \<Rightarrow> u8 list list \<Rightarrow> (fault + u8 list list) option" where
  "print_nodes st pos out =
     (if pos = netif_head then Some (Inr out)
      else (case rbind (get_next (lh st) pos) (\<lambda>n. rbind (print_node (attrs st pos)) (\<lambda>ls. Inr (n, ls))) of
          Inl e \<Rightarrow> Some (Inl e)
        | Inr (n, ls) \<Rightarrow> print_nodes st n (out @ ls)))"

definition netif_list_print :: "net_state \<Rightarrow> (fault + u8 list list \<times> net_state) option" where
  "netif_list_print st =
     (let out = [chars ''net node sum '' @ int_decimal (list_sum st) @ chars '':'' @ [10]] in
      if list_sum st = 0 then Some (Inr (out, st))
      else case mutex_lock st of Inl e \<Rightarrow> Some (Inl e)
        | Inr st \<Rightarrow>
            (case get_next (lh st) netif_head of Inl e \<Rightarrow> Some (Inl e)
             | Inr n \<Rightarrow> map_option (\<lambda>r. rbind r (\<lambda>out. Inr (out @ [[10]], mutex_unlock st))) (print_nodes st n out)))"

section \<open>What is printed\<close>

text \<open>The lines of a node whose attributes have their sizes.\<close>

definition node_lines :: "netif_attr \<Rightarrow> u8 list list" where
  "node_lines a =
     [chars ''############ ifname:'' @ takeWhile (\<lambda>b. b \<noteq> 0) (ifname a) @ [10],
      chars ''status:'' @ (if up a then chars ''up'' else chars ''down'') @ [10],
      chars ''port link:'' @ (if port_link a then chars ''up'' else chars ''down'') @ [10],
      chars ''mtu:'' @ int_decimal (of_nat (unat (mtu a ! 0) + 256 * unat (mtu a ! 1)
        + 65536 * (unat (mtu a ! 2) + 256 * unat (mtu a ! 3)))) @ [10],
      chars ''hwaddr:'' @ joined byte_hex (hwaddr a),
      chars ''ipaddr:'' @ joined (\<lambda>b. decimal (unat b)) (ipaddr a)]"

lemma print_node_ok: "attr_ok a \<Longrightarrow> print_node a = Inr (node_lines a)"
proof -
  assume ok: "attr_ok a"
  then have "attr_name a = takeWhile (\<lambda>b. b \<noteq> 0) (ifname a)" by (simp add: attr_ok_def attr_name_ok)
  moreover have "rd32 (mtu a) 0 = Inr (unat (mtu a ! 0) + 256 * unat (mtu a ! 1) + 65536 * (unat (mtu a ! 2) + 256 * unat (mtu a ! 3)))"
    using ok by (simp add: attr_ok_def rd32_def rd16_Inr numeral_2_eq_2 numeral_3_eq_3)
  moreover have "chars s @ colon # xs = chars (s @ '':'') @ xs" for s xs by (simp add: chars_def colon_def)
  ultimately show "print_node a = Inr (node_lines a)"
    using ok by (simp add: print_node_def mtu_word_def hwaddr_print_def ipaddr_print_def attr_ok_def node_lines_def)
qed

lemma print_nodes_list:
  assumes "dll (lh st) netif_head xs" and "\<forall>p \<in> set xs. attr_ok (attrs st p)" and "xs = ys @ zs"
  shows "print_nodes st (hd (zs @ [netif_head])) out = Some (Inr (out @ concat (map (\<lambda>p. node_lines (attrs st p)) zs)))"
  using assms(3)
proof (induction zs arbitrary: ys out)
  case Nil
  show ?case by (simp add: print_nodes.simps)
next
  case (Cons z zs)
  have "z \<noteq> netif_head" using dll_ops.rep_distinct [OF assms(1)] Cons.prems by auto
  moreover have "get_next (lh st) z = Inr (hd (zs @ [netif_head]))"
    using dll_ops.rep_succ [OF assms(1), of "netif_head # ys" z zs] Cons.prems by simp
  moreover have "attr_ok (attrs st z)" using assms(2) Cons.prems by simp
  ultimately show ?case
    using Cons.IH [of "ys @ [z]" "out @ node_lines (attrs st z)"] Cons.prems
    by (subst print_nodes.simps) (simp add: print_node_ok)
qed

text \<open>
  On a well-formed table the printing ends without a fault, changes nothing and releases
  the mutex. It prints the counter and, unless that is 0, the lines of every node, once
  each, in the order of the list.
\<close>

theorem netif_list_print_shows:
  assumes "net_table st xs"
  shows "netif_list_print st
    = Some (Inr ((chars ''net node sum '' @ int_decimal (of_nat (length xs)) @ [colon, 10])
        # (if of_nat (length xs) = (0 :: u32) then [] else concat (map (\<lambda>p. node_lines (attrs st p)) xs) @ [[10]]), st))"
proof -
  note D = net_table_D [OF assms]
  let ?out = "[chars ''net node sum '' @ int_decimal (list_sum st) @ chars '':'' @ [10]]"
  have s: "list_sum st = of_nat (length xs)" "\<not> locked st" "dll (lh st) netif_head xs"
    "\<forall>p \<in> set xs. attr_ok (attrs st p)" using assms by (simp_all add: net_table_def)
  have "get_next (lh st) netif_head = Inr (hd (xs @ [netif_head]))"
    using dll_ops.rep_succ [OF s(3), of "[]" netif_head xs] by simp
  moreover have "print_nodes (st\<lparr>locked := True\<rparr>) (hd (xs @ [netif_head])) ?out
      = Some (Inr (?out @ concat (map (\<lambda>p. node_lines (attrs st p)) xs)))"
    using print_nodes_list [of "st\<lparr>locked := True\<rparr>" xs "[]" xs ?out] s(3,4) by simp
  moreover have "mutex_unlock (st\<lparr>locked := True\<rparr>) = st" using s(2) by (simp add: mutex_unlock_def)
  moreover have "chars '':'' = [colon]" by (simp add: chars_def colon_def)
  ultimately show ?thesis
    by (simp add: netif_list_print_def mutex_lock_def s(1,2) Let_def)
qed

theorem netif_list_print_shows_witness:
  "netif_list_print empty_net = Some (Inr ([chars ''net node sum 0:'' @ [10]], empty_net))"
  using netif_list_print_shows [OF net_table_empty_net]
  by (simp add: int_decimal_def decimal.simps [of 0] chars_def colon_def)

end
