(* ===== verification/TestPrograms.thy ===== *)
theory TestPrograms
  imports Am2305 Ds18b20 I2cDrivers Lcd DmaDev
begin

text \<open>
  The programs that come with the drivers: am2305_test.c, ds18b20_test.c and bh1750test.c,
  which show a reading for every key, bh1750-usr.c, which reads the light sensor from user
  space, dma_test.c, and lcd_test.c, which draws into the frame buffer. What a read copies
  is an argument, so that the reads of the drivers can be put in. \<open>char\<close> is unsigned, as
  it is on the ARM of these boards; a \<open>main\<close> that ends without a return exits with 0.
\<close>

section \<open>The keyboard loop\<close>

text \<open>
  The loop over \<open>getchar\<close>: the first of the wanted keys. At the end of the input
  \<open>getchar\<close> answers with \<open>EOF\<close> again and again, which is never wanted: nothing.
\<close>

definition next_key :: "u8 list \<Rightarrow> u8 list \<Rightarrow> (u8 \<times> u8 list) option" where
  "next_key wanted keys =
     (case dropWhile (\<lambda>c. c \<notin> set wanted) keys of [] \<Rightarrow> None | c # cs \<Rightarrow> Some (c, cs))"

lemma next_key_shorter: "next_key wanted keys = Some (c, cs) \<Longrightarrow> length cs < length keys"
proof -
  assume "next_key wanted keys = Some (c, cs)"
  then have "dropWhile (\<lambda>c. c \<notin> set wanted) keys = c # cs" by (auto simp: next_key_def split: list.splits)
  then show ?thesis using length_dropWhile_le [of "\<lambda>c. c \<notin> set wanted" keys] by simp
qed

definition key_n :: u8 where "key_n = 110"
definition key_q :: u8 where "key_q = 113"
definition key_t :: u8 where "key_t = 116"

text \<open>
  The loop of the three programs: read into the buffer, wait for a key, leave on \<open>q\<close>, show.
  \<open>rd i\<close> is what the read number \<open>i\<close> copies. The result is what is shown, and whether the
  loop is left; otherwise it waits for ever.
\<close>

function menu :: "u8 list \<Rightarrow> (nat \<Rightarrow> u8 list) \<Rightarrow> (u8 \<Rightarrow> u8 list \<Rightarrow> 'l list) \<Rightarrow> nat \<Rightarrow> u8 list \<Rightarrow> u8 list \<Rightarrow> 'l list \<times> bool" where
  "menu wanted rd disp i buf keys =
     (let buf = put 0 (rd i) buf in
      case next_key wanted keys of None \<Rightarrow> ([], False)
      | Some (ch, rest) \<Rightarrow>
          if ch = key_q then ([], True)
          else let (ls, e) = menu wanted rd disp (i + 1) buf rest in (disp ch buf @ ls, e))"
  by pat_completeness auto
termination by (relation "measure (\<lambda>(w, r, d, i, b, keys). length keys)") (auto dest: next_key_shorter)

declare menu.simps [simp del]

section \<open>am2305_test.c\<close>

text \<open>The temperature and the humidity, each with its tenth.\<close>

type_synonym am_line = "nat \<times> nat \<times> nat \<times> nat"

definition am_display :: "u8 \<Rightarrow> u8 list \<Rightarrow> am_line list" where
  "am_display ch buf =
     (let hum = unat (buf ! 0) * 256 + unat (buf ! 1);
          temp = unat (buf ! 2) * 256 + unat (buf ! 3);
          temp_big = temp div 10; temp_little = temp mod 10;
          hum_big = hum div 10; hum_little = hum mod 10
      in if ch = key_n then [(temp_big, temp_little, hum_big, hum_little)] else [])"

definition am2305_test_main :: "bool \<Rightarrow> (nat \<Rightarrow> u8 list) \<Rightarrow> u8 list \<Rightarrow> u8 list \<Rightarrow> (int \<times> am_line list) option" where
  "am2305_test_main opened rd junk keys =
     (if \<not> opened then Some (-1, [])
      else let (ls, e) = menu [key_n, key_q, key_t] rd am_display 0 junk keys in if e then Some (0, ls) else None)"

section \<open>bh1750test.c\<close>

definition bh_display :: "u8 \<Rightarrow> u8 list \<Rightarrow> (nat \<times> nat) list" where
  "bh_display ch buf = (if ch = key_n then [(unat (buf ! 0), unat (buf ! 1))] else [])"

definition bh1750test_main :: "bool \<Rightarrow> (nat \<Rightarrow> u8 list) \<Rightarrow> u8 list \<Rightarrow> u8 list \<Rightarrow> (int \<times> (nat \<times> nat) list) option" where
  "bh1750test_main opened rd junk keys =
     (if \<not> opened then Some (-1, [])
      else let (ls, e) = menu [key_n, key_q] rd bh_display 0 junk keys in if e then Some (0, ls) else None)"

section \<open>ds18b20_test.c\<close>

text \<open>The string in the buffer, or a read past its end.\<close>

definition ds_display :: "u8 \<Rightarrow> u8 list \<Rightarrow> (fault + u8 list) list" where
  "ds_display ch buf =
     [rbind (cstring buf) (\<lambda>s. Inr (chars ''Now the temperature is '' @ s @ [10]))]"

definition ds18b20_test_main ::
  "bool \<Rightarrow> (nat \<Rightarrow> u8 list) \<Rightarrow> u8 list \<Rightarrow> u8 list \<Rightarrow> (int \<times> (fault + u8 list) list) option" where
  "ds18b20_test_main opened rd junk keys =
     (if \<not> opened then Some (-1, [])
      else let (ls, e) = menu [key_n, key_q] rd ds_display 0 junk keys in if e then Some (0, ls) else None)"

section \<open>bh1750-usr.c\<close>

datatype usr_msg = OpenError | SlaveError | WriteError u8 | Light nat | ReadError

text \<open>
  The start: the exit code, or the messages before the loop. The loop never ends; a round
  is the result of a read and the buffer behind it, and what is shown is the number that
  is divided by 1.2.
\<close>

definition usr_start :: "int \<Rightarrow> int \<Rightarrow> (u8 \<Rightarrow> int) \<Rightarrow> (int \<times> usr_msg list) + usr_msg list" where
  "usr_start opened slave write_byte =
     (if opened < 0 then Inl (1, [OpenError])
      else if slave < 0 then Inl (1, [SlaveError])
      else Inr ((if write_byte 0x01 < 0 then [WriteError 0x01] else []) @ (if write_byte 0x10 < 0 then [WriteError 0x10] else [])))"

definition usr_round :: "int \<Rightarrow> u8 list \<Rightarrow> usr_msg" where
  "usr_round r buf = (if r \<noteq> 0 then Light (unat (buf ! 0) * 256 + unat (buf ! 1)) else ReadError)"

section \<open>dma_test.c\<close>

text \<open>The two endless loops over the ioctl of the driver; the device is of any type.\<close>

partial_function (option) ioctl_loop :: "(nat \<Rightarrow> 'd \<Rightarrow> 'd) \<Rightarrow> nat \<Rightarrow> 'd \<Rightarrow> int option" where
  "ioctl_loop io cmd d = ioctl_loop io cmd (io cmd d)"

definition dma_test_main :: "(nat \<Rightarrow> 'd \<Rightarrow> 'd) \<Rightarrow> bool \<Rightarrow> u8 list list \<Rightarrow> 'd \<Rightarrow> (fault + int) option" where
  "dma_test_main io opened argv d =
     (if \<not> opened then Some (Inr (-1))
      else if length argv < 2 then Some (Inl (BadAccess NULL))
      else if argv ! 1 = chars ''nodma'' then map_option Inr (ioctl_loop io MEM_NO_DMA d)
      else if argv ! 1 = chars ''dma'' then map_option Inr (ioctl_loop io MEM_DMA d)
      else Some (Inr 0))"

text \<open>With one of its two arguments the program runs until it is killed; with none it follows a null pointer.\<close>

lemma ioctl_loop_never: "ioctl_loop io cmd d = None"
proof (rule ccontr)
  assume "ioctl_loop io cmd d \<noteq> None"
  then obtain r where r: "ioctl_loop io cmd d = Some r" by auto
  show False by (rule ioctl_loop.raw_induct [OF _ r])
qed

lemma dma_test_endless:
  "dma_test_main io True [prog, chars ''dma''] d = None" "dma_test_main io True [prog, chars ''nodma''] d = None"
  "dma_test_main io True [prog] d = Some (Inl (BadAccess NULL))"
  by (simp_all add: dma_test_main_def ioctl_loop_never)

section \<open>lcd_test.c\<close>

definition on_grid :: "nat \<Rightarrow> nat \<Rightarrow> bool" where
  "on_grid x y = (y = 30 \<or> x = 30 \<or> y = 99 \<or> x = 99 \<or> x = 60 \<or> y = 60)"

definition pixel_at :: "fb_info \<Rightarrow> nat \<times> nat \<Rightarrow> nat" where
  "pixel_at info p = (case p of (x, y) \<Rightarrow> (x * 2 + y * line_length info) mod 2 ^ 32)"

text \<open>The body of the two loops, which stores through the mapping, and the loops.\<close>

definition draw_pixel :: "fb_info \<Rightarrow> nat \<times> nat \<Rightarrow> u8 list \<Rightarrow> fault + u8 list" where
  "draw_pixel info p mem =
     (if on_grid (fst p) (snd p) then
        let location = pixel_at info p in
        if location + 1 < length mem then Inr (mem[location := 0x07, location + 1 := 0xff]) else Inl OutOfBounds
      else Inr mem)"

fun draw_all :: "fb_info \<Rightarrow> (nat \<times> nat) list \<Rightarrow> u8 list \<Rightarrow> fault + u8 list" where
  "draw_all info [] mem = Inr mem"
| "draw_all info (p # ps) mem = rbind (draw_pixel info p mem) (draw_all info ps)"

definition pixels :: "(nat \<times> nat) list" where
  "pixels = concat (map (\<lambda>x. map (\<lambda>y. (x, y)) [30..<100]) [30..<100])"

text \<open>
  The size that is mapped, in the 32 bits of its factors; the kernel maps whole pages of 4096 bytes. \<open>screen\<close> is the
  memory behind the mapping, which is refused when it is \<open>None\<close>.
\<close>

definition screensize :: "fb_info \<Rightarrow> nat" where
  "screensize info = xres info * yres info * bits_per_pixel info mod 2 ^ 32 div 8"

definition whole_pages :: "nat \<Rightarrow> nat" where
  "whole_pages n = (n + 4095) div 4096 * 4096"

definition lcd_test_main ::
  "bool \<Rightarrow> bool \<Rightarrow> bool \<Rightarrow> fb_info \<Rightarrow> u8 list option \<Rightarrow> fault + int \<times> u8 list" where
  "lcd_test_main opened finfo vinfo info screen =
     (if \<not> opened then Inr (-1, [])
      else if \<not> finfo then Inr (-2, [])
      else if \<not> vinfo then Inr (-3, [])
      else case screen of None \<Rightarrow> Inr (-4, [])
        | Some mem \<Rightarrow> rbind (draw_all info pixels (take (whole_pages (screensize info)) mem)) (\<lambda>m. Inr (0, m)))"

section \<open>What the programs show\<close>

text \<open>The keys that count: the wanted ones before the first \<open>q\<close>.\<close>

definition counted :: "u8 list \<Rightarrow> u8 list \<Rightarrow> u8 list" where
  "counted wanted keys = takeWhile (\<lambda>c. c \<noteq> key_q) (filter (\<lambda>c. c \<in> set wanted) keys)"

lemma next_key_None: "next_key wanted keys = None \<longleftrightarrow> filter (\<lambda>c. c \<in> set wanted) keys = []"
  by (induction keys) (auto simp: next_key_def split: list.splits if_splits)

lemma next_key_Some:
  "next_key wanted keys = Some (c, cs) \<Longrightarrow>
    filter (\<lambda>c. c \<in> set wanted) keys = c # filter (\<lambda>c. c \<in> set wanted) cs"
  by (induction keys) (auto simp: next_key_def split: if_splits)

text \<open>
  When the reads all have the length that is looked at, every counted key shows the reading
  that was made before it was pressed, and the loop is left if and only if \<open>q\<close> is pressed.
\<close>

lemma menu_shows:
  assumes "key_q \<in> set wanted" and "\<And>i. length (rd i) = n" and "n \<le> N"
    and "\<And>ch b. length b = N \<Longrightarrow> disp ch b = disp ch (take n b)"
  shows "length buf = N \<Longrightarrow>
    menu wanted rd disp i buf keys
      = (concat (map (\<lambda>(j, ch). disp ch (rd j)) (enumerate i (counted wanted keys))), key_q \<in> set keys)"
proof (induction "length keys" arbitrary: i buf keys rule: less_induct)
  case less
  let ?b = "put 0 (rd i) buf"
  have b: "length ?b = N" "take n ?b = rd i" using assms(2,3) less.prems by (simp_all add: put_def)
  have q: "key_q \<in> set keys \<longleftrightarrow> key_q \<in> set (filter (\<lambda>c. c \<in> set wanted) keys)" for keys using assms(1) by simp
  show ?case
  proof (cases "next_key wanted keys")
    case None
    then have "menu wanted rd disp i buf keys = ([], False)" by (subst menu.simps) simp
    with None show ?thesis using q [of keys] by (simp add: next_key_None counted_def)
  next
    case (Some p)
    obtain c cs where p: "p = (c, cs)" by (cases p)
    note f = next_key_Some [OF Some [unfolded p]]
    have IH: "menu wanted rd disp (Suc i) ?b cs
        = (concat (map (\<lambda>(j, ch). disp ch (rd j)) (enumerate (Suc i) (counted wanted cs))), key_q \<in> set cs)"
      using less.hyps [OF next_key_shorter [OF Some [unfolded p]] b(1)] .
    have m: "menu wanted rd disp i buf keys = (if c = key_q then ([], True)
        else let (ls, e) = menu wanted rd disp (Suc i) ?b cs in (disp c ?b @ ls, e))"
      using Some p by (subst menu.simps) (simp add: Let_def)
    have d: "disp c ?b = disp c (rd i)" using assms(4) [of ?b c] b by simp
    have q1: "key_q \<in> set keys \<longleftrightarrow> c = key_q \<or> key_q \<in> set cs"
      unfolding q [of keys] f using assms(1) by auto
    show ?thesis
    proof (cases "c = key_q")
      case True
      then have "counted wanted keys = []" "key_q \<in> set keys" by (simp_all add: counted_def f q1)
      with True show ?thesis unfolding m by simp
    next
      case False
      then have "counted wanted keys = c # counted wanted cs" "(key_q \<in> set keys) = (key_q \<in> set cs)"
        by (simp_all add: counted_def f q1)
      with False show ?thesis unfolding m IH by (simp add: d)
    qed
  qed
qed

text \<open>
  The whole way from the wire of the sensor: the readings the sensor sends, with any timing,
  each with its five bytes; the last one is the sum, which nobody looks at.
\<close>

definition sent_frame :: "nat \<Rightarrow> nat \<Rightarrow> (nat \<times> nat) list list \<Rightarrow> u8 list \<Rightarrow> bool list" where
  "sent_frame m n tss bs =
     False # replicate m False @ True # replicate n True @ False # concat (map2 send_bits tss (map high_first bs))"

definition reading :: "nat \<times> nat \<Rightarrow> u8 \<Rightarrow> u8 list" where
  "reading p chk = (case p of (hum, temp) \<Rightarrow>
     [of_nat (hum div 256), of_nat (hum mod 256), of_nat (temp div 256), of_nat (temp mod 256), chk])"

definition am_copied :: "bool list \<Rightarrow> u8 list" where
  "am_copied ls = (case am2305_read (\<lambda>_. 0) ls of None \<Rightarrow> [] | Some (r, bs) \<Rightarrow> bs)"

definition timed :: "(nat \<times> nat) list list \<Rightarrow> bool" where
  "timed tss = (length tss = 5 \<and> (\<forall>ts \<in> set tss. length ts = 8))"

lemma copied_frame:
  assumes "timed tss"
  shows "am_copied (sent_frame m n tss (reading p chk)) = reading p chk"
proof -
  from assms obtain t0 t1 t2 t3 t4 where "tss = [t0, t1, t2, t3, t4]"
    and l: "length t0 = 8" "length t1 = 8" "length t2 = 8" "length t3 = 8" "length t4 = 8"
    by (auto simp: timed_def length_Suc_conv eval_nat_numeral)
  then show ?thesis using am2305_read_frame [OF l, of "\<lambda>_. 0" m n]
    by (cases p) (simp add: am_copied_def sent_frame_def reading_def)
qed

lemma byte_of: "k < 256 \<Longrightarrow> unat (of_nat k :: u8) = k"
  by (simp add: unat_of_nat)

lemma display_reading:
  assumes "h < 65536" "t < 65536"
  shows "am_display c (reading (h, t) chk) = (if c = key_n then [(t div 10, t mod 10, h div 10, h mod 10)] else [])"
proof -
  have "unat (of_nat (k div 256) :: u8) * 256 + unat (of_nat (k mod 256) :: u8) = k" if "k < 65536" for k
    using that byte_of [of "k div 256"] byte_of [of "k mod 256"] by simp
  from this [OF assms(1)] this [OF assms(2)] show ?thesis by (simp add: am_display_def reading_def)
qed

text \<open>
  C34. From the wire to the screen: with every timing of the sensor's pulses, each \<open>n\<close> shows
  the temperature and the humidity, in tenths, of the frame that was read before that key was
  pressed, and the program ends if and only if \<open>q\<close> is pressed. The checksum of the frame
  plays no part.
\<close>

theorem am2305_test_shows:
  assumes "\<And>i. timed (tss i)" and "\<And>i. fst (sent i) < 65536 \<and> snd (sent i) < 65536" and "length junk = 10"
  shows "am2305_test_main True (\<lambda>i. am_copied (sent_frame (m i) (n i) (tss i) (reading (sent i) (chk i)))) junk keys
    = (if key_q \<in> set keys then Some (0,
         concat (map (\<lambda>(i, c). if c \<noteq> key_n then []
             else case sent i of (hum, temp) \<Rightarrow> [(temp div 10, temp mod 10, hum div 10, hum mod 10)])
           (enumerate 0 (counted [key_n, key_q, key_t] keys)))) else None)"
proof -
  let ?rd = "\<lambda>i. reading (sent i) (chk i)"
  have l: "length (?rd i) = 5" for i by (cases "sent i") (simp add: reading_def)
  have d: "length b = 10 \<Longrightarrow> am_display ch b = am_display ch (take 5 b)" for ch b by (simp add: am_display_def)
  have s: "am_display c (reading (sent i) (chk i)) = (if c \<noteq> key_n then []
      else case sent i of (hum, temp) \<Rightarrow> [(temp div 10, temp mod 10, hum div 10, hum mod 10)])" for i c
    using assms(2) [of i] by (cases "sent i") (simp add: display_reading)
  have k: "key_q \<in> set [key_n, key_q, key_t]" by simp
  show ?thesis
    unfolding am2305_test_main_def copied_frame [OF assms(1)]
    using menu_shows [where rd = ?rd and disp = am_display and N = 10, OF k l _ d, of junk 0 keys] assms(3) by (simp add: s)
qed

theorem am2305_test_shows_witness:
  "am2305_test_main True
      (\<lambda>i. am_copied (sent_frame 3 2 (replicate 5 (replicate 8 (2, 4))) (reading (if i = 0 then 652 else 654, 351) 7)))
      (replicate 10 0) [110, 10, 116, 10, 110, 10, 113]
    = Some (0, [(35, 1, 65, 2), (35, 1, 65, 4)])"
  using am2305_test_shows [of "\<lambda>i. replicate 5 (replicate 8 (2, 4))" "\<lambda>i. (if i = 0 then 652 else 654, 351)"
      "replicate 10 0" "\<lambda>i. 3" "\<lambda>i. 2" "\<lambda>i. 7" "[110, 10, 116, 10, 110, 10, 113]"]
  by (simp add: timed_def counted_def key_n_def key_q_def key_t_def)

text \<open>The temperature program shows the string that the driver made of the two bytes of the sensor.\<close>

definition ds_copied :: "u8 \<Rightarrow> u8 \<Rightarrow> u8 list \<Rightarrow> u8 list" where
  "ds_copied hi lo rest = (case ds18b20_read (byte_bits lo @ byte_bits hi) rest (\<lambda>_. 0) of (acts, bs, r) \<Rightarrow> bs)"

lemma ds_copied_string:
  "ds_copied hi lo rest = (let str = temperature_string (temperature hi lo) @ [0] in str @ drop (length str) rest)"
proof -
  have l: "length (byte_bits lo) = 8" by (simp add: byte_bits_def)
  have r: "snd (ds18b20_readbyte (byte_bits b @ ls)) = b" for b ls using ds18b20_byte_roundtrip by blast
  show ?thesis using r [of lo "byte_bits hi"] r [of hi "[]"] l
    by (simp add: ds_copied_def ds18b20_read_def Let_def split_def)
qed

lemma decimal_short: "n < 10 \<Longrightarrow> length (decimal n) = 1" "n < 10000 \<Longrightarrow> length (decimal n) \<le> 4"
proof -
  show one: "n < 10 \<Longrightarrow> length (decimal n) = 1" for n by (subst decimal.simps) simp
  have s: "length (decimal n) = (if n < 10 then 1 else Suc (length (decimal (n div 10))))" for n
    by (subst decimal.simps) simp
  have b: "length (decimal n) \<le> Suc k" if "n < 10 * m" "\<And>n. n < m \<Longrightarrow> length (decimal n) \<le> k" for n m k
    using that(1) that(2) [of "n div 10"] s [of n] by (auto split: if_splits)
  have a: "n < 10 \<Longrightarrow> length (decimal n) \<le> 1" for n using one [of n] by simp
  have two: "length (decimal n) \<le> Suc 1" if "n < 100" for n by (rule b [of n 10]) (use that a in simp_all)
  have three: "length (decimal n) \<le> Suc (Suc 1)" if "n < 1000" for n by (rule b [of n 100]) (use that two in simp_all)
  have "length (decimal n) \<le> Suc (Suc (Suc 1))" if "n < 10000" by (rule b [of n 1000]) (use that three in simp_all)
  then show "n < 10000 \<Longrightarrow> length (decimal n) \<le> 4" by simp
qed

lemma decimal_no_nul: "0 \<notin> set (decimal n)"
proof
  assume "0 \<in> set (decimal n)"
  then obtain k where "k < 10" "(0 :: u8) = of_nat (48 + k)" using decimal_digits by blast
  then show False using byte_of [of "48 + k"] by simp
qed

lemma temperature_string_fits:
  "0 \<notin> set (temperature_string (temperature hi lo))" "length (temperature_string (temperature hi lo)) < 20"
proof -
  obtain s z x where t: "temperature hi lo = (s, z, x)" by (cases "temperature hi lo")
  then obtain a b :: u8 where "z = ucast a * 16 + ucast b div 16" "x = (ucast b mod 16) * 10 div 16"
    by (auto simp: temperature_def Let_def split: if_splits)
  then have "unat z = unat a * 16 + unat b div 16" "unat x = unat b mod 16 * 10 div 16"
    by (simp_all only: unat_zheng unat_xiaoshu)
  moreover have "unat a * 16 + unat b div 16 < 10000" using unat_u8_lt [of a] unat_u8_lt [of b] by linarith
  moreover have "unat b mod 16 * 10 div 16 < 10" by (simp add: less_mult_imp_div_less)
  ultimately have "length (decimal (unat z)) \<le> 4" "length (decimal (unat x)) = 1" by (simp_all add: decimal_short)
  then show "length (temperature_string (temperature hi lo)) < 20" unfolding t by (simp add: temperature_string_def)
  show "0 \<notin> set (temperature_string (temperature hi lo))" unfolding t
    by (simp add: temperature_string_def decimal_no_nul)
qed

theorem ds18b20_test_shows:
  assumes "\<And>i. length (rest i) = 20" and "length junk = 20"
  shows "ds18b20_test_main True (\<lambda>i. ds_copied (hi i) (lo i) (rest i)) junk keys
    = (if key_q \<in> set keys then Some (0,
         map (\<lambda>(i, c). Inr (chars ''Now the temperature is '' @ temperature_string (temperature (hi i) (lo i)) @ [10]))
           (enumerate 0 (counted [key_n, key_q] keys))) else None)"
proof -
  let ?rd = "\<lambda>i. ds_copied (hi i) (lo i) (rest i)"
  have l: "length (?rd i) = 20" for i
    using assms(1) [of i] temperature_string_fits(2) [of "hi i" "lo i"] by (simp add: ds_copied_string Let_def)
  have d: "ds_display c (?rd i) = [Inr (chars ''Now the temperature is '' @ temperature_string (temperature (hi i) (lo i)) @ [10])]" for i c
  proof -
    have "takeWhile (\<lambda>b. b \<noteq> 0) (s @ 0 # r) = s" if "0 \<notin> set s" for s r :: "u8 list"
      using that by (induction s) auto
    from this [OF temperature_string_fits(1)] show ?thesis
      by (simp add: ds_display_def ds_copied_string Let_def cstring_def)
  qed
  have k: "key_q \<in> set [key_n, key_q]" by simp
  have s: "concat (map (\<lambda>(j, ch). ds_display ch (?rd j)) js)
      = map (\<lambda>(i, c). Inr (chars ''Now the temperature is '' @ temperature_string (temperature (hi i) (lo i)) @ [10])) js" for js
    by (induction js) (auto simp: d)
  show ?thesis unfolding ds18b20_test_main_def
    using menu_shows [where rd = ?rd and disp = ds_display and N = 20, OF k l, of junk 0 keys] assms(2) by (simp add: s)
qed

theorem ds18b20_test_shows_witness:
  "ds18b20_test_main True (\<lambda>i. ds_copied 1 0x91 (replicate 20 7)) (replicate 20 0) [110, 113]
    = Some (0, [Inr (chars ''Now the temperature is '' @ temperature_string (temperature 1 0x91) @ [10])])"
  using ds18b20_test_shows [of "\<lambda>i. replicate 20 7" "replicate 20 0" "\<lambda>i. 1" "\<lambda>i. 0x91" "[110, 113]"]
  by (simp add: counted_def key_n_def key_q_def)

section \<open>What is drawn\<close>

text \<open>
  The picture in the memory: a point of the grid is the bytes 07 and ff at its place, every
  other byte is as it was. Lines of an odd length would overlap.
\<close>

definition grid_at :: "fb_info \<Rightarrow> (nat \<times> nat) list \<Rightarrow> nat \<Rightarrow> bool" where
  "grid_at info ps k = (\<exists>p \<in> set ps. on_grid (fst p) (snd p) \<and> pixel_at info p = k)"

definition painted :: "fb_info \<Rightarrow> (nat \<times> nat) list \<Rightarrow> nat \<Rightarrow> u8 \<Rightarrow> u8" where
  "painted info ps k old = (if grid_at info ps k then 0x07 else if 0 < k \<and> grid_at info ps (k - 1) then 0xff else old)"

lemma length_draw: "draw_pixel info p mem = Inr mem' \<Longrightarrow> length mem' = length mem"
  by (auto simp: draw_pixel_def Let_def split: if_splits)

lemma pixel_at_two:
  assumes "2 dvd line_length info"
  shows "2 dvd pixel_at info p"
proof -
  obtain x y where p: "p = (x, y)" by (cases p)
  have "2 dvd x * 2 + y * line_length info" using assms by simp
  then show ?thesis unfolding p pixel_at_def by (simp add: dvd_mod)
qed

lemma grid_at_two: "2 dvd line_length info \<Longrightarrow> grid_at info ps k \<Longrightarrow> 2 dvd k"
  using pixel_at_two by (auto simp: grid_at_def)

lemma draw_all_paints:
  assumes "2 dvd line_length info"
  shows "(\<And>p. p \<in> set ps \<Longrightarrow> pixel_at info p + 1 < length mem) \<Longrightarrow>
    \<exists>mem'. draw_all info ps mem = Inr mem' \<and> length mem' = length mem
      \<and> (\<forall>k < length mem. mem' ! k = painted info ps k (mem ! k))"
proof (induction ps arbitrary: mem)
  case Nil
  then show ?case by (simp add: painted_def grid_at_def)
next
  case (Cons p ps)
  obtain m where m: "draw_pixel info p mem = Inr m" using Cons.prems [of p] by (cases "on_grid (fst p) (snd p)") (auto simp: draw_pixel_def Let_def)
  note l = length_draw [OF m]
  obtain m' where m': "draw_all info ps m = Inr m'" "length m' = length m"
    "\<forall>k < length m. m' ! k = painted info ps k (m ! k)" using Cons.IH [of m] Cons.prems l by auto
  have "painted info ps k (m ! k) = painted info (p # ps) k (mem ! k)" if k: "k < length mem" for k
  proof (cases "on_grid (fst p) (snd p)")
    case False
    then have "grid_at info (p # ps) j \<longleftrightarrow> grid_at info ps j" for j by (auto simp: grid_at_def)
    moreover have "m = mem" using m False by (simp add: draw_pixel_def)
    ultimately show ?thesis by (simp add: painted_def)
  next
    case True
    let ?l = "pixel_at info p"
    have mk: "m ! k = (if k = ?l + 1 then 0xff else if k = ?l then 0x07 else mem ! k)"
      using m True k by (auto simp: draw_pixel_def Let_def nth_list_update split: if_splits)
    have g: "grid_at info (p # ps) j \<longleftrightarrow> j = ?l \<or> grid_at info ps j" for j using True by (auto simp: grid_at_def)
    have o: "2 dvd ?l" "grid_at info ps j \<Longrightarrow> 2 dvd j" for j
      using pixel_at_two [OF assms] grid_at_two [OF assms] by blast+
    have n: "\<not> grid_at info ps (?l + 1)" using o by fastforce
    have n2: "k = ?l \<Longrightarrow> 0 < k \<Longrightarrow> \<not> grid_at info ps (k - 1)" using o(1) o(2) [of "k - 1"] by fastforce
    show ?thesis unfolding painted_def mk g using n n2 o by auto
  qed
  with m m' l show ?case by auto
qed

lemma draw_all_leaves:
  "p \<in> set ps \<Longrightarrow> on_grid (fst p) (snd p) \<Longrightarrow> length mem \<le> pixel_at info p + 1 \<Longrightarrow>
    draw_all info ps mem = Inl OutOfBounds"
proof (induction ps arbitrary: mem)
  case (Cons q ps)
  show ?case
  proof (cases "draw_pixel info q mem")
    case (Inl e)
    then have "e = OutOfBounds" by (auto simp: draw_pixel_def Let_def split: if_splits)
    with Inl show ?thesis by simp
  next
    case (Inr m)
    then have "p \<noteq> q" using Cons.prems by (auto simp: draw_pixel_def Let_def)
    then show ?thesis using Inr Cons.prems Cons.IH [of m] length_draw [OF Inr] by simp
  qed
qed simp

lemma set_pixels: "(x, y) \<in> set pixels \<longleftrightarrow> 30 \<le> x \<and> x < 100 \<and> 30 \<le> y \<and> y < 100"
proof -
  have s: "(x, y) \<in> set (concat (map (\<lambda>x. map (\<lambda>y. (x, y)) ys) xs)) \<longleftrightarrow> x \<in> set xs \<and> y \<in> set ys"
    for xs ys :: "nat list" by auto
  show ?thesis unfolding pixels_def s set_upt atLeastLessThan_iff by blast
qed

text \<open>
  C37. On a screen with lines of an even length whose mapping holds a hundred lines, the
  program colours exactly the points of its grid. On the screen that the driver announces,
  with its lines of 3840 bytes, the mapping ends before line 69 and the program leaves it.
\<close>

theorem lcd_test_paints:
  assumes "2 dvd line_length info" and "mapped = take (whole_pages (screensize info)) screen"
    and "99 * line_length info + 200 \<le> length mapped" and "length mapped \<le> 2 ^ 32"
  shows "(\<exists>mem. lcd_test_main True True True info (Some screen) = Inr (0, mem) \<and> length mem = length mapped
      \<and> (\<forall>x \<in> {30..<100}. \<forall>y \<in> {30..<100}. on_grid x y \<longrightarrow>
          mem ! (2 * x + y * line_length info) = 0x07 \<and> mem ! (2 * x + y * line_length info + 1) = 0xff)
      \<and> (\<forall>k < length mapped. (\<forall>x \<in> {30..<100}. \<forall>y \<in> {30..<100}. on_grid x y \<longrightarrow>
          k \<noteq> 2 * x + y * line_length info \<and> k \<noteq> 2 * x + y * line_length info + 1) \<longrightarrow> mem ! k = mapped ! k))
    \<and> (length memory = smem_len (mylcd_info st) \<longrightarrow>
        lcd_test_main True True True (mylcd_info st) (Some memory) = Inl OutOfBounds)"
proof (intro conjI impI)
  let ?L = "line_length info"
  have b: "2 * x + y * ?L + 1 < length mapped" if "x < 100" "y < 100" for x y
  proof -
    have "y * ?L \<le> 99 * ?L" using that(2) by simp
    then show ?thesis using that(1) assms(3) by linarith
  qed
  have at: "pixel_at info (x, y) = 2 * x + y * ?L" if "x < 100" "y < 100" for x y
    using b [OF that] assms(4) by (simp add: pixel_at_def mult.commute)
  have "pixel_at info p + 1 < length mapped" if "p \<in> set pixels" for p
    
  proof -
    obtain x y where p: "p = (x, y)" by (rule prod.exhaust)
    then show ?thesis using that at [of x y] b [of x y] by (simp add: set_pixels)
  qed
  from draw_all_paints [OF assms(1) this] obtain mem where m: "draw_all info pixels mapped = Inr mem"
    "length mem = length mapped" "\<And>k. k < length mapped \<Longrightarrow> mem ! k = painted info pixels k (mapped ! k)" by blast
  have g: "grid_at info pixels k \<longleftrightarrow> (\<exists>x \<in> {30..<100}. \<exists>y \<in> {30..<100}. on_grid x y \<and> k = 2 * x + y * ?L)" for k
  proof
    assume "grid_at info pixels k"
    then obtain x y where "(x, y) \<in> set pixels" "on_grid x y" "pixel_at info (x, y) = k" by (auto simp: grid_at_def)
    then have "x \<in> {30..<100}" "y \<in> {30..<100}" "k = 2 * x + y * ?L" using at [of x y] by (auto simp: set_pixels)
    with \<open>on_grid x y\<close> show "\<exists>x \<in> {30..<100}. \<exists>y \<in> {30..<100}. on_grid x y \<and> k = 2 * x + y * ?L" by blast
  next
    assume "\<exists>x \<in> {30..<100}. \<exists>y \<in> {30..<100}. on_grid x y \<and> k = 2 * x + y * ?L"
    then obtain x y where "(x, y) \<in> set pixels" "on_grid x y" "pixel_at info (x, y) = k" using at by (auto simp: set_pixels)
    then show "grid_at info pixels k" unfolding grid_at_def by (intro bexI [of _ "(x, y)"]) simp_all
  qed
  have grid: "mem ! (2 * x + y * ?L) = 0x07 \<and> mem ! (2 * x + y * ?L + 1) = 0xff"
    if "x \<in> {30..<100}" "y \<in> {30..<100}" "on_grid x y" for x y
  proof -
    have y: "grid_at info pixels (2 * x + y * ?L)" using that g by blast
    have "\<not> grid_at info pixels (Suc n)" if "grid_at info pixels n" for n
      using grid_at_two [OF assms(1) that] grid_at_two [OF assms(1), of pixels "Suc n"] by auto
    then have "\<not> grid_at info pixels (2 * x + y * ?L + 1)" using y by simp
    with y show ?thesis using b [of x y] that by (simp add: m(3) painted_def)
  qed
  have other: "mem ! k = mapped ! k" if k: "k < length mapped"
    and n: "\<forall>x \<in> {30..<100}. \<forall>y \<in> {30..<100}. on_grid x y \<longrightarrow> k \<noteq> 2 * x + y * ?L \<and> k \<noteq> 2 * x + y * ?L + 1" for k
  proof -
    have "\<not> grid_at info pixels k" using n g by blast
    moreover have "0 < k \<Longrightarrow> \<not> grid_at info pixels (k - 1)" using n g [of "k - 1"] by fastforce
    ultimately show ?thesis using k by (auto simp: m(3) painted_def)
  qed
  show "\<exists>mem. lcd_test_main True True True info (Some screen) = Inr (0, mem) \<and> length mem = length mapped
      \<and> (\<forall>x \<in> {30..<100}. \<forall>y \<in> {30..<100}. on_grid x y \<longrightarrow>
          mem ! (2 * x + y * ?L) = 0x07 \<and> mem ! (2 * x + y * ?L + 1) = 0xff)
      \<and> (\<forall>k < length mapped. (\<forall>x \<in> {30..<100}. \<forall>y \<in> {30..<100}. on_grid x y \<longrightarrow>
          k \<noteq> 2 * x + y * ?L \<and> k \<noteq> 2 * x + y * ?L + 1) \<longrightarrow> mem ! k = mapped ! k)"
    using m(1,2) grid other by (intro exI [of _ mem]) (simp add: lcd_test_main_def flip: assms(2))
next
  assume len: "length memory = smem_len (mylcd_info st)"
  have "length (take (whole_pages (screensize (mylcd_info st))) memory) = 262144"
    using len by (simp add: mylcd_info_def whole_pages_def screensize_def)
  moreover have "(30, 69) \<in> set pixels" "on_grid 30 69" by (simp_all add: set_pixels on_grid_def)
  moreover have "pixel_at (mylcd_info st) (30, 69) = 265020" by (simp add: pixel_at_def mylcd_info_def)
  ultimately have "draw_all (mylcd_info st) pixels (take (whole_pages (screensize (mylcd_info st))) memory) = Inl OutOfBounds"
    by (intro draw_all_leaves [of "(30, 69)"]) simp_all
  then show "lcd_test_main True True True (mylcd_info st) (Some memory) = Inl OutOfBounds"
    by (simp add: lcd_test_main_def)
qed

theorem lcd_test_paints_witness:
  "\<exists>mem. lcd_test_main True True True ((mylcd_info 0)\<lparr>line_length := 960\<rparr>) (Some (replicate 1044480 0)) = Inr (0, mem)
    \<and> mem ! (2 * 60 + 75 * 960) = 0x07"
proof -
  have l: "length (take (whole_pages (screensize ((mylcd_info 0)\<lparr>line_length := 960\<rparr>))) (replicate 1044480 (0 :: u8))) = 262144"
    by (simp add: mylcd_info_def whole_pages_def screensize_def)
  have "2 dvd line_length ((mylcd_info 0)\<lparr>line_length := 960\<rparr>)" by simp
  then have "\<exists>mem. lcd_test_main True True True ((mylcd_info 0)\<lparr>line_length := 960\<rparr>) (Some (replicate 1044480 0)) = Inr (0, mem)
      \<and> (\<forall>x \<in> {30..<100}. \<forall>y \<in> {30..<100}. on_grid x y \<longrightarrow> mem ! (2 * x + y * 960) = 0x07)"
    by (rule ex_forward [OF conjunct1 [OF lcd_test_paints [OF _ refl, of _ "replicate 1044480 0" "[]" 0]]])
      (unfold l, simp_all)
  then obtain mem where
    r: "lcd_test_main True True True ((mylcd_info 0)\<lparr>line_length := 960\<rparr>) (Some (replicate 1044480 0)) = Inr (0, mem)"
    and g: "\<forall>x \<in> {30..<100}. \<forall>y \<in> {30..<100}. on_grid x y \<longrightarrow> mem ! (2 * x + y * 960) = 0x07" by blast
  have "on_grid 60 75" "(60 :: nat) \<in> {30..<100}" "(75 :: nat) \<in> {30..<100}" by (simp_all add: on_grid_def)
  with g have "mem ! (2 * 60 + 75 * 960) = 0x07" by blast
  with r show ?thesis by blast
qed

end
