(* ===== verification/Spec2Isabelle.thy ===== *)
theory Spec2Isabelle
  imports NetifServer NetifDebug SockOpt NetifOp UsbSkel RamDisk RcuDemo Ds18b20 Am2305 TimeWrap InputDev
    VirNet I2cDrivers Lcd DmaDev MouseDrv HwControl Flash I2cDetect I2cSet I2cDump EepromPages Eepromer
    PySmbus CharModules I2cModules DriverModules Ehci NetifPrint TestPrograms
begin

text \<open>
  A verification library of the programs of linux_share.

  The repository is a collection of Linux programs and drivers: four user-space network
  programs (src/linux*/.../ with netif_event.c, netif_list.c, list_op.c, tools.c,
  socket_op.c, netif_op.c, ethtool_op.c), an example on wrap-around (main.c), an RCU demo
  module (rcu_demo.c), and the device drivers under the driver directory. They do not call
  one another, except within the network program on netlink events, whose server, table and
  list are stacked, and between the I2C driver and its test program, which talk through a
  device file, and between the sensors' drivers and theirs. Each is modelled by a theory of its own over the common prelude.

  \<^bold>\<open>Conventions.\<close> C integers are words of their width (\<open>u8\<close>, \<open>u16\<close>, \<open>u32\<close>) where they
  can wrap or are taken apart, numbers otherwise. Undefined behaviour is a value: the type
  \<open>fault\<close> of theory Prelude has an access to memory that is not allocated (the null pointer
  is address 0), an access past the end of an object, a second lock of a mutex, and signed
  arithmetic that leaves its range. An operation that can fault returns \<open>fault + result\<close>;
  \<open>rbind\<close> sequences. A loop that need not end is \<open>partial_function (option)\<close> or has its end proved. What is not under src/
  (the kernel and its calls, malloc, the shell, the hardware) is an argument, and what the
  code relies on is a named hypothesis of the theorem, with a concrete instance in the
  witness behind it.

  \<^bold>\<open>Shared theory.\<close>

  \<^item> Prelude: faults and their monads, reads and writes of byte buffers, little-endian
    fields, \<open>put\<close>, and the locale \<open>inv_system\<close>: a step system with an invariant, whose
    lemma \<open>reach_inv\<close> is used through an interpretation by UsbSkel, RcuDemo, InputDev,
    MouseDrv and PySmbus.

  \<^bold>\<open>The network programs.\<close>

  \<^item> ListOp (list_op.c, list_op.h): the doubly linked list over a heap of addresses; every
    operation, the predicate \<open>dll\<close> for a well-formed ring, and the refinement of lists. The
    locale \<open>list_ops\<close> is the contract the table relies on, interpreted on the operations.
  \<^item> NetifList (netif_list.c, netif_list.h): the table of interfaces under its mutex, and its
    refinement of a map from names to entries; the locale \<open>node_table\<close>, interpreted on it.
    NetifPrint has the printing of the table, with the macros of tools.h.
  \<^item> Netlink: the macros of the kernel's headers that the program uses and its attribute
    parser \<open>parse_rtattr\<close>, memory safe for any bytes, with a round trip against a builder.
  \<^item> NetifEvent (netif_event.c): the handlers of link, address and route messages and the
    loop over a buffer; safety for every buffer, and the effect of each message on the table.
  \<^item> NetifServer (netif_event.c): initialisation, the dump request and the receiving thread;
    the addresses that are served once the start order is right, with what is not excluded
    for other datagrams, and the race of the order in the code.
  \<^item> NetifDebug (netif_event.c): the printing handlers, with the label that does not fit.
  \<^item> Tools (tools.c, one copy in each program): log lines, thread creation, commands.
  \<^item> Posix: the system calls as a trace against any kernel, with \<open>only_intros\<close> and
    \<open>emits_intros\<close>, the rules that follow a program's calls through its syntax.
  \<^item> SockOpt (socket_op.c), Ethtool (ethtool_op.c), NetifOp (netif_op.c): each option or
    request as a program over the calls, the main programs as their sequence; which calls are
    made in which order, what happens to the descriptor when one fails.

  \<^bold>\<open>The kernel modules.\<close>

  \<^item> RcuDemo (rcu_demo.c): readers, two updaters and the callbacks as a step relation with
    grace periods; readers never see freed memory, no run blocks or goes on for ever, and
    the two windows in which loading and unloading crash.
  \<^item> UsbSkel (usb_skeleton.c): all operations of the driver, the reads as a stream, the
    semaphore of the writes, reference counts; a step relation of calls, completions and
    unplugging with its invariant.
  \<^item> RamDisk (blk_simp.c, blk_mid.c, blk_hard.c): transfers into the disk memory, the locale
    \<open>disk\<close> with reads after writes, loading and unloading.
  \<^item> Ds18b20, Am2305 (ds18b20.c, am2305.c): the wire as a list of actions with their times,
    or of readings; bytes sent and received, and the conversion of the temperature.
  \<^item> InputDev (my_ts.c, key_input.c): interrupts and timers in any order.
  \<^item> TimeWrap (main.c of the wrap-around example): the comparison against the true times.
  \<^item> VirNet (vir_net.c): the packet that is sent back, against the Internet checksum.
  \<^item> I2cDev (i2c-dev.h), I2cDrivers (i2c_driver.c, i2c_test.c, i2c_user-space.c, bh1750_drv.c,
    ov9650_drv.c): the SMBus functions over the ioctl, and two ways to the same chip.
  \<^item> Lcd (lcd.c), DmaDev (the_dma.c): the registers against what the data sheets make of
    them; the DMA copy goes between the physical addresses that the registers hold.
  \<^item> MouseDrv (usb_mid.c, usb_hard.c): transfers with their references, buffers with their
    sizes and input devices in a heap; a transfer lives until its completion.
  \<^item> HwControl (hw_control.c), Flash (nandflash.c, norflash.c): pins, registers, partitions.
  \<^item> KernelObjects: what a module takes from the kernel and gives back, and the locale
    \<open>kernel_module\<close>: a load that fails leaves nothing behind, an unload restores; its lemma
    \<open>reload_restores\<close> is about any sequence of loads and unloads.
  \<^item> CharModules (hw_control.c, am2305.c, ds18b20.c), I2cModules (i2c_driver.c, ov9650_drv.c,
    bh1750_drv.c and the three modules that announce a chip), DriverModules (lcd.c,
    nandflash.c, my_ts.c, key_input.c, vir_net.c, usb_simp.c): the init, exit, probe and
    remove functions over these objects. The modules that keep the contract interpret the
    locale (\<open>modules_give_back\<close> below); of the others the theories say what they leave behind.
  \<^item> Ehci (ehci-npcm7xx.c): the probe with its error paths, the registers, the removal.
  \<^item> TestPrograms (am2305_test.c, ds18b20_test.c, bh1750test.c, bh1750-usr.c, dma_test.c,
    lcd_test.c): the programs that come with the drivers. Two of them are followed from the
    wire of the sensor to the screen, through the models of the drivers; of the drawing
    program it is shown what it paints, and that the geometry of theory Lcd makes it leave
    its mapping.

  \<^bold>\<open>The programs of i2c-tools\<close> (directory i2c-tools-3.1.0 of the I2C driver).

  \<^item> I2cTool (util.c, i2cbusses.c): a running program with its standard input and output, the
    numbers of a command line, the opening of a bus; and the specification the programs are
    held against, a bus that records every transaction and answers like any set of chips.
  \<^item> I2cBusses (i2cbusses.c): the list of the busses and the lookup of one.
  \<^item> I2cDetect, I2cGet, I2cSet, I2cDump (i2cdetect.c, i2cget.c, i2cset.c, i2cdump.c): each
    program from its options to its exit, with the arrays of a dump checked at every access.
    Their main theorems say, for every command line, every answer of the user and every
    behaviour of the chips, which transactions are made on the bus and what is printed; \<open>i2c_operands_typed\<close> below is about their operands.
  \<^item> Eeprog (24cXX.c, eeprog.c), EepromPages (eeprom.c), Eepromer (eepromer.c): three
    programmers for EEPROMs, against a model of the chip with its address pointer; round
    trips of what is written, and the one program whose reading cannot work.

  \<^bold>\<open>Bounds.\<close> The only bounds are those of the code: names of 16 bytes, blocks of 32, disks of
  their sectors, 200 KB of the DMA copy. Recursions that stand for loops count down what the
  loop has left; no fuel is used, and none of the theorems is about runs of a fixed length
  only. The loops of the humidity sensor that may wait for ever, and the programs that are
  never left, are values \<open>None\<close>, and the theorems say when they are.

  \<^bold>\<open>Not modelled.\<close> The main programs that only call the network library; registration of
  drivers and device files where nothing is done with the result; messages of drivers that
  only report progress, and sleeping. What the programs of i2c-tools write to the standard
  error output, and the order in which they do, is left out, as are closing and freeing
  before an exit. Of the Python binding, the parsing of arguments is a parameter, and the
  counting of references has no counterpart; of the kernel, the MTD, frame buffer and USB
  layers behind a registration. module_compile and gnu_cstyle.c are a greeting and a sample
  of formatting. Real time is modelled only where the code depends on it: the pulses on
  the wires and the two timers.
\<close>

section \<open>The operands of the I2C programs\<close>

text \<open>
  C31. Whatever the command line holds, the operands that i2cget, i2cset and i2cdump work on are
  well formed: the address of the chip is from 0x03 to 0x77, registers and their ranges fit
  in a byte, the values to write fit the kind of the write, and a block has at most 32 bytes
  and no mask. Reading the values of a block never leaves its array. Of the bank of a dump,
  only what the program checks holds, which is not what its manual page says, 0 to 7: in
  mode b every number up to 15 is accepted and no larger one, in mode c any number is, of
  which the switch then writes the low byte, joined with the upper half of the old bank; no
  bank goes with I2C blocks.
\<close>

theorem i2c_operands_typed:
  "(case get_operands args of None \<Rightarrow> True
    | Some (a, w) \<Rightarrow> 0x03 \<le> a \<and> a \<le> 0x77 \<and> -1 \<le> daddress w \<and> daddress w \<le> 0xff
        \<and> get_size w \<in> {I2C_SMBUS_BYTE, I2C_SMBUS_BYTE_DATA, I2C_SMBUS_WORD_DATA}
        \<and> (0 \<le> daddress w \<or> get_size w = I2C_SMBUS_BYTE))
   \<and> (case set_operands mk args of Inl e \<Rightarrow> False | Inr None \<Rightarrow> True
      | Inr (Some w) \<Rightarrow> what_ok w \<and> \<not> (block_size (set_size w) \<and> set_mask w \<noteq> 0))
   \<and> (case dump_operands rg args of None \<Rightarrow> True
      | Some w \<Rightarrow> 0x03 \<le> dump_address w \<and> dump_address w \<le> 0x77 \<and> 0 \<le> first_reg w
          \<and> first_reg w \<le> last_reg w \<and> last_reg w \<le> 0xff \<and> bank_checked w)
   \<and> map_option bank (dump_operands None [bus, chars ''0x20'', chars ''b'', decimal (unat (n :: u16))])
       = (if unat n \<le> 15 then Some (int (unat n)) else None)
   \<and> map_option bank (dump_operands None [bus, chars ''0x20'', chars ''c'', decimal (unat n)]) = Some (int (unat n))"
proof (intro conjI)
  show "case get_operands args of None \<Rightarrow> True
    | Some (a, w) \<Rightarrow> 0x03 \<le> a \<and> a \<le> 0x77 \<and> -1 \<le> daddress w \<and> daddress w \<le> 0xff
        \<and> get_size w \<in> {I2C_SMBUS_BYTE, I2C_SMBUS_BYTE_DATA, I2C_SMBUS_WORD_DATA}
        \<and> (0 \<le> daddress w \<or> get_size w = I2C_SMBUS_BYTE)"
    using get_operands_range [of args] get_operands_size [of args] by (auto split: option.split)
  show "case set_operands mk args of Inl e \<Rightarrow> False | Inr None \<Rightarrow> True
      | Inr (Some w) \<Rightarrow> what_ok w \<and> \<not> (block_size (set_size w) \<and> set_mask w \<noteq> 0)"
    using set_operands_ok [of mk args] set_operands_block [of mk args] by (auto split: option.split)
  show "case dump_operands rg args of None \<Rightarrow> True
      | Some w \<Rightarrow> 0x03 \<le> dump_address w \<and> dump_address w \<le> 0x77 \<and> 0 \<le> first_reg w
          \<and> first_reg w \<le> last_reg w \<and> last_reg w \<le> 0xff \<and> bank_checked w"
    using dump_operands_range [of rg args] dump_operands_bank [of rg args] by (auto split: option.split)
  have n: "unat n \<le> 2147483647"
    using unsigned_less [of n, where 'a = nat] by simp
  show "map_option bank (dump_operands None [bus, chars ''0x20'', chars ''b'', decimal (unat n)])
       = (if unat n \<le> 15 then Some (int (unat n)) else None)"
    "map_option bank (dump_operands None [bus, chars ''0x20'', chars ''c'', decimal (unat n)]) = Some (int (unat n))"
    by (rule dump_operands_banks [OF n])+
qed

section \<open>Loading and unloading the modules\<close>

text \<open>
  C15. Eight modules give back everything they take: loaded and unloaded under any sequence of
  kernels, in which any registration may fail, a sensor or chip may be missing and a probe
  may be refused, none of them faults, and the kernel ends with the objects it had. What
  is asked of the kernels is that the class of a device can be made, whose failure the
  modules do not notice, and that a new number has no node yet.
\<close>

theorem modules_give_back:
  assumes "\<forall>bk \<in> set ks. takes_devices s (snd bk)"
  shows "reload hw_control_load hw_control_exit (map snd ks) s = Inr s
    \<and> reload am2305_load am2305_exit (map snd ks) s = Inr s
    \<and> reload ds18b20_load ds18b20_exit ks s = Inr s
    \<and> reload my_i2cdrv_init my_i2cdrv_exit ks s = Inr s
    \<and> reload (ov9650_drv_init c d) ov9650_drv_exit ks s = Inr s
    \<and> reload simp_usb_init simp_usb_exit (map snd ks) s = Inr s
    \<and> reload ehci_load (\<lambda>g h. Inr (ehci_npcm7xx_cleanup h)) es s = Inr s
    \<and> reload (ehci_bind st) ehci_unbind es s = Inr s"
proof -
  have f: "\<forall>k \<in> set (map snd ks). node_free nm cl k s" "\<forall>bk \<in> set ks. node_free nm cl (snd bk) s" for nm cl
    using assms takes_devices_node by auto
  then have b: "\<forall>bk \<in> set ks. bus_fine bk s" by (simp add: bus_fine_def)
  show ?thesis
    by (intro conjI hw_module.reload_restores am_module.reload_restores ds_module.reload_restores
      i2c_module.reload_restores ov_module.reload_restores simp_module.reload_restores
      ehci_module.reload_restores ehci_device.reload_restores f b) simp_all
qed

theorem modules_give_back_witness:
  "reload ds18b20_load ds18b20_exit [(True, generous), (False, generous)] [Hcd] = Inr [Hcd]
    \<and> reload my_i2cdrv_init my_i2cdrv_exit [(True, generous), (False, generous)] [Hcd] = Inr [Hcd]"
  using modules_give_back [of "[(True, generous), (False, generous)]" "[Hcd]" silent_client 0 "[good_board]" after_boot]
  by (simp add: takes_devices_def generous_def)

end
